(* ===== verification/Rust_Prelude.thy ===== *)
theory Rust_Prelude
  imports Main "HOL-Library.Word" "HOL-Library.Sublist" "HOL-Library.Char_ord"
    "HOL-Library.List_Lexorder" "HOL-Library.Multiset"
begin

text \<open>
  The part of the Rust language and of its standard library that the crates of the workspace
  use, shared by every component.

  \<^item> A Rust \<open>String\<close> or \<open>&str\<close> is the list of its UTF-8 bytes, an Isabelle \<^typ>\<open>string\<close>
    (\<^typ>\<open>char\<close> is one byte). So \<open>len()\<close> is \<^const>\<open>length\<close>, slices are \<^const>\<open>take\<close> and
    \<^const>\<open>drop\<close>, and every offset of the source is an offset of the model.
  \<^item> A Rust \<open>char\<close> is the list of the bytes of its encoding; \<open>chars\<close> cuts a string
    into them. A loop over the characters that only compares with ASCII characters may be
    written over the bytes: no byte of a longer encoding is below 128
    (lemma \<open>list_all_chars_ascii\<close>).
  \<^item> \<open>Result<T, E>\<close> is the sum \<open>'e + 'a\<close>, the error on the left; \<open>?\<close> is \<open>and_then\<close>.
  \<^item> \<open>u8\<close>, \<open>u32\<close>, \<open>u64\<close> values that reach a bound are machine words; \<open>usize\<close> lengths and
    offsets are \<^typ>\<open>nat\<close>.
\<close>

named_theorems rust_simps \<open>unfolding rules for the string operations of the model\<close>
named_theorems result_iff \<open>when a fallible operation returns a value\<close>

section \<open>Results\<close>

type_synonym u8 = "8 word"
type_synonym u32 = "32 word"
type_synonym u64 = "64 word"

abbreviation Ok :: "'a \<Rightarrow> 'e + 'a" where "Ok \<equiv> Inr"
abbreviation Err :: "'e \<Rightarrow> 'e + 'a" where "Err \<equiv> Inl"

definition and_then :: "'e + 'a \<Rightarrow> ('a \<Rightarrow> 'e + 'b) \<Rightarrow> 'e + 'b" where
  "and_then r f = (case r of Inl e \<Rightarrow> Inl e | Inr a \<Rightarrow> f a)"

definition map_err :: "('e \<Rightarrow> 'f) \<Rightarrow> 'e + 'a \<Rightarrow> 'f + 'a" where
  "map_err g r = (case r of Inl e \<Rightarrow> Inl (g e) | Inr a \<Rightarrow> Inr a)"

definition ok_or :: "'e \<Rightarrow> 'a option \<Rightarrow> 'e + 'a" where
  "ok_or e x = (case x of None \<Rightarrow> Inl e | Some a \<Rightarrow> Inr a)"

text \<open>A validation loop \<open>for x in xs { check(x)?; }\<close>: the first error ends it.\<close>

fun try_each :: "('a \<Rightarrow> 'e + unit) \<Rightarrow> 'a list \<Rightarrow> 'e + unit" where
  "try_each f [] = Ok ()"
| "try_each f (x # xs) = and_then (f x) (\<lambda>_. try_each f xs)"

text \<open>A collecting loop \<open>for x in xs { out.push(f(x)?); }\<close>.\<close>

fun try_map :: "('a \<Rightarrow> 'e + 'b) \<Rightarrow> 'a list \<Rightarrow> 'e + 'b list" where
  "try_map f [] = Ok []"
| "try_map f (x # xs) = and_then (f x) (\<lambda>y. and_then (try_map f xs) (\<lambda>ys. Ok (y # ys)))"

lemma and_then_simps [simp]:
  "and_then (Inl e) f = Inl e" "and_then (Inr a) f = f a"
  by (simp_all add: and_then_def)

lemma and_then_Ok [simp]: "and_then r Ok = r"
  by (cases r) simp_all

lemma and_then_assoc: "and_then (and_then r f) g = and_then r (\<lambda>a. and_then (f a) g)"
  by (cases r) simp_all

lemma map_err_simps [simp]:
  "map_err g (Inl e) = Inl (g e)" "map_err g (Inr a) = Inr a"
  by (simp_all add: map_err_def)

lemma ok_or_simps [simp]:
  "ok_or e None = Inl e" "ok_or e (Some a) = Inr a"
  by (simp_all add: ok_or_def)

lemma and_then_Inr [result_iff]:
  "and_then r f = Inr b \<longleftrightarrow> (\<exists>a. r = Inr a \<and> f a = Inr b)"
  by (cases r) auto

lemma map_err_Inr [result_iff]: "map_err g r = Inr a \<longleftrightarrow> r = Inr a"
  by (cases r) auto

lemma ok_or_Inr [result_iff]: "ok_or e x = Inr a \<longleftrightarrow> x = Some a"
  by (cases x) auto

lemma try_each_Inr [result_iff]:
  "try_each f xs = Inr u \<longleftrightarrow> (\<forall>x \<in> set xs. f x = Inr ())"
  by (induction xs) (auto simp: and_then_Inr)

lemma try_map_Inr:
  "try_map f xs = Inr ys \<longleftrightarrow>
     length ys = length xs \<and> (\<forall>i < length xs. f (xs ! i) = Inr (ys ! i))"
proof (induction xs arbitrary: ys)
  case Nil
  then show ?case by auto
next
  case (Cons x xs)
  show ?case
  proof (cases ys)
    case Nil
    then show ?thesis by (auto simp: and_then_Inr)
  next
    case (Cons z zs)
    then show ?thesis
      by (auto simp: and_then_Inr Cons.IH nth_Cons less_Suc_eq_0_disj split: nat.splits)
  qed
qed

section \<open>Bytes\<close>

abbreviation byte :: "char \<Rightarrow> nat" where "byte b \<equiv> of_char b"

abbreviation quote :: char where "quote \<equiv> CHR 0x22"
abbreviation comma :: char where "comma \<equiv> CHR 0x2C"
abbreviation lf :: char where "lf \<equiv> CHR 0x0A"
abbreviation cr :: char where "cr \<equiv> CHR 0x0D"

definition is_ascii_digit :: "char \<Rightarrow> bool" where
  "is_ascii_digit b \<longleftrightarrow> 48 \<le> byte b \<and> byte b \<le> 57"

definition is_ascii_lowercase :: "char \<Rightarrow> bool" where
  "is_ascii_lowercase b \<longleftrightarrow> 97 \<le> byte b \<and> byte b \<le> 122"

definition is_ascii_uppercase :: "char \<Rightarrow> bool" where
  "is_ascii_uppercase b \<longleftrightarrow> 65 \<le> byte b \<and> byte b \<le> 90"

definition is_ascii_alphanumeric :: "char \<Rightarrow> bool" where
  "is_ascii_alphanumeric b \<longleftrightarrow>
     is_ascii_digit b \<or> is_ascii_lowercase b \<or> is_ascii_uppercase b"

definition to_ascii_lower :: "char \<Rightarrow> char" where
  "to_ascii_lower b = (if is_ascii_uppercase b then char_of (byte b + 32) else b)"

definition to_ascii_lowercase :: "string \<Rightarrow> string" where
  "to_ascii_lowercase s = map to_ascii_lower s"

definition eq_ignore_ascii_case :: "string \<Rightarrow> string \<Rightarrow> bool" where
  "eq_ignore_ascii_case a b \<longleftrightarrow> to_ascii_lowercase a = to_ascii_lowercase b"

lemma ascii_alphanumeric_lt_128: "is_ascii_alphanumeric b \<Longrightarrow> byte b < 128"
  by (auto simp: is_ascii_alphanumeric_def is_ascii_digit_def is_ascii_lowercase_def
      is_ascii_uppercase_def)

section \<open>Characters\<close>

text \<open>The leading byte of an encoding gives its length; the following bytes are 128..191.\<close>

definition is_continuation :: "char \<Rightarrow> bool" where
  "is_continuation b \<longleftrightarrow> 128 \<le> byte b \<and> byte b < 192"

definition char_width :: "char \<Rightarrow> nat" where
  "char_width b =
     (if byte b < 192 then 1 else if byte b < 224 then 2 else if byte b < 240 then 3 else 4)"

fun chars :: "string \<Rightarrow> string list" where
  "chars [] = []"
| "chars (b # bs) =
     (b # take (char_width b - 1) bs) # chars (drop (char_width b - 1) bs)"

text \<open>
  \<open>valid_str s\<close>: every character of \<open>s\<close> is a leading byte with as many continuation bytes
  as it announces. Every Rust string has this shape.
\<close>

definition valid_char :: "string \<Rightarrow> bool" where
  "valid_char c \<longleftrightarrow> (case c of [] \<Rightarrow> False
     | b # bs \<Rightarrow> \<not> is_continuation b \<and> length bs = char_width b - 1 \<and>
                 list_all is_continuation bs)"

definition valid_str :: "string \<Rightarrow> bool" where
  "valid_str s \<longleftrightarrow> list_all valid_char (chars s)"

text \<open>\<open>std::str::from_utf8\<close>: the well-formed byte sequences of the Unicode standard.\<close>

fun utf8_char :: "string \<Rightarrow> bool" where
  "utf8_char [a] \<longleftrightarrow> byte a < 128"
| "utf8_char [a, b] \<longleftrightarrow> 0xC2 \<le> byte a \<and> byte a \<le> 0xDF \<and> is_continuation b"
| "utf8_char [a, b, c] \<longleftrightarrow> 0xE0 \<le> byte a \<and> byte a \<le> 0xEF \<and> is_continuation b \<and> is_continuation c \<and>
     (byte a = 0xE0 \<longrightarrow> 0xA0 \<le> byte b) \<and> (byte a = 0xED \<longrightarrow> byte b \<le> 0x9F)"
| "utf8_char [a, b, c, d] \<longleftrightarrow> 0xF0 \<le> byte a \<and> byte a \<le> 0xF4 \<and> is_continuation b \<and>
     is_continuation c \<and> is_continuation d \<and>
     (byte a = 0xF0 \<longrightarrow> 0x90 \<le> byte b) \<and> (byte a = 0xF4 \<longrightarrow> byte b \<le> 0x8F)"
| "utf8_char _ \<longleftrightarrow> False"

definition from_utf8 :: "string \<Rightarrow> string option" where
  "from_utf8 s = (if list_all utf8_char (chars s) then Some s else None)"

text \<open>\<open>str::is_char_boundary\<close>.\<close>

definition is_char_boundary :: "string \<Rightarrow> nat \<Rightarrow> bool" where
  "is_char_boundary s i \<longleftrightarrow>
     i = 0 \<or> i = length s \<or> (i < length s \<and> \<not> is_continuation (s ! i))"

text \<open>\<open>char::is_whitespace\<close>: the characters with the Unicode property White\_Space.\<close>

definition whitespace_chars :: "string list" where
  "whitespace_chars =
     [[CHR 0x09], [CHR 0x0A], [CHR 0x0B], [CHR 0x0C], [CHR 0x0D], [CHR 0x20],
      [CHR 0xC2, CHR 0x85], [CHR 0xC2, CHR 0xA0],
      [CHR 0xE1, CHR 0x9A, CHR 0x80],
      [CHR 0xE2, CHR 0x80, CHR 0x80], [CHR 0xE2, CHR 0x80, CHR 0x81],
      [CHR 0xE2, CHR 0x80, CHR 0x82], [CHR 0xE2, CHR 0x80, CHR 0x83],
      [CHR 0xE2, CHR 0x80, CHR 0x84], [CHR 0xE2, CHR 0x80, CHR 0x85],
      [CHR 0xE2, CHR 0x80, CHR 0x86], [CHR 0xE2, CHR 0x80, CHR 0x87],
      [CHR 0xE2, CHR 0x80, CHR 0x88], [CHR 0xE2, CHR 0x80, CHR 0x89],
      [CHR 0xE2, CHR 0x80, CHR 0x8A], [CHR 0xE2, CHR 0x80, CHR 0xA8],
      [CHR 0xE2, CHR 0x80, CHR 0xA9], [CHR 0xE2, CHR 0x80, CHR 0xAF],
      [CHR 0xE2, CHR 0x81, CHR 0x9F], [CHR 0xE3, CHR 0x80, CHR 0x80]]"

definition is_whitespace :: "string \<Rightarrow> bool" where
  "is_whitespace c \<longleftrightarrow> c \<in> set whitespace_chars"

text \<open>\<open>char::is_control\<close>: U+0000..U+001F and U+007F..U+009F.\<close>

definition is_control :: "string \<Rightarrow> bool" where
  "is_control c \<longleftrightarrow> (case c of
       [b] \<Rightarrow> byte b < 32 \<or> byte b = 127
     | [b, d] \<Rightarrow> byte b = 0xC2 \<and> 0x80 \<le> byte d \<and> byte d \<le> 0x9F
     | _ \<Rightarrow> False)"

definition trim_start :: "string \<Rightarrow> string" where
  "trim_start s = concat (dropWhile is_whitespace (chars s))"

definition trim_end :: "string \<Rightarrow> string" where
  "trim_end s = concat (rev (dropWhile is_whitespace (rev (chars s))))"

definition trim :: "string \<Rightarrow> string" where
  "trim s = concat (rev (dropWhile is_whitespace (rev (dropWhile is_whitespace (chars s)))))"

text \<open>\<open>s.trim().is_empty()\<close>.\<close>

definition is_blank :: "string \<Rightarrow> bool" where
  "is_blank s \<longleftrightarrow> trim s = []"

lemma concat_chars [simp]: "concat (chars s) = s"
  by (induction s rule: chars.induct) auto

lemma chars_nonempty: "c \<in> set (chars s) \<Longrightarrow> c \<noteq> []"
  by (induction s rule: chars.induct) auto

lemma trim_factor: "\<exists>a b. s = a @ trim s @ b"
proof -
  let ?d = "dropWhile is_whitespace (chars s)"
  obtain a where a: "chars s = a @ ?d" by (metis takeWhile_dropWhile_id)
  obtain b where b: "?d = rev (dropWhile is_whitespace (rev ?d)) @ b"
    by (metis rev_append rev_rev_ident takeWhile_dropWhile_id)
  have "s = concat a @ concat ?d" using a concat_chars [of s] by (metis concat_append)
  moreover have "concat ?d = trim s @ concat b" using b unfolding trim_def by (metis concat_append)
  ultimately show ?thesis by metis
qed

lemma concat_eq_Nil_nonempty: "\<forall>c \<in> set cs. c \<noteq> [] \<Longrightarrow> concat cs = [] \<longleftrightarrow> cs = []"
  by (cases cs) auto

lemma is_blank_iff: "is_blank s \<longleftrightarrow> (\<forall>c \<in> set (chars s). is_whitespace c)"
proof -
  let ?d = "dropWhile is_whitespace (chars s)"
  let ?e = "rev (dropWhile is_whitespace (rev ?d))"
  have "set ?e \<subseteq> set (chars s)"
    by (auto dest!: set_dropWhileD)
  then have "is_blank s \<longleftrightarrow> ?e = []"
    unfolding is_blank_def trim_def
    by (intro concat_eq_Nil_nonempty) (auto dest: chars_nonempty)
  also have "\<dots> \<longleftrightarrow> (\<forall>c \<in> set ?d. is_whitespace c)"
    by (simp only: rev_is_Nil_conv dropWhile_eq_Nil_conv set_rev)
  also have "\<dots> \<longleftrightarrow> ?d = []"
    using hd_dropWhile [of is_whitespace "chars s"] hd_in_set [of ?d] by (metis empty_iff empty_set)
  also have "\<dots> \<longleftrightarrow> (\<forall>c \<in> set (chars s). is_whitespace c)"
    by (simp only: dropWhile_eq_Nil_conv)
  finally show ?thesis .
qed

text \<open>Cutting a text between two characters keeps its characters, so \<open>trim\<close> removes characters at the ends.\<close>

lemma chars_drop: "chars (concat (drop n (chars s))) = drop n (chars s)"
proof (induction s arbitrary: n rule: chars.induct)
  case (2 b bs)
  then show ?case by (cases n) simp_all
qed simp

lemma chars_take: "chars (concat (take n (chars s))) = take n (chars s)"
proof (induction s arbitrary: n rule: chars.induct)
  case (2 b bs)
  let ?k = "char_width b - 1"
  show ?case
  proof (cases n)
    case (Suc m)
    have "length bs < ?k \<Longrightarrow> drop ?k bs = []" by simp
    with Suc "2.IH" [of m] show ?thesis by (cases "length bs < ?k") simp_all
  qed simp
qed simp

lemma chars_trim: "chars (trim s) = rev (dropWhile is_whitespace (rev (dropWhile is_whitespace (chars s))))"
proof -
  let ?d = "dropWhile is_whitespace (chars s)"
  have d: "chars (concat ?d) = ?d" unfolding dropWhile_eq_drop by (rule chars_drop)
  have "rev (dropWhile P (rev xs)) = take (length xs - length (takeWhile P (rev xs))) xs" for P and xs :: "string list"
    by (simp only: dropWhile_eq_drop rev_drop length_rev rev_rev_ident)
  with chars_take [of _ "concat ?d"] show ?thesis unfolding d trim_def by simp
qed

lemma trim_idem: "trim (trim s) = trim s"
proof -
  have "dropWhile P (dropWhile P xs) = dropWhile P xs" for P and xs :: "string list" by (induction xs) auto
  moreover have "dropWhile P (rev (dropWhile P (rev (dropWhile P xs)))) = rev (dropWhile P (rev (dropWhile P xs)))"
    for P and xs :: "string list"
  proof (cases "dropWhile P xs")
    case (Cons y ys)
    then have "\<not> P y" by (metis hd_dropWhile list.distinct(1) list.sel(1))
    then have "dropWhile P (rev ys @ [y]) = dropWhile P (rev ys) @ [y]" by (induction "rev ys") (auto simp: dropWhile_append1 dropWhile_append)
    with Cons \<open>\<not> P y\<close> show ?thesis by simp
  next
    case Nil
    show ?thesis unfolding Nil by simp
  qed
  ultimately have "rev (dropWhile is_whitespace (rev (dropWhile is_whitespace (chars (trim s))))) = chars (trim s)"
    unfolding chars_trim by simp
  then show ?thesis by (metis concat_chars trim_def)
qed

lemma trim_parts:
  obtains a b where "s = a @ trim s @ b" "set a \<subseteq> \<Union> (set ` set whitespace_chars)" "set b \<subseteq> \<Union> (set ` set whitespace_chars)"
proof -
  let ?d = "dropWhile is_whitespace (chars s)"
  let ?a = "takeWhile is_whitespace (chars s)" and ?b = "rev (takeWhile is_whitespace (rev ?d))"
  have "?d = rev (dropWhile is_whitespace (rev ?d)) @ ?b"
    by (metis rev_append rev_rev_ident takeWhile_dropWhile_id)
  then have "concat ?d = trim s @ concat ?b" unfolding trim_def by (metis concat_append)
  moreover have "s = concat ?a @ concat ?d" by (metis concat_append concat_chars takeWhile_dropWhile_id)
  ultimately have "s = concat ?a @ trim s @ concat ?b" by simp
  moreover have "set (concat ?a) \<subseteq> \<Union> (set ` set whitespace_chars)" "set (concat ?b) \<subseteq> \<Union> (set ` set whitespace_chars)"
    by (auto simp: is_whitespace_def dest!: set_takeWhileD)
  ultimately show thesis by (rule that)
qed

lemma chars_ascii_Cons: "byte b < 128 \<Longrightarrow> chars (b # bs) = [b] # chars bs"
  by (simp add: char_width_def)

lemma list_all_chars_ascii:
  assumes "\<And>b. P b \<Longrightarrow> byte b < 128"
  shows "list_all (\<lambda>c. case c of [b] \<Rightarrow> P b | _ \<Rightarrow> False) (chars s) \<longleftrightarrow> list_all P s"
proof (induction s rule: chars.induct)
  case 1
  then show ?case by simp
next
  case (2 b bs)
  show ?case
  proof (cases "P b")
    case True
    then have "byte b < 128" by (rule assms)
    then have "char_width b - 1 = 0" by (simp add: char_width_def)
    with 2 True show ?thesis by simp
  next
    case False
    then show ?thesis by (simp split: list.splits)
  qed
qed

text \<open>Strings of valid characters and their boundaries.\<close>

lemma chars_append_valid: "valid_char c \<Longrightarrow> chars (c @ s) = c # chars s"
  by (cases c) (auto simp: valid_char_def)

lemma chars_concat_valid: "\<forall>c \<in> set cs. valid_char c \<Longrightarrow> chars (concat cs) = cs"
  by (induction cs) (auto simp: chars_append_valid)

lemma valid_str_concat: "\<forall>c \<in> set cs. valid_char c \<Longrightarrow> valid_str (concat cs)"
  by (simp add: valid_str_def chars_concat_valid list_all_iff)

lemma valid_strE:
  assumes "valid_str s"
  obtains cs where "s = concat cs" "chars s = cs" "\<forall>c \<in> set cs. valid_char c"
  using assms that [of "chars s"] by (simp add: valid_str_def list_all_iff)

lemma valid_char_length: "valid_char c \<Longrightarrow> 0 < length c \<and> length c \<le> 4"
  by (auto simp: valid_char_def char_width_def split: list.splits)

lemma valid_char_inside: "valid_char c \<Longrightarrow> 0 < k \<Longrightarrow> k < length c \<Longrightarrow> is_continuation (c ! k)"
  by (cases c) (auto simp: valid_char_def nth_Cons' list_all_length)

lemma is_char_boundary_append:
  "length c \<le> k \<Longrightarrow> is_char_boundary (c @ s) k \<Longrightarrow> is_char_boundary s (k - length c)"
  by (auto simp: is_char_boundary_def nth_append)

lemma boundary_split:
  assumes "\<forall>c \<in> set cs. valid_char c" "k \<le> length (concat cs)" "is_char_boundary (concat cs) k"
  shows "\<exists>as bs. cs = as @ bs \<and> k = length (concat as)"
  using assms
proof (induction cs arbitrary: k)
  case Nil
  then show ?case by simp
next
  case (Cons c cs)
  consider "k = 0" | "0 < k" "k < length c" | "length c \<le> k" by linarith
  then show ?case
  proof cases
    case 1
    then show ?thesis by (intro exI [of _ "[]"] exI [of _ "c # cs"]) simp
  next
    case 2
    with Cons.prems have "is_continuation (concat (c # cs) ! k)"
      using valid_char_inside [of c k] by (simp add: nth_append)
    with 2 Cons.prems(3) show ?thesis by (auto simp: is_char_boundary_def)
  next
    case 3
    with Cons.prems have "is_char_boundary (concat cs) (k - length c)"
      by (auto intro: is_char_boundary_append)
    with Cons.IH [of "k - length c"] Cons.prems 3 obtain as bs where
      "cs = as @ bs" "k - length c = length (concat as)" by fastforce
    with 3 show ?thesis by (intro exI [of _ "c # as"] exI [of _ bs]) simp
  qed
qed

lemma next_boundary:
  assumes "valid_str s" "i < length s"
  shows "\<exists>j. i < j \<and> j \<le> i + 4 \<and> j \<le> length s \<and> is_char_boundary s j"
proof -
  obtain cs where s: "s = concat cs" "\<forall>c \<in> set cs. valid_char c" using assms(1) by (elim valid_strE)
  have "\<exists>j. i < j \<and> j \<le> i + 4 \<and> j \<le> length (concat cs) \<and>
      (j = length (concat cs) \<or> \<not> is_continuation (concat cs ! j))"
    using s(2) assms(2) unfolding s(1)
  proof (induction cs arbitrary: i)
    case Nil
    then show ?case by simp
  next
    case (Cons c cs)
    then have c: "0 < length c" "length c \<le> 4" using valid_char_length [of c] by auto
    show ?case
    proof (cases "i < length c")
      case True
      have "length c = length (concat (c # cs)) \<or> \<not> is_continuation (concat (c # cs) ! length c)"
      proof (cases cs)
        case (Cons d ds)
        with Cons.prems(1) obtain b bs where "d = b # bs" "\<not> is_continuation b"
          by (cases d) (auto simp: valid_char_def)
        with Cons show ?thesis by (simp add: nth_append)
      qed simp
      with True c show ?thesis by (intro exI [of _ "length c"]) auto
    next
      case False
      with Cons.prems have "i - length c < length (concat cs)" by simp
      with Cons obtain j where j: "i - length c < j" "j \<le> i - length c + 4" "j \<le> length (concat cs)"
        "j = length (concat cs) \<or> \<not> is_continuation (concat cs ! j)" by force
      with False show ?thesis by (intro exI [of _ "length c + j"]) (auto simp: nth_append)
    qed
  qed
  with s(1) show ?thesis by (auto simp: is_char_boundary_def)
qed

section \<open>Searching\<close>

abbreviation starts_with :: "string \<Rightarrow> string \<Rightarrow> bool" where
  "starts_with s p \<equiv> prefix p s"

abbreviation ends_with :: "string \<Rightarrow> string \<Rightarrow> bool" where
  "ends_with s p \<equiv> suffix p s"

lemma prefix_dropI: "prefix p s \<Longrightarrow> prefix (drop n p) (drop n s)"
  by (auto simp: prefix_def)

lemma prefix_append_shorter: "prefix p (s @ t) \<Longrightarrow> length p \<le> length s \<Longrightarrow> prefix p s"
  by (rule prefix_length_prefix) auto

lemma prefix_append_longer: "prefix p (s @ t) \<Longrightarrow> length s \<le> length p \<Longrightarrow> prefix s p"
  by (rule prefix_length_prefix) auto

text \<open>\<open>str::find\<close>: the offset of the first occurrence of a pattern.\<close>

fun str_find :: "string \<Rightarrow> string \<Rightarrow> nat option" where
  "str_find p [] = (if p = [] then Some 0 else None)"
| "str_find p (b # bs) =
     (if prefix p (b # bs) then Some 0 else map_option Suc (str_find p bs))"

definition contains :: "string \<Rightarrow> string \<Rightarrow> bool" where
  "contains s p \<longleftrightarrow> str_find p s \<noteq> None"

definition split_once :: "string \<Rightarrow> string \<Rightarrow> (string \<times> string) option" where
  "split_once s p = (case str_find p s of None \<Rightarrow> None
     | Some i \<Rightarrow> Some (take i s, drop (i + length p) s))"

text \<open>\<open>rsplit_once(c)\<close> for an ASCII character \<open>c\<close>: cut at its last occurrence.\<close>

definition rsplit_once :: "string \<Rightarrow> char \<Rightarrow> (string \<times> string) option" where
  "rsplit_once s c =
     (if c \<in> set s
      then let r = takeWhile (\<lambda>b. b \<noteq> c) (rev s)
           in Some (take (length s - length r - 1) s, rev r)
      else None)"

text \<open>\<open>split(c)\<close> for an ASCII character \<open>c\<close>.\<close>

fun split_char :: "char \<Rightarrow> string \<Rightarrow> string list" where
  "split_char c [] = [[]]"
| "split_char c (b # bs) =
     (if b = c then [] # split_char c bs
      else (case split_char c bs of [] \<Rightarrow> [[b]] | w # ws \<Rightarrow> (b # w) # ws))"

text \<open>\<open>replace(c, r)\<close> for an ASCII character \<open>c\<close>.\<close>

definition replace_char :: "char \<Rightarrow> string \<Rightarrow> string \<Rightarrow> string" where
  "replace_char c r s = concat (map (\<lambda>b. if b = c then r else [b]) s)"

text \<open>\<open>strip_prefix\<close> of a byte order mark, \<open>unwrap_or\<close> the text itself.\<close>

definition BOM :: string where "BOM = [CHR 0xEF, CHR 0xBB, CHR 0xBF]"

definition strip_bom :: "string \<Rightarrow> string" where
  "strip_bom s = (if prefix BOM s then drop 3 s else s)"

lemma str_find_SomeD:
  "str_find p s = Some i \<Longrightarrow>
     i \<le> length s \<and> prefix p (drop i s) \<and> (\<forall>j < i. \<not> prefix p (drop j s))"
proof (induction s arbitrary: i)
  case Nil
  then show ?case by (auto split: if_splits)
next
  case (Cons b bs)
  show ?case
  proof (cases "prefix p (b # bs)")
    case True
    with Cons.prems show ?thesis by simp
  next
    case False
    with Cons.prems obtain k where k: "str_find p bs = Some k" "i = Suc k" by auto
    with Cons.IH have IH: "k \<le> length bs" "prefix p (drop k bs)" "\<forall>j < k. \<not> prefix p (drop j bs)"
      by auto
    have "\<not> prefix p (drop j (b # bs))" if "j < i" for j
      using that False IH(3) k(2) by (cases j) auto
    with IH k show ?thesis by simp
  qed
qed

lemma str_find_NoneD: "str_find p s = None \<Longrightarrow> \<not> prefix p (drop j s)"
proof (induction s arbitrary: j)
  case Nil
  then show ?case by (auto split: if_splits)
next
  case (Cons b bs)
  then show ?case by (cases j) (auto split: if_splits)
qed

lemma str_find_None_iff: "str_find p s = None \<longleftrightarrow> (\<forall>j \<le> length s. \<not> prefix p (drop j s))"
  using str_find_NoneD str_find_SomeD by (cases "str_find p s") blast+

lemma str_find_eq_SomeI:
  assumes "prefix p (drop i s)" "\<And>j. j < i \<Longrightarrow> \<not> prefix p (drop j s)" "i \<le> length s"
  shows "str_find p s = Some i"
proof (cases "str_find p s")
  case None
  with assms(1) show ?thesis by (auto dest: str_find_NoneD)
next
  case (Some k)
  with assms str_find_SomeD [OF Some] have "\<not> k < i" "\<not> i < k" by auto
  with Some show ?thesis by simp
qed

lemma contains_iff: "contains s p \<longleftrightarrow> (\<exists>a b. s = a @ p @ b)"
proof
  assume "contains s p"
  then obtain i where "str_find p s = Some i" by (auto simp: contains_def)
  then have "prefix p (drop i s)" by (auto dest: str_find_SomeD)
  then obtain b where "drop i s = p @ b" by (auto simp: prefix_def)
  then have "s = take i s @ p @ b" by (metis append_take_drop_id)
  then show "\<exists>a b. s = a @ p @ b" by blast
next
  assume "\<exists>a b. s = a @ p @ b"
  then obtain a b where s: "s = a @ p @ b" by blast
  then have "prefix p (drop (length a) s)" by simp
  then show "contains s p" using str_find_NoneD [of p s] by (auto simp: contains_def)
qed

lemma contains_append1: "contains s p \<Longrightarrow> contains (s @ t) p"
  by (metis append.assoc contains_iff)

lemma contains_append2: "contains t p \<Longrightarrow> contains (s @ t) p"
  by (metis append.assoc contains_iff)

lemma length_replace_char: "length s \<le> length (replace_char c (r # rs) s)"
  by (induction s) (auto simp: replace_char_def)

lemma split_char_nonempty: "split_char c s \<noteq> []"
  by (induction s) (auto split: list.splits)

section \<open>Decimal numbers\<close>

definition digit_char :: "nat \<Rightarrow> char" where
  "digit_char d = char_of (48 + d)"

definition digit_value :: "char \<Rightarrow> nat" where
  "digit_value b = byte b - 48"

text \<open>\<open>to_string()\<close> of an unsigned integer.\<close>

fun nat_to_string :: "nat \<Rightarrow> string" where
  "nat_to_string n =
     (if n < 10 then [digit_char n] else nat_to_string (n div 10) @ [digit_char (n mod 10)])"

declare nat_to_string.simps [simp del]

definition int_to_string :: "int \<Rightarrow> string" where
  "int_to_string i =
     (if i < 0 then CHR ''-'' # nat_to_string (nat (- i)) else nat_to_string (nat i))"

definition digits_value :: "string \<Rightarrow> nat" where
  "digits_value s = foldl (\<lambda>n b. 10 * n + digit_value b) 0 s"

text \<open>
  \<open>parse::<i32>\<close>: an optional sign, at least one digit, a value of the type. For an unsigned
  type only \<open>+\<close> is a sign.
\<close>

definition parse_digits :: "string \<Rightarrow> nat option" where
  "parse_digits s = (if s \<noteq> [] \<and> list_all is_ascii_digit s then Some (digits_value s) else None)"

definition parse_i32 :: "string \<Rightarrow> int option" where
  "parse_i32 s = (case s of
       [] \<Rightarrow> None
     | b # bs \<Rightarrow>
        (if b = CHR ''-'' then
           (case parse_digits bs of None \<Rightarrow> None
            | Some n \<Rightarrow> if n \<le> 2 ^ 31 then Some (- int n) else None)
         else
           (case parse_digits (if b = CHR ''+'' then bs else s) of None \<Rightarrow> None
            | Some n \<Rightarrow> if n < 2 ^ 31 then Some (int n) else None)))"

definition parse_u64 :: "string \<Rightarrow> nat option" where
  "parse_u64 s = (case s of
       [] \<Rightarrow> None
     | b # bs \<Rightarrow>
        (case parse_digits (if b = CHR ''+'' then bs else s) of None \<Rightarrow> None
         | Some n \<Rightarrow> if n < 2 ^ 64 then Some n else None))"

text \<open>For evaluation, the bound is compared in binary.\<close>

lemma parse_u64_code [code]:
  "parse_u64 s = (case s of
       [] \<Rightarrow> None
     | b # bs \<Rightarrow>
        (case parse_digits (if b = CHR ''+'' then bs else s) of None \<Rightarrow> None
         | Some n \<Rightarrow> if int n < 2 ^ 64 then Some n else None))"
  by (auto simp: parse_u64_def split: list.splits option.splits)

lemma digit_char_props:
  assumes "d < 10"
  shows "byte (digit_char d) = 48 + d" "is_ascii_digit (digit_char d)"
    "digit_value (digit_char d) = d"
  using assms by (simp_all add: digit_char_def is_ascii_digit_def digit_value_def)

lemma nat_to_string_digits: "list_all is_ascii_digit (nat_to_string n)"
proof (induction n rule: nat_to_string.induct)
  case (1 n)
  then show ?case
    by (subst nat_to_string.simps) (simp add: digit_char_props)
qed

lemma nat_to_string_nonempty [simp]: "nat_to_string n \<noteq> []"
  by (subst nat_to_string.simps) simp

lemma digits_value_nat_to_string [simp]: "digits_value (nat_to_string n) = n"
proof (induction n rule: nat_to_string.induct)
  case (1 n)
  then show ?case
    by (subst nat_to_string.simps) (auto simp: digit_char_props digits_value_def)
qed

lemma parse_digits_nat_to_string [simp]: "parse_digits (nat_to_string n) = Some n"
  by (simp add: parse_digits_def nat_to_string_digits)

lemma nat_to_string_inj: "nat_to_string m = nat_to_string n \<longleftrightarrow> m = n"
  by (metis digits_value_nat_to_string)

lemma hd_nat_to_string: "is_ascii_digit (hd (nat_to_string n))"
  using nat_to_string_digits [of n] by (cases "nat_to_string n") auto

lemma parse_i32_int_to_string:
  assumes "- (2 ^ 31) \<le> i" "i < 2 ^ 31"
  shows "parse_i32 (int_to_string i) = Some i"
proof (cases "i < 0")
  case True
  with assms show ?thesis
    by (simp add: parse_i32_def int_to_string_def nat_le_iff)
next
  case False
  obtain b bs where s: "nat_to_string (nat i) = b # bs"
    by (cases "nat_to_string (nat i)") auto
  have "is_ascii_digit b" using hd_nat_to_string [of "nat i"] s by simp
  then have "b \<noteq> CHR ''-''" "b \<noteq> CHR ''+''" by (auto simp: is_ascii_digit_def)
  moreover have "parse_digits (b # bs) = Some (nat i)"
    by (simp flip: s)
  ultimately show ?thesis
    using False assms s by (simp add: parse_i32_def int_to_string_def nat_less_iff)
qed

section \<open>Sorting\<close>

text \<open>
  \<open>slice::sort_by\<close> is a stable sort. \<open>le a b\<close> says that the comparison of \<open>a\<close> with \<open>b\<close> is not
  \<open>Ordering::Greater\<close>.
\<close>

fun insert_by :: "('a \<Rightarrow> 'a \<Rightarrow> bool) \<Rightarrow> 'a \<Rightarrow> 'a list \<Rightarrow> 'a list" where
  "insert_by le x [] = [x]"
| "insert_by le x (y # ys) = (if le x y then x # y # ys else y # insert_by le x ys)"

definition sort_by :: "('a \<Rightarrow> 'a \<Rightarrow> bool) \<Rightarrow> 'a list \<Rightarrow> 'a list" where
  "sort_by le xs = foldr (insert_by le) xs []"

lemma sort_by_simps [simp]:
  "sort_by le [] = []" "sort_by le (x # xs) = insert_by le x (sort_by le xs)"
  by (simp_all add: sort_by_def)

lemma mset_insert_by [simp]: "mset (insert_by le x xs) = add_mset x (mset xs)"
  by (induction xs) auto

lemma mset_sort_by [simp]: "mset (sort_by le xs) = mset xs"
  by (induction xs) auto

lemma set_sort_by [simp]: "set (sort_by le xs) = set xs"
  by (metis mset_sort_by set_mset_mset)

lemma length_sort_by [simp]: "length (sort_by le xs) = length xs"
  by (metis mset_sort_by size_mset)

lemma set_insert_by [simp]: "set (insert_by le x xs) = insert x (set xs)"
  by (metis mset_insert_by set_mset_add_mset_insert set_mset_mset)

lemma sorted_wrt_insert_by:
  assumes tot: "\<And>a b. le a b \<or> le b a" and tr: "\<And>a b c. le a b \<Longrightarrow> le b c \<Longrightarrow> le a c"
    and "sorted_wrt le ys"
  shows "sorted_wrt le (insert_by le x ys)"
  using assms(3)
proof (induction ys)
  case Nil
  then show ?case by simp
next
  case (Cons y ys)
  have "le y x" if "\<not> le x y" using that tot by blast
  with Cons show ?case by (auto intro: tr)
qed

lemma sorted_wrt_sort_by:
  assumes "\<And>a b. le a b \<or> le b a" "\<And>a b c. le a b \<Longrightarrow> le b c \<Longrightarrow> le a c"
  shows "sorted_wrt le (sort_by le xs)"
proof (induction xs)
  case Nil
  then show ?case by simp
next
  case (Cons x xs)
  with sorted_wrt_insert_by [of le, OF assms(1) assms(2)] show ?case by simp
qed

lemma sorted_wrt_mset_unique:
  assumes "mset xs = mset ys" "sorted_wrt le xs" "sorted_wrt le ys"
    and antisym: "\<And>a b. a \<in> set xs \<Longrightarrow> b \<in> set xs \<Longrightarrow> le a b \<Longrightarrow> le b a \<Longrightarrow> a = b"
  shows "xs = ys"
  using assms
proof (induction xs arbitrary: ys)
  case Nil
  then show ?case by simp
next
  case (Cons x xs)
  from Cons.prems(1) obtain y zs where ys: "ys = y # zs" by (cases ys) auto
  have sets: "set (x # xs) = set ys" using Cons.prems(1) by (metis set_mset_mset)
  have "x = y"
  proof (rule ccontr)
    assume "x \<noteq> y"
    with sets ys have "x \<in> set zs" "y \<in> set xs" by auto
    with Cons.prems(2,3) ys have "le x y" "le y x" by auto
    with Cons.prems(4) [of x y] \<open>y \<in> set xs\<close> \<open>x \<noteq> y\<close> show False by simp
  qed
  moreover have "xs = zs"
    using Cons.prems(1-3) ys \<open>x = y\<close> by (intro Cons.IH) (auto intro: Cons.prems(4))
  ultimately show ?case using ys by simp
qed

lemma sort_by_mset_cong:
  assumes "mset xs = mset ys"
    and "\<And>a b. le a b \<or> le b a" "\<And>a b c. le a b \<Longrightarrow> le b c \<Longrightarrow> le a c"
    and "\<And>a b. a \<in> set xs \<Longrightarrow> b \<in> set xs \<Longrightarrow> le a b \<Longrightarrow> le b a \<Longrightarrow> a = b"
  shows "sort_by le xs = sort_by le ys"
  using assms by (intro sorted_wrt_mset_unique [where le = le] sorted_wrt_sort_by) auto

end
