(* ===== verification/Credential.thy ===== *)
theory Credential
  imports Rust_Prelude
begin

text \<open>
  \<open>crates/linguamesh-domain/src/lib.rs\<close>, the text checks every non-secret field goes through:
  stable identifiers, and the detector that refuses values shaped like a credential. The lemmas
  say what the detector finds: a token of one of the known shapes anywhere in the value.
\<close>

definition MAX_STABLE_ID_BYTES :: nat where "MAX_STABLE_ID_BYTES = 128"
definition MAX_PROFILE_TEXT_BYTES :: nat where "MAX_PROFILE_TEXT_BYTES = 2048"

datatype ProfileValidationError =
    InvalidProfileId
  | InvalidSecretRef
  | InvalidEndpoint
  | InvalidField string
  | CredentialLikeValue string

definition is_stable_identifier :: "string \<Rightarrow> bool" where
  "is_stable_identifier value \<longleftrightarrow>
     value \<noteq> [] \<and> length value \<le> MAX_STABLE_ID_BYTES \<and>
     list_all (\<lambda>b. is_ascii_alphanumeric b \<or> b \<in> set ''-_.:'') value"

text \<open>
  \<open>match_indices\<close>: the rests of the text from each non-overlapping occurrence of the pattern on.
\<close>

function match_tails :: "string \<Rightarrow> string \<Rightarrow> string list" where
  "match_tails p s =
     (if p = [] then []
      else (case str_find p s of
              None \<Rightarrow> []
            | Some i \<Rightarrow> drop i s # match_tails p (drop (i + length p) s)))"
  by pat_completeness auto
termination
proof (relation "measure (\<lambda>(p, s). length s)", goal_cases)
  case 1
  then show ?case by simp
next
  case (2 p s i)
  then have "length p \<le> length (drop i s)" "i \<le> length s"
    using str_find_SomeD [of p s i] by (auto dest: prefix_length_le)
  with 2 show ?case by (cases p) auto
qed

declare match_tails.simps [simp del]

definition contains_credential_token :: "string \<Rightarrow> string \<Rightarrow> nat \<Rightarrow> bool" where
  "contains_credential_token value p minimum_length =
     list_ex (\<lambda>t. length (takeWhile (\<lambda>b. is_ascii_alphanumeric b \<or> b \<in> set ''-_'') t)
                    \<ge> minimum_length)
       (match_tails p value)"

definition contains_bearer_token :: "string \<Rightarrow> bool" where
  "contains_bearer_token value =
     list_ex (\<lambda>t. length (takeWhile (\<lambda>b. is_ascii_alphanumeric b \<or> b \<in> set ''-_.'')
                           (drop (length ''Bearer '') t)) \<ge> 20)
       (match_tails ''Bearer '' value)"

definition looks_like_credential :: "string \<Rightarrow> bool" where
  "looks_like_credential v =
     (let value = trim v in
      contains_credential_token value ''sk-'' 20 \<or>
      contains_credential_token value ''ghp_'' 24 \<or>
      contains value ''github_pat_'' \<or>
      contains_bearer_token value \<or>
      contains value ''PRIVATE KEY-----'')"

definition checked_profile_text ::
  "string \<Rightarrow> string \<Rightarrow> ProfileValidationError + string" where
  "checked_profile_text value field =
     (if is_blank value \<or> length value > MAX_PROFILE_TEXT_BYTES \<or> CHR 0x00 \<in> set value
      then Err (InvalidField field)
      else if looks_like_credential value then Err (CredentialLikeValue field)
      else Ok value)"

definition validate_model_identifier :: "string \<Rightarrow> ProfileValidationError + unit" where
  "validate_model_identifier value =
     and_then (checked_profile_text value ''model_id'') (\<lambda>_. Ok ())"

definition validate_non_secret_profile_field ::
  "string \<Rightarrow> string \<Rightarrow> ProfileValidationError + string" where
  "validate_non_secret_profile_field value field = checked_profile_text value field"

section \<open>What the detector finds\<close>

lemma match_tails_sound: "t \<in> set (match_tails p s) \<Longrightarrow> suffix t s \<and> prefix p t"
proof (induction p s rule: match_tails.induct)
  case (1 p s)
  from "1.prems" obtain i where i: "p \<noteq> []" "str_find p s = Some i"
      and t: "t = drop i s \<or> t \<in> set (match_tails p (drop (i + length p) s))"
    unfolding match_tails.simps [of p s]
    by (cases "p = []"; cases "str_find p s") auto
  from t show ?case
  proof
    assume "t = drop i s"
    with str_find_SomeD [OF i(2)] show ?thesis by (auto simp: suffix_drop)
  next
    assume "t \<in> set (match_tails p (drop (i + length p) s))"
    with "1.IH" i show ?thesis by (metis suffix_drop suffix_order.order_trans)
  qed
qed

text \<open>A pattern that does not overlap itself is found at every place where it occurs.\<close>

definition unbordered :: "string \<Rightarrow> bool" where
  "unbordered p \<longleftrightarrow> (\<forall>k \<in> {1..<length p}. \<not> prefix (drop k p) p)"

lemma unbordered_no_overlap:
  assumes "unbordered p" "prefix p (drop i s)" "prefix p (drop j s)" "i < j"
  shows "i + length p \<le> j"
proof (rule ccontr)
  assume "\<not> i + length p \<le> j"
  then have k: "j - i \<in> {1..<length p}" using assms(4) by auto
  obtain r where r: "drop i s = p @ r" using assms(2) by (auto simp: prefix_def)
  have "drop j s = drop (j - i) (drop i s)" using assms(4) by simp
  also have "\<dots> = drop (j - i) p @ r" 
  proof -
    have "j - i < length p" using k by simp
    then have "j - i - length p = 0" by linarith
    then show ?thesis unfolding r drop_append by (simp only: drop0)
  qed
  finally have "prefix (drop (j - i) p) (drop j s)" by simp
  then have "prefix (drop (j - i) p) p"
    using assms(3) prefix_length_prefix by fastforce
  with assms(1) k show False by (auto simp: unbordered_def)
qed

lemma match_tails_complete:
  "unbordered p \<Longrightarrow> p \<noteq> [] \<Longrightarrow> prefix p (drop j s) \<Longrightarrow> drop j s \<in> set (match_tails p s)"
proof (induction p s arbitrary: j rule: match_tails.induct)
  case (1 p s)
  obtain i where i: "str_find p s = Some i"
    using "1.prems"(3) str_find_NoneD [of p s j] by (cases "str_find p s") auto
  note fi = str_find_SomeD [OF i]
  then have "\<not> j < i" using "1.prems" by blast
  then consider "j = i" | "i < j" by linarith
  then show ?case
  proof cases
    case 1
    with i "1.prems"(2) show ?thesis by (subst match_tails.simps) simp
  next
    case 2
    then have "i + length p \<le> j"
      using fi "1.prems" unbordered_no_overlap by blast
    then have eq: "drop j s = drop (j - (i + length p)) (drop (i + length p) s)" by simp
    then have "drop j s \<in> set (match_tails p (drop (i + length p) s))"
      using "1.IH" [OF "1.prems"(2) i "1.prems"(1,2), of "j - (i + length p)"] "1.prems"(3) by simp
    with i "1.prems"(2) show ?thesis by (subst match_tails.simps) simp
  qed
qed

lemma contains_credential_token_iff:
  assumes "unbordered p" "p \<noteq> []"
  shows "contains_credential_token v p n \<longleftrightarrow>
     (\<exists>j. prefix p (drop j v) \<and>
        n \<le> length (takeWhile (\<lambda>b. is_ascii_alphanumeric b \<or> b \<in> set ''-_'') (drop j v)))"
proof -
  have "(\<exists>t \<in> set (match_tails p v). P t) \<longleftrightarrow> (\<exists>j. prefix p (drop j v) \<and> P (drop j v))" for P
    using match_tails_sound [of _ p v] match_tails_complete [OF assms, of _ v]
    by (metis append_eq_conv_conj suffixE)
  then show ?thesis by (simp add: contains_credential_token_def list_ex_iff)
qed

lemma unbordered_code [code]:
  "unbordered p \<longleftrightarrow> list_all (\<lambda>k. \<not> prefix (drop k p) p) [1..<length p]"
  by (simp add: unbordered_def list_all_iff)

lemma unbordered_sk: "unbordered ''sk-''" and unbordered_ghp: "unbordered ''ghp_''"
  by code_simp+

lemma checked_profile_text_Ok [result_iff]:
  "checked_profile_text v f = Ok w \<longleftrightarrow>
     w = v \<and> \<not> is_blank v \<and> length v \<le> MAX_PROFILE_TEXT_BYTES \<and> CHR 0x00 \<notin> set v \<and>
     \<not> looks_like_credential v"
  by (auto simp: checked_profile_text_def)

lemma takeWhile_long:
  "list_all P u \<Longrightarrow> n \<le> length u \<Longrightarrow> n \<le> length (takeWhile P (u @ w))"
  by (induction u arbitrary: n) (auto simp: takeWhile_append2 list_all_iff)

text \<open>
  No text field of a profile can carry an API key: a value that contains, anywhere between
  its first and last visible character, \<open>sk-\<close> or \<open>ghp_\<close> followed by enough token characters
  (20 and 24 bytes in all), a GitHub fine-grained token prefix or a private-key footer is
  refused, and the value an accepted field holds is the one that was given.
\<close>

lemma profile_text_holds_no_key:
  assumes "checked_profile_text v f = Ok w"
    and "list_all (\<lambda>b. is_ascii_alphanumeric b \<or> b \<in> set ''-_'') key"
  shows "w = v \<and>
     (17 \<le> length key \<longrightarrow> \<not> contains (trim v) (''sk-'' @ key)) \<and>
     (20 \<le> length key \<longrightarrow> \<not> contains (trim v) (''ghp_'' @ key)) \<and>
     \<not> contains (trim v) ''github_pat_'' \<and> \<not> contains (trim v) ''PRIVATE KEY-----''"
proof -
  let ?P = "\<lambda>b. is_ascii_alphanumeric b \<or> b \<in> set ''-_''"
  have tok: "contains_credential_token u p n"
    if "contains u (p @ key)" "unbordered p" "p \<noteq> []" "list_all ?P p" "n \<le> length p + length key"
    for u p n
  proof -
    from that(1) obtain a b where u: "u = a @ (p @ key) @ b" by (auto simp: contains_iff)
    have "n \<le> length (takeWhile ?P ((p @ key) @ b))"
      using that(4,5) assms(2) by (intro takeWhile_long) (auto simp: list_all_append)
    moreover have "drop (length a) u = (p @ key) @ b" using u by simp
    ultimately show ?thesis
      unfolding contains_credential_token_iff [OF that(2,3)]
      by (intro exI [of _ "length a"]) simp
  qed
  have "list_all ?P ''sk-''" "list_all ?P ''ghp_''" by code_simp+
  with assms(1) show ?thesis
    using tok [of "trim v" "''sk-''" 20] tok [of "trim v" "''ghp_''" 24] unbordered_sk unbordered_ghp
    by (auto simp: checked_profile_text_Ok looks_like_credential_def Let_def)
qed

lemma profile_text_holds_no_key_witness:
  "checked_profile_text ''work account'' ''notes'' = Ok ''work account'' \<and>
   \<not> contains (trim ''work account'') (''sk-'' @ ''abcdefghijklmnopq'')"
proof -
  have ok: "checked_profile_text ''work account'' ''notes'' = Ok ''work account''"
    by code_simp
  have "list_all (\<lambda>b. is_ascii_alphanumeric b \<or> b \<in> set ''-_'') ''abcdefghijklmnopq''"
    by code_simp
  from profile_text_holds_no_key [OF ok this] ok show ?thesis by simp
qed

end
