(* ===== verification/Glossary.thy ===== *)
theory Glossary
  imports Credential
begin

text \<open>
  \<open>crates/linguamesh-domain/src/lib.rs\<close>, glossary rules: \<open>GlossaryEntry\<close>, \<open>Glossary\<close> with its
  conflict check, and the CSV exchange format (\<open>from_csv\<close>, \<open>to_csv\<close>, the record parser and the
  field printer). The parser keeps the source's loop variables as arguments; it compares
  characters with ASCII ones only, so it runs over the bytes. The main lemma is that every
  valid glossary survives a trip through its CSV file unchanged.
\<close>

section \<open>Rules\<close>

definition MAX_GLOSSARY_ENTRIES :: nat where "MAX_GLOSSARY_ENTRIES = 256"
definition MAX_GLOSSARY_TERM_BYTES :: nat where "MAX_GLOSSARY_TERM_BYTES = 512"
definition MAX_GLOSSARY_NOTE_BYTES :: nat where "MAX_GLOSSARY_NOTE_BYTES = 2048"
definition MAX_GLOSSARY_CSV_BYTES :: nat where "MAX_GLOSSARY_CSV_BYTES = 4 * 1024 * 1024"

lemmas glossary_limits = MAX_GLOSSARY_ENTRIES_def MAX_GLOSSARY_TERM_BYTES_def
  MAX_GLOSSARY_NOTE_BYTES_def MAX_GLOSSARY_CSV_BYTES_def

text \<open>A signed 32-bit priority is a word read by \<^const>\<open>sint\<close>.\<close>

type_synonym i32 = "32 word"

record GlossaryEntry =
  source_term :: string
  target_term :: string
  entry_source_locale :: "string option"
  entry_target_locale :: "string option"
  case_sensitive :: bool
  whole_word :: bool
  immutable :: bool
  entry_domain :: "string option"
  priority :: i32
  entry_notes :: "string option"
  enabled :: bool

datatype GlossaryError =
    TooManyEntries
  | InvalidGlossaryField string
  | ConflictingEntries
  | GlossaryCredentialLikeValue string

definition validate_glossary_text :: "string \<Rightarrow> nat \<Rightarrow> string \<Rightarrow> GlossaryError + unit" where
  "validate_glossary_text value max_bytes field =
     (if is_blank value \<or> length value > max_bytes \<or> CHR 0x00 \<in> set value
      then Err (InvalidGlossaryField field)
      else if looks_like_credential value then Err (GlossaryCredentialLikeValue field)
      else Ok ())"

definition validate_optional ::
  "string option \<Rightarrow> nat \<Rightarrow> string \<Rightarrow> GlossaryError + unit" where
  "validate_optional value max_bytes field =
     (case value of None \<Rightarrow> Ok () | Some v \<Rightarrow> validate_glossary_text v max_bytes field)"

definition GlossaryEntry_validate :: "GlossaryEntry \<Rightarrow> GlossaryError + unit" where
  "GlossaryEntry_validate e =
     and_then (validate_glossary_text (source_term e) MAX_GLOSSARY_TERM_BYTES ''source term'') (\<lambda>_.
     and_then (validate_glossary_text (target_term e) MAX_GLOSSARY_TERM_BYTES ''target term'') (\<lambda>_.
     and_then (validate_optional (entry_source_locale e) 64 ''source locale'') (\<lambda>_.
     and_then (validate_optional (entry_target_locale e) 64 ''target locale'') (\<lambda>_.
     and_then (validate_optional (entry_domain e) 128 ''domain'') (\<lambda>_.
     validate_optional (entry_notes e) MAX_GLOSSARY_NOTE_BYTES ''notes'')))))"

definition GlossaryEntry_new :: "string \<Rightarrow> string \<Rightarrow> GlossaryError + GlossaryEntry" where
  "GlossaryEntry_new source target =
     (let e = \<lparr>source_term = source, target_term = target, entry_source_locale = None,
               entry_target_locale = None, case_sensitive = True, whole_word = True,
               immutable = False, entry_domain = None, priority = 0, entry_notes = None,
               enabled = True\<rparr>
      in and_then (GlossaryEntry_validate e) (\<lambda>_. Ok e))"

record Glossary =
  entries :: "GlossaryEntry list"

text \<open>Two enabled rules for the same term and scope that demand different translations.\<close>

definition conflicts :: "GlossaryEntry \<Rightarrow> GlossaryEntry \<Rightarrow> bool" where
  "conflicts left right \<longleftrightarrow>
     \<not> (\<not> enabled right \<or> source_term left \<noteq> source_term right \<or>
        case_sensitive left \<noteq> case_sensitive right \<or>
        entry_source_locale left \<noteq> entry_source_locale right \<or>
        entry_target_locale left \<noteq> entry_target_locale right \<or>
        entry_domain left \<noteq> entry_domain right \<or>
        target_term left = target_term right)"

fun check_conflicts :: "GlossaryEntry list \<Rightarrow> GlossaryError + unit" where
  "check_conflicts [] = Ok ()"
| "check_conflicts (left # rest) =
     (if \<not> enabled left then check_conflicts rest
      else if list_ex (conflicts left) rest then Err ConflictingEntries
      else check_conflicts rest)"

definition Glossary_validate :: "Glossary \<Rightarrow> GlossaryError + unit" where
  "Glossary_validate g =
     (if length (entries g) > MAX_GLOSSARY_ENTRIES then Err TooManyEntries
      else and_then (try_each GlossaryEntry_validate (entries g)) (\<lambda>_.
           check_conflicts (entries g)))"

definition Glossary_new :: "GlossaryEntry list \<Rightarrow> GlossaryError + Glossary" where
  "Glossary_new es =
     (let g = \<lparr>entries = es\<rparr> in and_then (Glossary_validate g) (\<lambda>_. Ok g))"

text \<open>The messages of \<open>thiserror\<close>.\<close>

fun glossary_error_message :: "GlossaryError \<Rightarrow> string" where
  "glossary_error_message TooManyEntries = ''Glossary contains too many entries.''"
| "glossary_error_message (InvalidGlossaryField f) = ''Glossary '' @ f @ '' is invalid.''"
| "glossary_error_message ConflictingEntries = ''Glossary contains conflicting entries.''"
| "glossary_error_message (GlossaryCredentialLikeValue f) = ''Glossary '' @ f @ '' contains credential-like data.''"

section \<open>CSV\<close>

datatype GlossaryCsvError =
    CsvTooLarge
  | MissingHeader
  | InvalidHeader
  | TooManyRows
  | Malformed
  | InvalidRow nat
  | InvalidValue nat
  | InvalidEntry nat GlossaryError
  | GlossaryInvalid GlossaryError

definition GLOSSARY_CSV_HEADER :: string where
  "GLOSSARY_CSV_HEADER =
     ''source_term,target_term,source_locale,target_locale,case_sensitive,whole_word,immutable,domain,priority,notes,enabled''"

definition bool_to_csv :: "bool \<Rightarrow> string" where
  "bool_to_csv v = (if v then ''true'' else ''false'')"

definition csv_field :: "string \<Rightarrow> string" where
  "csv_field value =
     (if list_ex (\<lambda>b. b \<in> {comma, quote, lf, cr}) value
      then [quote] @ concat (map (\<lambda>b. if b = quote then [quote, b] else [b]) value) @ [quote]
      else value)"

text \<open>One output row: the fields, a comma before each but the first, a line feed.\<close>

fun csv_fields :: "string list \<Rightarrow> string" where
  "csv_fields [] = []"
| "csv_fields [v] = csv_field v"
| "csv_fields (v # vs) = csv_field v @ [comma] @ csv_fields vs"

definition entry_row :: "GlossaryEntry \<Rightarrow> string list" where
  "entry_row e =
     [source_term e, target_term e,
      case entry_source_locale e of None \<Rightarrow> [] | Some l \<Rightarrow> l,
      case entry_target_locale e of None \<Rightarrow> [] | Some l \<Rightarrow> l,
      bool_to_csv (case_sensitive e), bool_to_csv (whole_word e), bool_to_csv (immutable e),
      case entry_domain e of None \<Rightarrow> [] | Some d \<Rightarrow> d,
      int_to_string (sint (priority e)),
      case entry_notes e of None \<Rightarrow> [] | Some n \<Rightarrow> n,
      bool_to_csv (enabled e)]"

definition to_csv :: "Glossary \<Rightarrow> string" where
  "to_csv g =
     GLOSSARY_CSV_HEADER @ [lf] @ concat (map (\<lambda>e. csv_fields (entry_row e) @ [lf]) (entries g))"

text \<open>
  The body of the parser's loop, with the loop variables \<open>records\<close>, \<open>record\<close>, \<open>field\<close>,
  \<open>quoted\<close>, \<open>closed_quote\<close> and \<open>at_field_start\<close>.
\<close>

function csv_loop ::
  "string \<Rightarrow> string list list \<Rightarrow> string list \<Rightarrow> string \<Rightarrow> bool \<Rightarrow> bool \<Rightarrow> bool \<Rightarrow>
     GlossaryCsvError + string list list" where
  "csv_loop [] recs rec fld quoted closed start =
     (if quoted then Err Malformed
      else if fld \<noteq> [] \<or> rec \<noteq> [] then Ok (recs @ [rec @ [fld]])
      else Ok recs)"
| "csv_loop (b # bs) recs rec fld quoted closed start =
     (if quoted then
        (if b = quote \<and> prefix [quote] bs then csv_loop (drop 1 bs) recs rec (fld @ [quote]) True closed start
         else if b = quote then csv_loop bs recs rec fld False True start
         else csv_loop bs recs rec (fld @ [b]) True closed start)
      else if closed then
        (if b = comma then csv_loop bs recs (rec @ [fld]) [] False False True
         else if b = lf then csv_loop bs (recs @ [rec @ [fld]]) [] [] False False True
         else if b = cr \<and> prefix [lf] bs
         then csv_loop (drop 1 bs) (recs @ [rec @ [fld]]) [] [] False False True
         else Err Malformed)
      else if b = quote \<and> start then csv_loop bs recs rec fld True closed start
      else if b = comma then csv_loop bs recs (rec @ [fld]) [] False closed True
      else if b = lf then csv_loop bs (recs @ [rec @ [fld]]) [] [] False closed True
      else if b = cr \<and> prefix [lf] bs
      then csv_loop (drop 1 bs) (recs @ [rec @ [fld]]) [] [] False closed True
      else if b = quote \<or> b = cr then Err Malformed
      else csv_loop bs recs rec (fld @ [b]) False closed False)"
  by pat_completeness auto
termination
  by (relation "measure (\<lambda>(bs, _). length bs)") auto

definition parse_csv_records :: "string \<Rightarrow> GlossaryCsvError + string list list" where
  "parse_csv_records source = csv_loop (strip_bom source) [] [] [] False False True"

definition parse_bool :: "nat \<Rightarrow> string \<Rightarrow> GlossaryCsvError + bool" where
  "parse_bool row v =
     (if v = ''true'' then Ok True else if v = ''false'' then Ok False else Err (InvalidValue row))"

definition non_empty :: "string \<Rightarrow> string option" where
  "non_empty s = (if s = [] then None else Some s)"

definition parse_glossary_entry :: "string list \<Rightarrow> nat \<Rightarrow> GlossaryCsvError + GlossaryEntry" where
  "parse_glossary_entry r row =
     and_then (map_err (InvalidEntry row) (GlossaryEntry_new (r ! 0) (r ! 1))) (\<lambda>e.
     and_then (parse_bool row (r ! 4)) (\<lambda>cs.
     and_then (parse_bool row (r ! 5)) (\<lambda>ww.
     and_then (parse_bool row (r ! 6)) (\<lambda>im.
     and_then (ok_or (InvalidValue row) (parse_i32 (r ! 8))) (\<lambda>pr.
     and_then (parse_bool row (r ! 10)) (\<lambda>en.
     let e' = e\<lparr>entry_source_locale := non_empty (r ! 2),
                entry_target_locale := non_empty (r ! 3),
                case_sensitive := cs, whole_word := ww, immutable := im,
                entry_domain := non_empty (r ! 7), priority := word_of_int pr,
                entry_notes := non_empty (r ! 9), enabled := en\<rparr>
     in and_then (map_err (InvalidEntry row) (GlossaryEntry_validate e')) (\<lambda>_. Ok e')))))))"

text \<open>The loop over the data rows; rows are numbered from 2 in error values.\<close>

fun parse_rows :: "nat \<Rightarrow> nat \<Rightarrow> string list list \<Rightarrow> GlossaryCsvError + GlossaryEntry list" where
  "parse_rows width row [] = Ok []"
| "parse_rows width row (r # rs) =
     (if length r \<noteq> width then Err (InvalidRow row)
      else and_then (parse_glossary_entry r row) (\<lambda>e.
           and_then (parse_rows width (Suc row) rs) (\<lambda>es. Ok (e # es))))"

definition from_csv :: "string \<Rightarrow> GlossaryCsvError + Glossary" where
  "from_csv source =
     (if length source > MAX_GLOSSARY_CSV_BYTES then Err CsvTooLarge
      else and_then (parse_csv_records source) (\<lambda>recs.
        (case recs of [] \<Rightarrow> Err MissingHeader
         | header # rows \<Rightarrow>
            (let expected = split_char comma GLOSSARY_CSV_HEADER in
             if header \<noteq> expected then Err InvalidHeader
             else if length rows > MAX_GLOSSARY_ENTRIES then Err TooManyRows
             else and_then (parse_rows (length expected) 2 rows) (\<lambda>es.
                  map_err GlossaryInvalid (Glossary_new es))))))"

section \<open>Valid glossaries\<close>

lemma validate_glossary_text_Ok [result_iff]:
  "validate_glossary_text v n f = Ok u \<longleftrightarrow>
     \<not> is_blank v \<and> length v \<le> n \<and> CHR 0x00 \<notin> set v \<and> \<not> looks_like_credential v"
  by (auto simp: validate_glossary_text_def)

lemma is_blank_Nil [simp]: "is_blank []"
  by (simp add: is_blank_iff)

lemma validate_optional_Ok:
  "validate_optional v n f = Ok u \<Longrightarrow> v \<noteq> Some [] \<and> (\<forall>w. v = Some w \<longrightarrow> length w \<le> n)"
  by (auto simp: validate_optional_def validate_glossary_text_Ok split: option.splits)

lemma non_empty_inverse: "v \<noteq> Some [] \<Longrightarrow> non_empty (case v of None \<Rightarrow> [] | Some l \<Rightarrow> l) = v"
  by (auto simp: non_empty_def split: option.splits)

lemma GlossaryEntry_validate_OkD:
  assumes "GlossaryEntry_validate e = Ok u"
  shows "validate_glossary_text (source_term e) MAX_GLOSSARY_TERM_BYTES ''source term'' = Ok ()"
    "validate_glossary_text (target_term e) MAX_GLOSSARY_TERM_BYTES ''target term'' = Ok ()"
    "validate_optional (entry_source_locale e) 64 ''source locale'' = Ok ()"
    "validate_optional (entry_target_locale e) 64 ''target locale'' = Ok ()"
    "validate_optional (entry_domain e) 128 ''domain'' = Ok ()"
    "validate_optional (entry_notes e) MAX_GLOSSARY_NOTE_BYTES ''notes'' = Ok ()"
  using assms by (auto simp: GlossaryEntry_validate_def and_then_Inr)

lemma Glossary_validate_OkD:
  assumes "Glossary_validate g = Ok u"
  shows "length (entries g) \<le> MAX_GLOSSARY_ENTRIES"
    "\<And>e. e \<in> set (entries g) \<Longrightarrow> GlossaryEntry_validate e = Ok ()"
    "check_conflicts (entries g) = Ok ()"
  using assms by (auto simp: Glossary_validate_def result_iff split: if_splits)

section \<open>The parser inverts the printer\<close>

definition double_quotes :: "string \<Rightarrow> string" where
  "double_quotes v = concat (map (\<lambda>b. if b = quote then [quote, b] else [b]) v)"

lemma double_quotes_simps [simp]:
  "double_quotes [] = []"
  "double_quotes (b # bs) = (if b = quote then [quote, quote] else [b]) @ double_quotes bs"
  by (simp_all add: double_quotes_def)

lemma csv_loop_quoted:
  assumes "\<not> prefix [quote] rest"
  shows "csv_loop (double_quotes v @ quote # rest) recs rec fld True c s =
         csv_loop rest recs rec (fld @ v) False True s"
  using assms by (induction v arbitrary: fld) auto

lemma csv_loop_plain:
  assumes "\<not> list_ex (\<lambda>b. b \<in> {comma, quote, lf, cr}) v"
  shows "csv_loop (v @ rest) recs rec fld False False s =
         csv_loop rest recs rec (fld @ v) False False (if v = [] then s else False)"
  using assms by (induction v arbitrary: fld s) auto

lemma csv_loop_field:
  assumes "d = comma \<or> d = lf"
  shows "csv_loop (csv_field v @ d # rest) recs rec [] False False True =
         csv_loop rest (if d = lf then recs @ [rec @ [v]] else recs)
           (if d = lf then [] else rec @ [v]) [] False False True"
proof (cases "list_ex (\<lambda>b. b \<in> {comma, quote, lf, cr}) v")
  case True
  then have "csv_field v @ d # rest = quote # double_quotes v @ quote # d # rest"
    by (simp add: csv_field_def double_quotes_def)
  with assms show ?thesis by (auto simp: csv_loop_quoted)
next
  case False
  then have "csv_field v = v" by (simp add: csv_field_def)
  with assms show ?thesis by (auto simp: csv_loop_plain [OF False])
qed

lemma csv_loop_row:
  "vs \<noteq> [] \<Longrightarrow>
   csv_loop (csv_fields vs @ lf # rest) recs rec [] False False True =
   csv_loop rest (recs @ [rec @ vs]) [] [] False False True"
proof (induction vs arbitrary: rec rule: csv_fields.induct)
  case 1
  then show ?case by simp
next
  case (2 v)
  then show ?case by (simp add: csv_loop_field)
next
  case (3 v w ws)
  have "csv_loop (csv_fields (v # w # ws) @ lf # rest) recs rec [] False False True =
      csv_loop (csv_field v @ comma # csv_fields (w # ws) @ lf # rest) recs rec [] False False True"
    by simp
  also have "\<dots> = csv_loop (csv_fields (w # ws) @ lf # rest) recs (rec @ [v]) [] False False True"
    by (subst csv_loop_field) auto
  also have "\<dots> = csv_loop rest (recs @ [rec @ v # w # ws]) [] [] False False True"
    using 3 by (simp del: csv_fields.simps)
  finally show ?case .
qed

lemma csv_loop_rows:
  assumes "\<And>r. r \<in> set rows \<Longrightarrow> r \<noteq> []"
  shows "csv_loop (concat (map (\<lambda>r. csv_fields r @ [lf]) rows)) recs [] [] False False True =
         Ok (recs @ rows)"
  using assms
proof (induction rows arbitrary: recs)
  case Nil
  then show ?case by simp
next
  case (Cons r rows)
  then show ?case by (simp add: csv_loop_row)
qed

lemma header_is_row:
  "GLOSSARY_CSV_HEADER = csv_fields (split_char comma GLOSSARY_CSV_HEADER)"
  "length (split_char comma GLOSSARY_CSV_HEADER) = 11"
  "\<not> prefix BOM (GLOSSARY_CSV_HEADER @ s)"
  unfolding GLOSSARY_CSV_HEADER_def by code_simp+

lemma parse_csv_records_to_csv:
  "parse_csv_records (to_csv g) =
     Ok (split_char comma GLOSSARY_CSV_HEADER # map entry_row (entries g))"
proof -
  let ?h = "split_char comma GLOSSARY_CSV_HEADER"
  have "to_csv g = concat (map (\<lambda>r. csv_fields r @ [lf]) (?h # map entry_row (entries g)))"
    by (simp add: to_csv_def comp_def flip: header_is_row(1))
  moreover have "strip_bom (to_csv g) = to_csv g"
    by (simp add: strip_bom_def to_csv_def header_is_row(3))
  moreover have "r \<noteq> []" if "r \<in> set (?h # map entry_row (entries g))" for r
    using that split_char_nonempty [of comma GLOSSARY_CSV_HEADER] by (auto simp: entry_row_def)
  ultimately show ?thesis
    unfolding parse_csv_records_def by (metis csv_loop_rows append_Nil)
qed

lemma parse_bool_bool_to_csv [simp]: "parse_bool row (bool_to_csv v) = Ok v"
  by (simp add: parse_bool_def bool_to_csv_def)

lemma parse_i32_sint: "parse_i32 (int_to_string (sint (w :: i32))) = Some (sint w)"
  using sint_greater_eq [of w] sint_less [of w] by (intro parse_i32_int_to_string) auto

lemma parse_glossary_entry_row:
  assumes "GlossaryEntry_validate e = Ok u"
  shows "parse_glossary_entry (entry_row e) row = Ok e"
proof -
  note d = GlossaryEntry_validate_OkD [OF assms]
  note ne = d(3-6) [THEN validate_optional_Ok, THEN conjunct1, THEN non_empty_inverse]
  have new: "GlossaryEntry_new (source_term e) (target_term e) =
      Ok \<lparr>source_term = source_term e, target_term = target_term e, entry_source_locale = None,
          entry_target_locale = None, case_sensitive = True, whole_word = True, immutable = False,
          entry_domain = None, priority = 0, entry_notes = None, enabled = True\<rparr>"
    using d(1,2)
    by (simp add: GlossaryEntry_new_def GlossaryEntry_validate_def validate_optional_def Let_def)
  have v: "GlossaryEntry_validate e = Ok ()" using assms by simp
  show ?thesis
    by (cases e) (use new ne v in \<open>simp add: parse_glossary_entry_def entry_row_def parse_i32_sint
        numeral_eq_Suc Let_def\<close>)
qed

lemma parse_rows_entries:
  assumes "\<And>e. e \<in> set es \<Longrightarrow> GlossaryEntry_validate e = Ok ()"
  shows "parse_rows 11 row (map entry_row es) = Ok es"
  using assms
proof (induction es arbitrary: row)
  case Nil
  then show ?case by simp
next
  case (Cons e es)
  have "length (entry_row e) = 11" by (simp add: entry_row_def)
  with Cons show ?case by (simp add: parse_glossary_entry_row)
qed

section \<open>Size of the file\<close>

lemma length_nat_to_string: "n < 10 ^ k \<Longrightarrow> 0 < k \<Longrightarrow> length (nat_to_string n) \<le> k"
proof (induction n arbitrary: k rule: nat_to_string.induct)
  case (1 n)
  show ?case
  proof (cases "n < 10")
    case True
    with "1.prems" show ?thesis by (subst nat_to_string.simps) simp
  next
    case False
    then obtain j where k: "k = Suc j" "0 < j" using "1.prems" by (cases k; cases "k - 1") auto
    then have "length (nat_to_string (n div 10)) \<le> j"
      using "1.IH" [OF False, of j] "1.prems"(1) by (simp add: less_mult_imp_div_less mult.commute)
    with False k show ?thesis by (subst nat_to_string.simps) simp
  qed
qed

lemma length_int_to_string: "length (int_to_string (sint (w :: i32))) \<le> 11"
proof -
  have "nat (- sint w) < 10 ^ 10" "nat (sint w) < 10 ^ 10"
    using sint_greater_eq [of w] sint_less [of w] by auto
  from this [THEN length_nat_to_string] show ?thesis
    unfolding int_to_string_def by (auto intro: le_SucI)
qed

lemma length_csv_field: "length (csv_field v) \<le> 2 * length v + 2"
proof -
  have "length (double_quotes v) \<le> 2 * length v" by (induction v) auto
  then show ?thesis by (simp add: csv_field_def double_quotes_def)
qed

lemma length_csv_fields: "length (csv_fields vs) \<le> (\<Sum>v \<leftarrow> vs. 2 * length v + 3)"
proof (induction vs rule: csv_fields.induct)
  case 1
  then show ?case by simp
next
  case (2 v)
  show ?case using length_csv_field [of v] by simp
next
  case (3 v w ws)
  then show ?case using length_csv_field [of v] by simp
qed

lemma length_entry_csv:
  assumes "GlossaryEntry_validate e = Ok u"
  shows "length (csv_fields (entry_row e)) \<le> 7000"
proof -
  note d = GlossaryEntry_validate_OkD [OF assms]
  have t: "length (source_term e) \<le> 512" "length (target_term e) \<le> 512"
    using d(1,2) by (simp_all add: validate_glossary_text_Ok glossary_limits)
  have o: "length (case v of None \<Rightarrow> [] | Some l \<Rightarrow> l) \<le> n" if "validate_optional v n f = Ok ()" for v n f
    using validate_optional_Ok [OF that] by (auto split: option.splits)
  have b: "length (bool_to_csv x) \<le> 5" for x by (simp add: bool_to_csv_def)
  have "(\<Sum>v \<leftarrow> entry_row e. 2 * length v + 3) \<le> 7000"
    using t o [OF d(3)] o [OF d(4)] o [OF d(5)] o [OF d(6)] b [of "case_sensitive e"]
      b [of "whole_word e"] b [of "immutable e"] b [of "enabled e"]
      length_int_to_string [of "priority e"]
    unfolding entry_row_def glossary_limits by (simp del: length_greater_0_conv)
  with length_csv_fields [of "entry_row e"] show ?thesis by linarith
qed

lemma length_to_csv:
  assumes "Glossary_validate g = Ok u"
  shows "length (to_csv g) \<le> MAX_GLOSSARY_CSV_BYTES"
proof -
  note g = Glossary_validate_OkD [OF assms]
  have "length (concat (map (\<lambda>e. csv_fields (entry_row e) @ [lf]) es)) \<le> 7001 * length es"
    if "set es \<subseteq> set (entries g)" for es
    using that
  proof (induction es)
    case Nil
    then show ?case by simp
  next
    case (Cons e es)
    then have "length (csv_fields (entry_row e)) \<le> 7000"
      using g(2) length_entry_csv by auto
    with Cons show ?case by simp
  qed
  from this [of "entries g"] g(1)
  have "length (concat (map (\<lambda>e. csv_fields (entry_row e) @ [lf]) (entries g))) \<le> 7001 * 256"
    unfolding glossary_limits by auto
  moreover have "length GLOSSARY_CSV_HEADER \<le> 200" by code_simp
  ultimately show ?thesis unfolding to_csv_def glossary_limits by simp
qed

lemma from_csv_to_csv:
  assumes "Glossary_validate g = Ok ()"
  shows "from_csv (to_csv g) = Ok g"
proof -
  note g = Glossary_validate_OkD [OF assms]
  have "parse_rows 11 2 (map entry_row (entries g)) = Ok (entries g)"
    using g(2) by (rule parse_rows_entries)
  moreover have "Glossary_new (entries g) = Ok g"
    using assms by (cases g) (simp add: Glossary_new_def Let_def)
  ultimately show ?thesis
    using length_to_csv [OF assms] g(1)
    by (simp add: from_csv_def parse_csv_records_to_csv header_is_row(2) Let_def)
qed

text \<open>
  C25: Every valid glossary, whatever its terms, notes and priorities contain (commas, quotes,
  line breaks, any Unicode text), is exported to a CSV file that is below the import limit and
  that imports to exactly the same glossary.
\<close>

theorem glossary_csv_roundtrip:
  assumes "Glossary_validate g = Ok ()"
  shows "from_csv (to_csv g) = Ok g \<and> length (to_csv g) \<le> 4 * 1024 * 1024"
  using from_csv_to_csv [OF assms] length_to_csv [OF assms] by (simp add: glossary_limits)

definition demo_entry :: GlossaryEntry where
  "demo_entry = \<lparr>source_term = ''say, \"hi\"'', target_term = ''salut'', entry_source_locale = None,
     entry_target_locale = Some ''fr'', case_sensitive = True, whole_word = False,
     immutable = False, entry_domain = None, priority = 7, entry_notes = Some ''a\<newline>b'',
     enabled = True\<rparr>"

lemma demo_entry_valid: "Glossary_validate \<lparr>entries = [demo_entry]\<rparr> = Ok ()"
  unfolding demo_entry_def by code_simp

theorem glossary_csv_roundtrip_witness:
  "from_csv (to_csv \<lparr>entries = [demo_entry]\<rparr>) = Ok \<lparr>entries = [demo_entry]\<rparr>"
  using glossary_csv_roundtrip [OF demo_entry_valid] by simp

lemma check_conflicts_Ok:
  "check_conflicts es = Ok u \<Longrightarrow> i < j \<Longrightarrow> j < length es \<Longrightarrow> enabled (es ! i) \<Longrightarrow>
     \<not> conflicts (es ! i) (es ! j)"
proof (induction es arbitrary: i j)
  case Nil
  then show ?case by simp
next
  case (Cons e es)
  show ?case
  proof (cases i)
    case 0
    with Cons.prems have "\<not> list_ex (conflicts e) es" "es ! (j - 1) \<in> set es"
      by (auto split: if_splits)
    with 0 Cons.prems(2) show ?thesis by (auto simp: list_ex_iff nth_Cons')
  next
    case (Suc k)
    with Cons.prems have "check_conflicts es = Ok u" by (auto split: if_splits)
    with Suc Cons.prems Cons.IH [of k "j - 1"] show ?thesis by (auto simp: nth_Cons')
  qed
qed

text \<open>
  Whatever is imported is safe to use: an accepted CSV file yields at most 256 rules that
  each pass the field checks, and no two enabled rules for the same term, case policy, locales
  and domain demand different translations.
\<close>

lemma from_csv_safe:
  assumes "from_csv source = Ok g"
  shows "length (entries g) \<le> 256 \<and>
     (\<forall>e \<in> set (entries g). GlossaryEntry_validate e = Ok ()) \<and>
     (\<forall>i j. i < j \<and> j < length (entries g) \<and> enabled (entries g ! i) \<longrightarrow>
        \<not> conflicts (entries g ! i) (entries g ! j))"
proof -
  have "\<exists>es. Glossary_new es = Ok g"
    using assms
    by (cases "parse_csv_records source")
      (auto simp: from_csv_def Let_def result_iff split: if_splits list.splits)
  then have "Glossary_validate g = Ok ()"
    by (auto simp: Glossary_new_def Let_def result_iff)
  note g = Glossary_validate_OkD [OF this]
  from g(1,2) check_conflicts_Ok [OF g(3)] show ?thesis by (auto simp: glossary_limits)
qed

lemma from_csv_safe_witness:
  "\<exists>g. from_csv (to_csv \<lparr>entries = [demo_entry]\<rparr>) = Ok g \<and> length (entries g) \<le> 256"
proof -
  have "from_csv (to_csv \<lparr>entries = [demo_entry]\<rparr>) = Ok \<lparr>entries = [demo_entry]\<rparr>"
    by (rule from_csv_to_csv) (rule demo_entry_valid)
  from from_csv_safe [OF this] this show ?thesis by blast
qed

end
