(* ===== verification/Translation.thy ===== *)
theory Translation
  imports Glossary
begin

text \<open>
  \<open>crates/linguamesh-domain/src/lib.rs\<close>, the data of a translation: presets, requests,
  normalized errors, usage records and lifecycle events, with their checks. Token counts are
  64-bit words and keep the saturating arithmetic of the source.
\<close>

section \<open>Errors\<close>

datatype ErrorKind =
    CancelledKind | InvalidEndpointKind | Network | Timeout | Authentication | RateLimited
  | ModelUnavailable | MalformedResponse | Persistence | ProtocolIncompatible
  | InvalidConfiguration | UnsupportedCapability | SecretUnavailable
  | SecureStorageUnavailable | Internal

record TranslationError =
  error_kind :: ErrorKind
  message :: string
  retry_after_ms :: "u64 option"

definition TranslationError_new :: "ErrorKind \<Rightarrow> string \<Rightarrow> TranslationError" where
  "TranslationError_new kind msg = \<lparr>error_kind = kind, message = msg, retry_after_ms = None\<rparr>"

definition with_retry_after_ms :: "TranslationError \<Rightarrow> u64 option \<Rightarrow> TranslationError" where
  "with_retry_after_ms e ms = e\<lparr>retry_after_ms := ms\<rparr>"

definition TranslationError_cancelled :: TranslationError where
  "TranslationError_cancelled = TranslationError_new CancelledKind ''Translation was cancelled.''"

fun profile_error_message :: "ProfileValidationError \<Rightarrow> string" where
  "profile_error_message InvalidProfileId = ''Provider profile ID is invalid.''"
| "profile_error_message InvalidSecretRef = ''Provider secret reference is invalid.''"
| "profile_error_message InvalidEndpoint = ''Provider endpoint is invalid or unsafe.''"
| "profile_error_message (InvalidField f) = ''Provider profile field is invalid: '' @ f @ ''.''"
| "profile_error_message (CredentialLikeValue f) =
     ''Provider profile field resembles a credential: '' @ f @ ''.''"

section \<open>Presets\<close>

record TranslationPreset =
  preset_id :: string
  preset_domain :: "string option"
  tone :: "string option"
  formality :: "string option"
  intended_audience :: "string option"
  regional_locale :: "string option"
  script :: "string option"
  custom_context :: "string option"
  custom_instructions :: "string option"

definition TranslationPreset_default :: TranslationPreset where
  "TranslationPreset_default = \<lparr>preset_id = [], preset_domain = None, tone = None,
     formality = None, intended_audience = None, regional_locale = None, script = None,
     custom_context = None, custom_instructions = None\<rparr>"

definition preset_general :: TranslationPreset where
  "preset_general = TranslationPreset_default\<lparr>preset_id := ''general''\<rparr>"

definition preset_technical :: TranslationPreset where
  "preset_technical = TranslationPreset_default\<lparr>preset_id := ''technical'',
     preset_domain := Some ''software and technical documentation'',
     tone := Some ''precise and neutral'', formality := Some ''formal'',
     intended_audience := Some ''technical readers''\<rparr>"

definition preset_marketing :: TranslationPreset where
  "preset_marketing = TranslationPreset_default\<lparr>preset_id := ''marketing'',
     preset_domain := Some ''marketing and product copy'',
     tone := Some ''engaging and natural'', formality := Some ''friendly'',
     intended_audience := Some ''customers''\<rparr>"

definition preset_english_us :: TranslationPreset where
  "preset_english_us = TranslationPreset_default\<lparr>preset_id := ''english_us'',
     regional_locale := Some ''en-US'', script := Some ''Latn''\<rparr>"

definition preset_chinese_simplified :: TranslationPreset where
  "preset_chinese_simplified = TranslationPreset_default\<lparr>preset_id := ''chinese_simplified'',
     regional_locale := Some ''zh-CN'', script := Some ''Hans''\<rparr>"

definition preset_from_id :: "string \<Rightarrow> TranslationPreset option" where
  "preset_from_id i =
     (if i = ''general'' then Some preset_general
      else if i = ''technical'' then Some preset_technical
      else if i = ''marketing'' then Some preset_marketing
      else if i = ''english_us'' then Some preset_english_us
      else if i = ''chinese_simplified'' then Some preset_chinese_simplified
      else None)"

definition MAX_TRANSLATION_PRESET_TEXT_BYTES :: nat where
  "MAX_TRANSLATION_PRESET_TEXT_BYTES = 512"

definition validate_preset_text :: "string \<Rightarrow> string \<Rightarrow> ProfileValidationError + unit" where
  "validate_preset_text value field =
     (if is_blank value \<or> length value > MAX_TRANSLATION_PRESET_TEXT_BYTES \<or>
         list_ex is_control (chars value)
      then Err (InvalidField field)
      else if looks_like_credential value then Err (CredentialLikeValue field)
      else Ok ())"

definition TranslationPreset_validate :: "TranslationPreset \<Rightarrow> ProfileValidationError + unit" where
  "TranslationPreset_validate p =
     (if \<not> is_stable_identifier (preset_id p) then Err (InvalidField ''preset_id'')
      else try_each (\<lambda>(field, value).
             case value of None \<Rightarrow> Ok () | Some v \<Rightarrow> validate_preset_text v field)
           [(''preset_domain'', preset_domain p), (''preset_tone'', tone p),
            (''preset_formality'', formality p),
            (''preset_intended_audience'', intended_audience p),
            (''preset_regional_locale'', regional_locale p), (''preset_script'', script p),
            (''preset_custom_context'', custom_context p),
            (''preset_custom_instructions'', custom_instructions p)])"

section \<open>Requests\<close>

datatype TranslationPrivacyMode = Standard | Incognito
datatype TranslationQualityMode = Fast | Balanced | Best

fun quality_as_str :: "TranslationQualityMode \<Rightarrow> string" where
  "quality_as_str Fast = ''fast''"
| "quality_as_str Balanced = ''balanced''"
| "quality_as_str Best = ''best''"

text \<open>The operation and correlation identifiers are random UUIDs, arguments of the constructor.\<close>

record TranslationRequest =
  operation_id :: string
  correlation_id :: string
  source_text :: string
  request_source_locale :: "string option"
  request_target_locale :: string
  request_model_id :: string
  provider_identity :: "string option"
  glossary :: "Glossary option"
  max_chunk_bytes :: "nat option"
  privacy_mode :: TranslationPrivacyMode
  quality_mode :: TranslationQualityMode
  preset :: TranslationPreset

definition TranslationRequest_new ::
  "string \<Rightarrow> string \<Rightarrow> string \<Rightarrow> string \<Rightarrow> string \<Rightarrow> TranslationRequest" where
  "TranslationRequest_new op corr src target model =
     \<lparr>operation_id = op, correlation_id = corr, source_text = src,
      request_source_locale = None, request_target_locale = target, request_model_id = model,
      provider_identity = None, glossary = None, max_chunk_bytes = None,
      privacy_mode = Standard, quality_mode = Balanced, preset = preset_general\<rparr>"

definition request_validate :: "TranslationRequest \<Rightarrow> TranslationError + unit" where
  "request_validate r =
     map_err (\<lambda>e. TranslationError_new InvalidConfiguration (profile_error_message e))
       (TranslationPreset_validate (preset r))"

definition is_incognito :: "TranslationRequest \<Rightarrow> bool" where
  "is_incognito r \<longleftrightarrow> privacy_mode r = Incognito"

section \<open>Usage\<close>

datatype UsageSource = ProviderReported | LocallyEstimated | UnknownUsage

record UsageRecord =
  usage_source :: UsageSource
  input_tokens :: "u64 option"
  output_tokens :: "u64 option"
  total_tokens :: "u64 option"

definition MAX_USAGE_TOKENS :: u64 where "MAX_USAGE_TOKENS = 16777216"

text \<open>\<open>u64::saturating_add\<close> and \<open>u64::try_from(usize).unwrap_or(u64::MAX)\<close>.\<close>

definition saturating_add :: "u64 \<Rightarrow> u64 \<Rightarrow> u64" where
  "saturating_add a b = (if unat a + unat b < 2 ^ 64 then a + b else - 1)"

definition u64_from_usize :: "nat \<Rightarrow> u64" where
  "u64_from_usize n = (if n < 2 ^ 64 then of_nat n else - 1)"

definition cap_usage_tokens :: "u64 option \<Rightarrow> u64 option" where
  "cap_usage_tokens v = (case v of
       Some x \<Rightarrow> Some (if x > MAX_USAGE_TOKENS then MAX_USAGE_TOKENS else x)
     | None \<Rightarrow> None)"

definition approximate_token_count :: "string \<Rightarrow> u64" where
  "approximate_token_count s =
     min (saturating_add (u64_from_usize (length s)) 3 div 4) MAX_USAGE_TOKENS"

definition usage_unknown :: UsageRecord where
  "usage_unknown = \<lparr>usage_source = UnknownUsage, input_tokens = None, output_tokens = None,
     total_tokens = None\<rparr>"

definition provider_reported :: "u64 option \<Rightarrow> u64 option \<Rightarrow> u64 option \<Rightarrow> UsageRecord" where
  "provider_reported i out t = \<lparr>usage_source = ProviderReported, input_tokens = cap_usage_tokens i,
     output_tokens = cap_usage_tokens out, total_tokens = cap_usage_tokens t\<rparr>"

definition locally_estimated :: "string \<Rightarrow> string \<Rightarrow> UsageRecord" where
  "locally_estimated input outp =
     (let i = approximate_token_count input; o' = approximate_token_count outp in
      \<lparr>usage_source = LocallyEstimated, input_tokens = Some i, output_tokens = Some o',
       total_tokens = Some (min (saturating_add i o') MAX_USAGE_TOKENS)\<rparr>)"

section \<open>Events\<close>

datatype TranslationEvent =
    Started u64
  | TextDelta u64 string
  | Completed u64 "UsageRecord option"
  | Cancelled u64
  | Failed u64 TranslationError

fun sequence :: "TranslationEvent \<Rightarrow> u64" where
  "sequence (Started n) = n"
| "sequence (TextDelta n t) = n"
| "sequence (Completed n u) = n"
| "sequence (Cancelled n) = n"
| "sequence (Failed n e) = n"

fun is_terminal :: "TranslationEvent \<Rightarrow> bool" where
  "is_terminal (Completed n u) \<longleftrightarrow> True"
| "is_terminal (Cancelled n) \<longleftrightarrow> True"
| "is_terminal (Failed n e) \<longleftrightarrow> True"
| "is_terminal _ \<longleftrightarrow> False"

section \<open>Bounds\<close>

lemma cap_usage_tokens_le: "cap_usage_tokens v = Some x \<Longrightarrow> x \<le> MAX_USAGE_TOKENS"
  by (auto simp: cap_usage_tokens_def split: option.splits if_splits)

lemma approximate_token_count_le: "approximate_token_count s \<le> MAX_USAGE_TOKENS"
  by (simp add: approximate_token_count_def)

lemma unat_MAX_USAGE_TOKENS: "unat MAX_USAGE_TOKENS = 16777216"
  by (simp add: MAX_USAGE_TOKENS_def)

lemma unat_u64_max: "unat (- 1 :: u64) = 2 ^ 64 - 1"
  by (simp add: unsigned_minus_1_eq_mask mask_eq_exp_minus_1)

lemma unat_approximate_token_count:
  "unat (approximate_token_count s) = min ((length s + 3) div 4) 16777216"
proof (cases "length s + 3 < 2 ^ 64")
  case True
  then have l: "unat (u64_from_usize (length s)) = length s"
    by (simp add: u64_from_usize_def unat_of_nat)
  with True have "unat (saturating_add (u64_from_usize (length s)) 3) = length s + 3"
    by (simp add: saturating_add_def unat_word_ariths)
  then show ?thesis
    by (simp add: approximate_token_count_def min_def word_le_nat_alt unat_div unat_MAX_USAGE_TOKENS)
next
  case False
  have "saturating_add (u64_from_usize (length s)) 3 = - 1 \<or>
      unat (saturating_add (u64_from_usize (length s)) 3) \<ge> 2 ^ 64 - 1"
  proof (cases "length s < 2 ^ 64")
    case True
    with False show ?thesis
      by (simp add: saturating_add_def u64_from_usize_def unat_of_nat)
  next
    case F: False
    have "unat (- 1 :: u64) + unat (3 :: u64) \<ge> 2 ^ 64" by (simp add: unat_u64_max)
    with F show ?thesis by (simp add: saturating_add_def u64_from_usize_def)
  qed
  then have "unat (saturating_add (u64_from_usize (length s)) 3) = 2 ^ 64 - 1"
    using unsigned_less [of "saturating_add (u64_from_usize (length s)) 3", where 'a = nat]
    by (auto simp: unat_u64_max)
  then show ?thesis
    using False
    by (simp add: approximate_token_count_def min_def word_le_nat_alt unat_div unat_MAX_USAGE_TOKENS)
qed



end
