(* ===== verification/Engine.thy ===== *)
theory Engine
  imports Translation
begin

text \<open>
  \<open>crates/linguamesh-engine/src/lib.rs\<close>: the worker of \<open>translate_with_sequence_offset\<close> and the
  bounded channel that carries its events to the client. The provider is a trait object; what
  its stream yields is an argument. The worker is a function from the provider's behaviour to
  the events it sends, one definition for each part of the source's task; the channel with its
  capacity, the client's receives, its disappearance and its cancellation are a step relation.
\<close>

section \<open>The worker\<close>

datatype TranslationStreamEvent = StreamText string | StreamUsage UsageRecord

text \<open>
  What a provider does with a request: it refuses it, or it yields items, each a value or an
  error, until its stream ends.
\<close>

type_synonym provider_run = "TranslationError + (TranslationError + TranslationStreamEvent) list"

definition EVENT_CAPACITY :: nat where "EVENT_CAPACITY = 32"

definition merge_usage_records :: "UsageRecord \<Rightarrow> UsageRecord \<Rightarrow> UsageRecord" where
  "merge_usage_records previous next_rec =
     provider_reported
       (case input_tokens next_rec of None \<Rightarrow> input_tokens previous | Some x \<Rightarrow> Some x)
       (case output_tokens next_rec of None \<Rightarrow> output_tokens previous | Some x \<Rightarrow> Some x)
       (case total_tokens next_rec of None \<Rightarrow> total_tokens previous | Some x \<Rightarrow> Some x)"

definition replacement_character :: string where
  "replacement_character = [CHR 0xEF, CHR 0xBF, CHR 0xBD]"

definition validate_translation_output ::
  "TranslationRequest \<Rightarrow> string \<Rightarrow> TranslationError + unit" where
  "validate_translation_output r outp =
     (if is_blank (source_text r) then Ok ()
      else if is_blank outp
      then Err (TranslationError_new MalformedResponse ''Provider returned an empty translation.'')
      else if contains outp replacement_character
      then Err (TranslationError_new MalformedResponse
                  ''Provider returned invalid UTF-8 replacement characters.'')
      else Ok ())"

definition error_terminal :: "u64 \<Rightarrow> TranslationError \<Rightarrow> TranslationEvent" where
  "error_terminal n e = (if error_kind e = CancelledKind then Cancelled n else Failed n e)"

text \<open>The end of the task, after the provider's stream has ended.\<close>

definition finish_events ::
  "TranslationRequest \<Rightarrow> u64 \<Rightarrow> string \<Rightarrow> UsageRecord option \<Rightarrow> TranslationEvent list" where
  "finish_events r n outp usage =
     (case validate_translation_output r outp of
        Err e \<Rightarrow> [error_terminal n e]
      | Ok _ \<Rightarrow>
          [Completed n (case usage of Some u \<Rightarrow> Some u
             | None \<Rightarrow> Some (locally_estimated (source_text r) outp))])"

fun stream_events ::
  "TranslationRequest \<Rightarrow> u64 \<Rightarrow> string \<Rightarrow> UsageRecord option \<Rightarrow>
     (TranslationError + TranslationStreamEvent) list \<Rightarrow> TranslationEvent list" where
  "stream_events r n outp usage [] = finish_events r n outp usage"
| "stream_events r n outp usage (Inr (StreamText t) # items) =
     TextDelta n t # stream_events r (n + 1) (outp @ t) usage items"
| "stream_events r n outp usage (Inr (StreamUsage u) # items) =
     stream_events r n outp
       (Some (case usage of Some previous \<Rightarrow> merge_usage_records previous u | None \<Rightarrow> u)) items"
| "stream_events r n outp usage (Inl e # items) = [error_terminal n e]"

definition translate_with_sequence_offset ::
  "(TranslationRequest \<Rightarrow> provider_run) \<Rightarrow> TranslationRequest \<Rightarrow> u64 \<Rightarrow> TranslationEvent list" where
  "translate_with_sequence_offset provider r offset =
     Started offset #
     (case request_validate r of
        Err e \<Rightarrow> [error_terminal (offset + 1) e]
      | Ok _ \<Rightarrow>
         (case provider r of
            Err e \<Rightarrow> [error_terminal (offset + 1) e]
          | Ok items \<Rightarrow> stream_events r (offset + 1) [] None items))"

definition translate ::
  "(TranslationRequest \<Rightarrow> provider_run) \<Rightarrow> TranslationRequest \<Rightarrow> TranslationEvent list" where
  "translate provider r = translate_with_sequence_offset provider r 0"

section \<open>The channel\<close>

text \<open>
  The worker's events still to send, the channel's queue, what the client has received, whether
  the client still holds the receiver, and the cancellation token.
\<close>

record operation =
  to_send :: "TranslationEvent list"
  queue :: "TranslationEvent list"
  received :: "TranslationEvent list"
  receiver_open :: bool
  cancelled :: bool

definition start_operation :: "TranslationEvent list \<Rightarrow> operation" where
  "start_operation evs = \<lparr>to_send = evs, queue = [], received = [], receiver_open = True,
     cancelled = False\<rparr>"

text \<open>
  A send waits while the queue is full; a send without a receiver fails, and then the worker
  cancels the provider and returns (a failed terminal send is ignored).
\<close>

inductive channel_step :: "operation \<Rightarrow> operation \<Rightarrow> bool" where
  send: "receiver_open s \<Longrightarrow> to_send s = e # es \<Longrightarrow> length (queue s) < EVENT_CAPACITY \<Longrightarrow>
    channel_step s (s\<lparr>to_send := es, queue := queue s @ [e]\<rparr>)"
| send_fails: "\<not> receiver_open s \<Longrightarrow> to_send s = e # es \<Longrightarrow>
    channel_step s (s\<lparr>to_send := [], cancelled := cancelled s \<or> \<not> is_terminal e\<rparr>)"
| next_event: "receiver_open s \<Longrightarrow> queue s = e # es \<Longrightarrow>
    channel_step s (s\<lparr>queue := es, received := received s @ [e]\<rparr>)"
| drop_receiver: "receiver_open s \<Longrightarrow>
    channel_step s (s\<lparr>receiver_open := False, queue := []\<rparr>)"
| cancel: "channel_step s (s\<lparr>cancelled := True\<rparr>)"

inductive_cases channel_stepE: "channel_step s t"

section \<open>The worker's trace\<close>

fun delta_text :: "TranslationEvent \<Rightarrow> string" where
  "delta_text (TextDelta n t) = t"
| "delta_text _ = []"

fun item_text :: "TranslationError + TranslationStreamEvent \<Rightarrow> string" where
  "item_text (Inr (StreamText t)) = t"
| "item_text _ = []"

lemma error_terminal_props [simp]:
  "sequence (error_terminal n e) = n" "is_terminal (error_terminal n e)"
  "delta_text (error_terminal n e) = []" "error_terminal n e \<noteq> Completed m u"
  by (simp_all add: error_terminal_def)

text \<open>A trace: sequence numbers count up, the last event and only the last is terminal.\<close>

definition well_formed_trace :: "u64 \<Rightarrow> TranslationEvent list \<Rightarrow> bool" where
  "well_formed_trace n evs \<longleftrightarrow> evs \<noteq> [] \<and>
     (\<forall>i < length evs. sequence (evs ! i) = n + of_nat i \<and>
        (is_terminal (evs ! i) \<longleftrightarrow> Suc i = length evs))"

lemma well_formed_single: "is_terminal e \<Longrightarrow> sequence e = n \<Longrightarrow> well_formed_trace n [e]"
  by (simp add: well_formed_trace_def)

lemma well_formed_Cons:
  assumes "\<not> is_terminal e" "sequence e = n" "well_formed_trace (n + 1) evs"
  shows "well_formed_trace n (e # evs)"
  using assms unfolding well_formed_trace_def
  by (auto simp: less_Suc_eq_0_disj add.assoc)

lemma finish_events_well_formed: "well_formed_trace n (finish_events r n outp usage)"
  by (auto simp: finish_events_def intro!: well_formed_single split: sum.splits)

lemma stream_events_well_formed: "well_formed_trace n (stream_events r n outp usage items)"
  by (induction r n outp usage items rule: stream_events.induct)
    (auto intro: finish_events_well_formed well_formed_single well_formed_Cons)

lemma translate_well_formed:
  "well_formed_trace offset (translate_with_sequence_offset provider r offset)"
  unfolding translate_with_sequence_offset_def
  by (rule well_formed_Cons)
    (auto split: sum.splits intro: well_formed_single stream_events_well_formed)

text \<open>The texts before the first failure of a provider's stream.\<close>

fun texts_before_error :: "(TranslationError + TranslationStreamEvent) list \<Rightarrow> string" where
  "texts_before_error [] = []"
| "texts_before_error (Inr x # items) = item_text (Inr x) @ texts_before_error items"
| "texts_before_error (Inl e # items) = []"

fun first_error :: "(TranslationError + TranslationStreamEvent) list \<Rightarrow> TranslationError option" where
  "first_error [] = None"
| "first_error (Inr x # items) = first_error items"
| "first_error (Inl e # items) = Some e"

lemma stream_events_completed:
  "last (stream_events r n outp usage items) = Completed m u \<Longrightarrow>
     first_error items = None \<and>
     concat (map delta_text (stream_events r n outp usage items)) = concat (map item_text items) \<and>
     validate_translation_output r (outp @ concat (map item_text items)) = Ok ()"
proof (induction r n outp usage items rule: stream_events.induct)
  case (1 r n outp usage)
  then show ?case by (auto simp: finish_events_def split: sum.splits)
next
  case (2 r n outp usage t items)
  have "stream_events r (n + 1) (outp @ t) usage items \<noteq> []"
    using stream_events_well_formed by (auto simp: well_formed_trace_def)
  with 2 show ?case by simp
next
  case (3 r n outp usage u items)
  then show ?case by simp
next
  case (4 r n outp usage e items)
  then show ?case by simp
qed

lemma stream_events_failed:
  "first_error items = Some e \<Longrightarrow>
     \<exists>m. last (stream_events r n outp usage items) = error_terminal m e \<and>
     concat (map delta_text (stream_events r n outp usage items)) = texts_before_error items"
proof (induction r n outp usage items rule: stream_events.induct)
  case (2 r n outp usage t items)
  have "stream_events r (n + 1) (outp @ t) usage items \<noteq> []"
    using stream_events_well_formed by (auto simp: well_formed_trace_def)
  with 2 show ?case by auto
qed auto

definition demo_request :: TranslationRequest where
  "demo_request = TranslationRequest_new ''op'' ''corr'' ''Hello'' ''fr'' ''m''"

text \<open>
  C8: The lifecycle of every operation, whatever the provider does: the events begin with
  \<open>Started\<close> at the given offset, their sequence numbers count up by one from there, and exactly
  one event is terminal, the last one.
\<close>

theorem translation_event_lifecycle:
  "let evs = translate_with_sequence_offset provider r offset in
   hd evs = Started offset \<and> length evs \<ge> 2 \<and>
   (\<forall>i < length evs. sequence (evs ! i) = offset + of_nat i \<and>
      (is_terminal (evs ! i) \<longleftrightarrow> i + 1 = length evs))"
proof -
  have "hd (translate_with_sequence_offset provider r offset) = Started offset"
    by (simp add: translate_with_sequence_offset_def)
  moreover have "2 \<le> length (translate_with_sequence_offset provider r offset)"
    using stream_events_well_formed
    by (auto simp: translate_with_sequence_offset_def well_formed_trace_def Suc_le_eq split: sum.splits)
  ultimately show ?thesis
    using translate_well_formed [of offset provider r]
    unfolding well_formed_trace_def Let_def by simp
qed

theorem translation_event_lifecycle_witness:
  "let evs = translate_with_sequence_offset (\<lambda>_. Ok [Inr (StreamText ''a'')]) demo_request 7 in
   hd evs = Started 7 \<and> sequence (evs ! 1) = 8"
  using translation_event_lifecycle [of "\<lambda>_. Ok [Inr (StreamText ''a'')]" demo_request 7]
  by (auto simp: Let_def dest!: spec [of _ 1])

text \<open>
  A completed translation is a good one: \<open>Completed\<close> is only sent when the request is valid and
  the provider accepted it and reported no error, the deltas the client saw are together all the
  text the provider produced, and, unless the source is blank, that text is not blank and holds
  no U+FFFD replacement character.
\<close>

lemma completed_translation_is_valid:
  assumes "last (translate_with_sequence_offset provider r offset) = Completed n u"
  shows "request_validate r = Ok () \<and>
    (\<exists>items. provider r = Ok items \<and> first_error items = None \<and>
       concat (map delta_text (translate_with_sequence_offset provider r offset)) =
         concat (map item_text items) \<and>
       (is_blank (source_text r) \<or>
          \<not> is_blank (concat (map item_text items)) \<and>
          \<not> contains (concat (map item_text items)) replacement_character))"
proof -
  from assms obtain items where
    v: "request_validate r = Ok ()" and items: "provider r = Ok items"
    and l: "last (stream_events r (offset + 1) [] None items) = Completed n u"
    using stream_events_well_formed [of "offset + 1" r "[]" None]
    by (auto simp: translate_with_sequence_offset_def well_formed_trace_def split: sum.splits)
  from stream_events_completed [OF l] items v show ?thesis
    by (auto simp: translate_with_sequence_offset_def validate_translation_output_def split: if_splits)
qed

lemma completed_translation_is_valid_witness:
  "last (translate_with_sequence_offset
      (\<lambda>_. Ok [Inr (StreamText ''Bon''), Inr (StreamText ''jour'')]) demo_request 0) =
     Completed 3 (Some (locally_estimated ''Hello'' ''Bonjour'')) \<and>
   request_validate demo_request = Ok ()"
proof -
  have v: "request_validate demo_request = Ok ()" by code_simp
  have "validate_translation_output demo_request ''Bonjour'' = Ok ()" by code_simp
  with v have "last (translate_with_sequence_offset
      (\<lambda>_. Ok [Inr (StreamText ''Bon''), Inr (StreamText ''jour'')]) demo_request 0) =
     Completed 3 (Some (locally_estimated ''Hello'' ''Bonjour''))"
    by (simp add: translate_with_sequence_offset_def finish_events_def)
      (simp add: demo_request_def TranslationRequest_new_def)
  from completed_translation_is_valid [OF this] this show ?thesis by blast
qed

text \<open>
  Partial output is kept when a stream breaks off: if the provider's stream fails at some
  point, the client receives every text that came before, and the terminal event reports that
  failure, as \<open>Cancelled\<close> exactly when the provider reported a cancellation.
\<close>

lemma broken_stream_keeps_partial_output:
  assumes "request_validate r = Ok ()" "provider r = Ok items" "first_error items = Some e"
  shows "\<exists>n. last (translate_with_sequence_offset provider r offset) =
      (if error_kind e = CancelledKind then Cancelled n else Failed n e) \<and>
    concat (map delta_text (translate_with_sequence_offset provider r offset)) =
      texts_before_error items"
proof -
  have "stream_events r (offset + 1) [] None items \<noteq> []"
    using stream_events_well_formed by (auto simp: well_formed_trace_def)
  with stream_events_failed [OF assms(3), of r "offset + 1" "[]" None] assms(1,2) show ?thesis
    by (auto simp: translate_with_sequence_offset_def error_terminal_def)
qed

lemma broken_stream_keeps_partial_output_witness:
  "concat (map delta_text (translate_with_sequence_offset
      (\<lambda>_. Ok [Inr (StreamText ''Bon''), Inl TranslationError_cancelled]) demo_request 0)) = ''Bon''"
proof -
  have v: "request_validate demo_request = Ok ()" by code_simp
  from broken_stream_keeps_partial_output [OF v, of "\<lambda>_. Ok [Inr (StreamText ''Bon''), Inl TranslationError_cancelled]"
      "[Inr (StreamText ''Bon''), Inl TranslationError_cancelled]" TranslationError_cancelled 0]
  show ?thesis by auto
qed

section \<open>The client's view\<close>

definition operation_inv :: "TranslationEvent list \<Rightarrow> operation \<Rightarrow> bool" where
  "operation_inv evs s \<longleftrightarrow> length (queue s) \<le> EVENT_CAPACITY \<and>
     prefix (received s) evs \<and>
     (receiver_open s \<longrightarrow> received s @ queue s @ to_send s = evs)"

lemma operation_inv_step: "channel_step s t \<Longrightarrow> operation_inv evs s \<Longrightarrow> operation_inv evs t"
  by (auto elim!: channel_stepE simp: operation_inv_def prefix_def)

lemma operation_inv_reachable:
  assumes "channel_step\<^sup>*\<^sup>* (start_operation evs) s"
  shows "operation_inv evs s"
  using assms
proof (induction rule: rtranclp_induct)
  case base
  then show ?case by (simp add: operation_inv_def start_operation_def)
next
  case (step y z)
  then show ?case by (blast intro: operation_inv_step)
qed

text \<open>While the client listens and something is left, the operation can move on.\<close>

lemma channel_progress:
  assumes "operation_inv evs s" "receiver_open s" "received s \<noteq> evs"
  shows "\<exists>t. channel_step s t \<and> receiver_open t \<and>
    length (to_send t) * 2 + length (queue t) < length (to_send s) * 2 + length (queue s)"
proof (cases "queue s")
  case (Cons e es)
  from channel_step.next_event [OF assms(2) this] Cons assms(2) show ?thesis
    by (intro exI [of _ "s\<lparr>queue := es, received := received s @ [e]\<rparr>"]) simp
next
  case Nil
  with assms obtain e es where "to_send s = e # es"
    by (cases "to_send s") (auto simp: operation_inv_def)
  with channel_step.send [OF assms(2) this] Nil assms(2) show ?thesis
    by (intro exI [of _ "s\<lparr>to_send := es, queue := queue s @ [e]\<rparr>"]) (simp add: EVENT_CAPACITY_def)
qed

lemma channel_completes:
  assumes "operation_inv evs s" "receiver_open s"
  shows "\<exists>t. channel_step\<^sup>*\<^sup>* s t \<and> receiver_open t \<and> received t = evs"
  using assms
proof (induction "length (to_send s) * 2 + length (queue s)" arbitrary: s rule: less_induct)
  case less
  show ?case
  proof (cases "received s = evs")
    case True
    with less.prems show ?thesis by blast
  next
    case False
    from channel_progress [OF less.prems False] obtain t where
      t: "channel_step s t" "receiver_open t"
        "length (to_send t) * 2 + length (queue t) < length (to_send s) * 2 + length (queue s)" by blast
    from less.hyps [OF t(3) operation_inv_step [OF t(1) less.prems(1)] t(2)] obtain u where
      "channel_step\<^sup>*\<^sup>* t u" "receiver_open u" "received u = evs" by blast
    with t(1) show ?thesis by (blast intro: converse_rtranclp_into_rtranclp)
  qed
qed

text \<open>
  The bounded channel never loses, repeats or reorders events and never holds more than 32:
  in every reachable state of an operation, under any interleaving of the worker, the client's
  receives, a cancellation and the loss of the receiver, what the client has received is a
  prefix of the worker's events, and while the client listens the whole sequence can still be
  delivered.
\<close>

lemma channel_delivers_in_order:
  assumes "channel_step\<^sup>*\<^sup>* (start_operation (translate_with_sequence_offset provider r offset)) s"
  shows "prefix (received s) (translate_with_sequence_offset provider r offset) \<and>
    length (queue s) \<le> 32 \<and>
    (receiver_open s \<longrightarrow> (\<exists>t. channel_step\<^sup>*\<^sup>* s t \<and>
       received t = translate_with_sequence_offset provider r offset))"
  using operation_inv_reachable [OF assms] channel_completes [OF operation_inv_reachable [OF assms]]
  by (auto simp: operation_inv_def EVENT_CAPACITY_def)

lemma channel_delivers_in_order_witness:
  "\<exists>t. channel_step\<^sup>*\<^sup>* (start_operation (translate_with_sequence_offset (\<lambda>_. Ok []) demo_request 0)) t \<and>
     received t = translate_with_sequence_offset (\<lambda>_. Ok []) demo_request 0"
  using channel_delivers_in_order [OF rtranclp.rtrancl_refl, of "\<lambda>_. Ok []" demo_request 0]
  by (simp add: start_operation_def)

end
