(* ===== verification/Protected_Text.thy ===== *)
theory Protected_Text
  imports Glossary
begin

text \<open>
  \<open>crates/linguamesh-domain/src/lib.rs\<close>, protected text: the scanners that find fragments a
  model must not translate (code, placeholders, URLs, e-mail addresses, glossary terms), their
  replacement by opaque markers (\<open>build_protected_source\<close>), and the streaming restorer that puts
  the fragments back into the model's output (\<open>ProtectedTextRestorer\<close>). The Unicode table behind
  \<open>char::is_alphanumeric\<close> is an argument of the definitions that use it.
\<close>

section \<open>Scanners\<close>

text \<open>\<open>str::char_indices\<close>.\<close>

fun char_indices_from :: "nat \<Rightarrow> string list \<Rightarrow> (nat \<times> string) list" where
  "char_indices_from n [] = []"
| "char_indices_from n (c # cs) = (n, c) # char_indices_from (n + length c) cs"

definition char_indices :: "string \<Rightarrow> (nat \<times> string) list" where
  "char_indices s = char_indices_from 0 (chars s)"

abbreviation slice :: "string \<Rightarrow> nat \<Rightarrow> nat \<Rightarrow> string" where
  "slice s i j \<equiv> take (j - i) (drop i s)"

abbreviation fence :: string where "fence \<equiv> [CHR 0x60, CHR 0x60, CHR 0x60]"
abbreviation tick :: string where "tick \<equiv> [CHR 0x60]"

text \<open>The scan loops take the cursor, which moves on by at least the opening delimiter.\<close>

function fenced_loop :: "string \<Rightarrow> nat \<Rightarrow> (nat \<times> nat) list" where
  "fenced_loop source cursor =
     (case str_find fence (drop cursor source) of
        None \<Rightarrow> []
      | Some relative_open \<Rightarrow>
         (let open = cursor + relative_open in
          case str_find fence (drop (open + 3) source) of
            None \<Rightarrow> []
          | Some relative_close \<Rightarrow>
             (let end = open + 3 + relative_close + 3
              in (open, end) # fenced_loop source end)))"
  by pat_completeness auto
termination
proof (relation "measure (\<lambda>(s, c). length s - c)", simp)
  fix source cursor r opn q en
  assume a: "str_find fence (drop cursor source) = Some r" "opn = cursor + r"
    "str_find fence (drop (opn + 3) source) = Some q" "en = opn + 3 + q + 3"
  have "cursor < length source"
    using str_find_SomeD [OF a(1)] by (cases "cursor < length source") auto
  with a show "((source, en), source, cursor) \<in> measure (\<lambda>(s, c). length s - c)" by auto
qed

definition collect_fenced_code_candidates :: "string \<Rightarrow> (nat \<times> nat) list" where
  "collect_fenced_code_candidates source = fenced_loop source 0"

function inline_loop :: "string \<Rightarrow> nat \<Rightarrow> (nat \<times> nat) list" where
  "inline_loop source cursor =
     (case str_find tick (drop cursor source) of
        None \<Rightarrow> []
      | Some relative_open \<Rightarrow>
         (let open = cursor + relative_open in
          if starts_with (drop open source) fence then inline_loop source (open + 3)
          else (case str_find tick (drop (open + 1) source) of
              None \<Rightarrow> []
            | Some relative_close \<Rightarrow>
               (let end = open + 1 + relative_close + 1
                in (open, end) # inline_loop source end))))"
  by pat_completeness auto
termination
proof (relation "measure (\<lambda>(s, c). length s - c)", simp)
  fix source cursor r opn
  assume a: "str_find tick (drop cursor source) = Some r" "opn = cursor + r"
  have "cursor < length source"
    using str_find_SomeD [OF a(1)] by (cases "cursor < length source") auto
  with a show "((source, opn + 3), source, cursor) \<in> measure (\<lambda>(s, c). length s - c)"
    and "\<And>q en. en = opn + 1 + q + 1 \<Longrightarrow>
      ((source, en), source, cursor) \<in> measure (\<lambda>(s, c). length s - c)" by auto
qed

definition collect_inline_code_candidates :: "string \<Rightarrow> (nat \<times> nat) list" where
  "collect_inline_code_candidates source = inline_loop source 0"

declare fenced_loop.simps [simp del] inline_loop.simps [simp del]

definition is_placeholder_body :: "string \<Rightarrow> bool" where
  "is_placeholder_body body \<longleftrightarrow> body \<noteq> [] \<and> length body \<le> 128 \<and>
     list_all (\<lambda>b. is_ascii_alphanumeric b \<or> b \<in> set ''_.-'') body"

definition placeholder_percent_end :: "string \<Rightarrow> nat option" where
  "placeholder_percent_end remainder =
     (if \<not> starts_with remainder ''%'' then None
      else if length remainder > 1 \<and> remainder ! 1 \<in> set ''sduif%@'' then Some 2
      else if starts_with remainder ''%('' then
        (case str_find '')s'' remainder of None \<Rightarrow> None
         | Some close \<Rightarrow> if close > 2 then Some (close + 2) else None)
      else None)"

definition placeholder_end :: "string \<Rightarrow> nat \<Rightarrow> string \<Rightarrow> nat option" where
  "placeholder_end remainder start character =
     (if starts_with remainder ''${'' \<or> starts_with remainder ''{{'' then
        map_option (\<lambda>relative. start + relative + (if starts_with remainder ''{{'' then 2 else 1))
          (str_find (if starts_with remainder ''{{'' then ''}}'' else ''}'') remainder)
      else if character = ''{'' then
        (case str_find ''}'' remainder of None \<Rightarrow> None
         | Some relative \<Rightarrow>
             if is_placeholder_body (slice remainder 1 relative) then Some (start + relative + 1)
             else None)
      else if character = ''%'' then
        map_option (\<lambda>relative. start + relative) (placeholder_percent_end remainder)
      else None)"

definition collect_placeholder_candidates :: "string \<Rightarrow> (nat \<times> nat) list" where
  "collect_placeholder_candidates source =
     concat (map (\<lambda>(start, character).
       case placeholder_end (drop start source) start character of
         None \<Rightarrow> [] | Some end \<Rightarrow> [(start, end)]) (char_indices source))"

definition url_stop :: "string \<Rightarrow> bool" where
  "url_stop c \<longleftrightarrow> is_whitespace c \<or>
     c \<in> {''<'', ''>'', ''['', '']'', ''{'', ''}'', [CHR 0x22]}"

definition url_trailing :: "string \<Rightarrow> bool" where
  "url_trailing c \<longleftrightarrow> c \<in> {''.'', '','', '';'', '':'', ''!'', ''?''}"

text \<open>
  The end of a URL: the characters before the first stop character, less the trailing
  punctuation. The source looks at the last character before \<open>end\<close>, which is a character of
  the URL as long as \<open>end > start\<close>.
\<close>

definition url_end :: "string \<Rightarrow> nat \<Rightarrow> nat" where
  "url_end remainder start =
     (let run = takeWhile (\<lambda>c. \<not> url_stop c) (chars remainder);
          kept = rev (dropWhile url_trailing (rev run))
      in start + length (concat kept))"

definition collect_url_candidates :: "string \<Rightarrow> (nat \<times> nat) list" where
  "collect_url_candidates source =
     concat (map (\<lambda>(start, character).
       let remainder = drop start source in
       if starts_with remainder ''https://'' \<or> starts_with remainder ''http://'' then
         (let end = url_end remainder start in if end > start then [(start, end)] else [])
       else []) (char_indices source))"

definition email_left :: "char \<Rightarrow> bool" where
  "email_left b \<longleftrightarrow> is_ascii_alphanumeric b \<or> b \<in> set ''._+-''"

definition email_right :: "char \<Rightarrow> bool" where
  "email_right b \<longleftrightarrow> is_ascii_alphanumeric b \<or> b \<in> set ''.-_''"

text \<open>Both runs consist of ASCII characters, so they are runs of bytes.\<close>

definition collect_email_candidates :: "string \<Rightarrow> (nat \<times> nat) list" where
  "collect_email_candidates source =
     concat (map (\<lambda>(at, character).
       if character \<noteq> ''@'' then []
       else let start = at - length (takeWhile email_left (rev (take at source)));
                right = takeWhile email_right (drop (at + 1) source);
                end = at + 1 + length right
            in if start < at \<and> CHR ''.'' \<in> set right then [(start, end)] else [])
       (char_indices source))"

section \<open>Glossary terms\<close>

record ProtectedCandidate =
  cand_start :: nat
  cand_end :: nat
  cand_replacement :: string
  cand_priority :: i32

definition locale_matches :: "string option \<Rightarrow> string option \<Rightarrow> bool" where
  "locale_matches configured requested \<longleftrightarrow> configured = None \<or> configured = requested"

definition is_word_character :: "(string \<Rightarrow> bool) \<Rightarrow> string \<Rightarrow> bool" where
  "is_word_character is_alphanumeric c \<longleftrightarrow> is_alphanumeric c \<or> c = ''_''"

definition is_whole_word_match :: "(string \<Rightarrow> bool) \<Rightarrow> string \<Rightarrow> nat \<Rightarrow> nat \<Rightarrow> bool" where
  "is_whole_word_match is_alphanumeric source start end \<longleftrightarrow>
     (let l = chars (take start source); r = chars (drop end source) in
      \<not> (l \<noteq> [] \<and> is_word_character is_alphanumeric (last l)) \<and>
      \<not> (r \<noteq> [] \<and> is_word_character is_alphanumeric (hd r)))"

text \<open>\<open>source.get(start..end)\<close>.\<close>

definition str_get :: "string \<Rightarrow> nat \<Rightarrow> nat \<Rightarrow> string option" where
  "str_get s i j = (if i \<le> j \<and> j \<le> length s \<and> is_char_boundary s i \<and> is_char_boundary s j
     then Some (slice s i j) else None)"

definition entry_candidates ::
  "(string \<Rightarrow> bool) \<Rightarrow> string \<Rightarrow> GlossaryEntry \<Rightarrow> ProtectedCandidate list" where
  "entry_candidates is_alphanumeric source e =
     (let term_length = length (source_term e) in
      if term_length = 0 then []
      else concat (map (\<lambda>(start, _).
        let end = start + term_length in
        case str_get source start end of None \<Rightarrow> []
        | Some candidate \<Rightarrow>
           (let matches = (if case_sensitive e then candidate = source_term e
                           else eq_ignore_ascii_case candidate (source_term e)) in
            if \<not> matches \<or> (whole_word e \<and> \<not> is_whole_word_match is_alphanumeric source start end)
            then []
            else [\<lparr>cand_start = start, cand_end = end,
                   cand_replacement = (if immutable e then candidate else target_term e),
                   cand_priority = priority e\<rparr>])) (char_indices source)))"

definition collect_glossary_candidates ::
  "(string \<Rightarrow> bool) \<Rightarrow> string \<Rightarrow> string option \<Rightarrow> string \<Rightarrow> Glossary \<Rightarrow> ProtectedCandidate list" where
  "collect_glossary_candidates is_alphanumeric source source_locale target_locale g =
     concat (map (entry_candidates is_alphanumeric source)
       (filter (\<lambda>e. enabled e \<and> locale_matches (entry_source_locale e) source_locale \<and>
                    locale_matches (entry_target_locale e) (Some target_locale)) (entries g)))"

section \<open>Markers\<close>

definition PROTECTED_TOKEN_PREFIX :: string where
  "PROTECTED_TOKEN_PREFIX = ''__LINGUAMESH_PROTECTED_''"

definition PROTECTED_TOKEN_SUFFIX :: string where
  "PROTECTED_TOKEN_SUFFIX = ''__''"

record ProtectedSpan =
  token :: string
  span_source :: string
  replacement :: string

record ProtectedSource =
  protected_text :: string
  spans :: "ProtectedSpan list"

definition candidate_le :: "ProtectedCandidate \<Rightarrow> ProtectedCandidate \<Rightarrow> bool" where
  "candidate_le a b \<longleftrightarrow>
     cand_start a < cand_start b \<or>
     cand_start a = cand_start b \<and>
       (sint (cand_priority a) > sint (cand_priority b) \<or>
        cand_priority a = cand_priority b \<and>
          cand_end b - cand_start b \<le> cand_end a - cand_start a)"

text \<open>The greedy selection; the second argument is the end of the last selected candidate.\<close>

fun select_candidates :: "ProtectedCandidate list \<Rightarrow> nat \<Rightarrow> ProtectedCandidate list" where
  "select_candidates [] last_end = []"
| "select_candidates (c # cs) last_end =
     (if cand_start c < cand_end c \<and> last_end \<le> cand_start c
      then c # select_candidates cs (cand_end c)
      else select_candidates cs last_end)"

function unused_token :: "string \<Rightarrow> string \<Rightarrow> string" where
  "unused_token source tok = (if contains source tok then unused_token source (tok @ ''_'') else tok)"
  by pat_completeness auto
termination
proof (relation "measure (\<lambda>(s, t). Suc (length s) - length t)", simp)
  fix source tok
  assume "contains source tok"
  then show "((source, tok @ ''_''), source, tok) \<in> measure (\<lambda>(s, t). Suc (length s) - length t)"
    by (auto simp: contains_iff)
qed

declare unused_token.simps [simp del]

definition marker_token :: "string \<Rightarrow> nat \<Rightarrow> string" where
  "marker_token source index =
     unused_token source (PROTECTED_TOKEN_PREFIX @ nat_to_string index @ PROTECTED_TOKEN_SUFFIX)"

text \<open>The last loop: the protected text and the spans from \<open>cursor\<close> on.\<close>

fun emit_protected ::
  "string \<Rightarrow> nat \<Rightarrow> nat \<Rightarrow> ProtectedCandidate list \<Rightarrow> string \<times> ProtectedSpan list" where
  "emit_protected source cursor index [] = (drop cursor source, [])"
| "emit_protected source cursor index (c # cs) =
     (let tok = marker_token source index;
          (rest, sps) = emit_protected source (cand_end c) (index + 1) cs
      in (slice source cursor (cand_start c) @ tok @ rest,
          \<lparr>token = tok, span_source = slice source (cand_start c) (cand_end c),
           replacement = cand_replacement c\<rparr> # sps))"

definition automatic_candidates :: "string \<Rightarrow> ProtectedCandidate list" where
  "automatic_candidates source =
     map (\<lambda>(start, end). \<lparr>cand_start = start, cand_end = end,
            cand_replacement = slice source start end, cand_priority = word_of_int (- (2 ^ 31))\<rparr>)
       (collect_fenced_code_candidates source @ collect_inline_code_candidates source @
        collect_placeholder_candidates source @ collect_url_candidates source @
        collect_email_candidates source)"

definition selected_candidates ::
  "(string \<Rightarrow> bool) \<Rightarrow> string \<Rightarrow> string option \<Rightarrow> string option \<Rightarrow> Glossary option \<Rightarrow>
     ProtectedCandidate list" where
  "selected_candidates is_alphanumeric source source_locale target_locale g =
     select_candidates
       (sort_by candidate_le
         (automatic_candidates source @
          (case (target_locale, g) of
             (Some t, Some gl) \<Rightarrow> collect_glossary_candidates is_alphanumeric source source_locale t gl
           | _ \<Rightarrow> []))) 0"

definition build_protected_source ::
  "(string \<Rightarrow> bool) \<Rightarrow> string \<Rightarrow> string option \<Rightarrow> string option \<Rightarrow> Glossary option \<Rightarrow>
     GlossaryError + ProtectedSource" where
  "build_protected_source is_alphanumeric source source_locale target_locale g =
     and_then (case g of None \<Rightarrow> Ok () | Some gl \<Rightarrow> Glossary_validate gl) (\<lambda>_.
     let (text, sps) = emit_protected source 0 0
           (selected_candidates is_alphanumeric source source_locale target_locale g)
     in Ok \<lparr>protected_text = text, spans = sps\<rparr>)"

definition protect_source_text_with_glossary ::
  "(string \<Rightarrow> bool) \<Rightarrow> string \<Rightarrow> string option \<Rightarrow> string \<Rightarrow> Glossary option \<Rightarrow>
     GlossaryError + ProtectedSource" where
  "protect_source_text_with_glossary is_alphanumeric source source_locale target_locale g =
     build_protected_source is_alphanumeric source source_locale (Some target_locale) g"

text \<open>Without a glossary no word boundary is looked at; \<open>expect\<close> is a panic, here \<^const>\<open>None\<close>.\<close>

definition protect_source_text :: "string \<Rightarrow> ProtectedSource option" where
  "protect_source_text source =
     (case build_protected_source (\<lambda>_. False) source None None None of
        Err e \<Rightarrow> None | Ok p \<Rightarrow> Some p)"

section \<open>The restorer\<close>

text \<open>\<open>RestorerPanic\<close> stands for the panic of \<open>seen[index]\<close> with an index out of range.\<close>

datatype ProtectedTextError = DuplicateMarker | MissingMarker | InvalidMarker | RestorerPanic

record ProtectedTextRestorer =
  rest_spans :: "ProtectedSpan list"
  pending :: string
  seen :: "bool list"

definition restorer :: "ProtectedSource \<Rightarrow> ProtectedTextRestorer" where
  "restorer p = \<lparr>rest_spans = spans p, pending = [], seen = replicate (length (spans p)) False\<rparr>"

definition append_plain_text :: "string \<Rightarrow> string \<Rightarrow> ProtectedTextError + string" where
  "append_plain_text output plain =
     (if contains plain PROTECTED_TOKEN_PREFIX then Err InvalidMarker else Ok (output @ plain))"

text \<open>The largest \<open>sz\<close> for which the first \<open>sz\<close> bytes of the token end the text.\<close>

fun token_overlap :: "string \<Rightarrow> string \<Rightarrow> nat \<Rightarrow> nat option" where
  "token_overlap text tok 0 = None"
| "token_overlap text tok (Suc sz) =
     (if ends_with text (take (Suc sz) tok) then Some (Suc sz) else token_overlap text tok sz)"

fun longest_marker_prefix_suffix :: "string \<Rightarrow> ProtectedSpan list \<Rightarrow> nat" where
  "longest_marker_prefix_suffix text [] = 0"
| "longest_marker_prefix_suffix text (sp # sps) =
     (case token_overlap text (token sp) (min (length (token sp)) (length text)) of
        Some sz \<Rightarrow> sz
      | None \<Rightarrow> longest_marker_prefix_suffix text sps)"

text \<open>\<open>min_by_key\<close> returns the first of several minimal elements.\<close>

fun min_by_fst :: "(nat \<times> nat) list \<Rightarrow> (nat \<times> nat) option" where
  "min_by_fst [] = None"
| "min_by_fst (p # ps) = (case min_by_fst ps of None \<Rightarrow> Some p
     | Some q \<Rightarrow> if fst p \<le> fst q then Some p else Some q)"

definition marker_positions :: "string \<Rightarrow> ProtectedSpan list \<Rightarrow> (nat \<times> nat) list" where
  "marker_positions text sps = concat (map (\<lambda>(index, sp).
     case str_find (token sp) text of None \<Rightarrow> [] | Some position \<Rightarrow> [(position, index)])
     (enumerate 0 sps))"

definition next_marker :: "string \<Rightarrow> ProtectedSpan list \<Rightarrow> (nat \<times> nat) option" where
  "next_marker text sps = min_by_fst (marker_positions text sps)"

function push_loop ::
  "ProtectedSpan list \<Rightarrow> string \<Rightarrow> bool list \<Rightarrow> string \<Rightarrow>
     ProtectedTextError + (string \<times> string \<times> bool list)" where
  "push_loop sps pend was_seen output =
     (case next_marker pend sps of
        None \<Rightarrow>
         (let keep = longest_marker_prefix_suffix pend sps;
              split = length pend - keep in
          and_then (append_plain_text output (take split pend)) (\<lambda>out.
          Ok (out, drop split pend, was_seen)))
      | Some (position, index) \<Rightarrow>
         (if index \<ge> length was_seen then Err RestorerPanic
          else if was_seen ! index then Err DuplicateMarker
          else and_then (append_plain_text output (take position pend)) (\<lambda>out.
               push_loop sps (drop (position + length (token (sps ! index))) pend)
                 (was_seen[index := True]) (out @ replacement (sps ! index)))))"
  by pat_completeness auto
termination
proof (relation "measure (\<lambda>(_, _, ws, _). length (filter Not ws))", simp)
  fix sps :: "ProtectedSpan list" and pend out a :: string and was_seen p i
  assume "\<not> length (was_seen :: bool list) \<le> i" "\<not> was_seen ! i"
  then have "count_list (was_seen[i := True]) False < count_list was_seen False"
    by (induction was_seen arbitrary: i) (auto simp: nth_Cons' split: if_splits nat.splits)
  moreover have "length (filter Not xs) = count_list xs False" for xs by (induction xs) auto
  ultimately show "((sps, drop (p + length (token (sps ! i))) pend, was_seen[i := True], a),
      sps, pend, was_seen, out) \<in> measure (\<lambda>(_, _, ws, _). length (filter Not ws))"
    by simp
qed

declare push_loop.simps [simp del]

definition push ::
  "ProtectedTextRestorer \<Rightarrow> string \<Rightarrow> ProtectedTextError + (string \<times> ProtectedTextRestorer)" where
  "push r delta =
     (let pend = pending r @ delta in
      if rest_spans r = [] then Ok (pend, r\<lparr>pending := []\<rparr>)
      else and_then (push_loop (rest_spans r) pend (seen r) []) (\<lambda>(out, pend', seen').
           Ok (out, r\<lparr>pending := pend', seen := seen'\<rparr>)))"

definition finish ::
  "ProtectedTextRestorer \<Rightarrow> ProtectedTextError + (string \<times> ProtectedTextRestorer)" where
  "finish r =
     and_then (push r []) (\<lambda>(output, r1).
     and_then (if pending r1 = [] then Ok output else append_plain_text output (pending r1)) (\<lambda>out.
     if list_ex Not (seen r1) then Err MissingMarker
     else Ok (out, r1\<lparr>pending := []\<rparr>)))"

text \<open>A client's use of the restorer: every delta in turn, then \<open>finish\<close>.\<close>

fun restore_stream ::
  "ProtectedTextRestorer \<Rightarrow> string list \<Rightarrow> ProtectedTextError + string" where
  "restore_stream r [] = and_then (finish r) (\<lambda>(out, _). Ok out)"
| "restore_stream r (d # ds) =
     and_then (push r d) (\<lambda>(out, r'). and_then (restore_stream r' ds) (\<lambda>rest. Ok (out @ rest)))"

lemma char_indices_from_mem:
  "(n, c) \<in> set (char_indices_from m cs) \<Longrightarrow>
     \<exists>a b. cs = a @ c # b \<and> n = m + length (concat a)"
proof (induction m cs rule: char_indices_from.induct)
  case (1 m)
  then show ?case by simp
next
  case (2 m d cs)
  show ?case
  proof (cases "(n, c) = (m, d)")
    case True
    then show ?thesis by (intro exI [of _ "[]"] exI [of _ cs]) simp
  next
    case False
    with 2 obtain a b where "cs = a @ c # b" "n = m + length d + length (concat a)" by auto
    then show ?thesis by (intro exI [of _ "d # a"] exI [of _ b]) simp
  qed
qed

end
