(* ===== verification/Provider_Stream.thy ===== *)
theory Provider_Stream
  imports Engine Protected_Text Provider_Api
begin

text \<open>
  How the provider adapters (\<open>crates/linguamesh-provider-openai\<close>, \<open>-anthropic\<close>, \<open>-gemini\<close>, \<open>-ollama\<close>) turn the bytes of a
  streamed response into text: cutting the bytes into events or lines, reading an event, and the loop
  of \<open>translate_protected_stream\<close> that feeds the deltas to the restorer. The three event-stream crates have
  the same framing code. \<open>serde_json\<close> is the record \<open>wire_json\<close>, and the network is a list of what
  the response body yields.
\<close>

section \<open>Framing\<close>

definition find_event_boundary :: "string \<Rightarrow> (nat \<times> nat) option" where
  "find_event_boundary buffer = (case str_find [lf, lf] buffer of
       Some position \<Rightarrow> Some (position, 2)
     | None \<Rightarrow> map_option (\<lambda>position. (position, 4)) (str_find [cr, lf, cr, lf] buffer))"

lemma find_event_boundary_bounds: "find_event_boundary b = Some (p, d) \<Longrightarrow> 0 < d \<and> p + d \<le> length b"
  by (auto simp: find_event_boundary_def split: option.splits dest!: str_find_SomeD prefix_length_le)

text \<open>The loop of \<open>SseDecoder::push\<close>: the messages of the complete events, and the rest of the buffer.\<close>

function sse_drain :: "(string \<Rightarrow> TranslationError + 'm option) \<Rightarrow> string \<Rightarrow> TranslationError + ('m list \<times> string)" where
  "sse_drain parse buffer = (case find_event_boundary buffer of
       None \<Rightarrow> Ok ([], buffer)
     | Some (position, delimiter_len) \<Rightarrow>
         and_then (parse (take position buffer)) (\<lambda>message.
         and_then (sse_drain parse (drop (position + delimiter_len) buffer)) (\<lambda>(ms, rest).
           Ok ((case message of None \<Rightarrow> ms | Some m \<Rightarrow> m # ms), rest))))"
  by pat_completeness auto
termination
  by (relation "measure (length \<circ> snd)") (auto dest!: find_event_boundary_bounds)

declare sse_drain.simps [simp del]

definition sse_push :: "(string \<Rightarrow> TranslationError + 'm option) \<Rightarrow> string \<Rightarrow> string \<Rightarrow> TranslationError + ('m list \<times> string)" where
  "sse_push parse buffer chunk = sse_drain parse (buffer @ chunk)"

section \<open>Events\<close>

text \<open>\<open>str::lines\<close>: without the line ends, and without an empty last line; a carriage return at the very end stays.\<close>

definition str_lines :: "string \<Rightarrow> string list" where
  "str_lines s = (let ls = split_char lf s in
     map (\<lambda>l. if suffix [cr] l then butlast l else l) (butlast ls) @ (if last ls = [] then [] else [last ls]))"

definition malformed :: "string \<Rightarrow> TranslationError" where
  "malformed msg = TranslationError_new MalformedResponse msg"

definition event_data :: "string \<Rightarrow> TranslationError + string" where
  "event_data event = and_then (ok_or (malformed ''Provider stream contained invalid UTF-8.'') (from_utf8 event)) (\<lambda>text.
     Ok (join [lf] (map (\<lambda>l. trim_start (drop 5 l)) (filter (prefix ''data:'') (str_lines text)))))"

record UsageResponse =
  reported_input :: "u64 option"
  reported_output :: "u64 option"
  reported_total :: "u64 option"

definition into_record :: "UsageResponse \<Rightarrow> UsageRecord" where
  "into_record u = provider_reported (reported_input u) (reported_output u) (reported_total u)"

datatype SseMessage = Delta string | DeltaAndDone string | DeltaAndUsageAndDone string UsageRecord
  | Usage UsageRecord | UsageAndDone UsageRecord | Done

record ChatResponse =
  chat_choices :: "string option list"
  chat_usage :: "UsageResponse option"

record ResponsesEvent =
  responses_type :: string
  responses_delta :: "string option"
  responses_usage :: "UsageResponse option"

record AnthropicEvent =
  anthropic_type :: string
  anthropic_delta :: "(string \<times> string option) option"
  anthropic_message_usage :: "UsageResponse option"
  anthropic_usage :: "UsageResponse option"

record GeminiCandidate =
  candidate_parts :: "string option list option"
  candidate_finish_reason :: "string option"

record GeminiResponse =
  gemini_candidates :: "GeminiCandidate list"
  gemini_usage :: "UsageResponse option"

record OllamaResponse =
  ollama_content :: "string option"
  ollama_done :: bool
  ollama_prompt_eval_count :: "u64 option"
  ollama_eval_count :: "u64 option"

text \<open>Deserialization of the four wire formats.\<close>

record wire_json =
  chat_from_str :: "string \<Rightarrow> ChatResponse option"
  responses_from_str :: "string \<Rightarrow> ResponsesEvent option"
  anthropic_from_str :: "string \<Rightarrow> AnthropicEvent option"
  gemini_from_str :: "string \<Rightarrow> GeminiResponse option"
  ollama_from_slice :: "string \<Rightarrow> OllamaResponse option"

definition parse_event :: "wire_json \<Rightarrow> string \<Rightarrow> TranslationError + SseMessage option" where
  "parse_event wj event = and_then (event_data event) (\<lambda>data.
     if data = [] then Ok None
     else if data = ''[DONE]'' then Ok (Some Done)
     else and_then (ok_or (malformed ''Provider stream contained malformed JSON.'') (chat_from_str wj data)) (\<lambda>response.
       case chat_usage response of
         Some usage \<Rightarrow> Ok (Some (Usage (into_record usage)))
       | None \<Rightarrow> Ok (Some (Delta (case chat_choices response of
             Some content # _ \<Rightarrow> content
           | _ \<Rightarrow> [])))))"

definition parse_responses_event :: "wire_json \<Rightarrow> string \<Rightarrow> TranslationError + SseMessage option" where
  "parse_responses_event wj event = and_then (event_data event) (\<lambda>data.
     if data = [] then Ok None
     else and_then (ok_or (malformed ''Provider Responses stream contained malformed JSON.'') (responses_from_str wj data)) (\<lambda>response.
       if responses_type response = ''response.output_text.delta'' then
         Ok (Some (Delta (case responses_delta response of None \<Rightarrow> [] | Some text \<Rightarrow> text)))
       else if responses_type response = ''response.completed'' then
         Ok (Some (case responses_usage response of
             Some usage \<Rightarrow> UsageAndDone (into_record usage)
           | None \<Rightarrow> Done))
       else if responses_type response = ''error'' \<or> responses_type response = ''response.failed'' then
         Err (TranslationError_new Network ''Provider Responses stream reported an error.'')
       else Ok None))"

definition parse_anthropic_event :: "wire_json \<Rightarrow> string \<Rightarrow> TranslationError + SseMessage option" where
  "parse_anthropic_event wj event = and_then (event_data event) (\<lambda>data.
     if data = [] then Ok None
     else and_then (ok_or (malformed ''Provider stream contained malformed JSON.'') (anthropic_from_str wj data)) (\<lambda>response.
       case (case anthropic_message_usage response of Some u \<Rightarrow> Some u | None \<Rightarrow> anthropic_usage response) of
         Some usage \<Rightarrow> Ok (Some (Usage (into_record usage)))
       | None \<Rightarrow>
           if anthropic_type response = ''message_stop'' then Ok (Some Done)
           else if anthropic_type response = ''content_block_delta'' then
             (case anthropic_delta response of
                Some (delta_type, text) \<Rightarrow>
                  if delta_type = ''text_delta'' then Ok (Some (Delta (case text of None \<Rightarrow> [] | Some t \<Rightarrow> t)))
                  else Ok None
              | None \<Rightarrow> Ok None)
           else Ok None))"

definition gemini_text :: "GeminiResponse \<Rightarrow> string" where
  "gemini_text response = concat (map (\<lambda>part. case part of None \<Rightarrow> [] | Some text \<Rightarrow> text)
     (concat (map (\<lambda>c. case candidate_parts c of None \<Rightarrow> [] | Some parts \<Rightarrow> parts) (gemini_candidates response))))"

definition parse_gemini_event :: "wire_json \<Rightarrow> string \<Rightarrow> TranslationError + SseMessage option" where
  "parse_gemini_event wj event = and_then (event_data event) (\<lambda>data.
     if data = [] then Ok None
     else and_then (ok_or (malformed ''Provider stream contained malformed JSON.'') (gemini_from_str wj data)) (\<lambda>response.
       let outp = gemini_text response;
           finished = list_ex (\<lambda>c. candidate_finish_reason c \<noteq> None) (gemini_candidates response);
           plain = (if finished then (if outp = [] then Done else DeltaAndDone outp) else Delta outp) in
       case gemini_usage response of
         Some usage \<Rightarrow>
           Ok (Some (if finished then
                (if outp = [] then UsageAndDone (into_record usage) else DeltaAndUsageAndDone outp (into_record usage))
              else if outp = [] then Usage (into_record usage)
              else plain))
       | None \<Rightarrow> Ok (Some plain)))"

section \<open>Lines of Ollama\<close>

record OllamaStreamMessage =
  stream_content :: "string option"
  stream_usage :: "UsageRecord option"
  stream_done :: bool

definition parse_line :: "wire_json \<Rightarrow> string \<Rightarrow> TranslationError + OllamaStreamMessage" where
  "parse_line wj line = and_then (ok_or (malformed ''Provider stream contained malformed JSON.'') (ollama_from_slice wj line)) (\<lambda>response.
     Ok \<lparr>stream_content = ollama_content response,
         stream_usage = (if ollama_done response then Some (provider_reported (ollama_prompt_eval_count response)
             (ollama_eval_count response)
             (case (ollama_prompt_eval_count response, ollama_eval_count response) of
                (Some inp, Some outp) \<Rightarrow> Some (saturating_add inp outp)
              | _ \<Rightarrow> None)) else None),
         stream_done = ollama_done response\<rparr>)"

definition ascii_whitespace :: "char \<Rightarrow> bool" where
  "ascii_whitespace b \<longleftrightarrow> b \<in> {CHR 0x20, CHR 0x09, CHR 0x0A, CHR 0x0C, CHR 0x0D}"

definition read_line :: "wire_json \<Rightarrow> string \<Rightarrow> TranslationError + OllamaStreamMessage list" where
  "read_line wj raw =
     (let line = (if suffix [cr] raw then butlast raw else raw) in
      if list_all ascii_whitespace line then Ok [] else and_then (parse_line wj line) (\<lambda>m. Ok [m]))"

text \<open>\<open>line\<close> is the part of the buffer before the next line feed.\<close>

fun drain_lines_loop :: "wire_json \<Rightarrow> bool \<Rightarrow> string \<Rightarrow> string \<Rightarrow> TranslationError + (OllamaStreamMessage list \<times> string)" where
  "drain_lines_loop wj final_line line [] =
     (if \<not> final_line then Ok ([], line)
      else if line = [] then Ok ([], [])
      else and_then (parse_line wj line) (\<lambda>m. Ok ([m], [])))"
| "drain_lines_loop wj final_line line (b # bs) =
     (if b = lf then
        and_then (read_line wj line) (\<lambda>ms.
        and_then (drain_lines_loop wj final_line [] bs) (\<lambda>(ms', rest). Ok (ms @ ms', rest)))
      else drain_lines_loop wj final_line (line @ [b]) bs)"

definition drain_lines :: "wire_json \<Rightarrow> bool \<Rightarrow> string \<Rightarrow> TranslationError + (OllamaStreamMessage list \<times> string)" where
  "drain_lines wj final_line buffer = drain_lines_loop wj final_line [] buffer"

definition ndjson_push :: "wire_json \<Rightarrow> string \<Rightarrow> string \<Rightarrow> TranslationError + (OllamaStreamMessage list \<times> string)" where
  "ndjson_push wj buffer chunk = drain_lines wj False (buffer @ chunk)"

definition ndjson_finish :: "wire_json \<Rightarrow> string \<Rightarrow> TranslationError + OllamaStreamMessage list" where
  "ndjson_finish wj buffer = and_then (drain_lines wj True buffer) (\<lambda>(ms, _). Ok ms)"

section \<open>The response loop\<close>

definition MAX_RESPONSE_BYTES :: nat where "MAX_RESPONSE_BYTES = 1024 * 1024"

fun protected_text_error_message :: "ProtectedTextError \<Rightarrow> string" where
  "protected_text_error_message DuplicateMarker = ''Provider output repeated a protected marker.''"
| "protected_text_error_message MissingMarker = ''Provider output omitted a protected marker.''"
| "protected_text_error_message InvalidMarker = ''Provider output contained an invalid protected marker.''"
| "protected_text_error_message RestorerPanic = []"

definition map_protected_error :: "ProtectedTextError \<Rightarrow> TranslationError" where
  "map_protected_error e = malformed (protected_text_error_message e)"

type_synonym stream_item = "TranslationError + TranslationStreamEvent"

text \<open>After a message the loop goes on, is complete, or has ended with an error.\<close>

datatype progress = Going ProtectedTextRestorer | Finished ProtectedTextRestorer | Broken

definition emit :: "string \<Rightarrow> stream_item list" where
  "emit out = (if out = [] then [] else [Ok (StreamText out)])"

text \<open>A delta: what the restorer releases, or its error.\<close>

definition push_delta :: "ProtectedTextRestorer \<Rightarrow> string \<Rightarrow> stream_item list \<times> progress" where
  "push_delta r delta = (case push r delta of
       Inl e \<Rightarrow> ([Err (map_protected_error e)], Broken)
     | Inr (out, r') \<Rightarrow> (emit out, Going r'))"

definition finished_with :: "stream_item list \<Rightarrow> stream_item list \<times> progress \<Rightarrow> stream_item list \<times> progress" where
  "finished_with extra x = (case x of
       (items, Going r) \<Rightarrow> (items @ extra, Finished r)
     | _ \<Rightarrow> x)"

definition nonempty_delta :: "ProtectedTextRestorer \<Rightarrow> string \<Rightarrow> stream_item list \<times> progress" where
  "nonempty_delta r text = (if text \<noteq> [] then push_delta r text else ([], Going r))"

fun handle_sse :: "ProtectedTextRestorer \<Rightarrow> SseMessage \<Rightarrow> stream_item list \<times> progress" where
  "handle_sse r (Delta text) = nonempty_delta r text"
| "handle_sse r (DeltaAndDone text) = finished_with [] (nonempty_delta r text)"
| "handle_sse r (DeltaAndUsageAndDone text usage) = finished_with [Ok (StreamUsage usage)] (nonempty_delta r text)"
| "handle_sse r (Usage usage) = ([Ok (StreamUsage usage)], Going r)"
| "handle_sse r (UsageAndDone usage) = ([Ok (StreamUsage usage)], Finished r)"
| "handle_sse r Done = ([], Finished r)"

definition handle_ollama :: "ProtectedTextRestorer \<Rightarrow> OllamaStreamMessage \<Rightarrow> stream_item list \<times> progress" where
  "handle_ollama r m =
     (let usage = (case stream_usage m of None \<Rightarrow> [] | Some u \<Rightarrow> [Ok (StreamUsage u)]);
          (items, p) = (case stream_content m of None \<Rightarrow> ([], Going r) | Some text \<Rightarrow> push_delta r text);
          (items, p) = (if stream_done m then finished_with [] (items, p) else (items, p)) in
      (usage @ items, p))"

fun handle_all :: "(ProtectedTextRestorer \<Rightarrow> 'm \<Rightarrow> stream_item list \<times> progress) \<Rightarrow> ProtectedTextRestorer \<Rightarrow> 'm list \<Rightarrow>
  stream_item list \<times> progress" where
  "handle_all handle r [] = ([], Going r)"
| "handle_all handle r (m # ms) = (case handle r m of
       (items, Going r') \<Rightarrow> (let (later, p) = handle_all handle r' ms in (items @ later, p))
     | x \<Rightarrow> x)"

text \<open>The end of the stream: the restorer's rest, once the completion marker was seen.\<close>

definition stream_tail :: "ProtectedTextRestorer \<Rightarrow> stream_item list" where
  "stream_tail r = (case finish r of
       Inl e \<Rightarrow> [Err (map_protected_error e)]
     | Inr (out, _) \<Rightarrow> emit out)"

definition ended_early :: "stream_item list" where
  "ended_early = [Err (malformed ''Provider stream ended before the completion marker.'')]"

text \<open>What waiting for the next chunk yields; the list ends where the body does.\<close>

datatype next_item = Chunk string | TransportError TranslationError | IdleTimeout | CancelRequested

record 'm wire =
  wire_push :: "string \<Rightarrow> string \<Rightarrow> TranslationError + ('m list \<times> string)"
  wire_finish :: "string \<Rightarrow> TranslationError + 'm list"
  wire_handle :: "ProtectedTextRestorer \<Rightarrow> 'm \<Rightarrow> stream_item list \<times> progress"

fun response_loop :: "'m wire \<Rightarrow> string \<Rightarrow> nat \<Rightarrow> ProtectedTextRestorer \<Rightarrow> next_item list \<Rightarrow> stream_item list" where
  "response_loop w buffer total_bytes r [] = (case wire_finish w buffer of
       Inl e \<Rightarrow> [Err e]
     | Inr ms \<Rightarrow> (case handle_all (wire_handle w) r ms of
           (items, Going _) \<Rightarrow> items @ ended_early
         | (items, Finished r') \<Rightarrow> items @ stream_tail r'
         | (items, Broken) \<Rightarrow> items))"
| "response_loop w buffer total_bytes r (CancelRequested # ns) = [Err TranslationError_cancelled]"
| "response_loop w buffer total_bytes r (IdleTimeout # ns) =
     [Err (TranslationError_new Timeout ''Provider stream timed out waiting for the next chunk.'')]"
| "response_loop w buffer total_bytes r (TransportError e # ns) = [Err e]"
| "response_loop w buffer total_bytes r (Chunk chunk # ns) =
     (if total_bytes + length chunk > MAX_RESPONSE_BYTES
      then [Err (malformed ''Provider stream exceeded the response-size limit.'')]
      else case wire_push w buffer chunk of
          Inl e \<Rightarrow> [Err e]
        | Inr (ms, buffer') \<Rightarrow> (case handle_all (wire_handle w) r ms of
              (items, Going r') \<Rightarrow> items @ response_loop w buffer' (total_bytes + length chunk) r' ns
            | (items, Finished r') \<Rightarrow> items @ stream_tail r'
            | (items, Broken) \<Rightarrow> items))"

text \<open>The adapters; an event stream has nothing left to read when it ends.\<close>

definition sse_wire :: "(string \<Rightarrow> TranslationError + SseMessage option) \<Rightarrow> SseMessage wire" where
  "sse_wire parse = \<lparr>wire_push = sse_push parse, wire_finish = (\<lambda>_. Ok []), wire_handle = handle_sse\<rparr>"

definition ollama_wire :: "wire_json \<Rightarrow> OllamaStreamMessage wire" where
  "ollama_wire wj = \<lparr>wire_push = ndjson_push wj, wire_finish = ndjson_finish wj, wire_handle = handle_ollama\<rparr>"

definition protected_stream :: "'m wire \<Rightarrow> ProtectedSource \<Rightarrow> next_item list \<Rightarrow> stream_item list" where
  "protected_stream w protected ns = response_loop w [] 0 (restorer protected) ns"

section \<open>Framing does not depend on the chunks\<close>

lemma str_find_append: "str_find p s = Some i \<Longrightarrow> str_find p (s @ t) = Some i"
proof -
  assume "str_find p s = Some i"
  note i = str_find_SomeD [OF this]
  have len: "i + length p \<le> length s" using i prefix_length_le [of p "drop i s"] by (metis add.commute le_diff_conv2 length_drop)
  show ?thesis
  proof (rule str_find_eq_SomeI)
    show "prefix p (drop i (s @ t))" using i by (simp add: prefix_prefix)
    show "i \<le> length (s @ t)" using i by simp
    show "\<not> prefix p (drop j (s @ t))" if "j < i" for j
    proof -
      have "length p \<le> length (drop j s)" using len that by simp
      then show ?thesis using i len that prefix_append_shorter [of p "drop j s" t] by auto
    qed
  qed
qed

text \<open>A stream that uses only one of the two event delimiters.\<close>

definition one_delimiter :: "string \<Rightarrow> bool" where
  "one_delimiter s \<longleftrightarrow> \<not> contains s [lf, lf] \<or> \<not> contains s [cr, lf, cr, lf]"

lemma one_delimiter_part: "one_delimiter (a @ b) \<Longrightarrow> one_delimiter a" "one_delimiter (a @ b) \<Longrightarrow> one_delimiter b"
  using contains_append1 contains_append2 unfolding one_delimiter_def by blast+

lemma boundary_append:
  assumes "one_delimiter (a @ c)" "find_event_boundary a = Some (p, d)"
  shows "find_event_boundary (a @ c) = Some (p, d)"
proof (cases "str_find [lf, lf] a")
  case (Some i)
  with assms(2) str_find_append [OF Some] show ?thesis by (simp add: find_event_boundary_def)
next
  case None
  with assms(2) have crlf: "str_find [cr, lf, cr, lf] a = Some p" "d = 4" by (auto simp: find_event_boundary_def)
  then have "contains a [cr, lf, cr, lf]" by (simp add: contains_def)
  then have "contains (a @ c) [cr, lf, cr, lf]" by (rule contains_append1)
  then have "str_find [lf, lf] (a @ c) = None"
    using assms(1) unfolding one_delimiter_def contains_def by blast
  with str_find_append [OF crlf(1)] crlf(2) show ?thesis by (simp add: find_event_boundary_def)
qed

lemma sse_drain_append:
  "one_delimiter (a @ c) \<Longrightarrow> sse_drain parse (a @ c) = and_then (sse_drain parse a) (\<lambda>(ms, rest).
     and_then (sse_drain parse (rest @ c)) (\<lambda>(ms', rest'). Ok (ms @ ms', rest')))"
proof (induction parse a rule: sse_drain.induct)
  case (1 parse a)
  show ?case
  proof (cases "find_event_boundary a")
    case None
    then have "sse_drain parse a = Ok ([], a)" by (simp add: sse_drain.simps [of parse a])
    then show ?thesis by (cases "sse_drain parse (a @ c)") auto
  next
    case (Some pd)
    obtain p d where pd: "find_event_boundary a = Some (p, d)" using Some by (cases pd) auto
    note b = find_event_boundary_bounds [OF pd]
    let ?rest = "drop (p + d) a"
    have drain: "sse_drain parse (a @ c) = and_then (parse (take p a)) (\<lambda>message.
        and_then (sse_drain parse (?rest @ c)) (\<lambda>(ms, rest). Ok ((case message of None \<Rightarrow> ms | Some m \<Rightarrow> m # ms), rest)))"
      using boundary_append [OF "1.prems" pd] b by (subst sse_drain.simps) simp
    show ?thesis
    proof (cases "parse (take p a)")
      case (Inl e)
      then show ?thesis by (simp add: drain sse_drain.simps [of parse a] pd)
    next
      case (Inr message)
      have "one_delimiter (?rest @ c)"
        using one_delimiter_part(2) [of "take (p + d) a" "?rest @ c"] "1.prems"
        by (metis append.assoc append_take_drop_id)
      from "1.IH" [OF pd refl this] show ?thesis
        by (simp add: drain sse_drain.simps [of parse a] pd Inr and_then_assoc case_prod_unfold)
          (cases message; simp)
    qed
  qed
qed

text \<open>Feeding a decoder chunk by chunk.\<close>

fun push_all :: "(string \<Rightarrow> string \<Rightarrow> TranslationError + ('m list \<times> string)) \<Rightarrow> string \<Rightarrow> string list \<Rightarrow>
  TranslationError + ('m list \<times> string)" where
  "push_all feed buffer [] = Ok ([], buffer)"
| "push_all feed buffer (c # cs) =
     and_then (feed buffer c) (\<lambda>(ms, rest).
     and_then (push_all feed rest cs) (\<lambda>(ms', rest'). Ok (ms @ ms', rest')))"

lemma sse_drain_idem: "sse_drain parse b = Ok (ms, rest) \<Longrightarrow> sse_drain parse rest = Ok ([], rest)"
proof (induction parse b arbitrary: ms rule: sse_drain.induct)
  case (1 parse b)
  then show ?case
    by (cases "find_event_boundary b") (auto simp: sse_drain.simps [of parse b] and_then_Inr sse_drain.simps [of parse rest])
qed

lemma sse_drain_suffix: "sse_drain parse b = Ok (ms, rest) \<Longrightarrow> \<exists>a. b = a @ rest"
proof (induction parse b arbitrary: ms rule: sse_drain.induct)
  case (1 parse b)
  show ?case
  proof (cases "find_event_boundary b")
    case None
    with "1.prems" show ?thesis by (simp add: sse_drain.simps [of parse b])
  next
    case (Some pd)
    obtain p d where pd: "pd = (p, d)" by (cases pd)
    with Some "1.prems" obtain m ms' where m: "parse (take p b) = Ok m" "sse_drain parse (drop (p + d) b) = Ok (ms', rest)"
      by (auto simp: sse_drain.simps [of parse b] and_then_Inr)
    from "1.IH" [OF Some pd [symmetric] m(2)] obtain a where "drop (p + d) b = a @ rest" by blast
    then have "b = (take (p + d) b @ a) @ rest" by (metis append.assoc append_take_drop_id)
    then show ?thesis by blast
  qed
qed

lemma sse_push_all:
  "sse_drain parse b = Ok ([], b) \<Longrightarrow> one_delimiter (b @ concat cs) \<Longrightarrow>
     push_all (sse_push parse) b cs = sse_drain parse (b @ concat cs)"
proof (induction cs arbitrary: b)
  case (Cons c cs)
  have one: "one_delimiter ((b @ c) @ concat cs)" using Cons.prems(2) by simp
  show ?case
  proof (cases "sse_drain parse (b @ c)")
    case (Inl e)
    with sse_drain_append [OF one, of parse] show ?thesis by (simp add: sse_push_def)
  next
    case (Inr x)
    then obtain ms rest where x: "sse_drain parse (b @ c) = Ok (ms, rest)" by (cases x) auto
    from sse_drain_suffix [OF x] obtain a where a: "b @ c = a @ rest" by blast
    then have "one_delimiter (a @ (rest @ concat cs))" using one by simp
    then have "one_delimiter (rest @ concat cs)" by (rule one_delimiter_part)
    from Cons.IH [OF sse_drain_idem [OF x] this] sse_drain_append [OF one, of parse] x
    show ?thesis by (simp add: sse_push_def)
  qed
qed simp

lemma drain_lines_append:
  "drain_lines_loop wj False line (a @ c) = and_then (drain_lines_loop wj False line a) (\<lambda>(ms, rest).
     and_then (drain_lines_loop wj False rest c) (\<lambda>(ms', rest'). Ok (ms @ ms', rest')))"
proof (induction wj False line a rule: drain_lines_loop.induct)
  case (1 wj line)
  then show ?case by (cases "drain_lines_loop wj False line c") auto
next
  case (2 wj line b bs)
  then show ?case by (cases "b = lf") (simp_all add: and_then_assoc case_prod_unfold)
qed

text \<open>The rest of the buffer is the beginning of a line.\<close>

lemma drain_lines_rest: "drain_lines_loop wj False line a = Ok (ms, rest) \<Longrightarrow> lf \<notin> set line \<Longrightarrow> lf \<notin> set rest"
  by (induction wj False line a arbitrary: ms rule: drain_lines_loop.induct) (auto simp: and_then_Inr split: if_splits)

lemma drain_lines_start: "lf \<notin> set a \<Longrightarrow> drain_lines_loop wj False line (a @ c) = drain_lines_loop wj False (line @ a) c"
  by (induction a arbitrary: line) auto

lemma ndjson_push_all: "lf \<notin> set b \<Longrightarrow> push_all (ndjson_push wj) b cs = drain_lines wj False (b @ concat cs)"
proof (induction cs arbitrary: b)
  case Nil
  then show ?case using drain_lines_start [of b wj "[]" "[]"] by (simp add: drain_lines_def)
next
  case (Cons c cs)
  show ?case
  proof (cases "drain_lines wj False (b @ c)")
    case (Inl e)
    then show ?thesis using drain_lines_append [of wj "[]" "b @ c" "concat cs"]
      by (simp add: ndjson_push_def drain_lines_def)
  next
    case (Inr x)
    then obtain ms rest where x: "drain_lines_loop wj False [] (b @ c) = Ok (ms, rest)" by (cases x) (auto simp: drain_lines_def)
    then have "lf \<notin> set rest" using drain_lines_rest by fastforce
    with Cons.IH [of rest] x drain_lines_append [of wj "[]" "b @ c" "concat cs"] drain_lines_start [of rest wj "[]" "concat cs"]
    show ?thesis by (simp add: ndjson_push_def drain_lines_def)
  qed
qed

section \<open>The response depends on its bytes only\<close>

definition run_messages :: "'m wire \<Rightarrow> string \<Rightarrow> ProtectedTextRestorer \<Rightarrow> 'm list \<Rightarrow> stream_item list" where
  "run_messages w rest r ms = (case handle_all (wire_handle w) r ms of
       (items, Going r') \<Rightarrow> items @ response_loop w rest 0 r' []
     | (items, Finished r') \<Rightarrow> items @ stream_tail r'
     | (items, Broken) \<Rightarrow> items)"

lemma handle_all_append:
  "handle_all h r (ms @ ms') = (case handle_all h r ms of
       (items, Going r') \<Rightarrow> (let (later, p) = handle_all h r' ms' in (items @ later, p))
     | x \<Rightarrow> x)"
proof (induction ms arbitrary: r)
  case Nil
  then show ?case by (simp add: case_prod_unfold Let_def)
next
  case (Cons m ms)
  obtain items p where m: "h r m = (items, p)" by (cases "h r m")
  show ?case
  proof (cases p)
    case (Going r')
    obtain items' p' where "handle_all h r' ms = (items', p')" by (cases "handle_all h r' ms")
    then show ?thesis using Cons.IH [of r']
      by (cases p') (simp_all add: m Going Let_def case_prod_unfold)
  qed (simp_all add: m)
qed

lemma response_loop_chunks:
  "push_all (wire_push w) b cs = Ok (ms, rest) \<Longrightarrow> n + length (concat cs) \<le> MAX_RESPONSE_BYTES \<Longrightarrow>
     response_loop w b n r (map Chunk cs) = run_messages w rest r ms"
proof (induction cs arbitrary: b n r ms)
  case Nil
  then show ?case by (simp add: run_messages_def)
next
  case (Cons c cs)
  then obtain ms1 b1 ms2 where p: "wire_push w b c = Ok (ms1, b1)" "push_all (wire_push w) b1 cs = Ok (ms2, rest)"
    and ms: "ms = ms1 @ ms2" by (auto simp: and_then_Inr)
  have "n + length c + length (concat cs) \<le> MAX_RESPONSE_BYTES" using Cons.prems(2) by simp
  note IH = Cons.IH [OF p(2) this]
  show ?case using Cons.prems(2) p(1)
    by (auto simp: ms run_messages_def handle_all_append IH Let_def case_prod_unfold split: progress.splits prod.splits)
qed

text \<open>
  The contract of a decoder: however the bytes are cut into chunks, feeding them one by one gives what reading
  them at once gives. The event streams need bytes that use only one of the two delimiters.
\<close>

locale chunk_decoder =
  fixes w :: "'m wire" and framed :: "string \<Rightarrow> bool" and whole :: "string \<Rightarrow> TranslationError + ('m list \<times> string)"
  assumes push_all_whole: "framed (concat cs) \<Longrightarrow> push_all (wire_push w) [] cs = whole (concat cs)"
begin

lemma stream_by_bytes:
  "framed (concat cs) \<Longrightarrow> whole (concat cs) = Ok (ms, rest) \<Longrightarrow> length (concat cs) \<le> MAX_RESPONSE_BYTES \<Longrightarrow>
     protected_stream w p (map Chunk cs) = run_messages w rest (restorer p) ms"
  unfolding protected_stream_def by (rule response_loop_chunks) (simp_all add: push_all_whole)

lemma stream_any_chunks:
  assumes "framed (concat cs)" "\<exists>x. whole (concat cs) = Ok x" "length (concat cs) \<le> MAX_RESPONSE_BYTES" "concat cs = concat ds"
  shows "protected_stream w p (map Chunk cs) = protected_stream w p (map Chunk ds)"
  using assms stream_by_bytes [of cs _ _ p] stream_by_bytes [of ds _ _ p] by auto

end

interpretation sse: chunk_decoder "sse_wire parse" one_delimiter "sse_drain parse" for parse
proof
  show "push_all (wire_push (sse_wire parse)) [] cs = sse_drain parse (concat cs)" if "one_delimiter (concat cs)" for cs
    using sse_push_all [of parse "[]" cs] that
    by (simp add: sse_wire_def sse_drain.simps [of parse "[]"] find_event_boundary_def)
qed

interpretation ndjson: chunk_decoder "ollama_wire wj" "\<lambda>_. True" "drain_lines wj False" for wj
  by unfold_locales (simp add: ollama_wire_def ndjson_push_all)

end
