(* ===== verification/Restoration.thy ===== *)
theory Restoration
  imports Protected_Text
begin

text \<open>
  Correctness of protected text. The abstract view of a model's output is its list of pieces,
  plain bytes and markers, read from left to right (\<open>pieces\<close>); restoring means to replace every
  marker by its fragment. The locale \<open>markers\<close> states what the restorer needs to know about
  marker tokens, it is interpreted by the tokens that \<open>build_protected_source\<close> makes.
\<close>

section \<open>Pieces\<close>

datatype piece = Plain char | Mark nat

definition marker_at :: "ProtectedSpan list \<Rightarrow> string \<Rightarrow> nat option" where
  "marker_at sps s = find (\<lambda>i. prefix (token (sps ! i)) s) [0..<length sps]"

fun pieces :: "ProtectedSpan list \<Rightarrow> string \<Rightarrow> piece list" where
  "pieces sps [] = []"
| "pieces sps (b # bs) =
     (case marker_at sps (b # bs) of
        None \<Rightarrow> Plain b # pieces sps bs
      | Some i \<Rightarrow> Mark i # pieces sps (drop (length (token (sps ! i)) - 1) bs))"

fun render :: "ProtectedSpan list \<Rightarrow> piece \<Rightarrow> string" where
  "render sps (Plain b) = [b]"
| "render sps (Mark i) = replacement (sps ! i)"

definition render_all :: "ProtectedSpan list \<Rightarrow> piece list \<Rightarrow> string" where
  "render_all sps ps = concat (map (render sps) ps)"

fun marks :: "piece list \<Rightarrow> nat list" where
  "marks [] = []"
| "marks (Plain b # ps) = marks ps"
| "marks (Mark i # ps) = i # marks ps"

definition no_marker :: "ProtectedSpan list \<Rightarrow> string \<Rightarrow> nat \<Rightarrow> bool" where
  "no_marker sps s n \<longleftrightarrow> (\<forall>q < n. \<forall>i < length sps. \<not> prefix (token (sps ! i)) (drop q s))"

lemma render_all_simps [simp]:
  "render_all sps [] = []" "render_all sps (p # ps) = render sps p @ render_all sps ps"
  "render_all sps (ps @ qs) = render_all sps ps @ render_all sps qs"
  "render_all sps (map Plain s) = s"
  by (simp_all add: render_all_def) (induction s; simp)

lemma marks_append [simp]: "marks (ps @ qs) = marks ps @ marks qs"
  by (induction ps rule: marks.induct) auto

lemma marks_Plain [simp]: "marks (map Plain s) = []"
  by (induction s) auto

lemma marker_at_None: "marker_at sps s = None \<longleftrightarrow> (\<forall>i < length sps. \<not> prefix (token (sps ! i)) s)"
  by (auto simp: marker_at_def find_None_iff)

lemma no_marker_Suc:
  "no_marker sps (b # bs) (Suc n) \<longleftrightarrow> marker_at sps (b # bs) = None \<and> no_marker sps bs n"
  by (auto simp: no_marker_def marker_at_None less_Suc_eq_0_disj)

lemma pieces_plain:
  assumes "no_marker sps s n" "n \<le> length s"
  shows "pieces sps s = map Plain (take n s) @ pieces sps (drop n s)"
  using assms
proof (induction n arbitrary: s)
  case 0
  then show ?case by simp
next
  case (Suc n)
  then obtain b bs where "s = b # bs" by (cases s) auto
  with Suc show ?case by (simp add: no_marker_Suc)
qed

text \<open>Plain parts with a marker's text after each, and a last plain part.\<close>

fun weave :: "(string \<times> nat) list \<Rightarrow> string \<Rightarrow> (nat \<Rightarrow> string) \<Rightarrow> string" where
  "weave [] t f = t"
| "weave ((u, i) # us) t f = u @ f i @ weave us t f"

lemma weave_tail: "weave us (s @ t) f = weave us s f @ t"
  by (induction us s f rule: weave.induct) auto

lemma weave_split: "weave us (take k t) f @ drop k t = weave us t f"
  using weave_tail [of us "take k t" "drop k t" f] by simp

section \<open>The search of the restorer\<close>

lemma min_by_fst_None: "min_by_fst ps = None \<longleftrightarrow> ps = []"
  by (induction ps) (auto split: option.splits)

lemma min_by_fst_Some:
  "min_by_fst ps = Some m \<Longrightarrow> m \<in> set ps \<and> (\<forall>p \<in> set ps. fst m \<le> fst p)"
proof (induction ps arbitrary: m)
  case Nil
  then show ?case by simp
next
  case (Cons p ps)
  then show ?case by (cases "min_by_fst ps") (auto simp: min_by_fst_None split: if_splits)
qed

lemma marker_positions_mem:
  "(p, i) \<in> set (marker_positions s sps) \<longleftrightarrow>
     i < length sps \<and> str_find (token (sps ! i)) s = Some p"
  by (force simp: marker_positions_def in_set_enumerate_eq split: option.splits)

lemma marker_positions_Nil:
  "marker_positions s sps = [] \<longleftrightarrow> (\<forall>i < length sps. str_find (token (sps ! i)) s = None)"
proof -
  have "marker_positions s sps = [] \<longleftrightarrow> (\<forall>p i. (p, i) \<notin> set (marker_positions s sps))"
    by (cases "marker_positions s sps") auto
  then show ?thesis unfolding marker_positions_mem by (metis not_Some_eq)
qed

lemma next_marker_None:
  "next_marker s sps = None \<longleftrightarrow> (\<forall>i < length sps. str_find (token (sps ! i)) s = None)"
  by (simp add: next_marker_def min_by_fst_None marker_positions_Nil)

lemma next_marker_Some:
  assumes "next_marker s sps = Some (p, i)"
  shows "i < length sps" "str_find (token (sps ! i)) s = Some p" "no_marker sps s p"
proof -
  note m = min_by_fst_Some [OF assms [unfolded next_marker_def]]
  from m show "i < length sps" "str_find (token (sps ! i)) s = Some p"
    unfolding marker_positions_mem by auto
  show "no_marker sps s p"
    unfolding no_marker_def
  proof (intro allI impI notI)
    fix q j
    assume q: "q < p" "j < length sps" "prefix (token (sps ! j)) (drop q s)"
    then obtain k where k: "str_find (token (sps ! j)) s = Some k"
      using str_find_NoneD by blast
    then have "k \<le> q" using q(3) str_find_SomeD by (meson not_less)
    moreover have "p \<le> k" using m k q(2) marker_positions_mem [of k j s sps] by force
    ultimately show False using q(1) by simp
  qed
qed

lemma next_marker_None_no_marker:
  "next_marker s sps = None \<Longrightarrow> no_marker sps s n"
  unfolding next_marker_None no_marker_def using str_find_NoneD by blast

lemma next_marker_eqI:
  assumes "i < length sps" "prefix (token (sps ! i)) (drop p s)" "p \<le> length s" "no_marker sps s p"
    and "\<And>j. j < length sps \<Longrightarrow> j \<noteq> i \<Longrightarrow> \<not> prefix (token (sps ! j)) (drop p s)"
  shows "next_marker s sps = Some (p, i)"
proof -
  have f: "str_find (token (sps ! i)) s = Some p"
    using assms(1-4) by (intro str_find_eq_SomeI) (auto simp: no_marker_def)
  then obtain q j where n: "next_marker s sps = Some (q, j)"
    using assms(1) next_marker_None [of s sps] by (cases "next_marker s sps") auto
  note m = next_marker_Some [OF n]
  have "\<not> p < q" using m(3) assms(1,2) by (auto simp: no_marker_def)
  moreover have "\<not> q < p"
    using m(1) str_find_SomeD [OF m(2)] assms(4) by (auto simp: no_marker_def)
  ultimately have "q = p" by simp
  moreover have "j = i" using assms(5) [OF m(1)] m(2) \<open>q = p\<close> str_find_SomeD by blast
  ultimately show ?thesis using n by simp
qed

text \<open>The bytes that the restorer holds back.\<close>

lemma token_overlap_None:
  "token_overlap text tok n = None \<Longrightarrow> 0 < l \<Longrightarrow> l \<le> n \<Longrightarrow> \<not> suffix (take l tok) text"
  by (induction n) (auto simp: le_Suc_eq split: if_splits)

lemma token_overlap_Some:
  "token_overlap text tok n = Some k \<Longrightarrow>
     0 < k \<and> k \<le> n \<and> suffix (take k tok) text \<and> (\<forall>l \<le> n. k < l \<longrightarrow> \<not> suffix (take l tok) text)"
  by (induction n) (auto simp: le_Suc_eq split: if_splits)

lemma longest_marker_prefix_suffix_cases:
  obtains "longest_marker_prefix_suffix text sps = 0"
    "\<And>i l. i < length sps \<Longrightarrow> 0 < l \<Longrightarrow> l \<le> length (token (sps ! i)) \<Longrightarrow> l \<le> length text \<Longrightarrow>
       \<not> suffix (take l (token (sps ! i))) text"
  | i k where "longest_marker_prefix_suffix text sps = k" "i < length sps" "0 < k"
    "k \<le> length (token (sps ! i))" "k \<le> length text" "suffix (take k (token (sps ! i))) text"
    "\<And>l. k < l \<Longrightarrow> l \<le> length (token (sps ! i)) \<Longrightarrow> l \<le> length text \<Longrightarrow>
       \<not> suffix (take l (token (sps ! i))) text"
proof (induction sps arbitrary: thesis)
  case Nil
  then show ?case by simp
next
  case (Cons sp sps)
  show ?case
  proof (cases "token_overlap text (token sp) (min (length (token sp)) (length text))")
    case None
    note no = token_overlap_None [OF None]
    show ?thesis
    proof (rule Cons.IH)
      assume "longest_marker_prefix_suffix text sps = 0"
        "\<And>i l. i < length sps \<Longrightarrow> 0 < l \<Longrightarrow> l \<le> length (token (sps ! i)) \<Longrightarrow> l \<le> length text \<Longrightarrow>
          \<not> suffix (take l (token (sps ! i))) text"
      with None no show thesis by (intro Cons.prems(1)) (auto simp: less_Suc_eq_0_disj)
    next
      fix i k
      assume "longest_marker_prefix_suffix text sps = k" "i < length sps" "0 < k"
        "k \<le> length (token (sps ! i))" "k \<le> length text" "suffix (take k (token (sps ! i))) text"
        "\<And>l. k < l \<Longrightarrow> l \<le> length (token (sps ! i)) \<Longrightarrow> l \<le> length text \<Longrightarrow>
          \<not> suffix (take l (token (sps ! i))) text"
      with None show thesis by (intro Cons.prems(2) [of k "Suc i"]) auto
    qed
  next
    case (Some k)
    from token_overlap_Some [OF this] Some show ?thesis
      by (intro Cons.prems(2) [of k 0]) auto
  qed
qed

section \<open>Marker tokens\<close>

abbreviation marker_head :: "char \<Rightarrow> string" where
  "marker_head d \<equiv> PROTECTED_TOKEN_PREFIX @ [d]"

lemma length_token_prefix [simp]: "length PROTECTED_TOKEN_PREFIX = 23"
  by (simp add: PROTECTED_TOKEN_PREFIX_def)

text \<open>A marker does not start inside the head of another one.\<close>

lemma marker_border:
  assumes "0 < k" "k < 23" "is_ascii_digit d"
    and p: "prefix (drop k (marker_head d)) (PROTECTED_TOKEN_PREFIX @ w)"
  shows False
proof -
  have "k \<in> set [1..<23]" using assms by simp
  moreover have "d \<noteq> CHR ''_''" "d \<noteq> CHR ''L''"
    using assms(3) by (auto simp: is_ascii_digit_def)
  ultimately show False
    using p by (auto simp: PROTECTED_TOKEN_PREFIX_def upt_rec numeral_eq_Suc)
qed

text \<open>Where plain text without the token prefix runs into a marker, no marker starts early.\<close>

lemma marker_not_early:
  assumes "\<not> contains u PROTECTED_TOKEN_PREFIX" "q < length u" "is_ascii_digit d"
    and p: "prefix (marker_head d) (drop q (u @ PROTECTED_TOKEN_PREFIX @ w))"
  shows False
proof -
  let ?v = "drop q u" and ?P = PROTECTED_TOKEN_PREFIX
  have p: "prefix (marker_head d) (?v @ ?P @ w)" using p assms(2) by simp
  show False
  proof (cases "23 \<le> length ?v")
    case True
    have "prefix ?P (?v @ ?P @ w)" using p by (rule append_prefixD)
    then have "prefix ?P ?v" by (rule prefix_append_shorter) (use True in simp)
    then have "contains u ?P" unfolding contains_iff prefix_def by (metis append_take_drop_id)
    with assms(1) show False by simp
  next
    case False
    have "prefix (drop (length ?v) (marker_head d)) (drop (length ?v) (?v @ ?P @ w))"
      using p by (rule prefix_dropI)
    then have "prefix (drop (length ?v) (marker_head d)) (?P @ w)" by simp
    with False assms(2,3) show False by (intro marker_border [of "length ?v" d w]) auto
  qed
qed

text \<open>
  What the restorer relies on: a marker starts with the reserved prefix and a digit, the reserved
  prefix does not occur in it again, and no marker is a prefix of another one.
\<close>

locale markers =
  fixes tok :: "nat \<Rightarrow> string"
  assumes tok_head: "\<exists>d w. tok i = marker_head d @ w \<and> is_ascii_digit d"
    and tok_single: "2 < k \<Longrightarrow> k < length (tok i) \<Longrightarrow> tok i ! k \<noteq> CHR ''L''"
    and tok_prefix_free: "i \<noteq> j \<Longrightarrow> \<not> prefix (tok i) (tok j)"
begin

lemma tok_long: "24 \<le> length (tok i)"
  using tok_head [of i] by auto

lemma tok_take: "l \<le> 23 \<Longrightarrow> take l (tok i) = take l (tok j)"
  using tok_head [of i] tok_head [of j] by auto

lemma tok_nth_L: "tok i ! 2 = CHR ''L''"
  using tok_head [of i] by (auto simp: PROTECTED_TOKEN_PREFIX_def)

lemma tok_not_inside:
  assumes "prefix (tok i) (drop k (tok j))" "0 < k"
  shows False
proof -
  from assms(1) have "k + 2 < length (tok j)"
    using prefix_length_le [OF assms(1)] tok_long [of i] by simp
  moreover have "drop k (tok j) ! 2 = tok i ! 2"
    using assms(1) tok_long [of i] by (auto simp: prefix_def nth_append)
  ultimately show False
    using tok_single [of "k + 2" j] assms(2) tok_nth_L [of i] by simp
qed

lemma marker_at_tok:
  assumes marked: "\<And>i. i < length sps \<Longrightarrow> token (sps ! i) = tok i"
    and i: "i < length sps" "prefix (tok i) s"
  shows "marker_at sps s = Some i"
proof -
  have only: "j = i" if "j < length sps" "prefix (tok j) s" for j
    using that i(2) tok_prefix_free prefix_same_cases by metis
  show ?thesis
  proof (cases "marker_at sps s")
    case None
    with i marked show ?thesis by (auto simp: marker_at_None)
  next
    case (Some j)
    then have "j < length sps" "prefix (tok j) s"
      using marked unfolding marker_at_def find_Some_iff by auto
    with only Some show ?thesis by simp
  qed
qed

lemma pieces_mark:
  assumes marked: "\<And>i. i < length sps \<Longrightarrow> token (sps ! i) = tok i"
    and i: "i < length sps" "prefix (tok i) s"
  shows "pieces sps s = Mark i # pieces sps (drop (length (tok i)) s)"
proof -
  obtain b bs where s: "s = b # bs" using i(2) tok_long [of i] by (cases s) auto
  obtain n where "length (tok i) = Suc n" using tok_long [of i] by (cases "length (tok i)") auto
  with s marker_at_tok [OF marked i] marked [OF i(1)] show ?thesis by simp
qed

text \<open>A marker found in the pending text stays the first one whatever text follows.\<close>

lemma hit_stable:
  assumes marked: "\<And>i. i < length sps \<Longrightarrow> token (sps ! i) = tok i"
    and "next_marker pend sps = Some (p, i)"
  shows "pieces sps (pend @ w) = map Plain (take p pend) @ Mark i # pieces sps (drop (p + length (tok i)) pend @ w)"
proof -
  note n = next_marker_Some [OF assms(2)]
  have pl: "p \<le> length pend" and pre: "prefix (tok i) (drop p pend)"
    using str_find_SomeD [OF n(2)] marked [OF n(1)] by auto
  then have len: "p + length (tok i) \<le> length pend" using prefix_length_le [OF pre] tok_long [of i] by simp
  have "no_marker sps (pend @ w) p"
    unfolding no_marker_def
  proof (intro allI impI notI)
    fix q j
    assume q: "q < p" and j: "j < length sps" and "prefix (token (sps ! j)) (drop q (pend @ w))"
    then have pre_j: "prefix (tok j) (drop q pend @ w)" using marked pl by simp
    show False
    proof (cases "length (tok j) \<le> length (drop q pend)")
      case True
      then have "prefix (tok j) (drop q pend)" using pre_j by (rule prefix_append_shorter [rotated])
      with n(3) q j marked show False by (auto simp: no_marker_def)
    next
      case False
      then have "prefix (drop q pend) (tok j)" using prefix_append_longer [OF pre_j] by simp
      then have "prefix (drop (p - q) (drop q pend)) (drop (p - q) (tok j))" by (rule prefix_dropI)
      then have "prefix (tok i) (drop (p - q) (tok j))"
        using pre q by (auto intro: prefix_order.trans)
      with q show False using tok_not_inside [of i "p - q" j] by simp
    qed
  qed
  from pieces_plain [OF this] pl
  have "pieces sps (pend @ w) = map Plain (take p pend) @ pieces sps (drop p pend @ w)" by simp
  moreover have "prefix (tok i) (drop p pend @ w)" using pre by (rule prefix_prefix)
  ultimately show ?thesis
    using pieces_mark [OF marked n(1)] len by (simp add: add.commute)
qed

text \<open>Without a marker, the bytes that are not held back cannot start one later.\<close>

lemma miss_stable:
  assumes marked: "\<And>i. i < length sps \<Longrightarrow> token (sps ! i) = tok i"
    and none: "next_marker pend sps = None"
    and split: "split = length pend - longest_marker_prefix_suffix pend sps"
    and clean: "\<not> contains (take split pend) PROTECTED_TOKEN_PREFIX"
  shows "no_marker sps (pend @ w) split"
  unfolding no_marker_def
proof (intro allI impI notI)
  fix q j
  assume q: "q < split" and j: "j < length sps" and "prefix (token (sps ! j)) (drop q (pend @ w))"
  moreover have ql: "q < length pend" using q split by simp
  ultimately have pre_j: "prefix (tok j) (drop q pend @ w)" using marked by simp
  define L where "L = length pend - q"
  have "\<not> prefix (tok j) (drop q pend)"
    using next_marker_None_no_marker [OF none, of "Suc q"] j marked by (auto simp: no_marker_def)
  then have short: "L < length (tok j)"
    using prefix_append_shorter [OF pre_j] unfolding L_def by force
  have "prefix (drop q pend) (tok j)"
    using prefix_append_longer [OF pre_j] short unfolding L_def by simp
  then have suf: "drop q pend = take L (tok j)" unfolding L_def by (auto simp: prefix_def)
  show False
  proof (rule longest_marker_prefix_suffix_cases [of pend sps], goal_cases)
    case 1
    from 1(2) [OF j, of L] show False
      using suf short marked [OF j] ql unfolding L_def by (metis diff_le_self less_or_eq_imp_le suffix_drop zero_less_diff)
  next
    case (2 i k)
    have k: "k < L" using q split 2(1) unfolding L_def by simp
    have fst: "take k (tok i) = drop (L - k) (take L (tok j))"
    proof -
      have "take k (tok i) = drop (length pend - k) pend"
        using 2(2,4,5,6) marked by (auto simp: suffix_def)
      also have "\<dots> = drop (L - k) (drop q pend)" using k ql unfolding L_def by simp
      finally show ?thesis using suf by simp
    qed
    show False
    proof (cases "L \<le> 23")
      case True
      then have "suffix (take L (token (sps ! i))) pend"
        using suf tok_take [of L i j] marked 2(2) suffix_drop by metis
      with 2(7) [of L] k True tok_long [of i] marked [OF 2(2)] show False
        unfolding L_def by auto
    next
      case False
      obtain d v where d: "tok j = marker_head d @ v" "is_ascii_digit d" using tok_head by blast
      obtain v' where v': "tok i = PROTECTED_TOKEN_PREFIX @ v'" using tok_head [of i] by auto
      show False
      proof (cases "L - k < 23")
        case True
        have "take L (tok j) = marker_head d @ take (L - 24) v" using d False by (simp add: take_Cons')
        then have "prefix (drop (L - k) (marker_head d)) (take k (tok i))"
          using fst True by simp
        then have "prefix (drop (L - k) (marker_head d)) (PROTECTED_TOKEN_PREFIX @ v')"
          using v' take_is_prefix prefix_order.trans by metis
        with marker_border [of "L - k" d v'] True k d(2) show False by simp
      next
        case F: False
        have "drop q (take split pend) = take (L - k) (take L (tok j))"
          using suf split 2(1) k ql unfolding L_def by (simp add: drop_take add.commute)
        also have "\<dots> = PROTECTED_TOKEN_PREFIX @ take (L - k - 23) (drop 23 (tok j))"
          using d F k by (simp add: min_def)
        finally have "contains (take split pend) PROTECTED_TOKEN_PREFIX"
          unfolding contains_iff by (metis append_take_drop_id)
        with clean show False by simp
      qed
    qed
  qed
qed

lemma no_marker_drop: "\<forall>m. no_marker sps s m \<Longrightarrow> no_marker sps (drop n s) m"
  unfolding no_marker_def by (auto simp: add.commute)

text \<open>What one call of \<open>push\<close> consumes, for every text that may still follow.\<close>

lemma push_loop_sound:
  assumes marked: "\<And>i. i < length sps \<Longrightarrow> token (sps ! i) = tok i"
  shows "push_loop sps pend ws out = Ok (out', pend', ws') \<Longrightarrow> length ws = length sps \<Longrightarrow>
    \<exists>ms. (\<forall>w. pieces sps (pend @ w) = ms @ pieces sps (pend' @ w)) \<and>
      out' = out @ render_all sps ms \<and> distinct (marks ms) \<and>
      set (marks ms) = {i. i < length sps \<and> ws' ! i \<and> \<not> ws ! i} \<and>
      (\<forall>i < length sps. ws ! i \<longrightarrow> ws' ! i) \<and> length ws' = length sps \<and>
      (\<forall>n. no_marker sps pend' n)"
  using marked
proof (induction sps pend ws out rule: push_loop.induct)
  case (1 sps pend ws out)
  show ?case
  proof (cases "next_marker pend sps")
    case None
    define split where "split = length pend - longest_marker_prefix_suffix pend sps"
    from "1.prems"(1) None have
      ok: "\<not> contains (take split pend) PROTECTED_TOKEN_PREFIX"
        "out' = out @ take split pend" "pend' = drop split pend" "ws' = ws"
      by (auto simp: push_loop.simps [of sps] append_plain_text_def split_def Let_def split: if_splits)
    have "pieces sps (pend @ w) = map Plain (take split pend) @ pieces sps (pend' @ w)" for w
      using pieces_plain [OF miss_stable [OF "1.prems"(3) None split_def ok(1)]] ok(3)
      by (simp add: split_def)
    moreover have "no_marker sps pend' n" for n
      using no_marker_drop next_marker_None_no_marker [OF None] ok(3) by auto
    ultimately show ?thesis
      using ok "1.prems"(2) by (intro exI [of _ "map Plain (take split pend)"]) auto
  next
    case (Some pi)
    then obtain p i where pi: "next_marker pend sps = Some (p, i)" by (cases pi) auto
    note n = next_marker_Some [OF pi]
    let ?pend = "drop (p + length (token (sps ! i))) pend"
      and ?out = "(out @ take p pend) @ replacement (sps ! i)" and ?ws = "ws[i := True]"
    from "1.prems"(1,2) pi n(1) have
      ok: "\<not> ws ! i" "\<not> contains (take p pend) PROTECTED_TOKEN_PREFIX"
        "push_loop sps ?pend ?ws ?out = Ok (out', pend', ws')"
      by (auto simp: push_loop.simps [of sps pend] append_plain_text_def split: if_splits)
    have "\<exists>ms. (\<forall>w. pieces sps (?pend @ w) = ms @ pieces sps (pend' @ w)) \<and>
      out' = ?out @ render_all sps ms \<and> distinct (marks ms) \<and>
      set (marks ms) = {k. k < length sps \<and> ws' ! k \<and> \<not> ?ws ! k} \<and>
      (\<forall>k < length sps. ?ws ! k \<longrightarrow> ws' ! k) \<and> length ws' = length sps \<and>
      (\<forall>n. no_marker sps pend' n)"
      by (rule "1.IH" [OF pi refl _ ok(1) ok(3)]) (use "1.prems"(2,3) n(1) in auto)
    then obtain ms where ms: "\<And>w. pieces sps (?pend @ w) = ms @ pieces sps (pend' @ w)"
      "out' = ?out @ render_all sps ms" "distinct (marks ms)"
      "set (marks ms) = {k. k < length sps \<and> ws' ! k \<and> \<not> ?ws ! k}"
      "\<forall>k < length sps. ?ws ! k \<longrightarrow> ws' ! k" "length ws' = length sps" "\<forall>n. no_marker sps pend' n"
      by blast
    have "pieces sps (pend @ w) = (map Plain (take p pend) @ Mark i # ms) @ pieces sps (pend' @ w)" for w
      using hit_stable [OF "1.prems"(3) pi] ms(1) "1.prems"(3) [OF n(1)] by simp
    moreover have "set (marks (map Plain (take p pend) @ Mark i # ms)) =
        {k. k < length sps \<and> ws' ! k \<and> \<not> ws ! k}"
      using ms(4,5) n(1) ok(1) "1.prems"(2) by (auto simp: nth_list_update split: if_splits)
    moreover have "i \<notin> set (marks ms)" using ms(4) "1.prems"(2) n(1) by auto
    moreover have "\<forall>k < length sps. ws ! k \<longrightarrow> ws' ! k"
    proof (intro allI impI)
      fix k
      assume "k < length sps" "ws ! k"
      then have "?ws ! k" using "1.prems"(2) by (cases "k = i") auto
      with ms(5) \<open>k < length sps\<close> show "ws' ! k" by blast
    qed
    ultimately show ?thesis
      using ms(2,3,6,7) by (intro exI [of _ "map Plain (take p pend) @ Mark i # ms"]) simp
  qed
qed

lemma push_loop_no_panic:
  "length ws = length sps \<Longrightarrow> push_loop sps pend ws out \<noteq> Err RestorerPanic"
proof (induction sps pend ws out rule: push_loop.induct)
  case (1 sps pend ws out)
  show ?case
  proof (cases "next_marker pend sps")
    case None
    then show ?thesis by (simp add: push_loop.simps [of sps] append_plain_text_def Let_def)
  next
    case (Some pi)
    then obtain p i where pi: "next_marker pend sps = Some (p, i)" by (cases pi) auto
    note n = next_marker_Some(1) [OF pi]
    have "push_loop sps (drop (p + length (token (sps ! i))) pend) (ws[i := True])
        (x @ replacement (sps ! i)) \<noteq> Err RestorerPanic" if "\<not> ws ! i" for x
      using "1.IH" [OF pi refl _ that] n "1.prems" by simp
    with "1.prems" n pi show ?thesis
      by (simp add: push_loop.simps [of sps pend] append_plain_text_def del: append_assoc)
  qed
qed

lemma push_sound:
  assumes "push r d = Ok (out, r')" "length (seen r) = length (rest_spans r)"
    and marked: "\<And>i. i < length (rest_spans r) \<Longrightarrow> token (rest_spans r ! i) = tok i"
  shows "\<exists>ms. (\<forall>w. pieces (rest_spans r) (pending r @ d @ w) = ms @ pieces (rest_spans r) (pending r' @ w)) \<and>
    out = render_all (rest_spans r) ms \<and> distinct (marks ms) \<and>
    set (marks ms) = {i. i < length (rest_spans r) \<and> seen r' ! i \<and> \<not> seen r ! i} \<and>
    (\<forall>i < length (rest_spans r). seen r ! i \<longrightarrow> seen r' ! i) \<and>
    length (seen r') = length (rest_spans r) \<and> rest_spans r' = rest_spans r \<and>
    (\<forall>n. no_marker (rest_spans r) (pending r') n)"
proof (cases "rest_spans r = []")
  case True
  with assms(1) have r': "out = pending r @ d" "pending r' = []" "seen r' = seen r" "rest_spans r' = []"
    by (auto simp: push_def)
  have "pieces [] s = map Plain s" for s by (induction s) (auto simp: marker_at_def)
  with True assms(2) r' show ?thesis
    by (intro exI [of _ "map Plain (pending r @ d)"]) (auto simp: no_marker_def)
next
  case False
  with assms(1) obtain p' s' where
    l: "push_loop (rest_spans r) (pending r @ d) (seen r) [] = Ok (out, p', s')"
      "r' = r\<lparr>pending := p', seen := s'\<rparr>"
    by (auto simp: push_def Let_def and_then_Inr)
  from push_loop_sound [OF marked l(1) assms(2)] l(2) show ?thesis by simp
qed

lemma finish_sound:
  assumes "finish r = Ok (out, r')" "length (seen r) = length (rest_spans r)"
    and marked: "\<And>i. i < length (rest_spans r) \<Longrightarrow> token (rest_spans r ! i) = tok i"
  shows "out = render_all (rest_spans r) (pieces (rest_spans r) (pending r)) \<and>
    distinct (marks (pieces (rest_spans r) (pending r))) \<and>
    set (marks (pieces (rest_spans r) (pending r))) = {i. i < length (rest_spans r) \<and> \<not> seen r ! i}"
proof -
  let ?sps = "rest_spans r"
  from assms(1) obtain out1 r1 where
    p: "push r [] = Ok (out1, r1)" "out = out1 @ pending r1" "\<not> list_ex Not (seen r1)"
    by (auto simp: finish_def and_then_Inr append_plain_text_def split: if_splits)
  from push_sound [OF p(1) assms(2) marked] obtain ms where
    ms: "\<And>w. pieces ?sps (pending r @ w) = ms @ pieces ?sps (pending r1 @ w)"
      "out1 = render_all ?sps ms" "distinct (marks ms)"
      "set (marks ms) = {i. i < length ?sps \<and> seen r1 ! i \<and> \<not> seen r ! i}"
      "length (seen r1) = length ?sps" "\<And>n. no_marker ?sps (pending r1) n"
    by auto
  have "pieces ?sps (pending r1) = map Plain (pending r1)"
    using pieces_plain [OF ms(6) order_refl] by simp
  with ms(1) [of "[]"] have "pieces ?sps (pending r) = ms @ map Plain (pending r1)" by simp
  with p(2,3) ms(2-5) show ?thesis by (auto simp: list_ex_length)
qed

lemma restore_stream_sound:
  "restore_stream r ds = Ok out \<Longrightarrow> length (seen r) = length (rest_spans r) \<Longrightarrow>
   (\<And>i. i < length (rest_spans r) \<Longrightarrow> token (rest_spans r ! i) = tok i) \<Longrightarrow>
   ms = pieces (rest_spans r) (pending r @ concat ds) \<Longrightarrow>
   out = render_all (rest_spans r) ms \<and> distinct (marks ms) \<and>
   set (marks ms) = {i. i < length (rest_spans r) \<and> \<not> seen r ! i}"
proof (induction ds arbitrary: r out ms)
  case Nil
  then obtain r' where "finish r = Ok (out, r')" by (auto simp: and_then_Inr)
  from finish_sound [OF this Nil.prems(2,3)] Nil.prems(4) show ?case by simp
next
  case (Cons d ds)
  let ?sps = "rest_spans r"
  from Cons.prems(1) obtain out1 r1 out2 where
    p: "push r d = Ok (out1, r1)" "restore_stream r1 ds = Ok out2" "out = out1 @ out2"
    by (auto simp: and_then_Inr)
  from push_sound [OF p(1) Cons.prems(2,3)] obtain ms1 where
    m1: "\<And>w. pieces ?sps (pending r @ d @ w) = ms1 @ pieces ?sps (pending r1 @ w)"
      "out1 = render_all ?sps ms1" "distinct (marks ms1)"
      "set (marks ms1) = {i. i < length ?sps \<and> seen r1 ! i \<and> \<not> seen r ! i}"
      "\<forall>i < length ?sps. seen r ! i \<longrightarrow> seen r1 ! i"
      "length (seen r1) = length ?sps" "rest_spans r1 = ?sps"
    by auto
  from Cons.IH [OF p(2) _ _ refl] m1(6,7) Cons.prems(3)
  have m2: "out2 = render_all ?sps (pieces ?sps (pending r1 @ concat ds))"
    "distinct (marks (pieces ?sps (pending r1 @ concat ds)))"
    "set (marks (pieces ?sps (pending r1 @ concat ds))) = {i. i < length ?sps \<and> \<not> seen r1 ! i}"
    by auto
  have "ms = ms1 @ pieces ?sps (pending r1 @ concat ds)" using Cons.prems(4) m1(1) by simp
  with m1(2-5) m2 p(3) show ?case by auto
qed

text \<open>
  Completeness: a text made of plain parts without the reserved prefix and of the markers, each
  once and in any order, is restored.
\<close>

lemma clean_no_marker:
  assumes marked: "\<And>i. i < length sps \<Longrightarrow> token (sps ! i) = tok i"
    and "\<not> contains t PROTECTED_TOKEN_PREFIX"
  shows "next_marker t sps = None"
proof -
  have "str_find (token (sps ! i)) t = None" if i: "i < length sps" for i
  proof (rule ccontr)
    assume "str_find (token (sps ! i)) t \<noteq> None"
    then have "contains t (tok i)" using marked [OF i] by (simp add: contains_def)
    then obtain a b where "t = a @ tok i @ b" by (auto simp: contains_iff)
    with tok_head [of i] obtain v where "t = a @ PROTECTED_TOKEN_PREFIX @ v" by auto
    with assms(2) show False by (auto simp: contains_iff)
  qed
  then show ?thesis by (simp add: next_marker_None)
qed

lemma push_loop_clean:
  assumes "\<And>i. i < length sps \<Longrightarrow> token (sps ! i) = tok i"
    and "\<not> contains t PROTECTED_TOKEN_PREFIX"
  shows "\<exists>k. push_loop sps t ws out = Ok (out @ take k t, drop k t, ws)"
proof -
  let ?k = "length t - longest_marker_prefix_suffix t sps"
  have "\<not> contains (take ?k t) PROTECTED_TOKEN_PREFIX"
    using assms(2) contains_append1 by (metis append_take_drop_id)
  with clean_no_marker [OF assms] show ?thesis
    by (intro exI [of _ ?k]) (simp add: push_loop.simps [of sps t] append_plain_text_def Let_def)
qed

lemma next_marker_weave:
  assumes marked: "\<And>i. i < length sps \<Longrightarrow> token (sps ! i) = tok i"
    and u: "\<not> contains u PROTECTED_TOKEN_PREFIX" and i: "i < length sps"
  shows "next_marker (u @ tok i @ rest) sps = Some (length u, i)"
proof (rule next_marker_eqI [OF i])
  show "prefix (token (sps ! i)) (drop (length u) (u @ tok i @ rest))" using marked [OF i] by simp
  show "no_marker sps (u @ tok i @ rest) (length u)"
    unfolding no_marker_def
  proof (intro allI impI notI)
    fix q j
    assume q: "q < length u" "j < length sps" "prefix (token (sps ! j)) (drop q (u @ tok i @ rest))"
    obtain d w where d: "tok j = marker_head d @ w" "is_ascii_digit d" using tok_head by blast
    obtain v where v: "tok i = PROTECTED_TOKEN_PREFIX @ v" using tok_head [of i] by auto
    have "prefix (marker_head d) (drop q (u @ PROTECTED_TOKEN_PREFIX @ v @ rest))"
      using q(3) marked [OF q(2)] d(1) v by (metis append.assoc append_prefixD)
    with u q(1) d(2) show False by (rule marker_not_early)
  qed
  fix j
  assume j: "j < length sps" "j \<noteq> i"
  show "\<not> prefix (token (sps ! j)) (drop (length u) (u @ tok i @ rest))"
  proof
    assume "prefix (token (sps ! j)) (drop (length u) (u @ tok i @ rest))"
    then have "prefix (tok j) (tok i @ rest)" using marked [OF j(1)] by simp
    moreover have "prefix (tok i) (tok i @ rest)" by simp
    ultimately show False using tok_prefix_free j(2) prefix_same_cases by metis
  qed
qed simp

lemma push_loop_weave:
  assumes marked: "\<And>i. i < length sps \<Longrightarrow> token (sps ! i) = tok i"
    and t: "\<not> contains t PROTECTED_TOKEN_PREFIX"
  shows "\<forall>(u, i) \<in> set us. \<not> contains u PROTECTED_TOKEN_PREFIX \<and> i < length sps \<and> \<not> ws ! i \<Longrightarrow>
    distinct (map snd us) \<Longrightarrow> length ws = length sps \<Longrightarrow>
    \<exists>k ws'. push_loop sps (weave us t (\<lambda>i. token (sps ! i))) ws out =
        Ok (out @ weave us (take k t) (\<lambda>i. replacement (sps ! i)), drop k t, ws') \<and>
      length ws' = length sps \<and> (\<forall>j < length sps. ws' ! j \<longleftrightarrow> ws ! j \<or> j \<in> snd ` set us)"
proof (induction us arbitrary: ws out)
  case Nil
  from push_loop_clean [OF marked t, of ws out] Nil.prems(3) show ?case by auto
next
  case (Cons ui us)
  obtain u i where ui: "ui = (u, i)" by (cases ui) auto
  with Cons.prems(1) have u: "\<not> contains u PROTECTED_TOKEN_PREFIX" "i < length sps" "\<not> ws ! i" by auto
  let ?rest = "weave us t (\<lambda>i. token (sps ! i))" and ?ws = "ws[i := True]"
    and ?out = "(out @ u) @ replacement (sps ! i)"
  have n: "next_marker (u @ token (sps ! i) @ ?rest) sps = Some (length u, i)"
    using next_marker_weave [OF marked u(1,2)] marked [OF u(2)] by simp
  have step: "push_loop sps (u @ token (sps ! i) @ ?rest) ws out = push_loop sps ?rest ?ws ?out"
    by (subst push_loop.simps) (use n u Cons.prems(3) in \<open>simp add: append_plain_text_def\<close>)
  have "\<forall>(v, j) \<in> set us. \<not> contains v PROTECTED_TOKEN_PREFIX \<and> j < length sps \<and> \<not> ?ws ! j"
  proof clarify
    fix v j
    assume vj: "(v, j) \<in> set us"
    then have "j \<noteq> i" using Cons.prems(2) ui by force
    with vj Cons.prems(1) show "\<not> contains v PROTECTED_TOKEN_PREFIX \<and> j < length sps \<and> \<not> ?ws ! j" by auto
  qed
  from Cons.IH [OF this, of ?out] Cons.prems(2,3) obtain k ws' where
    k: "push_loop sps ?rest ?ws ?out =
        Ok (?out @ weave us (take k t) (\<lambda>i. replacement (sps ! i)), drop k t, ws')"
      "length ws' = length sps"
      "\<forall>j < length sps. ws' ! j \<longleftrightarrow> ?ws ! j \<or> j \<in> snd ` set us"
    by auto
  have "\<forall>j < length sps. ws' ! j \<longleftrightarrow> ws ! j \<or> j \<in> snd ` set (ui # us)"
  proof (intro allI impI)
    fix j
    assume j: "j < length sps"
    have "?ws ! j \<longleftrightarrow> ws ! j \<or> j = i" using j Cons.prems(3) by (cases "j = i") auto
    with k(3) j ui show "ws' ! j \<longleftrightarrow> ws ! j \<or> j \<in> snd ` set (ui # us)" by auto
  qed
  with k(1,2) step ui show ?case by (intro exI [of _ k] exI [of _ ws']) simp
qed

lemma restore_weave:
  assumes marked: "\<And>i. i < length sps \<Longrightarrow> token (sps ! i) = tok i"
    and t: "\<not> contains t PROTECTED_TOKEN_PREFIX"
    and us: "\<forall>(u, i) \<in> set us. \<not> contains u PROTECTED_TOKEN_PREFIX"
    and once: "distinct (map snd us)" "snd ` set us = {0..<length sps}"
  shows "restore_stream (restorer \<lparr>protected_text = x, spans = sps\<rparr>) [weave us t (\<lambda>i. token (sps ! i))] =
    Ok (weave us t (\<lambda>i. replacement (sps ! i)))"
proof (cases "sps = []")
  case True
  with once(2) have "us = []" by simp
  with True show ?thesis by (simp add: restorer_def push_def finish_def)
next
  case False
  let ?ws = "replicate (length sps) False"
  have "\<forall>(u, i) \<in> set us. \<not> contains u PROTECTED_TOKEN_PREFIX \<and> i < length sps \<and> \<not> ?ws ! i"
  proof clarify
    fix u i
    assume ui: "(u, i) \<in> set us"
    then have "i \<in> snd ` set us" by (rule image_eqI [rotated]) simp
    then have "i < length sps" using once(2) by simp
    with us ui show "\<not> contains u PROTECTED_TOKEN_PREFIX \<and> i < length sps \<and> \<not> ?ws ! i" by auto
  qed
  from push_loop_weave [OF marked t this once(1), of "[]"] obtain k ws' where
    k: "push_loop sps (weave us t (\<lambda>i. token (sps ! i))) ?ws [] =
        Ok (weave us (take k t) (\<lambda>i. replacement (sps ! i)), drop k t, ws')"
      "length ws' = length sps" "\<forall>j < length sps. ws' ! j \<longleftrightarrow> ?ws ! j \<or> j \<in> snd ` set us"
    by (simp only: append_Nil length_replicate) blast
  have all: "\<not> list_ex Not ws'" using k(2,3) once(2) by (auto simp: list_ex_length)
  have clean: "\<not> contains (drop k t) PROTECTED_TOKEN_PREFIX"
    using t contains_append2 by (metis append_take_drop_id)
  have "\<exists>n. push_loop sps (drop k t) ws' [] = Ok ([] @ take n (drop k t), drop n (drop k t), ws')"
    by (rule push_loop_clean [OF marked clean])
  then obtain n where
    n: "push_loop sps (drop k t) ws' [] = Ok (take n (drop k t), drop n (drop k t), ws')" by auto
  have "\<not> contains (drop n (drop k t)) PROTECTED_TOKEN_PREFIX"
    using clean contains_append2 by (metis append_take_drop_id)
  with n all have "and_then (finish \<lparr>rest_spans = sps, pending = drop k t, seen = ws'\<rparr>)
      (\<lambda>(out, _). Ok out) = Ok (drop k t)"
    using False by (simp add: finish_def push_def append_plain_text_def del: drop_drop)
  with k(1) False show ?thesis
    by (simp add: restorer_def push_def weave_split)
qed

end

section \<open>The tokens of a source text\<close>

lemma unused_token_shape: "\<exists>k. unused_token source t = t @ replicate k CHR ''_''"
proof (induction source t rule: unused_token.induct)
  case (1 source t)
  show ?case
  proof (cases "contains source t")
    case True
    with 1 obtain k where "unused_token source (t @ ''_'') = (t @ ''_'') @ replicate k CHR ''_''" by auto
    with True show ?thesis by (auto simp: unused_token.simps [of source t] intro: exI [of _ "Suc k"])
  next
    case False
    then show ?thesis by (auto simp: unused_token.simps [of source t] intro: exI [of _ 0])
  qed
qed

lemma unused_token_unused: "\<not> contains source (unused_token source t)"
proof (induction source t rule: unused_token.induct)
  case (1 source t)
  then show ?case
    by (cases "contains source t") (simp_all add: unused_token.simps [of source t])
qed

lemma marker_token_shape:
  "\<exists>k. marker_token source i =
     PROTECTED_TOKEN_PREFIX @ nat_to_string i @ CHR ''_'' # replicate k CHR ''_''"
  using unused_token_shape [of source "PROTECTED_TOKEN_PREFIX @ nat_to_string i @ PROTECTED_TOKEN_SUFFIX"]
  by (force simp: marker_token_def PROTECTED_TOKEN_SUFFIX_def intro: exI [of _ "Suc _"])

lemma digits_then_stop:
  assumes "list_all D a" "list_all D b" "\<not> D c"
  shows "prefix (a @ c # x) (b @ c # y) \<Longrightarrow> a = b"
  using assms
proof (induction a b rule: list_induct2')
  case (2 a as)
  then show ?case by auto
next
  case (3 b bs)
  then show ?case by auto
qed auto

interpretation source_markers: markers "marker_token source" for source
proof
  show "\<exists>d w. marker_token source i = marker_head d @ w \<and> is_ascii_digit d" for i
    using marker_token_shape [of source i] hd_nat_to_string [of i]
    by (cases "nat_to_string i") auto
  show "marker_token source i ! k \<noteq> CHR ''L''" if k: "2 < k" "k < length (marker_token source i)" for i k
  proof -
    obtain n where t: "marker_token source i =
        PROTECTED_TOKEN_PREFIX @ nat_to_string i @ CHR ''_'' # replicate n CHR ''_''"
      using marker_token_shape by blast
    have "CHR ''L'' \<notin> set (drop 3 PROTECTED_TOKEN_PREFIX)"
      by (simp add: PROTECTED_TOKEN_PREFIX_def)
    moreover have "CHR ''L'' \<notin> set (nat_to_string i)"
      using nat_to_string_digits [of i] by (auto simp: list_all_iff is_ascii_digit_def)
    ultimately have "CHR ''L'' \<notin> set (drop 3 (marker_token source i))"
      unfolding t by simp
    moreover have "marker_token source i ! k \<in> set (drop 3 (marker_token source i))"
      using k by (auto simp: in_set_conv_nth intro!: exI [of _ "k - 3"])
    ultimately show ?thesis by metis
  qed
  show "\<not> prefix (marker_token source i) (marker_token source j)" if "i \<noteq> j" for i j
  proof
    assume p: "prefix (marker_token source i) (marker_token source j)"
    obtain m n where "marker_token source i =
        PROTECTED_TOKEN_PREFIX @ nat_to_string i @ CHR ''_'' # replicate m CHR ''_''"
      "marker_token source j =
        PROTECTED_TOKEN_PREFIX @ nat_to_string j @ CHR ''_'' # replicate n CHR ''_''"
      using marker_token_shape by meson
    with p have "nat_to_string i = nat_to_string j"
      by (intro digits_then_stop [of is_ascii_digit _ _ "CHR ''_''"])
        (auto simp: nat_to_string_digits is_ascii_digit_def)
    with that show False by (simp add: nat_to_string_inj)
  qed
qed

lemma emit_protected_spans:
  "emit_protected source cursor index cs = (t, sps) \<Longrightarrow>
     length sps = length cs \<and>
     (\<forall>i < length cs. token (sps ! i) = marker_token source (index + i) \<and>
        replacement (sps ! i) = cand_replacement (cs ! i))"
proof (induction source cursor index cs arbitrary: t sps rule: emit_protected.induct)
  case (1 source cursor index)
  then show ?case by simp
next
  case (2 source cursor index c cs)
  obtain rest sps' where e: "emit_protected source (cand_end c) (index + 1) cs = (rest, sps')"
    by (cases "emit_protected source (cand_end c) (index + 1) cs")
  with 2 show ?case by (auto simp: Let_def less_Suc_eq_0_disj)
qed

lemma build_protected_source_OkD:
  assumes "build_protected_source is_alphanumeric source sl tgt g = Ok p"
  shows "emit_protected source 0 0 (selected_candidates is_alphanumeric source sl tgt g) =
    (protected_text p, spans p)"
  using assms by (auto simp: build_protected_source_def and_then_Inr split: prod.splits)

lemma build_protected_source_marked:
  assumes "build_protected_source is_alphanumeric source sl tgt g = Ok p" "i < length (spans p)"
  shows "token (spans p ! i) = marker_token source i"
  using emit_protected_spans [OF build_protected_source_OkD [OF assms(1)]] assms(2) by simp

text \<open>The text of the source with every selected candidate replaced.\<close>

fun replaced :: "string \<Rightarrow> nat \<Rightarrow> ProtectedCandidate list \<Rightarrow> string" where
  "replaced source cursor [] = drop cursor source"
| "replaced source cursor (c # cs) =
     slice source cursor (cand_start c) @ cand_replacement c @ replaced source (cand_end c) cs"

fun gaps :: "string \<Rightarrow> nat \<Rightarrow> nat \<Rightarrow> ProtectedCandidate list \<Rightarrow> (string \<times> nat) list" where
  "gaps source cursor index [] = []"
| "gaps source cursor index (c # cs) =
     (slice source cursor (cand_start c), index) # gaps source (cand_end c) (index + 1) cs"

fun gap_tail :: "string \<Rightarrow> nat \<Rightarrow> ProtectedCandidate list \<Rightarrow> string" where
  "gap_tail source cursor [] = drop cursor source"
| "gap_tail source cursor (c # cs) = gap_tail source (cand_end c) cs"

lemma map_snd_gaps: "map snd (gaps source cursor index cs) = [index..<index + length cs]"
  by (induction source cursor index cs rule: gaps.induct) (simp_all add: upt_rec)

lemma contains_slice: "contains (slice s i j) p \<Longrightarrow> contains s p"
  by (metis append_take_drop_id contains_append1 contains_append2)

lemma gaps_clean:
  assumes "\<not> contains source p"
  shows "\<forall>(u, i) \<in> set (gaps source cursor index cs). \<not> contains u p"
    "\<not> contains (gap_tail source cursor cs) p"
proof -
  have drop_clean: "\<not> contains (drop n source) p" for n
    using assms contains_append2 by (metis append_take_drop_id)
  show "\<forall>(u, i) \<in> set (gaps source cursor index cs). \<not> contains u p"
  proof (induction cs arbitrary: cursor index)
    case (Cons c cs)
    have "\<not> contains (slice source cursor (cand_start c)) p" using assms contains_slice by blast
    with Cons show ?case by simp
  qed simp
  show "\<not> contains (gap_tail source cursor cs) p"
    using drop_clean by (induction cs arbitrary: cursor) auto
qed

lemma emit_protected_weave:
  "emit_protected source cursor index cs = (t, sps) \<Longrightarrow>
     t = weave (gaps source cursor index cs) (gap_tail source cursor cs) (marker_token source)"
proof (induction source cursor index cs arbitrary: t sps rule: emit_protected.induct)
  case (1 source cursor index)
  then show ?case by simp
next
  case (2 source cursor index c cs)
  obtain rest sps' where e: "emit_protected source (cand_end c) (index + 1) cs = (rest, sps')"
    by (cases "emit_protected source (cand_end c) (index + 1) cs")
  with 2 show ?case by (auto simp: Let_def)
qed

lemma replaced_weave:
  "(\<And>i. i < length cs \<Longrightarrow> f (index + i) = cand_replacement (cs ! i)) \<Longrightarrow>
   replaced source cursor cs = weave (gaps source cursor index cs) (gap_tail source cursor cs) f"
proof (induction source cursor index cs rule: gaps.induct)
  case (1 source cursor index)
  then show ?case by simp
next
  case (2 source cursor index c cs)
  from "2.prems" [of 0] "2.prems" [of "Suc _"] "2.IH" show ?case by simp
qed

lemma weave_cong:
  "(\<And>i. i \<in> snd ` set us \<Longrightarrow> f i = g i) \<Longrightarrow> weave us t f = weave us t g"
  by (induction us t f rule: weave.induct) auto

lemma restore_protected:
  assumes clean: "\<not> contains source PROTECTED_TOKEN_PREFIX"
    and p: "build_protected_source is_alphanumeric source sl tgt g = Ok p"
  shows "restore_stream (restorer p) [protected_text p] =
    Ok (replaced source 0 (selected_candidates is_alphanumeric source sl tgt g))"
proof -
  let ?cs = "selected_candidates is_alphanumeric source sl tgt g"
  let ?us = "gaps source 0 0 ?cs" and ?t = "gap_tail source 0 ?cs"
  note e = build_protected_source_OkD [OF p]
  note sp = emit_protected_spans [OF e]
  have snd_us: "snd ` set ?us = {0..<length (spans p)}"
    using map_snd_gaps [of source 0 0 ?cs] sp by (simp flip: set_map)
  have text_eq: "protected_text p = weave ?us ?t (\<lambda>i. token (spans p ! i))"
    unfolding emit_protected_weave [OF e] by (rule weave_cong) (use snd_us sp in auto)
  have out_eq: "replaced source 0 ?cs = weave ?us ?t (\<lambda>i. replacement (spans p ! i))"
    by (rule replaced_weave) (use sp in auto)
  have "restore_stream (restorer \<lparr>protected_text = protected_text p, spans = spans p\<rparr>)
      [weave ?us ?t (\<lambda>i. token (spans p ! i))] = Ok (weave ?us ?t (\<lambda>i. replacement (spans p ! i)))"
    using gaps_clean [OF clean] snd_us map_snd_gaps [of source 0 0 ?cs]
    by (intro source_markers.restore_weave [where source = source] build_protected_source_marked [OF p]) auto
  then show ?thesis unfolding text_eq [symmetric] out_eq [symmetric] by (cases p) simp
qed

lemma replaced_automatic:
  "\<forall>c \<in> set cs. cand_replacement c = slice source (cand_start c) (cand_end c) \<Longrightarrow>
   replaced source cursor (select_candidates cs cursor) = drop cursor source"
proof (induction cs arbitrary: cursor)
  case Nil
  then show ?case by simp
next
  case (Cons c cs)
  have glue: "slice source i j @ drop j source = drop i source" if "i \<le> j" for i j
    using that append_take_drop_id [of "j - i" "drop i source"] by simp
  show ?case
  proof (cases "cand_start c < cand_end c \<and> cursor \<le> cand_start c")
    case True
    with Cons have "replaced source (cand_end c) (select_candidates cs (cand_end c)) =
        drop (cand_end c) source" by simp
    with True Cons.prems show ?thesis by (simp add: glue)
  next
    case False
    then have "select_candidates (c # cs) cursor = select_candidates cs cursor" by auto
    with Cons show ?thesis by simp
  qed
qed

lemma automatic_replacement:
  "c \<in> set (automatic_candidates source) \<Longrightarrow>
     cand_replacement c = slice source (cand_start c) (cand_end c)"
  by (auto simp: automatic_candidates_def)

section \<open>Properties\<close>

text \<open>
  C1: Soundness of the streaming restorer: however the model's output is cut into deltas, if
  every \<open>push\<close> and the final \<open>finish\<close> succeed, then the text shown to the user is the whole output
  with each marker, read from left to right, replaced by its fragment, and every marker of the
  source occurred exactly once.
\<close>

theorem streaming_restorer_refines_pieces:
  assumes "build_protected_source is_alphanumeric source source_locale target_locale g = Ok p"
    and "restore_stream (restorer p) deltas = Ok out"
  shows "out = render_all (spans p) (pieces (spans p) (concat deltas)) \<and>
    distinct (marks (pieces (spans p) (concat deltas))) \<and>
    set (marks (pieces (spans p) (concat deltas))) = {0..<length (spans p)}"
proof -
  have "out = render_all (rest_spans (restorer p)) (pieces (spans p) (concat deltas)) \<and>
      distinct (marks (pieces (spans p) (concat deltas))) \<and>
      set (marks (pieces (spans p) (concat deltas))) =
        {i. i < length (rest_spans (restorer p)) \<and> \<not> seen (restorer p) ! i}"
    by (rule source_markers.restore_stream_sound [OF assms(2)])
      (use build_protected_source_marked [OF assms(1)] in \<open>auto simp: restorer_def\<close>)
  moreover have "{i. i < length (rest_spans (restorer p)) \<and> \<not> seen (restorer p) ! i} =
      {0..<length (spans p)}"
    by (auto simp: restorer_def)
  ultimately show ?thesis by (simp add: restorer_def)
qed

definition demo_source :: string where "demo_source = ''run {x} at 5''"

definition demo_terms :: Glossary where
  "demo_terms = \<lparr>entries =
      [\<lparr>source_term = ''mesh'', target_term = ''maillage'', entry_source_locale = None,
        entry_target_locale = None, case_sensitive = True, whole_word = True, immutable = False,
        entry_domain = None, priority = 0, entry_notes = None, enabled = True\<rparr>]\<rparr>"

definition demo_terms_protected :: ProtectedSource where
  "demo_terms_protected = \<lparr>protected_text = ''my __LINGUAMESH_PROTECTED_0__'',
     spans = [\<lparr>token = ''__LINGUAMESH_PROTECTED_0__'', span_source = ''mesh'', replacement = ''maillage''\<rparr>]\<rparr>"

definition demo_two_protected :: ProtectedSource where
  "demo_two_protected =
     \<lparr>protected_text = ''__LINGUAMESH_PROTECTED_0__ __LINGUAMESH_PROTECTED_1__'',
      spans = [\<lparr>token = ''__LINGUAMESH_PROTECTED_0__'', span_source = ''{x}'', replacement = ''{x}''\<rparr>,
               \<lparr>token = ''__LINGUAMESH_PROTECTED_1__'', span_source = ''{y}'', replacement = ''{y}''\<rparr>]\<rparr>"

definition demo_protected :: ProtectedSource where
  "demo_protected = \<lparr>protected_text = ''run __LINGUAMESH_PROTECTED_0__ at 5'',
     spans = [\<lparr>token = ''__LINGUAMESH_PROTECTED_0__'', span_source = ''{x}'', replacement = ''{x}''\<rparr>]\<rparr>"

lemma demo_build: "build_protected_source (\<lambda>_. False) demo_source None None None = Ok demo_protected"
  by code_simp

theorem streaming_restorer_refines_pieces_witness:
  "restore_stream (restorer demo_protected) [''lance __LINGUAMESH_PROT'', ''ECTED_0__ a 5''] =
     Ok ''lance {x} a 5'' \<and>
   set (marks (pieces (spans demo_protected) ''lance __LINGUAMESH_PROTECTED_0__ a 5'')) = {0..<1}"
proof -
  have "restore_stream (restorer demo_protected) [''lance __LINGUAMESH_PROT'', ''ECTED_0__ a 5''] =
     Ok ''lance {x} a 5''" by code_simp
  from streaming_restorer_refines_pieces [OF demo_build this] this show ?thesis
    by (simp add: demo_protected_def)
qed

text \<open>
  C2: Completeness of the restorer for an output that arrives in one delta: when the model translates
  the plain text freely (without writing the reserved marker prefix itself) and keeps every marker
  exactly once, in any order, the output is accepted and restored to that translation with each
  marker replaced by its fragment. It is not accepted in every cutting into
  deltas, as the flaw at the end shows.
\<close>

theorem restorer_accepts_reordered_markers:
  assumes "build_protected_source is_alphanumeric source source_locale target_locale g = Ok p"
    and "\<forall>(u, i) \<in> set us. \<not> contains u PROTECTED_TOKEN_PREFIX"
    and "\<not> contains t PROTECTED_TOKEN_PREFIX"
    and "distinct (map snd us)" "snd ` set us = {0..<length (spans p)}"
  shows "restore_stream (restorer p) [weave us t (\<lambda>i. token (spans p ! i))] =
    Ok (weave us t (\<lambda>i. replacement (spans p ! i)))"
proof -
  have "restore_stream (restorer \<lparr>protected_text = protected_text p, spans = spans p\<rparr>)
      [weave us t (\<lambda>i. token (spans p ! i))] = Ok (weave us t (\<lambda>i. replacement (spans p ! i)))"
    using assms(2-5) 
    by (intro source_markers.restore_weave [where source = source] build_protected_source_marked [OF assms(1)])
  then show ?thesis by (cases p) simp
qed

theorem restorer_accepts_reordered_markers_witness:
  "restore_stream (restorer demo_protected) [''a 5: '' @ token (spans demo_protected ! 0) @ ''!''] =
     Ok ''a 5: {x}!''"
proof -
  have "\<not> contains ''a 5: '' PROTECTED_TOKEN_PREFIX" "\<not> contains ''!'' PROTECTED_TOKEN_PREFIX"
    by code_simp+
  then show ?thesis
    using restorer_accepts_reordered_markers [OF demo_build, of "[(''a 5: '', 0)]" "''!''"]
    by (simp add: demo_protected_def)
qed

text \<open>
  Protecting a text that does not use the reserved prefix and restoring it without a
  translation gives the text back with the glossary rules applied: every selected candidate is
  replaced by its replacement and everything else is unchanged, at any number of spans.
\<close>

lemma protect_then_restore:
  assumes "\<not> contains source PROTECTED_TOKEN_PREFIX"
    and "protect_source_text_with_glossary is_alphanumeric source source_locale target_locale g = Ok p"
  shows "restore_stream (restorer p) [protected_text p] =
    Ok (replaced source 0
      (selected_candidates is_alphanumeric source source_locale (Some target_locale) g))"
  using restore_protected assms by (simp add: protect_source_text_with_glossary_def)

lemma protect_then_restore_witness:
  "restore_stream (restorer demo_terms_protected) [protected_text demo_terms_protected] =
     Ok ''my maillage''"
proof -
  have "protect_source_text_with_glossary (\<lambda>c. c \<noteq> '' '') ''my mesh'' None ''fr'' (Some demo_terms) =
      Ok demo_terms_protected"
    by code_simp
  moreover have "\<not> contains ''my mesh'' PROTECTED_TOKEN_PREFIX" by code_simp
  ultimately have "restore_stream (restorer demo_terms_protected) [protected_text demo_terms_protected] =
      Ok (replaced ''my mesh'' 0 (selected_candidates (\<lambda>c. c \<noteq> '' '') ''my mesh'' None (Some ''fr'') (Some demo_terms)))"
    by (intro protect_then_restore)
  moreover have "replaced ''my mesh'' 0
      (selected_candidates (\<lambda>c. c \<noteq> '' '') ''my mesh'' None (Some ''fr'') (Some demo_terms)) = ''my maillage''"
    by code_simp
  ultimately show ?thesis by simp
qed

text \<open>
  A text without the reserved prefix and without a glossary is restored byte for byte:
  whatever code, placeholders, URLs and addresses the scanners found in it, protecting never
  fails and restoring the protected text gives the source.
\<close>

lemma protect_restore_identity:
  assumes "\<not> contains source PROTECTED_TOKEN_PREFIX"
  shows "\<exists>p. protect_source_text source = Some p \<and>
    restore_stream (restorer p) [protected_text p] = Ok source"
proof -
  obtain t sps where "emit_protected source 0 0 (selected_candidates (\<lambda>_. False) source None None None) = (t, sps)"
    by (cases "emit_protected source 0 0 (selected_candidates (\<lambda>_. False) source None None None)")
  then have b: "build_protected_source (\<lambda>_. False) source None None None =
      Ok \<lparr>protected_text = t, spans = sps\<rparr>" by (simp add: build_protected_source_def)
  have "replaced source 0 (selected_candidates (\<lambda>_. False) source None None None) = source"
    using replaced_automatic [of "sort_by candidate_le (automatic_candidates source)" source 0]
    by (simp add: selected_candidates_def automatic_replacement)
  with restore_protected [OF assms b] b show ?thesis by (simp add: protect_source_text_def)
qed

lemma protect_restore_identity_witness:
  "\<exists>p. protect_source_text demo_source = Some p \<and>
    restore_stream (restorer p) [protected_text p] = Ok demo_source"
proof -
  have "\<not> contains demo_source PROTECTED_TOKEN_PREFIX" by code_simp
  then show ?thesis by (rule protect_restore_identity)
qed

text \<open>
  C30: A flaw of the streaming restorer: with two protected fragments, an output in which both
  markers are complete is restored when it arrives in one delta, and rejected as an invalid
  marker when the delta boundary falls inside the second marker. The search for a held-back
  marker prefix stops at the first span with any match instead of taking the longest match.
\<close>

theorem split_second_marker_is_rejected:
  "restore_stream (restorer demo_two_protected)
     [''__LINGUAMESH_PROTECTED_0__ __LINGUAMESH_PROTECTED_1__''] = Ok ''{x} {y}'' \<and>
   restore_stream (restorer demo_two_protected)
     [''__LINGUAMESH_PROTECTED_0__ __LINGUAMESH_PROTECTED_1_'', ''_''] = Err InvalidMarker \<and>
   protect_source_text ''{x} {y}'' = Some demo_two_protected"
proof (intro conjI)
  show "restore_stream (restorer demo_two_protected)
     [''__LINGUAMESH_PROTECTED_0__ __LINGUAMESH_PROTECTED_1__''] = Ok ''{x} {y}''" by code_simp
  show "restore_stream (restorer demo_two_protected)
     [''__LINGUAMESH_PROTECTED_0__ __LINGUAMESH_PROTECTED_1_'', ''_''] = Err InvalidMarker"
    by code_simp
  show "protect_source_text ''{x} {y}'' = Some demo_two_protected" by code_simp
qed

end
