(* ===== verification/Chunking.thy ===== *)
theory Chunking
  imports Protected_Text
begin

text \<open>
  \<open>crates/linguamesh-domain/src/lib.rs\<close>, \<open>ProtectedSource::chunks\<close> and its helpers: a long
  protected text is cut into chunks of bounded size, at sentence ends or white space where
  possible, never inside a marker and never inside a character.
\<close>

section \<open>Model\<close>

datatype ChunkingError = InvalidLimit | ProtectedSpanTooLarge | ProtectedSpanSplit

definition DEFAULT_TRANSLATION_CHUNK_BYTES :: nat where
  "DEFAULT_TRANSLATION_CHUNK_BYTES = 16 * 1024"

text \<open>\<open>while limit > start && !text.is_char_boundary(limit) { limit -= 1 }\<close>.\<close>

fun floor_boundary :: "string \<Rightarrow> nat \<Rightarrow> nat \<Rightarrow> nat" where
  "floor_boundary text start 0 = 0"
| "floor_boundary text start (Suc limit) =
     (if Suc limit > start \<and> \<not> is_char_boundary text (Suc limit)
      then floor_boundary text start limit else Suc limit)"

fun crossing_span :: "string \<Rightarrow> nat \<Rightarrow> nat \<Rightarrow> string list \<Rightarrow> (nat \<times> nat) option" where
  "crossing_span text start limit [] = None"
| "crossing_span text start limit (tok # toks) =
     (case str_find tok (drop start text) of
        None \<Rightarrow> crossing_span text start limit toks
      | Some relative \<Rightarrow>
         (let token_start = start + relative; token_end = token_start + length tok in
          if token_start < limit \<and> token_end > limit then Some (token_start, token_end)
          else crossing_span text start limit toks))"

text \<open>The sentence ends of the source are the ASCII ones and U+3002, U+FF01, U+FF1F.\<close>

definition is_break :: "string \<Rightarrow> bool" where
  "is_break c \<longleftrightarrow>
     c \<in> {[CHR 0x0A], ''.'', ''!'', ''?'', [CHR 0xE3, CHR 0x80, CHR 0x82],
          [CHR 0xEF, CHR 0xBC, CHR 0x81], [CHR 0xEF, CHR 0xBC, CHR 0x9F]} \<or> is_whitespace c"

definition semantic_boundary :: "string \<Rightarrow> nat \<Rightarrow> nat \<Rightarrow> nat" where
  "semantic_boundary text start limit =
     (case foldl (\<lambda>preferred x.
              if is_break (snd x) then Some (start + fst x + length (snd x)) else preferred)
            None (char_indices (slice text start limit))
      of None \<Rightarrow> limit | Some end \<Rightarrow> end)"

text \<open>One round of the loop chooses the end of the chunk that begins at \<open>start\<close>.\<close>

definition chunk_end :: "string \<Rightarrow> nat \<Rightarrow> string list \<Rightarrow> nat \<Rightarrow> ChunkingError + nat" where
  "chunk_end text max_bytes tokens start =
     (let limit = floor_boundary text start (min (start + max_bytes) (length text)) in
      and_then
        (case crossing_span text start limit tokens of
           None \<Rightarrow> Ok limit
         | Some (token_start, token_end) \<Rightarrow>
             if token_start = start then Err ProtectedSpanTooLarge
             else if token_end - token_start > max_bytes then Err ProtectedSpanTooLarge
             else Ok token_start) (\<lambda>limit.
      let boundary = semantic_boundary text start limit in
      if boundary \<le> start then Err ProtectedSpanSplit else Ok boundary))"

function split_loop :: "string \<Rightarrow> nat \<Rightarrow> string list \<Rightarrow> nat \<Rightarrow> ChunkingError + string list" where
  "split_loop text max_bytes tokens start =
     (if start < length text then
        (case chunk_end text max_bytes tokens start of
           Err e \<Rightarrow> Err e
         | Ok boundary \<Rightarrow>
             and_then (split_loop text max_bytes tokens boundary) (\<lambda>rest.
             Ok (slice text start boundary # rest)))
      else Ok [])"
  by pat_completeness auto

lemma chunk_end_progress: "chunk_end text max_bytes tokens start = Ok b \<Longrightarrow> start < b"
  by (auto simp: chunk_end_def Let_def and_then_Inr split: if_splits)

termination split_loop
proof (relation "measure (\<lambda>(s, _, _, start). length s - start)", simp)
  fix s max_bytes tokens start b
  assume "start < length (s :: string)" "chunk_end s max_bytes tokens start = Ok b"
  then show "((s, max_bytes, tokens, b), s, max_bytes, tokens, start)
      \<in> measure (\<lambda>(s, _, _, start). length s - start)"
    using chunk_end_progress [of s max_bytes tokens start b] by auto
qed

declare split_loop.simps [simp del]

definition split_protected_text ::
  "string \<Rightarrow> nat \<Rightarrow> string list \<Rightarrow> ChunkingError + string list" where
  "split_protected_text text max_bytes tokens =
     (if max_bytes = 0 then Err InvalidLimit
      else if text = [] then Ok [[]]
      else if length text \<le> max_bytes then Ok [text]
      else split_loop text max_bytes tokens 0)"

text \<open>The spans of one piece; each span of the source carries its \<open>used\<close> flag.\<close>

fun take_spans ::
  "string \<Rightarrow> (ProtectedSpan \<times> bool) list \<Rightarrow>
     ChunkingError + (ProtectedSpan list \<times> (ProtectedSpan \<times> bool) list)" where
  "take_spans piece [] = Ok ([], [])"
| "take_spans piece ((sp, used) # sps) =
     (if contains piece (token sp) then
        (if used then Err ProtectedSpanSplit
         else and_then (take_spans piece sps) (\<lambda>(own, sps'). Ok (sp # own, (sp, True) # sps')))
      else and_then (take_spans piece sps) (\<lambda>(own, sps'). Ok (own, (sp, used) # sps')))"

fun chunk_loop ::
  "string list \<Rightarrow> (ProtectedSpan \<times> bool) list \<Rightarrow> ChunkingError + ProtectedSource list" where
  "chunk_loop [] sps =
     (if list_ex (\<lambda>(_, used). \<not> used) sps then Err ProtectedSpanSplit else Ok [])"
| "chunk_loop (piece # pieces) sps =
     and_then (take_spans piece sps) (\<lambda>(own, sps').
     and_then (chunk_loop pieces sps') (\<lambda>rest.
     Ok (\<lparr>protected_text = piece, spans = own\<rparr> # rest)))"

definition chunks :: "ProtectedSource \<Rightarrow> nat \<Rightarrow> ChunkingError + ProtectedSource list" where
  "chunks p max_bytes =
     and_then (split_protected_text (protected_text p) max_bytes (map token (spans p))) (\<lambda>pieces.
     chunk_loop pieces (map (\<lambda>sp. (sp, False)) (spans p)))"

section \<open>Where a chunk ends\<close>

lemma foldl_last_some:
  "foldl (\<lambda>pref x. if P x then Some (f x) else pref) y xs = r \<Longrightarrow>
     r = y \<or> (\<exists>x \<in> set xs. P x \<and> r = Some (f x))"
  by (induction xs arbitrary: y) (auto split: if_splits)

lemma semantic_boundary_cases:
  obtains "semantic_boundary s start limit = limit"
  | a c b where "chars (slice s start limit) = a @ c # b"
    "semantic_boundary s start limit = start + length (concat (a @ [c]))"
proof -
  let ?r = "foldl (\<lambda>preferred x. if is_break (snd x) then Some (start + fst x + length (snd x)) else preferred)
      None (char_indices (slice s start limit))"
  have sb: "semantic_boundary s start limit = (case ?r of None \<Rightarrow> limit | Some end \<Rightarrow> end)"
    by (simp add: semantic_boundary_def)
  from foldl_last_some [of "is_break \<circ> snd" "\<lambda>x. start + fst x + length (snd x)" None
      "char_indices (slice s start limit)" ?r]
  consider "?r = None"
    | n c where "(n, c) \<in> set (char_indices (slice s start limit))" "?r = Some (start + n + length c)"
    by auto
  then show thesis
  proof cases
    case 1
    with sb that(1) show ?thesis by simp
  next
    case (2 n c)
    from char_indices_from_mem [OF 2(1) [unfolded char_indices_def]]
    obtain a b where ab: "chars (slice s start limit) = a @ c # b" "n = length (concat a)" by auto
    with 2(2) sb show ?thesis by (intro that(2) [of a c b]) auto
  qed
qed

lemma length_slice: "length (slice s i j) = min (j - i) (length s - i)"
  by simp

lemma semantic_boundary_bounds:
  assumes "start < limit" "limit \<le> length s"
  shows "start < semantic_boundary s start limit" "semantic_boundary s start limit \<le> limit"
proof -
  have "start < semantic_boundary s start limit \<and> semantic_boundary s start limit \<le> limit"
  proof (cases rule: semantic_boundary_cases [of s start limit])
    case 1
    with assms show ?thesis by simp
  next
    case (2 a c b)
    have "c \<noteq> []" using chars_nonempty [of c "slice s start limit"] 2(1) by simp
    moreover have "length (concat (a @ [c])) \<le> length (slice s start limit)"
      using 2(1) concat_chars [of "slice s start limit"] by (metis append.assoc append_Cons append_Nil
        concat_append length_append le_add1)
    ultimately show ?thesis using 2(2) assms by (auto simp: length_slice)
  qed
  then show "start < semantic_boundary s start limit" "semantic_boundary s start limit \<le> limit"
    by blast+
qed

lemma floor_boundary_le: "floor_boundary s start limit \<le> limit"
  by (induction limit) (auto simp: le_Suc_eq)

lemma floor_boundary_ge:
  "start < j \<Longrightarrow> j \<le> limit \<Longrightarrow> is_char_boundary s j \<Longrightarrow> j \<le> floor_boundary s start limit"
  by (induction limit) (auto simp: le_Suc_eq)

lemma floor_boundary_is_boundary:
  "start < floor_boundary s start limit \<Longrightarrow> is_char_boundary s (floor_boundary s start limit)"
  by (induction limit) (auto simp: is_char_boundary_def)

lemma crossing_span_Some:
  "crossing_span s start limit toks = Some (ts, te) \<Longrightarrow>
     start \<le> ts \<and> ts < limit \<and> limit < te \<and>
     (\<exists>tok \<in> set toks. te = ts + length tok \<and> prefix tok (drop ts s))"
proof (induction toks)
  case Nil
  then show ?case by simp
next
  case (Cons tok toks)
  show ?case
  proof (cases "str_find tok (drop start s)")
    case None
    with Cons show ?thesis by auto
  next
    case (Some r)
    with str_find_SomeD [OF Some] Cons show ?thesis
      by (auto simp: Let_def add.commute split: if_splits)
  qed
qed

lemma chunk_end_bounds:
  assumes "chunk_end s max_bytes tokens start = Ok b" "start < length s"
  shows "start < b" "b \<le> length s" "b \<le> start + max_bytes"
proof -
  let ?limit = "floor_boundary s start (min (start + max_bytes) (length s))"
  have "\<exists>limit. limit \<le> ?limit \<and> b = semantic_boundary s start limit \<and> start < b"
  proof (cases "crossing_span s start ?limit tokens")
    case None
    with assms(1) show ?thesis by (auto simp: chunk_end_def Let_def split: if_splits)
  next
    case (Some t)
    with crossing_span_Some [of s start ?limit tokens "fst t" "snd t"]
    have "fst t \<le> ?limit" by simp
    with Some assms(1) show ?thesis
      by (cases t) (auto simp: chunk_end_def Let_def split: if_splits)
  qed
  then obtain limit where limit: "limit \<le> ?limit" "b = semantic_boundary s start limit" "start < b"
    by blast
  have le: "limit \<le> length s" "limit \<le> start + max_bytes"
    using limit(1) floor_boundary_le [of s start "min (start + max_bytes) (length s)"] by auto
  have "b \<le> limit"
  proof (cases "start < limit")
    case True
    then show ?thesis using limit(2) le semantic_boundary_bounds by simp
  next
    case False
    then have "chars (slice s start limit) = []" by simp
    then have "b = limit" using limit(2) by (simp add: semantic_boundary_def char_indices_def)
    then show ?thesis by simp
  qed
  with le limit(3) show "start < b" "b \<le> length s" "b \<le> start + max_bytes" by auto
qed

section \<open>The pieces\<close>

lemma split_loop_sound:
  "split_loop s m toks start = Ok ps \<Longrightarrow> start \<le> length s \<Longrightarrow>
     concat ps = drop start s \<and> (\<forall>p \<in> set ps. p \<noteq> [] \<and> length p \<le> m)"
proof (induction s m toks start arbitrary: ps rule: split_loop.induct)
  case (1 s m toks start)
  show ?case
  proof (cases "start < length s")
    case False
    with "1.prems" show ?thesis by (simp add: split_loop.simps [of s m toks start])
  next
    case True
    with "1.prems"(1) obtain b rest where
      b: "chunk_end s m toks start = Ok b" "split_loop s m toks b = Ok rest"
        "ps = slice s start b # rest"
      by (auto simp: split_loop.simps [of s m toks start] and_then_Inr split: sum.splits)
    note bounds = chunk_end_bounds [OF b(1) True]
    have "slice s start b @ drop b s = drop start s"
      using bounds append_take_drop_id [of "b - start" "drop start s"] by simp
    with "1.IH" [OF True b(1) b(2)] bounds b(3) True show ?thesis by auto
  qed
qed

lemma split_protected_text_sound:
  assumes "split_protected_text s m toks = Ok ps"
  shows "concat ps = s" "\<forall>p \<in> set ps. length p \<le> m \<and> (p \<noteq> [] \<or> s = [])"
  using assms split_loop_sound [of s m toks 0] unfolding split_protected_text_def
  by (auto split: if_splits)

lemma split_protected_text_not_empty: "split_protected_text s m toks = Ok ps \<Longrightarrow> ps \<noteq> []"
  using split_protected_text_sound(1) [of s m toks ps] by (auto simp: split_protected_text_def split: if_splits)

abbreviation unused :: "(ProtectedSpan \<times> bool) list \<Rightarrow> ProtectedSpan multiset" where
  "unused sps \<equiv> mset (map fst (filter (\<lambda>x. \<not> snd x) sps))"

lemma take_spans_sound:
  "take_spans piece sps = Ok (own, sps') \<Longrightarrow>
     (\<forall>sp \<in> set own. contains piece (token sp)) \<and> unused sps = mset own + unused sps'"
proof (induction piece sps arbitrary: own sps' rule: take_spans.induct)
  case (1 piece)
  then show ?case by simp
next
  case (2 piece sp used sps)
  show ?case
  proof (cases "contains piece (token sp)")
    case True
    with "2.prems" obtain own2 sps2 where
      "\<not> used" "take_spans piece sps = Ok (own2, sps2)" "own = sp # own2" "sps' = (sp, True) # sps2"
      by (auto simp: and_then_Inr split: if_splits)
    with "2.IH"(1) [OF True] True show ?thesis by simp
  next
    case False
    with "2.prems" obtain sps2 where "take_spans piece sps = Ok (own, sps2)" "sps' = (sp, used) # sps2"
      by (auto simp: and_then_Inr)
    with "2.IH"(2) [OF False] show ?thesis by simp
  qed
qed

lemma chunk_loop_sound:
  "chunk_loop ps sps = Ok cs \<Longrightarrow>
     map protected_text cs = ps \<and> mset (concat (map spans cs)) = unused sps \<and>
     (\<forall>c \<in> set cs. \<forall>sp \<in> set (spans c). contains (protected_text c) (token sp))"
proof (induction ps sps arbitrary: cs rule: chunk_loop.induct)
  case (1 sps)
  then have "filter (\<lambda>x. \<not> snd x) sps = []"
    by (auto simp: list_ex_iff filter_empty_conv split: if_splits)
  with 1 show ?case by (auto split: if_splits)
next
  case (2 piece ps sps)
  then obtain own sps' rest where
    t: "take_spans piece sps = Ok (own, sps')" "chunk_loop ps sps' = Ok rest"
      "cs = \<lparr>protected_text = piece, spans = own\<rparr> # rest"
    by (auto simp: and_then_Inr)
  from take_spans_sound [OF t(1)] "2.IH" [OF t(2)] t(3) show ?case by auto
qed

text \<open>
  C3: The chunks of a protected text partition it: joined they are the text, none is longer than
  the limit, none is empty unless the text is, and every protected span is assigned to exactly
  one chunk, which contains its marker as a whole.
\<close>

theorem chunks_partition_protected_text:
  assumes "chunks p max_bytes = Ok cs"
  shows "concat (map protected_text cs) = protected_text p \<and>
    (\<forall>c \<in> set cs. length (protected_text c) \<le> max_bytes \<and>
       (protected_text c \<noteq> [] \<or> protected_text p = []) \<and>
       (\<forall>sp \<in> set (spans c). contains (protected_text c) (token sp))) \<and>
    mset (concat (map spans cs)) = mset (spans p)"
proof -
  from assms obtain ps where
    ps: "split_protected_text (protected_text p) max_bytes (map token (spans p)) = Ok ps"
      "chunk_loop ps (map (\<lambda>sp. (sp, False)) (spans p)) = Ok cs"
    by (auto simp: chunks_def and_then_Inr)
  note c = chunk_loop_sound [OF ps(2)] and s = split_protected_text_sound [OF ps(1)]
  have "unused (map (\<lambda>sp. (sp, False)) (spans p)) = mset (spans p)"
    by (simp add: comp_def)
  with c s show ?thesis by auto
qed

lemma chunks_not_empty: "chunks p max_bytes = Ok cs \<Longrightarrow> cs \<noteq> []"
  using split_protected_text_not_empty chunk_loop_sound
  by (fastforce simp: chunks_def and_then_Inr)

definition demo_long :: ProtectedSource where
  "demo_long = \<lparr>protected_text = ''One two. __LINGUAMESH_PROTECTED_0__ end'',
     spans = [\<lparr>token = ''__LINGUAMESH_PROTECTED_0__'', span_source = ''{x}'', replacement = ''{x}''\<rparr>]\<rparr>"

theorem chunks_partition_protected_text_witness:
  "\<exists>cs. chunks demo_long 30 = Ok cs \<and> length cs = 3 \<and>
     concat (map protected_text cs) = protected_text demo_long"
proof -
  have "case chunks demo_long 30 of Err e \<Rightarrow> False | Ok cs \<Rightarrow> length cs = 3" by code_simp
  then obtain cs where "chunks demo_long 30 = Ok cs" "length cs = 3"
    by (auto split: sum.splits)
  with chunks_partition_protected_text [OF this(1)] show ?thesis by blast
qed

section \<open>Cutting always succeeds at a usable limit\<close>

lemma chunk_end_exists:
  assumes v: "valid_str s" and start: "start < length s"
    and toks: "\<forall>tok \<in> set toks. length tok + 3 \<le> m" and m: "4 \<le> m"
  shows "\<exists>b. chunk_end s m toks start = Ok b"
proof -
  let ?top = "min (start + m) (length s)"
  let ?limit = "floor_boundary s start ?top"
  have limit: "start < ?limit" "?limit \<le> length s" "?limit = length s \<or> start + m \<le> ?limit + 3"
  proof -
    have "start < ?limit \<and> (?limit = length s \<or> start + m \<le> ?limit + 3)"
    proof (cases "length s \<le> start + m")
      case True
      then have "?top = length s" by simp
      moreover have "is_char_boundary s (length s)" by (simp add: is_char_boundary_def)
      ultimately have "length s \<le> ?limit" using floor_boundary_ge [of start "length s" ?top s] start by simp
      with start floor_boundary_le [of s start ?top] show ?thesis by auto
    next
      case False
      then obtain j where j: "start + m - 4 < j" "j \<le> start + m" "is_char_boundary s j"
        using next_boundary [OF v, of "start + m - 4"] m by (metis le_add_diff_inverse2 less_imp_diff_less
          linorder_not_le trans_le_add2)
      then have "j \<le> ?limit" using floor_boundary_ge [of start j ?top s] False m by simp
      with j m show ?thesis by auto
    qed
    then show "start < ?limit" "?limit = length s \<or> start + m \<le> ?limit + 3" by blast+
    show "?limit \<le> length s" using floor_boundary_le [of s start ?top] by simp
  qed
  show ?thesis
  proof (cases "crossing_span s start ?limit toks")
    case None
    with limit semantic_boundary_bounds [of start ?limit s] show ?thesis
      by (simp add: chunk_end_def)
  next
    case (Some t)
    obtain ts te where t: "t = (ts, te)" by (cases t)
    from crossing_span_Some [OF Some [unfolded t]] obtain tok where
      c: "start \<le> ts" "ts < ?limit" "?limit < te" "tok \<in> set toks" "te = ts + length tok"
        "prefix tok (drop ts s)" by blast
    have "te \<le> length s" using prefix_length_le [OF c(6)] c(2,5) limit(2) by simp
    then have "start + m \<le> ?limit + 3" using limit(3) c(3) by auto
    then have "start < ts" using toks c by fastforce
    moreover have "te - ts \<le> m" using toks c(4,5) by fastforce
    ultimately show ?thesis
      using Some t semantic_boundary_bounds [of start ts s] c(2) limit(2)
      by (simp add: chunk_end_def)
  qed
qed

lemma split_loop_total:
  assumes "valid_str s" "\<forall>tok \<in> set toks. length tok + 3 \<le> m" "4 \<le> m"
  shows "\<exists>ps. split_loop s m toks start = Ok ps"
  using assms
proof (induction s m toks start rule: split_loop.induct)
  case (1 s m toks start)
  show ?case
  proof (cases "start < length s")
    case False
    then show ?thesis by (simp add: split_loop.simps [of s m toks start])
  next
    case True
    from chunk_end_exists [OF "1.prems"(1) True "1.prems"(2,3)] obtain b where
      b: "chunk_end s m toks start = Ok b" by blast
    from "1.IH" [OF True b "1.prems"] True b show ?thesis
      by (auto simp: split_loop.simps [of s m toks start])
  qed
qed

lemma drop_boundary:
  assumes "is_char_boundary s limit" "start \<le> limit" "start \<le> length s"
  shows "is_char_boundary (drop start s) (limit - start)"
  using is_char_boundary_append [of "take start s" limit "drop start s"] assms by simp

text \<open>A semantic boundary before a character boundary leaves valid strings on both sides.\<close>

lemma semantic_boundary_valid:
  assumes v: "valid_str (drop start s)" and limit: "is_char_boundary s limit" "start < limit" "limit \<le> length s"
    and b: "b = semantic_boundary s start limit"
  shows "valid_str (slice s start b)" "valid_str (drop b s)"
proof -
  obtain cs where cs: "drop start s = concat cs" "\<forall>c \<in> set cs. valid_char c"
    using v by (elim valid_strE)
  have "length (concat cs) = length s - start" using cs(1) by (metis length_drop)
  then have "limit - start \<le> length (concat cs)" using limit by simp
  moreover have "is_char_boundary (concat cs) (limit - start)"
    using drop_boundary [OF limit(1), of start] limit(2,3) cs(1) by simp
  ultimately obtain as bs where ab: "cs = as @ bs" "limit - start = length (concat as)"
    using boundary_split [OF cs(2)] by blast
  have slice: "slice s start limit = concat as" using cs(1) ab by simp
  have val: "\<forall>c \<in> set as. valid_char c" "\<forall>c \<in> set bs. valid_char c" using cs(2) ab(1) by auto
  obtain xs ys where xy: "cs = xs @ ys" "b - start = length (concat xs)" "start \<le> b"
  proof (cases rule: semantic_boundary_cases [of s start limit])
    case 1
    with that [of as bs] ab b limit(2) show ?thesis by simp
  next
    case (2 x c y)
    then have "as = x @ c # y" using slice chars_concat_valid [OF val(1)] by simp
    with that [of "x @ [c]" "y @ bs"] ab(1) 2(2) b show ?thesis by simp
  qed
  have "slice s start b = concat xs" using cs(1) xy by simp
  moreover have "drop b s = drop (b - start) (drop start s)" using xy(3) by simp
  then have "drop b s = concat ys" using cs(1) xy(1,2) by simp
  ultimately show "valid_str (slice s start b)" "valid_str (drop b s)"
    using cs(2) xy(1) by (auto intro: valid_str_concat)
qed

lemma chunk_end_valid:
  assumes v: "valid_str (drop start s)" and b: "chunk_end s m toks start = Ok b" and start: "start < length s"
    and toks: "\<forall>tok \<in> set toks. tok \<noteq> [] \<and> \<not> is_continuation (hd tok)"
  shows "valid_str (slice s start b) \<and> valid_str (drop b s)"
proof -
  let ?limit = "floor_boundary s start (min (start + m) (length s))"
  have le: "?limit \<le> length s"
    using floor_boundary_le [of s start "min (start + m) (length s)"] by simp
  show ?thesis
  proof (cases "crossing_span s start ?limit toks")
    case None
    with b have e: "b = semantic_boundary s start ?limit" "start < b"
      by (auto simp: chunk_end_def Let_def split: if_splits)
    have "start < ?limit"
    proof (rule ccontr)
      assume "\<not> start < ?limit"
      then have "b = ?limit" using e(1) by (simp add: semantic_boundary_def char_indices_def)
      with e(2) \<open>\<not> start < ?limit\<close> show False by simp
    qed
    from semantic_boundary_valid [OF v floor_boundary_is_boundary this le e(1)] this show ?thesis by blast
  next
    case (Some t)
    obtain ts te where t: "t = (ts, te)" by (cases t)
    from crossing_span_Some [OF Some [unfolded t]] obtain tok where
      c: "start \<le> ts" "ts < ?limit" "tok \<in> set toks" "prefix tok (drop ts s)" by blast
    have "ts < length s" using c(2) le by simp
    moreover have "s ! ts = hd tok"
      using c(3,4) toks calculation by (metis hd_append2 hd_drop_conv_nth prefix_def)
    ultimately have bd: "is_char_boundary s ts" using toks c(3) by (auto simp: is_char_boundary_def)
    from b Some t have "ts \<noteq> start" "b = semantic_boundary s start ts"
      by (auto simp: chunk_end_def Let_def split: if_splits)
    with c(1) semantic_boundary_valid [OF v bd] \<open>ts < length s\<close> show ?thesis by simp
  qed
qed

lemma split_loop_valid:
  "split_loop s m toks start = Ok ps \<Longrightarrow> valid_str (drop start s) \<Longrightarrow>
   \<forall>tok \<in> set toks. tok \<noteq> [] \<and> \<not> is_continuation (hd tok) \<Longrightarrow> \<forall>p \<in> set ps. valid_str p"
proof (induction s m toks start arbitrary: ps rule: split_loop.induct)
  case (1 s m toks start)
  show ?case
  proof (cases "start < length s")
    case False
    with "1.prems" show ?thesis by (simp add: split_loop.simps [of s m toks start])
  next
    case True
    with "1.prems"(1) obtain b rest where
      b: "chunk_end s m toks start = Ok b" "split_loop s m toks b = Ok rest"
        "ps = slice s start b # rest"
      by (auto simp: split_loop.simps [of s m toks start] and_then_Inr split: sum.splits)
    from chunk_end_valid [OF "1.prems"(2) b(1) True "1.prems"(3)] "1.IH" [OF True b(1,2)] b(3) "1.prems"(3)
    show ?thesis by auto
  qed
qed

text \<open>
  C4: Cutting a text terminates and succeeds at every usable limit: at least four bytes and three
  more than the longest marker (the default limit is 16 KiB). Each piece is again a sequence of
  whole UTF-8 characters, so no slice of the source is taken inside a character.
\<close>

theorem splitting_succeeds:
  assumes "valid_str s" "4 \<le> max_bytes"
    and "\<forall>tok \<in> set tokens. tok \<noteq> [] \<and> \<not> is_continuation (hd tok) \<and> length tok + 3 \<le> max_bytes"
  shows "\<exists>ps. split_protected_text s max_bytes tokens = Ok ps \<and> (\<forall>p \<in> set ps. valid_str p)"
proof -
  from split_loop_total [of s tokens max_bytes 0] assms obtain ps where
    ps: "split_loop s max_bytes tokens 0 = Ok ps" by auto
  moreover have "\<forall>p \<in> set ps. valid_str p" using split_loop_valid [OF ps] assms by simp
  ultimately show ?thesis using assms by (auto simp: split_protected_text_def valid_str_def)
qed

theorem splitting_succeeds_witness:
  "\<exists>ps. split_protected_text ''One two. __LINGUAMESH_PROTECTED_0__ end'' 30
      [''__LINGUAMESH_PROTECTED_0__''] = Ok ps \<and> (\<forall>p \<in> set ps. valid_str p)"
proof -
  have "valid_str ''One two. __LINGUAMESH_PROTECTED_0__ end''" by code_simp
  moreover have "\<not> is_continuation CHR ''_''" by code_simp
  ultimately show ?thesis by (intro splitting_succeeds) simp_all
qed

end
