(* ===== verification/Chunk_Restoration.thy ===== *)
theory Chunk_Restoration
  imports Restoration Chunking
begin

text \<open>
  How chunking (\<open>ProtectedSource::chunks\<close>) and restoration fit together: the adapters send every
  chunk in a request of its own and restore it with the spans of that chunk only. Whatever
  the limit, the chunks cut a protected text between its markers, so restoring them one by one gives
  the same text as restoring the whole.
\<close>

section \<open>Where the word of the markers occurs\<close>

definition marker_word :: string where "marker_word = ''LINGUAMESH_PROTECTED''"

lemma prefix_is_word: "PROTECTED_TOKEN_PREFIX = ''__'' @ marker_word @ ''_''"
  by (simp add: PROTECTED_TOKEN_PREFIX_def marker_word_def)

lemma word_clean: "\<not> contains s marker_word \<Longrightarrow> \<not> contains s PROTECTED_TOKEN_PREFIX"
  unfolding contains_iff prefix_is_word by (metis append.assoc)

lemma word_no_two_underscores:
  "0 < n \<Longrightarrow> n < length marker_word \<Longrightarrow> marker_word ! n = CHR ''_'' \<Longrightarrow>
     Suc n < length marker_word \<and> marker_word ! Suc n \<noteq> CHR ''_''"
  by (auto simp: marker_word_def nth_Cons' split: if_splits)

lemma word_not_across:
  assumes "\<not> contains u marker_word" "k < length u"
  shows "\<not> prefix marker_word (drop k (u @ ''__'' @ z))"
proof
  let ?v = "drop k u"
  assume "prefix marker_word (drop k (u @ ''__'' @ z))"
  then have p: "prefix marker_word (?v @ ''__'' @ z)" using assms(2) by simp
  have short: "length ?v < length marker_word"
  proof (rule ccontr)
    assume "\<not> length ?v < length marker_word"
    then have "prefix marker_word ?v" using p prefix_append_shorter by fastforce
    then have "u = take k u @ marker_word @ drop (length marker_word) ?v"
      by (metis append_eq_conv_conj append_take_drop_id prefix_def)
    with assms(1) show False by (metis contains_iff)
  qed
  have nth: "marker_word ! n = (?v @ ''__'' @ z) ! n" if "n < length marker_word" for n
    using p that by (metis nth_append prefix_def)
  have "marker_word ! length ?v = CHR ''_''" using nth [OF short] by (simp add: nth_append)
  with word_no_two_underscores [of "length ?v"] short assms(2)
  have "Suc (length ?v) < length marker_word" "marker_word ! Suc (length ?v) \<noteq> CHR ''_''" by auto
  with nth [of "Suc (length ?v)"] show False by (simp add: nth_append)
qed

context markers
begin

abbreviation clean_gaps :: "(string \<times> nat) list \<Rightarrow> bool" where
  "clean_gaps us \<equiv> \<forall>(u, i) \<in> set us. \<not> contains u marker_word"

lemma tok_word: "\<exists>w. tok i = ''__'' @ marker_word @ w"
  using tok_head [of i] by (auto simp: prefix_is_word)

lemma tok_occurrence_word: "prefix (tok i) (drop q s) \<Longrightarrow> prefix marker_word (drop (q + 2) s)"
  using tok_word [of i] prefix_dropI [of "tok i" "drop q s" 2] by (auto simp: add.commute intro: append_prefixD)

lemma word_in_first:
  assumes "\<not> contains u marker_word" "prefix marker_word (drop k (u @ tok i @ rest))" "k < length u + length (tok i)"
  shows "k = length u + 2"
proof (cases "k < length u")
  case True
  then show ?thesis using word_not_across [OF assms(1)] assms(2) tok_word [of i] by (metis append.assoc)
next
  case False
  let ?k = "k - length u"
  have k: "?k < length (tok i)" "drop k (u @ tok i @ rest) = drop ?k (tok i @ rest)" using False assms(3) by auto
  have "drop ?k (tok i @ rest) ! 0 = CHR ''L''"
    using assms(2) unfolding k(2) by (auto simp: prefix_def marker_word_def)
  then have L: "tok i ! ?k = CHR ''L''" using k(1) by (simp add: nth_append)
  moreover have "tok i ! 0 = CHR ''_''" "tok i ! 1 = CHR ''_''" using tok_word [of i] by auto
  ultimately have "?k \<noteq> 0" "?k \<noteq> 1" by auto
  with L tok_single [of ?k i] k(1) show ?thesis by force
qed

lemma word_in_weave:
  "clean_gaps us \<Longrightarrow> \<not> contains t marker_word \<Longrightarrow> prefix marker_word (drop k (weave us t tok)) \<Longrightarrow>
     2 \<le> k \<and> (\<exists>j \<in> snd ` set us. prefix (tok j) (drop (k - 2) (weave us t tok)))"
proof (induction us arbitrary: k)
  case Nil
  then have "contains t marker_word"
    by (simp add: contains_iff prefix_def) (metis append_take_drop_id)
  with Nil show ?case by simp
next
  case (Cons ui us)
  obtain u i where ui: "ui = (u, i)" by (cases ui)
  have w: "prefix marker_word (drop k (u @ tok i @ weave us t tok))" "\<not> contains u marker_word"
    using Cons.prems ui by auto
  show ?case
  proof (cases "k < length u + length (tok i)")
    case True
    with word_in_first [OF w(2,1)] show ?thesis by (simp add: ui)
  next
    case False
    let ?k = "k - (length u + length (tok i))"
    have "prefix marker_word (drop ?k (weave us t tok))" using w(1) False by simp
    from Cons.IH [OF _ Cons.prems(2) this] Cons.prems(1) obtain j where
      j: "2 \<le> ?k" "j \<in> snd ` set us" "prefix (tok j) (drop (?k - 2) (weave us t tok))" by auto
    have "drop (k - 2) (weave (ui # us) t tok) = drop (?k - 2) (weave us t tok)"
      using j(1) by (simp add: ui)
    with j show ?thesis by (intro conjI bexI [of _ j]) auto
  qed
qed

lemma same_tok: "prefix (tok i) s \<Longrightarrow> prefix (tok j) s \<Longrightarrow> i = j"
  using tok_prefix_free prefix_same_cases by metis

lemma contains_weave:
  assumes "clean_gaps us" "\<not> contains t marker_word" "contains (weave us t tok) (tok i)"
  shows "i \<in> snd ` set us"
proof -
  from assms(3) obtain a b where "weave us t tok = a @ tok i @ b" by (auto simp: contains_iff)
  then have p: "prefix (tok i) (drop (length a) (weave us t tok))" by simp
  from word_in_weave [OF assms(1,2) tok_occurrence_word [OF p]] same_tok [OF p] show ?thesis by auto
qed

lemma occurrence_first:
  assumes "clean_gaps ((u, i) # us)" "\<not> contains t marker_word"
    and "prefix (tok j) (drop q (u @ tok i @ weave us t tok))"
  shows "q = length u \<and> j = i \<or> length u + length (tok i) \<le> q \<and>
    prefix (tok j) (drop (q - (length u + length (tok i))) (weave us t tok))"
proof (cases "q + 2 < length u + length (tok i)")
  case True
  with word_in_first [OF _ tok_occurrence_word [OF assms(3)]] assms(1) have q: "q = length u" by auto
  with assms(3) same_tok [of j "tok i @ weave us t tok" i] show ?thesis by simp
next
  case False
  then have "prefix marker_word (drop (q + 2 - (length u + length (tok i))) (weave us t tok))"
    using tok_occurrence_word [OF assms(3)] by simp
  with word_in_weave [OF _ assms(2)] assms(1) have "2 \<le> q + 2 - (length u + length (tok i))" by auto
  then have "length u + length (tok i) \<le> q" by linarith
  with assms(3) show ?thesis by simp
qed

text \<open>A marker other than the first one, in the part before a cut, lies behind the first one.\<close>

lemma later_marker:
  assumes "u @ tok i @ weave us t tok = a @ b" "clean_gaps ((u, i) # us)" "\<not> contains t marker_word"
    and "j \<noteq> i" "contains a (tok j)"
  shows "contains (drop (length u + length (tok i)) a) (tok j)"
proof -
  from assms(5) obtain x y where xy: "a = x @ tok j @ y" by (auto simp: contains_iff)
  then have "prefix (tok j) (drop (length x) (u @ tok i @ weave us t tok))" unfolding assms(1) by simp
  with occurrence_first [OF assms(2,3)] assms(4) have "length u + length (tok i) \<le> length x" by blast
  then have "drop (length u + length (tok i)) a = drop (length u + length (tok i)) x @ tok j @ y" using xy by simp
  then show ?thesis by (metis contains_iff)
qed

text \<open>A cut inside a marker leaves it whole on neither side.\<close>

lemma no_cut_inside:
  assumes ab: "u @ tok i @ weave us t tok = a @ b" and clean: "clean_gaps ((u, i) # us)" "\<not> contains t marker_word"
    and once: "i \<notin> snd ` set us" and cut: "length u < length a" "length a < length u + length (tok i)"
  shows "\<not> contains a (tok i) \<and> \<not> contains b (tok i)"
proof (rule ccontr)
  assume "\<not> ?thesis"
  then have "\<exists>q. prefix (tok i) (drop q (a @ b)) \<and> (q + length (tok i) \<le> length a \<or> length a \<le> q)"
  proof (cases "contains a (tok i)")
    case True
    then obtain x y where "a = x @ tok i @ y" by (auto simp: contains_iff)
    then show ?thesis by (intro exI [of _ "length x"]) simp
  next
    case False
    with \<open>\<not> (\<not> contains a (tok i) \<and> \<not> contains b (tok i))\<close> obtain x y where "b = x @ tok i @ y"
      by (auto simp: contains_iff)
    then show ?thesis by (intro exI [of _ "length a + length x"]) simp
  qed
  then obtain q where q: "prefix (tok i) (drop q (u @ tok i @ weave us t tok))"
      "q + length (tok i) \<le> length a \<or> length a \<le> q" unfolding ab by blast
  with occurrence_first [OF clean q(1)] cut
  have "prefix (tok i) (drop (q - (length u + length (tok i))) (weave us t tok))" by auto
  then have "contains (weave us t tok) (tok i)" by (metis append_take_drop_id contains_iff prefix_def)
  with contains_weave [of us t i] clean once show False by auto
qed

text \<open>So a cut that leaves every marker whole on one side falls into a gap.\<close>

lemma split_weave:
  "weave us t tok = a @ b \<Longrightarrow> clean_gaps us \<Longrightarrow> \<not> contains t marker_word \<Longrightarrow> distinct (map snd us) \<Longrightarrow>
   \<forall>i \<in> snd ` set us. contains a (tok i) \<or> contains b (tok i) \<Longrightarrow>
   \<exists>us1 t1 us2 t2. a = weave us1 t1 tok \<and> b = weave us2 t2 tok \<and> map snd us = map snd us1 @ map snd us2 \<and>
     clean_gaps us1 \<and> \<not> contains t1 marker_word \<and> clean_gaps us2 \<and> \<not> contains t2 marker_word \<and>
     (\<forall>f. weave us t f = weave us1 t1 f @ weave us2 t2 f)"
proof (induction us arbitrary: a)
  case Nil
  then have "t = a @ b" by simp
  with Nil.prems(3) show ?case
    by (intro exI [of _ "[]"] exI [of _ a] exI [of _ b]) (auto intro: contains_append1 contains_append2)
next
  case (Cons ui us)
  obtain u i where ui: "ui = (u, i)" by (cases ui)
  let ?rest = "weave us t tok" and ?n = "length u + length (tok i)"
  have ab: "u @ tok i @ ?rest = a @ b" and u: "\<not> contains u marker_word" using Cons.prems(1,2) ui by auto
  have clean: "clean_gaps ((u, i) # us)" using Cons.prems(2) ui by simp
  have once: "i \<notin> snd ` set us" using Cons.prems(4) ui by simp
  have whole: "contains a (tok j) \<or> contains b (tok j)" if "j = i \<or> j \<in> snd ` set us" for j
    using Cons.prems(5) that ui by auto
  consider "length a \<le> length u" | "?n \<le> length a" | "length u < length a" "length a < ?n" by linarith
  then show ?case
  proof cases
    case 1
    let ?v = "drop (length a) u"
    have a: "a = take (length a) u" using ab 1 by (simp add: append_eq_append_conv_if split: if_splits)
    then have v: "u = a @ ?v" by (metis append_take_drop_id)
    then have "b = ?v @ tok i @ ?rest" using ab by (metis append.assoc same_append_eq)
    moreover have "\<not> contains a marker_word" "\<not> contains ?v marker_word"
      using u v contains_append1 contains_append2 by metis+
    moreover have "\<forall>f. weave (ui # us) t f = a @ weave ((?v, i) # us) t f"
      using v ui by (metis append.assoc weave.simps(2))
    ultimately show ?thesis using Cons.prems ui
      by (intro exI [of _ "[]"] exI [of _ a] exI [of _ "(?v, i) # us"] exI [of _ t]) simp
  next
    case 2
    have "take ?n a = u @ tok i" using arg_cong [OF ab, of "take ?n"] 2 by simp
    then have a: "a = u @ tok i @ drop ?n a" by (metis append.assoc append_take_drop_id)
    with ab have rest: "?rest = drop ?n a @ b" by (metis append.assoc same_append_eq)
    have "\<forall>j \<in> snd ` set us. contains (drop ?n a) (tok j) \<or> contains b (tok j)"
      using whole later_marker [OF ab clean Cons.prems(3)] once by metis
    with Cons.IH [OF rest] Cons.prems ui obtain us1 t1 us2 t2 where
      "drop ?n a = weave us1 t1 tok" "b = weave us2 t2 tok" "map snd us = map snd us1 @ map snd us2"
        "clean_gaps us1" "\<not> contains t1 marker_word" "clean_gaps us2" "\<not> contains t2 marker_word"
        "\<forall>f. weave us t f = weave us1 t1 f @ weave us2 t2 f" by fastforce
    with a u ui show ?thesis
      by (intro exI [of _ "(u, i) # us1"] exI [of _ t1] exI [of _ us2] exI [of _ t2]) simp
  next
    case 3
    with no_cut_inside [OF ab clean Cons.prems(3) once] whole [of i] show ?thesis by simp
  qed
qed

lemma tok_nonempty: "tok i \<noteq> []"
  using tok_long [of i] by auto

lemma weave_contains: "i \<in> snd ` set us \<Longrightarrow> contains (weave us t tok) (tok i)"
proof (induction us)
  case (Cons ui us)
  obtain u j where ui: "ui = (u, j)" by (cases ui)
  show ?case
  proof (cases "i = j")
    case True
    then show ?thesis by (auto simp: ui contains_iff)
  next
    case False
    with Cons ui have "contains (weave us t tok) (tok i)" by simp
    then have "contains ((u @ tok j) @ weave us t tok) (tok i)" by (rule contains_append2)
    then show ?thesis by (simp add: ui)
  qed
qed simp

text \<open>The pieces of a text that keep every marker whole: each is a run of gaps and markers.\<close>

lemma split_weave_all:
  "weave us t tok = concat ps \<Longrightarrow> clean_gaps us \<Longrightarrow> \<not> contains t marker_word \<Longrightarrow> map snd us = [m..<n] \<Longrightarrow>
   \<forall>i \<in> {m..<n}. \<exists>p \<in> set ps. contains p (tok i) \<Longrightarrow>
   \<exists>parts. map (\<lambda>(us, t). weave us t tok) parts = ps \<and>
     (\<forall>(us, t) \<in> set parts. clean_gaps us \<and> \<not> contains t marker_word \<and> (\<exists>a b. map snd us = [a..<b] \<and> b \<le> n)) \<and>
     (\<forall>f. concat (map (\<lambda>(us, t). weave us t f) parts) = weave us t f)"
proof (induction ps arbitrary: us t m)
  case Nil
  have "us = []" using Nil.prems(1) tok_nonempty by (cases us) auto
  with Nil.prems(1) show ?case by simp
next
  case (Cons p ps)
  have dist: "distinct (map snd us)" and idx: "snd ` set us = {m..<n}"
    unfolding Cons.prems(4) by (simp_all flip: set_map add: Cons.prems(4))
  have "\<forall>i \<in> snd ` set us. contains p (tok i) \<or> contains (concat ps) (tok i)"
  proof
    fix i
    assume "i \<in> snd ` set us"
    then obtain q where q: "q \<in> set (p # ps)" "contains q (tok i)" using Cons.prems(5) idx by blast
    then show "contains p (tok i) \<or> contains (concat ps) (tok i)"
      using contains_append1 contains_append2 by (metis concat.simps(2) concat_append set_ConsD split_list)
  qed
  with split_weave [of us t p "concat ps"] Cons.prems dist obtain us1 t1 us2 t2 where
    s: "p = weave us1 t1 tok" "concat ps = weave us2 t2 tok" "[m..<n] = map snd us1 @ map snd us2"
      "clean_gaps us1" "\<not> contains t1 marker_word" "clean_gaps us2" "\<not> contains t2 marker_word"
      "\<forall>f. weave us t f = weave us1 t1 f @ weave us2 t2 f" by fastforce
  let ?l = "m + length us1"
  have u1: "map snd us1 = [m..<?l]" and u2: "map snd us2 = [?l..<n]" and l: "?l \<le> n \<or> us1 = []"
  proof -
    have len: "length us1 \<le> n - m" using arg_cong [OF s(3), of length] by simp
    then show "?l \<le> n \<or> us1 = []" by (cases us1) auto
    show "map snd us1 = [m..<?l]" using arg_cong [OF s(3), of "take (length us1)"] len
      by (cases "m + length us1 \<le> n") auto
    show "map snd us2 = [?l..<n]" using arg_cong [OF s(3), of "drop (length us1)"] by (simp add: drop_upt)
  qed
  have later: "\<forall>i \<in> {?l..<n}. \<exists>p \<in> set ps. contains p (tok i)"
  proof
    fix i
    assume i: "i \<in> {?l..<n}"
    then have "i \<notin> snd ` set us1" using u1 by (auto simp flip: set_map)
    with contains_weave [OF s(4,5)] s(1) have "\<not> contains p (tok i)" by blast
    with Cons.prems(5) i show "\<exists>p \<in> set ps. contains p (tok i)" by force
  qed
  from Cons.IH [OF s(2) [symmetric] s(6,7) u2 later] obtain parts where
    parts: "map (\<lambda>(us, t). weave us t tok) parts = ps"
      "\<forall>(us, t) \<in> set parts. clean_gaps us \<and> \<not> contains t marker_word \<and> (\<exists>a b. map snd us = [a..<b] \<and> b \<le> n)"
      "\<forall>f. concat (map (\<lambda>(us, t). weave us t f) parts) = weave us2 t2 f" by blast
  have "\<exists>a b. map snd us1 = [a..<b] \<and> b \<le> n"
  proof (cases "us1 = []")
    case True
    then show ?thesis by (intro exI [of _ 0]) simp
  next
    case False
    with u1 l show ?thesis by blast
  qed
  with parts s show ?case by (intro exI [of _ "(us1, t1) # parts"]) simp
qed

lemma shifted: "markers (\<lambda>j. tok (a + j))"
  by unfold_locales (use tok_head tok_single tok_prefix_free in auto)

text \<open>A piece is restored with the spans whose markers it contains.\<close>

lemma restore_part:
  assumes marked: "\<And>i. i < length sps \<Longrightarrow> token (sps ! i) = tok i"
    and clean: "clean_gaps us" "\<not> contains t marker_word" and idx: "map snd us = [a..<b]" "b \<le> length sps"
  shows "restore_stream (restorer \<lparr>protected_text = x, spans = filter (\<lambda>sp. contains (weave us t tok) (token sp)) sps\<rparr>)
    [weave us t tok] = Ok (weave us t (\<lambda>i. replacement (sps ! i)))"
proof -
  let ?own = "map (nth sps) [a..<b]" and ?us = "map (\<lambda>(u, i). (u, i - a)) us"
  have snds: "snd ` set us = {a..<b}" using idx(1) by (simp flip: set_map)
  have "contains (weave us t tok) (token (sps ! i)) \<longleftrightarrow> i \<in> {a..<b}" if "i < length sps" for i
    using contains_weave [OF clean] weave_contains marked [OF that] snds by metis
  then have "filter (\<lambda>i. contains (weave us t tok) (token (sps ! i))) [0..<length sps] =
      filter (\<lambda>i. i \<in> {a..<b}) [0..<length sps]" by (intro filter_cong) simp_all
  moreover have "filter (\<lambda>i. i \<in> {a..<b}) [0..<length sps] = [a..<b]"
    by (rule sorted_distinct_set_unique) (use idx(2) in \<open>auto intro: sorted_filter [where f = id, simplified]\<close>)
  ultimately have own: "filter (\<lambda>sp. contains (weave us t tok) (token sp)) sps = ?own"
    by (metis (no_types, lifting) filter_map comp_def filter_cong map_nth)
  have shift: "weave ?us t (\<lambda>j. f (?own ! j)) = weave us t (\<lambda>i. f (sps ! i))" for f :: "ProtectedSpan \<Rightarrow> string"
  proof -
    have "\<forall>i \<in> snd ` set us. f (?own ! (i - a)) = f (sps ! i)" using snds by auto
    then show ?thesis by (induction us) auto
  qed
  have "distinct (map snd ?us)" "snd ` set ?us = {0..<length ?own}"
  proof -
    have m: "map snd ?us = map (\<lambda>i. i - a) [a..<b]" unfolding idx(1) [symmetric] by (simp add: case_prod_unfold)
    show "distinct (map snd ?us)" unfolding m by (auto simp: distinct_map inj_on_def)
    have "snd ` set ?us = (\<lambda>i. i - a) ` {a..<b}" using arg_cong [OF m, of set] by (simp add: image_image)
    also have "\<dots> = {0..<b - a}" by (auto simp: image_iff intro!: bexI [of _ "_ + a"])
    finally show "snd ` set ?us = {0..<length ?own}" by simp
  qed
  moreover have "token (?own ! i) = tok (a + i)" if "i < length ?own" for i
    using that marked idx(2) by simp
  moreover have "\<forall>(u, i) \<in> set ?us. \<not> contains u PROTECTED_TOKEN_PREFIX" using clean(1) word_clean by auto
  ultimately have "restore_stream (restorer \<lparr>protected_text = x, spans = ?own\<rparr>) [weave ?us t (\<lambda>j. token (?own ! j))] =
      Ok (weave ?us t (\<lambda>j. replacement (?own ! j)))"
    using markers.restore_weave [OF shifted [of a], of ?own t ?us x] word_clean [OF clean(2)] by blast
  moreover have "weave us t (\<lambda>i. token (sps ! i)) = weave us t tok"
    by (rule weave_cong) (use snds marked idx(2) in auto)
  ultimately show ?thesis unfolding own shift by simp
qed

end

section \<open>The chunks of a protected source\<close>

lemma take_spans_own:
  "take_spans piece sps = Ok (own, sps') \<Longrightarrow>
     own = filter (\<lambda>sp. contains piece (token sp)) (map fst sps) \<and> map fst sps' = map fst sps"
  by (induction piece sps arbitrary: own sps' rule: take_spans.induct) (auto simp: and_then_Inr split: if_splits)

lemma chunk_loop_own:
  "chunk_loop ps sps = Ok cs \<Longrightarrow>
     cs = map (\<lambda>p. \<lparr>protected_text = p, spans = filter (\<lambda>sp. contains p (token sp)) (map fst sps)\<rparr>) ps"
proof (induction ps sps arbitrary: cs rule: chunk_loop.induct)
  case (2 piece pieces sps)
  then obtain own sps' rest where
    t: "take_spans piece sps = Ok (own, sps')" "chunk_loop pieces sps' = Ok rest"
      "cs = \<lparr>protected_text = piece, spans = own\<rparr> # rest" by (auto simp: and_then_Inr)
  from take_spans_own [OF t(1)] "2.IH" [OF t(2)] t(3) show ?case by simp
qed (auto split: if_splits)

lemma chunks_own:
  assumes "chunks p m = Ok cs"
  shows "cs = map (\<lambda>s. \<lparr>protected_text = s, spans = filter (\<lambda>sp. contains s (token sp)) (spans p)\<rparr>)
      (map protected_text cs)"
    and "concat (map protected_text cs) = protected_text p"
    and "\<forall>sp \<in> set (spans p). \<exists>s \<in> set (map protected_text cs). contains s (token sp)"
proof -
  from assms obtain ps where
    ps: "split_protected_text (protected_text p) m (map token (spans p)) = Ok ps"
      "chunk_loop ps (map (\<lambda>sp. (sp, False)) (spans p)) = Ok cs" by (auto simp: chunks_def and_then_Inr)
  note sound = chunk_loop_sound [OF ps(2)]
  from chunk_loop_own [OF ps(2)] sound
  show "cs = map (\<lambda>s. \<lparr>protected_text = s, spans = filter (\<lambda>sp. contains s (token sp)) (spans p)\<rparr>)
      (map protected_text cs)" by (simp add: comp_def)
  show "concat (map protected_text cs) = protected_text p"
    using sound split_protected_text_sound(1) [OF ps(1)] by simp
  have "unused (map (\<lambda>sp. (sp, False)) sps) = mset sps" for sps by (induction sps) simp_all
  with sound have "mset (concat (map spans cs)) = mset (spans p)" by simp
  then have "set (concat (map spans cs)) = set (spans p)" by (rule mset_eq_setD)
  with sound show "\<forall>sp \<in> set (spans p). \<exists>s \<in> set (map protected_text cs). contains s (token sp)" by fastforce
qed

lemma chunked_restore:
  assumes clean: "\<not> contains source marker_word"
    and p: "build_protected_source is_alphanumeric source sl tgt g = Ok p" and cs: "chunks p max_bytes = Ok cs"
  shows "\<exists>outs. map (\<lambda>c. restore_stream (restorer c) [protected_text c]) cs = map Ok outs \<and>
    concat outs = replaced source 0 (selected_candidates is_alphanumeric source sl tgt g)"
proof -
  let ?cands = "selected_candidates is_alphanumeric source sl tgt g" and ?tok = "marker_token source"
  let ?us = "gaps source 0 0 ?cands" and ?t = "gap_tail source 0 ?cands" and ?n = "length (spans p)"
  note e = build_protected_source_OkD [OF p]
  note sp = emit_protected_spans [OF e] and marked = build_protected_source_marked [OF p]
  note own = chunks_own [OF cs]
  have "\<forall>i \<in> {0..<?n}. \<exists>s \<in> set (map protected_text cs). contains s (?tok i)"
    using own(3) marked by (metis atLeastLessThan_iff nth_mem)
  moreover have "weave ?us ?t ?tok = concat (map protected_text cs)"
    using emit_protected_weave [OF e] own(2) by simp
  moreover have "map snd ?us = [0..<?n]" using map_snd_gaps sp by simp
  ultimately obtain parts where
    parts: "map (\<lambda>(us, t). weave us t ?tok) parts = map protected_text cs"
      "\<forall>(us, t) \<in> set parts. (\<forall>(u, i) \<in> set us. \<not> contains u marker_word) \<and> \<not> contains t marker_word \<and>
         (\<exists>a b. map snd us = [a..<b] \<and> b \<le> ?n)"
      "\<forall>f. concat (map (\<lambda>(us, t). weave us t f) parts) = weave ?us ?t f"
    using source_markers.split_weave_all [OF _ gaps_clean [OF clean]] by blast
  let ?outs = "map (\<lambda>(us, t). weave us t (\<lambda>i. replacement (spans p ! i))) parts"
  let ?chunk = "\<lambda>s. \<lparr>protected_text = s, spans = filter (\<lambda>sp. contains s (token sp)) (spans p)\<rparr>"
  have "map (\<lambda>c. restore_stream (restorer c) [protected_text c]) cs =
      map (\<lambda>s. restore_stream (restorer (?chunk s)) [s]) (map (\<lambda>(us, t). weave us t ?tok) parts)"
    unfolding parts(1) by (subst own(1)) simp
  also have "\<dots> = map Ok ?outs"
    using parts(2) source_markers.restore_part [of "spans p" source, OF marked] by fastforce
  finally have "map (\<lambda>c. restore_stream (restorer c) [protected_text c]) cs = map Ok ?outs" .
  moreover have "concat ?outs = replaced source 0 ?cands"
    using parts(3) replaced_weave [of ?cands "\<lambda>i. replacement (spans p ! i)" 0 source 0] sp by simp
  ultimately show ?thesis by blast
qed

section \<open>Properties\<close>

text \<open>
  Chunking and restoration compose: for a source that does not use the word of the markers, at whatever limit the
  protected text is cut, a model that echoes each chunk (one request for each, restored with the spans of that chunk) gives, in order,
  the pieces of the source with exactly the selected fragments replaced.
\<close>

lemma chunked_restore_is_whole_restore:
  assumes "\<not> contains source marker_word"
    and "protect_source_text_with_glossary is_alphanumeric source source_locale target_locale g = Ok p"
    and "chunks p max_bytes = Ok cs"
  shows "\<exists>outs. map (\<lambda>c. restore_stream (restorer c) [protected_text c]) cs = map Ok outs \<and>
    restore_stream (restorer p) [protected_text p] = Ok (concat outs)"
proof -
  from assms(2) have p: "build_protected_source is_alphanumeric source source_locale (Some target_locale) g = Ok p"
    by (simp add: protect_source_text_with_glossary_def)
  from chunked_restore [OF assms(1) p assms(3)] restore_protected [OF word_clean [OF assms(1)] p] show ?thesis by metis
qed

definition demo_chunked_source :: string where
  "demo_chunked_source = ''Run {x} now. Then {y} and mesh too''"

lemma chunked_restore_is_whole_restore_witness:
  "\<exists>p cs outs. protect_source_text_with_glossary (\<lambda>c. c \<noteq> '' '') demo_chunked_source None ''fr'' (Some demo_terms) = Ok p \<and>
     chunks p 32 = Ok cs \<and> length cs = 5 \<and>
     map (\<lambda>c. restore_stream (restorer c) [protected_text c]) cs = map Ok outs \<and>
     restore_stream (restorer p) [protected_text p] = Ok (concat outs)"
proof -
  let ?pr = "protect_source_text_with_glossary (\<lambda>c. c \<noteq> '' '') demo_chunked_source None ''fr'' (Some demo_terms)"
  have "case ?pr of Err e \<Rightarrow> False | Ok p \<Rightarrow> (case chunks p 32 of Err e \<Rightarrow> False | Ok cs \<Rightarrow> length cs = 5)"
    by code_simp
  then obtain p cs where p: "?pr = Ok p" "chunks p 32 = Ok cs" "length cs = 5" by (auto split: sum.splits)
  moreover have "\<not> contains demo_chunked_source marker_word" by code_simp
  from chunked_restore_is_whole_restore [OF this p(1,2)] p show ?thesis by blast
qed

end
