(* ===== verification/Provider_Translate.thy ===== *)
theory Provider_Translate
  imports Provider_Stream Chunk_Restoration
begin

text \<open>
  \<open>translate_protected_stream\<close> and \<open>translate_stream\<close> of the four provider adapters: the request body and path of
  one chunk, and the chunks of a request one after the other. Sending a request (the URL, the credential header,
  the connection, the status check and the cancellation before the first byte) is the argument \<open>send\<close>: the number
  of the request, its path and body, to an error or the chunks of the answer.
\<close>

section \<open>Requests\<close>

datatype OpenAiProtocol = ChatCompletions | ResponsesProtocol | AzureChatCompletions string string

datatype provider_adapter = OpenAi OpenAiProtocol | Anthropic | Gemini | Ollama

record ChatMessage =
  chat_role :: string
  chat_content :: string

datatype request_body =
    ChatBody string bool "bool option" "ChatMessage list"
  | ResponsesBody string bool "ChatMessage list"
  | AnthropicBody string nat bool string "ChatMessage list"
  | GeminiBody string string
  | OllamaBody string bool "ChatMessage list"

definition DEFAULT_MAX_TOKENS :: nat where "DEFAULT_MAX_TOKENS = 4096"

definition marker_instruction :: "ProtectedSource \<Rightarrow> string" where
  "marker_instruction protected = (if spans protected = [] then []
     else '' Preserve every opaque marker such as __LINGUAMESH_PROTECTED_0__ exactly once.'')"

definition request_prompt :: "TranslationRequest \<Rightarrow> ProtectedSource \<Rightarrow> string" where
  "request_prompt request protected = translation_prompt (request_source_locale request) (request_target_locale request)
     (quality_mode request) (Some (preset request)) (marker_instruction protected)"

definition source_block :: "TranslationRequest \<Rightarrow> string" where
  "source_block request = ''<source>'' @ lf # source_text request @ lf # ''</source>''"

definition message_of :: "string \<Rightarrow> string \<Rightarrow> ChatMessage" where
  "message_of r c = \<lparr>chat_role = r, chat_content = c\<rparr>"

fun openai_body :: "OpenAiProtocol \<Rightarrow> TranslationRequest \<Rightarrow> ProtectedSource \<Rightarrow> request_body" where
  "openai_body ResponsesProtocol request protected = ResponsesBody (request_model_id request) True
     [message_of ''developer'' (request_prompt request protected), message_of ''user'' (source_block request)]"
| "openai_body protocol request protected = ChatBody (request_model_id request) True
     (if protocol = ChatCompletions then Some True else None)
     [message_of ''system'' (request_prompt request protected), message_of ''user'' (source_block request)]"

definition anthropic_body :: "TranslationRequest \<Rightarrow> ProtectedSource \<Rightarrow> request_body" where
  "anthropic_body request protected = AnthropicBody (request_model_id request) DEFAULT_MAX_TOKENS True
     (request_prompt request protected) [message_of ''user'' (source_block request)]"

definition gemini_body :: "TranslationRequest \<Rightarrow> ProtectedSource \<Rightarrow> request_body" where
  "gemini_body request protected = GeminiBody ''user'' (request_prompt request protected @ lf # source_block request)"

definition ollama_body :: "TranslationRequest \<Rightarrow> ProtectedSource \<Rightarrow> request_body" where
  "ollama_body request protected = OllamaBody (request_model_id request) True
     [message_of ''system'' (request_prompt request protected), message_of ''user'' (source_block request)]"

definition valid_model_id :: "string \<Rightarrow> TranslationError + string" where
  "valid_model_id model_id =
     (if model_id = [] \<or> length model_id > 128
         \<or> \<not> list_all (\<lambda>b. is_ascii_alphanumeric b \<or> b \<in> set ''-_.'') model_id
      then Err (TranslationError_new InvalidConfiguration ''The Gemini model identifier is invalid.'')
      else Ok model_id)"

section \<open>Translating\<close>

type_synonym sender = "nat \<Rightarrow> string \<Rightarrow> request_body \<Rightarrow> TranslationError + next_item list"

definition openai_path :: "OpenAiProtocol \<Rightarrow> string" where
  "openai_path protocol = (if protocol = ResponsesProtocol then ''responses'' else ''chat/completions'')"

definition openai_parser :: "OpenAiProtocol \<Rightarrow> wire_json \<Rightarrow> string \<Rightarrow> TranslationError + SseMessage option" where
  "openai_parser protocol wj = (if protocol = ResponsesProtocol then parse_responses_event wj else parse_event wj)"

definition openai_protected_stream ::
  "OpenAiProtocol \<Rightarrow> wire_json \<Rightarrow> sender \<Rightarrow> nat \<Rightarrow> TranslationRequest \<Rightarrow> ProtectedSource \<Rightarrow> TranslationError + stream_item list" where
  "openai_protected_stream protocol wj send n request protected =
     and_then (send n (openai_path protocol) (openai_body protocol request protected)) (\<lambda>response.
     Ok (protected_stream (sse_wire (openai_parser protocol wj)) protected response))"

definition anthropic_protected_stream ::
  "wire_json \<Rightarrow> sender \<Rightarrow> nat \<Rightarrow> TranslationRequest \<Rightarrow> ProtectedSource \<Rightarrow> TranslationError + stream_item list" where
  "anthropic_protected_stream wj send n request protected =
     and_then (send n ''messages'' (anthropic_body request protected)) (\<lambda>response.
     Ok (protected_stream (sse_wire (parse_anthropic_event wj)) protected response))"

definition gemini_protected_stream ::
  "wire_json \<Rightarrow> sender \<Rightarrow> nat \<Rightarrow> TranslationRequest \<Rightarrow> ProtectedSource \<Rightarrow> TranslationError + stream_item list" where
  "gemini_protected_stream wj send n request protected =
     and_then (valid_model_id (request_model_id request)) (\<lambda>model.
     and_then (send n (''models/'' @ model @ '':streamGenerateContent?alt=sse'') (gemini_body request protected)) (\<lambda>response.
     Ok (protected_stream (sse_wire (parse_gemini_event wj)) protected response)))"

definition ollama_protected_stream ::
  "wire_json \<Rightarrow> sender \<Rightarrow> nat \<Rightarrow> TranslationRequest \<Rightarrow> ProtectedSource \<Rightarrow> TranslationError + stream_item list" where
  "ollama_protected_stream wj send n request protected =
     and_then (send n ''chat'' (ollama_body request protected)) (\<lambda>response.
     Ok (protected_stream (ollama_wire wj) protected response))"

text \<open>The method of the adapter at hand.\<close>

fun translate_protected_stream ::
  "provider_adapter \<Rightarrow> wire_json \<Rightarrow> sender \<Rightarrow> nat \<Rightarrow> TranslationRequest \<Rightarrow> ProtectedSource \<Rightarrow> TranslationError + stream_item list" where
  "translate_protected_stream (OpenAi protocol) = openai_protected_stream protocol"
| "translate_protected_stream Anthropic = anthropic_protected_stream"
| "translate_protected_stream Gemini = gemini_protected_stream"
| "translate_protected_stream Ollama = ollama_protected_stream"

text \<open>The parts of the four methods: body, path, and the stream of an answer.\<close>

fun request_body_of :: "provider_adapter \<Rightarrow> TranslationRequest \<Rightarrow> ProtectedSource \<Rightarrow> request_body" where
  "request_body_of (OpenAi protocol) = openai_body protocol"
| "request_body_of Anthropic = anthropic_body"
| "request_body_of Gemini = gemini_body"
| "request_body_of Ollama = ollama_body"

fun request_path :: "provider_adapter \<Rightarrow> TranslationRequest \<Rightarrow> TranslationError + string" where
  "request_path (OpenAi protocol) request = Ok (openai_path protocol)"
| "request_path Anthropic request = Ok ''messages''"
| "request_path Gemini request = and_then (valid_model_id (request_model_id request)) (\<lambda>model.
     Ok (''models/'' @ model @ '':streamGenerateContent?alt=sse''))"
| "request_path Ollama request = Ok ''chat''"

fun sse_parser :: "provider_adapter \<Rightarrow> wire_json \<Rightarrow> (string \<Rightarrow> TranslationError + SseMessage option) option" where
  "sse_parser (OpenAi protocol) wj = Some (openai_parser protocol wj)"
| "sse_parser Anthropic wj = Some (parse_anthropic_event wj)"
| "sse_parser Gemini wj = Some (parse_gemini_event wj)"
| "sse_parser Ollama wj = None"

definition response_stream :: "provider_adapter \<Rightarrow> wire_json \<Rightarrow> ProtectedSource \<Rightarrow> next_item list \<Rightarrow> stream_item list" where
  "response_stream adapter wj = (case sse_parser adapter wj of
       Some parse \<Rightarrow> protected_stream (sse_wire parse)
     | None \<Rightarrow> protected_stream (ollama_wire wj))"

lemma translate_protected_stream_parts:
  "translate_protected_stream adapter wj send n request protected =
     and_then (request_path adapter request) (\<lambda>path.
     and_then (send n path (request_body_of adapter request protected)) (\<lambda>response.
     Ok (response_stream adapter wj protected response)))"
  by (cases adapter) (simp_all add: openai_protected_stream_def anthropic_protected_stream_def gemini_protected_stream_def
    ollama_protected_stream_def response_stream_def and_then_assoc)

fun chunking_error_message :: "ChunkingError \<Rightarrow> string" where
  "chunking_error_message InvalidLimit = ''Translation chunk size must be greater than zero.''"
| "chunking_error_message ProtectedSpanTooLarge = ''A protected span exceeds the translation chunk size.''"
| "chunking_error_message ProtectedSpanSplit = ''Translation chunking would split a protected span.''"

definition map_chunking_error :: "ChunkingError \<Rightarrow> TranslationError" where
  "map_chunking_error e = TranslationError_new InvalidConfiguration (chunking_error_message e)"

text \<open>\<open>yield delta?\<close>: the first error ends the stream.\<close>

fun forward :: "stream_item list \<Rightarrow> stream_item list \<Rightarrow> stream_item list" where
  "forward [] rest = rest"
| "forward (Inl e # items) rest = [Inl e]"
| "forward (Inr x # items) rest = Inr x # forward items rest"

fun chunk_streams :: "(nat \<Rightarrow> ProtectedSource \<Rightarrow> TranslationError + stream_item list) \<Rightarrow> nat \<Rightarrow> ProtectedSource list \<Rightarrow> stream_item list" where
  "chunk_streams one n [] = []"
| "chunk_streams one n (c # cs) = (case one n c of
       Inl e \<Rightarrow> [Inl e]
     | Inr items \<Rightarrow> forward items (chunk_streams one (n + 1) cs))"

text \<open>
  The branch without chunks cannot be reached (\<open>chunks_not_empty\<close>); the source writes it as an error, but its
  \<open>chunks.drain(..1)\<close> would already panic on an empty vector.
\<close>

definition translate_stream ::
  "(string \<Rightarrow> bool) \<Rightarrow> provider_adapter \<Rightarrow> wire_json \<Rightarrow> sender \<Rightarrow> TranslationRequest \<Rightarrow> TranslationError + stream_item list" where
  "translate_stream is_alphanumeric adapter wj send request =
     and_then (map_err (\<lambda>e. TranslationError_new InvalidConfiguration (glossary_error_message e))
       (protect_source_text_with_glossary is_alphanumeric (source_text request) (request_source_locale request)
         (request_target_locale request) (glossary request))) (\<lambda>protected.
     and_then (map_err map_chunking_error (chunks protected
       (case max_chunk_bytes request of None \<Rightarrow> DEFAULT_TRANSLATION_CHUNK_BYTES | Some m \<Rightarrow> m))) (\<lambda>cs.
     let one = (\<lambda>n chunk. translate_protected_stream adapter wj send n (request\<lparr>source_text := protected_text chunk\<rparr>) chunk) in
     case cs of
       [] \<Rightarrow> Err (TranslationError_new InvalidConfiguration ''Translation source produced no chunks.'')
     | first # rest \<Rightarrow> and_then (one 0 first) (\<lambda>items. Ok (forward items (chunk_streams one 1 rest)))))"

section \<open>What one answer delivers\<close>

fun completing :: "SseMessage \<Rightarrow> bool" where
  "completing (Delta t) = False"
| "completing (Usage u) = False"
| "completing _ = True"

fun message_text :: "SseMessage \<Rightarrow> string" where
  "message_text (Delta t) = t"
| "message_text (DeltaAndDone t) = t"
| "message_text (DeltaAndUsageAndDone t u) = t"
| "message_text _ = []"

text \<open>The texts up to the completion marker.\<close>

fun deltas :: "SseMessage list \<Rightarrow> string list" where
  "deltas [] = []"
| "deltas (m # ms) = (if message_text m = [] then [] else [message_text m]) @ (if completing m then [] else deltas ms)"

lemma first_error_append: "first_error (xs @ ys) = (case first_error xs of None \<Rightarrow> first_error ys | Some e \<Rightarrow> Some e)"
  by (induction xs rule: first_error.induct) auto

lemma texts_append: "texts_before_error (xs @ ys) =
    texts_before_error xs @ (if first_error xs = None then texts_before_error ys else [])"
  by (induction xs rule: first_error.induct) auto

lemma emit_simps [simp]: "first_error (emit t) = None" "texts_before_error (emit t) = t"
  by (simp_all add: emit_def)

lemma forward_delivers:
  "first_error xs = None \<Longrightarrow> forward xs rest = xs @ rest"
  "first_error xs = Some e \<Longrightarrow> first_error (forward xs rest) = Some e"
  by (induction xs rest rule: forward.induct) auto

lemma run_messages_Nil: "run_messages (sse_wire parse) rest r [] = ended_early"
  by (simp add: run_messages_def sse_wire_def)

lemma run_messages_Cons:
  "run_messages w rest r (m # ms) = (case wire_handle w r m of
       (items, Going r') \<Rightarrow> items @ run_messages w rest r' ms
     | (items, Finished r') \<Rightarrow> items @ stream_tail r'
     | (items, Broken) \<Rightarrow> items)"
  by (auto simp: run_messages_def Let_def split: prod.splits progress.splits)

text \<open>The items deliver what the restorer gives, or end in its error.\<close>

definition delivers :: "stream_item list \<Rightarrow> ProtectedTextError + string \<Rightarrow> bool" where
  "delivers items result = (case result of
       Ok out \<Rightarrow> first_error items = None \<and> texts_before_error items = out
     | Err e \<Rightarrow> first_error items = Some (map_protected_error e))"

lemma delivers_append:
  "first_error items = None \<Longrightarrow> delivers later result \<Longrightarrow>
     delivers (items @ later) (and_then result (\<lambda>rest. Ok (texts_before_error items @ rest)))"
  by (auto simp: delivers_def first_error_append texts_append split: sum.splits)

lemma stream_tail_delivers: "delivers (stream_tail r) (restore_stream r [])"
  by (auto simp: delivers_def stream_tail_def split: sum.splits prod.splits)

text \<open>A message: its delta goes through the restorer, its usage is passed on.\<close>

lemma handle_sse_quiet:
  "message_text m = [] \<Longrightarrow> \<exists>items. handle_sse r m = (items, if completing m then Finished r else Going r) \<and>
     first_error items = None \<and> texts_before_error items = []"
  by (cases m) (auto simp: nonempty_delta_def finished_with_def)

lemma handle_sse_text:
  "message_text m \<noteq> [] \<Longrightarrow> push r (message_text m) = Ok (out, r') \<Longrightarrow>
     \<exists>items. handle_sse r m = (items, if completing m then Finished r' else Going r') \<and>
       first_error items = None \<and> texts_before_error items = out"
  by (cases m) (auto simp: nonempty_delta_def push_delta_def finished_with_def first_error_append texts_append)

lemma handle_sse_rejected:
  "message_text m \<noteq> [] \<Longrightarrow> push r (message_text m) = Err e \<Longrightarrow> handle_sse r m = ([Err (map_protected_error e)], Broken)"
  by (cases m) (auto simp: nonempty_delta_def push_delta_def finished_with_def)

lemma run_messages_quiet:
  assumes "handle_sse r m = (items, if completing m then Finished r' else Going r')"
  shows "run_messages (sse_wire parse) rest r (m # ms) =
    items @ (if completing m then stream_tail r' else run_messages (sse_wire parse) rest r' ms)"
  using assms by (simp add: run_messages_Cons sse_wire_def)

lemma sse_messages_deliver:
  "list_ex completing ms \<Longrightarrow> delivers (run_messages (sse_wire parse) rest r ms) (restore_stream r (deltas ms))"
proof (induction ms arbitrary: r)
  case (Cons m ms)
  let ?next = "if completing m then [] else deltas ms"
  have later: "delivers (if completing m then stream_tail r' else run_messages (sse_wire parse) rest r' ms)
      (restore_stream r' ?next)" for r'
    using Cons stream_tail_delivers [of r'] by (cases "completing m") (simp_all del: restore_stream.simps)
  show ?case
  proof (cases "message_text m = []")
    case True
    from handle_sse_quiet [OF True, of r] obtain items where
      i: "handle_sse r m = (items, if completing m then Finished r else Going r)"
        "first_error items = None" "texts_before_error items = []" by blast
    with delivers_append [OF i(2) later [of r]] True show ?thesis by (simp add: run_messages_quiet [OF i(1)])
  next
    case False
    then have d: "restore_stream r (deltas (m # ms)) =
        and_then (push r (message_text m)) (\<lambda>(out, r'). and_then (restore_stream r' ?next) (\<lambda>rest. Ok (out @ rest)))"
      by simp
    show ?thesis
    proof (cases "push r (message_text m)")
      case (Inl e)
      with handle_sse_rejected [OF False Inl] d show ?thesis
        by (simp add: run_messages_Cons sse_wire_def delivers_def)
    next
      case (Inr x)
      then obtain out r' where o: "push r (message_text m) = Ok (out, r')" by (cases x) auto
      from handle_sse_text [OF False o] obtain items where
        i: "handle_sse r m = (items, if completing m then Finished r' else Going r')"
          "first_error items = None" "texts_before_error items = out" by blast
      with delivers_append [OF i(2) later [of r']] d o show ?thesis by (simp add: run_messages_quiet [OF i(1)])
    qed
  qed
qed simp

lemma sse_messages_incomplete:
  "\<not> list_ex completing ms \<Longrightarrow> first_error (run_messages (sse_wire parse) rest r ms) \<noteq> None"
proof (induction ms arbitrary: r)
  case Nil
  then show ?case by (simp add: run_messages_Nil ended_early_def)
next
  case (Cons m ms)
  have "(\<exists>e. handle_sse r m = ([Err e], Broken)) \<or>
      (\<exists>items r'. handle_sse r m = (items, if completing m then Finished r' else Going r'))"
    using handle_sse_quiet [of m r] handle_sse_text [of m r] handle_sse_rejected [of m r]
    by (cases "message_text m = []"; cases "push r (message_text m)") fastforce+
  then show ?case
  proof (elim disjE exE)
    fix e
    assume "handle_sse r m = ([Err e], Broken)"
    then show ?thesis by (simp add: run_messages_Cons sse_wire_def)
  next
    fix items r'
    assume "handle_sse r m = (items, if completing m then Finished r' else Going r')"
    from run_messages_quiet [OF this] Cons show ?thesis by (simp add: first_error_append split: option.splits)
  qed
qed

section \<open>What a request delivers\<close>

text \<open>An answer to one chunk: the items of its stream.\<close>

lemma sse_answer:
  assumes "one_delimiter (concat bs)" "sse_drain parse (concat bs) = Ok (ms, rest)" "length (concat bs) \<le> MAX_RESPONSE_BYTES"
  shows "protected_stream (sse_wire parse) p (map Chunk bs) = run_messages (sse_wire parse) rest (restorer p) ms"
  using sse.stream_by_bytes [OF assms] .

lemma chunk_streams_deliver:
  "length outs = length cs \<Longrightarrow>
   \<forall>i < length cs. \<exists>items. one (n + i) (cs ! i) = Ok items \<and> delivers items (Ok (outs ! i)) \<Longrightarrow>
   delivers (chunk_streams one n cs) (Ok (concat outs))"
proof (induction one n cs arbitrary: outs rule: chunk_streams.induct)
  case (1 one n)
  then show ?case by (simp add: delivers_def)
next
  case (2 one n c cs)
  from 2(2) obtain o1 os where o: "outs = o1 # os" "length os = length cs" by (cases outs) auto
  from 2(3) [rule_format, of 0] o obtain items where
    i: "one n c = Ok items" "delivers items (Ok o1)" by auto
  have "\<forall>i < length cs. \<exists>items. one (n + 1 + i) (cs ! i) = Ok items \<and> delivers items (Ok (os ! i))"
    using 2(3) o(1) by (auto dest: spec [of _ "Suc _"])
  with "2.IH" [OF i(1) o(2)] have "delivers (chunk_streams one (n + 1) cs) (Ok (concat os))" by blast
  with i o show ?case
    by (auto simp: delivers_def forward_delivers first_error_append texts_append)
qed

lemma translate_stream_delivers:
  assumes p: "protect_source_text_with_glossary is_alphanumeric (source_text request) (request_source_locale request)
      (request_target_locale request) (glossary request) = Ok p"
    and cs: "chunks p (case max_chunk_bytes request of None \<Rightarrow> DEFAULT_TRANSLATION_CHUNK_BYTES | Some m \<Rightarrow> m) = Ok cs"
    and outs: "length outs = length cs" "cs \<noteq> []"
    and each: "\<forall>i < length cs. \<exists>items. translate_protected_stream adapter wj send i
        (request\<lparr>source_text := protected_text (cs ! i)\<rparr>) (cs ! i) = Ok items \<and> delivers items (Ok (outs ! i))"
  shows "\<exists>items. translate_stream is_alphanumeric adapter wj send request = Ok items \<and> delivers items (Ok (concat outs))"
proof -
  let ?one = "\<lambda>n chunk. translate_protected_stream adapter wj send n (request\<lparr>source_text := protected_text chunk\<rparr>) chunk"
  obtain first rest where c: "cs = first # rest" using outs(2) by (cases cs) auto
  have all: "delivers (chunk_streams ?one 0 cs) (Ok (concat outs))"
    using each outs(1) by (intro chunk_streams_deliver) auto
  from each c obtain items where "?one 0 first = Ok items" by fastforce
  then have "translate_stream is_alphanumeric adapter wj send request = Ok (chunk_streams ?one 0 cs)"
    using p cs c by (simp add: translate_stream_def)
  with all show ?thesis by blast
qed

section \<open>Properties\<close>

text \<open>
  C7: The items of one answer do not depend on how the network cuts its bytes into chunks, for an answer of at most
  the allowed number of bytes that is readable: for an event stream, if it uses only one kind of blank line between
  events and every complete event in it can be parsed; for Ollama, if every line can be parsed. Without the condition
  on the blank lines the claim is false (\<open>mixed_blank_lines_merge_events\<close> below).
\<close>

theorem response_independent_of_chunks:
  assumes "concat bs = concat bs'" "length (concat bs) \<le> MAX_RESPONSE_BYTES"
    and "case sse_parser adapter wj of
        Some parse \<Rightarrow> one_delimiter (concat bs) \<and> (\<exists>x. sse_drain parse (concat bs) = Ok x)
      | None \<Rightarrow> (\<exists>x. drain_lines wj False (concat bs) = Ok x)"
  shows "response_stream adapter wj p (map Chunk bs) = response_stream adapter wj p (map Chunk bs')"
  using assms sse.stream_any_chunks [where cs = bs] ndjson.stream_any_chunks [where cs = bs]
  by (auto simp: response_stream_def split: option.splits)

definition demo_wire :: wire_json where
  "demo_wire = \<lparr>chat_from_str = (\<lambda>d. Some \<lparr>chat_choices = [Some d], chat_usage = None\<rparr>),
     responses_from_str = (\<lambda>_. None), anthropic_from_str = (\<lambda>_. None), gemini_from_str = (\<lambda>_. None),
     ollama_from_slice = (\<lambda>d. Some \<lparr>ollama_content = Some d, ollama_done = False,
       ollama_prompt_eval_count = None, ollama_eval_count = None\<rparr>)\<rparr>"

definition demo_answer :: "string \<Rightarrow> string" where
  "demo_answer s = ''data: '' @ s @ [lf, lf] @ ''data: [DONE]'' @ [lf, lf]"

lemma MAX_RESPONSE_BYTES_enough: "n \<le> 1000 \<Longrightarrow> n \<le> MAX_RESPONSE_BYTES"
  by (simp add: MAX_RESPONSE_BYTES_def)

theorem response_independent_of_chunks_witness:
  "response_stream (OpenAi ChatCompletions) demo_wire demo_protected
     (map Chunk [''data: a __LINGUA'', ''MESH_PROTECTED_0__'' @ [lf], [lf] @ ''data: [DO'', ''NE]'' @ [lf, lf]]) =
   response_stream (OpenAi ChatCompletions) demo_wire demo_protected (map Chunk [demo_answer ''a __LINGUAMESH_PROTECTED_0__''])"
proof (rule response_independent_of_chunks)
  let ?bs = "[''data: a __LINGUA'', ''MESH_PROTECTED_0__'' @ [lf], [lf] @ ''data: [DO'', ''NE]'' @ [lf, lf]]"
  show "concat ?bs = concat [demo_answer ''a __LINGUAMESH_PROTECTED_0__'']" by code_simp
  have "length (concat ?bs) \<le> 1000" by code_simp
  then show "length (concat ?bs) \<le> MAX_RESPONSE_BYTES" by (rule MAX_RESPONSE_BYTES_enough)
  have "one_delimiter (concat ?bs)" by code_simp
  moreover have "sse_drain (parse_event demo_wire) (concat ?bs) = Ok ([Delta ''a __LINGUAMESH_PROTECTED_0__'', Done], [])"
    by code_simp
  ultimately have "one_delimiter (concat ?bs) \<and> (\<exists>x. sse_drain (parse_event demo_wire) (concat ?bs) = Ok x)" by blast
  then show "case sse_parser (OpenAi ChatCompletions) demo_wire of
        Some parse \<Rightarrow> one_delimiter (concat ?bs) \<and> (\<exists>x. sse_drain parse (concat ?bs) = Ok x)
      | None \<Rightarrow> (\<exists>x. drain_lines demo_wire False (concat ?bs) = Ok x)"
    by (simp only: sse_parser.simps option.case openai_parser_def OpenAiProtocol.distinct if_False)
qed

text \<open>
  C6: One answer of an event-stream adapter (OpenAI, Anthropic, Gemini) of at most the allowed number of bytes that uses
  one kind of blank line and whose complete events can all be parsed: if a message completes it, the items are exactly
  what the restorer makes of the texts up to that message, or end in the restorer's error; if none does, the items end
  in an error.
\<close>

theorem answer_is_restored_or_fails:
  assumes "sse_parser adapter wj = Some parse"
    and "one_delimiter (concat bs)" "sse_drain parse (concat bs) = Ok (ms, rest)" "length (concat bs) \<le> MAX_RESPONSE_BYTES"
  shows "if list_ex completing ms
    then delivers (response_stream adapter wj p (map Chunk bs)) (restore_stream (restorer p) (deltas ms))
    else first_error (response_stream adapter wj p (map Chunk bs)) \<noteq> None"
  using sse_answer [OF assms(2-4), of p] assms(1) sse_messages_deliver [of ms parse rest "restorer p"]
    sse_messages_incomplete [of ms parse rest "restorer p"]
  by (simp add: response_stream_def)

theorem answer_is_restored_or_fails_witness:
  "delivers (response_stream (OpenAi ChatCompletions) demo_wire demo_protected (map Chunk [demo_answer ''a __LINGUAMESH_PROTECTED_0__'']))
     (Ok ''a {x}'')"
proof -
  let ?bs = "[demo_answer ''a __LINGUAMESH_PROTECTED_0__'']" and ?ms = "[Delta ''a __LINGUAMESH_PROTECTED_0__'', Done]"
  have "length (concat ?bs) \<le> 1000" by code_simp
  then have small: "length (concat ?bs) \<le> MAX_RESPONSE_BYTES" by (rule MAX_RESPONSE_BYTES_enough)
  have "one_delimiter (concat ?bs)" "sse_drain (parse_event demo_wire) (concat ?bs) = Ok (?ms, [])" by code_simp+
  moreover have "sse_parser (OpenAi ChatCompletions) demo_wire = Some (parse_event demo_wire)" by (simp add: openai_parser_def)
  ultimately
  have "delivers (response_stream (OpenAi ChatCompletions) demo_wire demo_protected (map Chunk ?bs))
      (restore_stream (restorer demo_protected) (deltas ?ms))"
    using answer_is_restored_or_fails [of "OpenAi ChatCompletions" demo_wire "parse_event demo_wire" ?bs ?ms "[]" demo_protected] small
    by (simp del: restore_stream.simps)
  moreover have "restore_stream (restorer demo_protected) (deltas ?ms) = Ok ''a {x}''" by code_simp
  ultimately show ?thesis by simp
qed

text \<open>
  C5: End to end for the OpenAI, Anthropic and Gemini adapters and a source that does not contain the word of the
  markers: suppose that the source can be protected and cut at the limit, and that each chunk is answered by an event
  stream that stays within the size limit, uses one kind of blank line, is readable and complete, and carries the text
  of the chunk in one delta. Then the translation succeeds and its text is the source in which every selected fragment
  is replaced by its replacement and every other byte is kept, whatever the limit is and wherever the network cuts the
  bytes of the answers.
\<close>

theorem echoed_request_delivers_source:
  assumes "\<not> contains (source_text request) marker_word" "sse_parser adapter wj = Some parse"
    and p: "protect_source_text_with_glossary is_alphanumeric (source_text request) (request_source_locale request)
      (request_target_locale request) (glossary request) = Ok p"
    and cs: "chunks p (case max_chunk_bytes request of None \<Rightarrow> DEFAULT_TRANSLATION_CHUNK_BYTES | Some m \<Rightarrow> m) = Ok cs"
    and path: "request_path adapter request = Ok path"
    and echo: "\<forall>i < length cs. \<exists>bs ms rest.
      send i path (request_body_of adapter (request\<lparr>source_text := protected_text (cs ! i)\<rparr>) (cs ! i)) = Ok (map Chunk bs) \<and>
      one_delimiter (concat bs) \<and> length (concat bs) \<le> MAX_RESPONSE_BYTES \<and> sse_drain parse (concat bs) = Ok (ms, rest) \<and>
      list_ex completing ms \<and> deltas ms = [protected_text (cs ! i)]"
  shows "\<exists>items. translate_stream is_alphanumeric adapter wj send request = Ok items \<and>
    first_error items = None \<and> texts_before_error items = replaced (source_text request) 0
      (selected_candidates is_alphanumeric (source_text request) (request_source_locale request)
        (Some (request_target_locale request)) (glossary request))"
proof -
  from p have b: "build_protected_source is_alphanumeric (source_text request) (request_source_locale request)
      (Some (request_target_locale request)) (glossary request) = Ok p"
    by (simp add: protect_source_text_with_glossary_def)
  from chunked_restore [OF assms(1) b cs] obtain outs where
    outs: "map (\<lambda>c. restore_stream (restorer c) [protected_text c]) cs = map Ok outs"
      "concat outs = replaced (source_text request) 0
        (selected_candidates is_alphanumeric (source_text request) (request_source_locale request)
          (Some (request_target_locale request)) (glossary request))" by blast
  then have len: "length outs = length cs" by (metis length_map)
  have nth: "restore_stream (restorer (cs ! i)) [protected_text (cs ! i)] = Ok (outs ! i)" if "i < length cs" for i
    using arg_cong [OF outs(1), of "\<lambda>xs. xs ! i"] that len by (simp del: restore_stream.simps)
  have same_path: "request_path adapter (request\<lparr>source_text := s\<rparr>) = Ok path" for s
    using path by (cases "(adapter, request)" rule: request_path.cases) auto
  have "\<forall>i < length cs. \<exists>items. translate_protected_stream adapter wj send i
      (request\<lparr>source_text := protected_text (cs ! i)\<rparr>) (cs ! i) = Ok items \<and> delivers items (Ok (outs ! i))"
  proof (intro allI impI)
    fix i
    assume i: "i < length cs"
    from echo [rule_format, OF i] obtain bs ms rest where
      e: "send i path (request_body_of adapter (request\<lparr>source_text := protected_text (cs ! i)\<rparr>) (cs ! i)) = Ok (map Chunk bs)"
        "one_delimiter (concat bs)" "length (concat bs) \<le> MAX_RESPONSE_BYTES" "sse_drain parse (concat bs) = Ok (ms, rest)"
        "list_ex completing ms" "deltas ms = [protected_text (cs ! i)]" by blast
    have "response_stream adapter wj (cs ! i) (map Chunk bs) =
        run_messages (sse_wire parse) rest (restorer (cs ! i)) ms"
      using sse_answer [OF e(2,4,3)] assms(2) by (simp add: response_stream_def)
    moreover have "delivers (run_messages (sse_wire parse) rest (restorer (cs ! i)) ms) (Ok (outs ! i))"
      using sse_messages_deliver [OF e(5), of parse rest "restorer (cs ! i)"] unfolding e(6) nth [OF i] .
    ultimately show "\<exists>items. translate_protected_stream adapter wj send i
        (request\<lparr>source_text := protected_text (cs ! i)\<rparr>) (cs ! i) = Ok items \<and> delivers items (Ok (outs ! i))"
      using e(1) same_path by (simp add: translate_protected_stream_parts)
  qed
  from translate_stream_delivers [OF p cs len chunks_not_empty [OF cs] this] outs(2) show ?thesis by (auto simp: delivers_def)
qed

text \<open>The request of the witness: three chunks, answered one event stream each.\<close>

definition demo_echo_request :: TranslationRequest where
  "demo_echo_request = (TranslationRequest_new ''op'' ''corr'' ''Run {x} now. Then {y}'' ''fr'' ''m'')\<lparr>max_chunk_bytes := Some 32\<rparr>"

definition demo_echo_texts :: "string list" where
  "demo_echo_texts = [''Run __LINGUAMESH_PROTECTED_0__ '', ''now. Then '', ''__LINGUAMESH_PROTECTED_1__'']"

definition demo_sender :: sender where
  "demo_sender n path body = Ok [Chunk (demo_answer (demo_echo_texts ! n))]"

theorem echoed_request_delivers_source_witness:
  "\<exists>items. translate_stream (\<lambda>_. False) (OpenAi ChatCompletions) demo_wire demo_sender demo_echo_request = Ok items \<and>
     first_error items = None \<and> texts_before_error items = ''Run {x} now. Then {y}''"
proof -
  let ?r = demo_echo_request
  let ?pr = "protect_source_text_with_glossary (\<lambda>_. False) (source_text ?r) (request_source_locale ?r)
      (request_target_locale ?r) (glossary ?r)"
  have r: "request_source_locale ?r = None" "request_target_locale ?r = ''fr''" "glossary ?r = None" "max_chunk_bytes ?r = Some 32"
    by (simp_all add: demo_echo_request_def TranslationRequest_new_def)
  have "case ?pr of Err e \<Rightarrow> False | Ok p \<Rightarrow> map_err (\<lambda>_. ()) (and_then (chunks p 32) (\<lambda>cs. Ok (map protected_text cs))) = Ok demo_echo_texts"
    by code_simp
  then obtain p cs where p: "?pr = Ok p" "chunks p 32 = Ok cs" "map protected_text cs = demo_echo_texts"
    by (auto simp: result_iff split: sum.splits)
  have len: "length cs = 3" using arg_cong [OF p(3), of length] by (auto simp: demo_echo_texts_def)
  have echo: "\<forall>i < length cs. \<exists>bs ms rest.
      demo_sender i ''chat/completions'' (request_body_of (OpenAi ChatCompletions) (?r\<lparr>source_text := protected_text (cs ! i)\<rparr>) (cs ! i)) = Ok (map Chunk bs) \<and>
      one_delimiter (concat bs) \<and> length (concat bs) \<le> MAX_RESPONSE_BYTES \<and>
      sse_drain (parse_event demo_wire) (concat bs) = Ok (ms, rest) \<and>
      list_ex completing ms \<and> deltas ms = [protected_text (cs ! i)]"
  proof (intro allI impI)
    fix i
    assume "i < length cs"
    then have i: "i \<in> {0, 1, 2}" "protected_text (cs ! i) = demo_echo_texts ! i" using len p(3) by (auto simp flip: p(3))
    let ?bs = "[demo_answer (demo_echo_texts ! i)]"
    have "list_all (\<lambda>i. one_delimiter (demo_answer (demo_echo_texts ! i)) \<and> length (demo_answer (demo_echo_texts ! i)) \<le> 1000 \<and>
        sse_drain (parse_event demo_wire) (demo_answer (demo_echo_texts ! i)) = Ok ([Delta (demo_echo_texts ! i), Done], []) \<and>
        demo_echo_texts ! i \<noteq> []) [0, 1, 2]" by code_simp
    with i(1) have a: "one_delimiter (concat ?bs)" "length (concat ?bs) \<le> 1000"
        "sse_drain (parse_event demo_wire) (concat ?bs) = Ok ([Delta (demo_echo_texts ! i), Done], [])" "demo_echo_texts ! i \<noteq> []"
      by (auto simp: list_all_iff)
    with MAX_RESPONSE_BYTES_enough [OF a(2)] i(2) show "\<exists>bs ms rest.
      demo_sender i ''chat/completions'' (request_body_of (OpenAi ChatCompletions) (?r\<lparr>source_text := protected_text (cs ! i)\<rparr>) (cs ! i)) = Ok (map Chunk bs) \<and>
      one_delimiter (concat bs) \<and> length (concat bs) \<le> MAX_RESPONSE_BYTES \<and>
      sse_drain (parse_event demo_wire) (concat bs) = Ok (ms, rest) \<and>
      list_ex completing ms \<and> deltas ms = [protected_text (cs ! i)]"
      by (intro exI [of _ ?bs] exI [of _ "[Delta (demo_echo_texts ! i), Done]"] exI [of _ "[]"]) (simp add: demo_sender_def)
  qed
  have clean: "\<not> contains (source_text ?r) marker_word" by code_simp
  have prs: "sse_parser (OpenAi ChatCompletions) demo_wire = Some (parse_event demo_wire)"
    by (simp add: openai_parser_def)
  have ch: "chunks p (case max_chunk_bytes ?r of None \<Rightarrow> DEFAULT_TRANSLATION_CHUNK_BYTES | Some m \<Rightarrow> m) = Ok cs"
    using p(2) by (simp add: r)
  have kept: "replaced (source_text ?r) 0 (selected_candidates (\<lambda>_. False) (source_text ?r) (request_source_locale ?r)
      (Some (request_target_locale ?r)) (glossary ?r)) = ''Run {x} now. Then {y}''" by code_simp
  have path: "request_path (OpenAi ChatCompletions) ?r = Ok ''chat/completions''" by (simp add: openai_path_def)
  from echoed_request_delivers_source [where send = demo_sender, OF clean prs p(1) ch path echo] show ?thesis
    by (simp add: kept)
qed

text \<open>
  A flaw of the event framing: the search for a blank line of line feeds comes before the search for one with
  carriage returns, so two events that end differently are two events when they arrive in two chunks and a single
  event, with both data lines joined, when they arrive in one.
\<close>

lemma mixed_blank_lines_merge_events:
  "let read = (\<lambda>e. and_then (event_data e) (\<lambda>d. Ok (Some d)));
       a = ''data: a'' @ [cr, lf, cr, lf]; b = ''data: b'' @ [lf, lf] in
   push_all (sse_push read) [] [a, b] = Ok ([''a'', ''b''], []) \<and>
   push_all (sse_push read) [] [a @ b] = Ok ([''a'' @ [lf] @ ''b''], [])"
  by code_simp

end
