(* ===== verification/Retry.thy ===== *)
theory Retry
  imports Rust_Prelude
begin

text \<open>
  \<open>crates/linguamesh-domain/src/retry.rs\<close>: the retry and circuit-breaker parameters every
  client shares. The integers keep their widths. \<open>RetryPolicy_new\<close> is the only way to build a
  policy besides \<open>RetryPolicy_standard\<close>; deserialisation goes through it. The lemmas show that
  a policy so built is within the documented bounds, that nothing else is accepted, and that a
  provider's hint never makes a client wait longer than the policy allows.
\<close>

definition DEFAULT_RETRY_BASE_DELAY_MS :: u64 where "DEFAULT_RETRY_BASE_DELAY_MS = 100"
definition DEFAULT_RETRY_MAX_BACKOFF_MS :: u64 where "DEFAULT_RETRY_MAX_BACKOFF_MS = 8000"
definition DEFAULT_RETRY_JITTER_PERCENT :: u8 where "DEFAULT_RETRY_JITTER_PERCENT = 50"
definition DEFAULT_RETRY_CIRCUIT_FAILURE_THRESHOLD :: u32 where
  "DEFAULT_RETRY_CIRCUIT_FAILURE_THRESHOLD = 2"
definition DEFAULT_RETRY_CIRCUIT_COOLDOWN_MS :: u64 where
  "DEFAULT_RETRY_CIRCUIT_COOLDOWN_MS = 30000"

lemmas retry_defaults = DEFAULT_RETRY_BASE_DELAY_MS_def DEFAULT_RETRY_MAX_BACKOFF_MS_def
  DEFAULT_RETRY_JITTER_PERCENT_def DEFAULT_RETRY_CIRCUIT_FAILURE_THRESHOLD_def
  DEFAULT_RETRY_CIRCUIT_COOLDOWN_MS_def

record RetryPolicy =
  base_delay_ms :: u64
  max_backoff_ms :: u64
  jitter_percent :: u8
  circuit_failure_threshold :: u32
  circuit_cooldown_ms :: u64
  respect_retry_after :: bool

datatype RetryPolicyError =
    InvalidDelayBounds
  | MaxBackoffTooLarge
  | JitterOutOfRange
  | CircuitThresholdOutOfRange
  | CircuitCooldownOutOfRange

definition RetryPolicy_new ::
  "u64 \<Rightarrow> u64 \<Rightarrow> u8 \<Rightarrow> u32 \<Rightarrow> u64 \<Rightarrow> bool \<Rightarrow> RetryPolicyError + RetryPolicy" where
  "RetryPolicy_new base backoff jitter threshold cooldown respect =
     (if base = 0 \<or> base > backoff then Err InvalidDelayBounds
      else if backoff > 60000 then Err MaxBackoffTooLarge
      else if jitter > 100 then Err JitterOutOfRange
      else if \<not> (1 \<le> threshold \<and> threshold \<le> 32) then Err CircuitThresholdOutOfRange
      else if cooldown = 0 \<or> cooldown > 300000 then Err CircuitCooldownOutOfRange
      else Ok \<lparr>base_delay_ms = base, max_backoff_ms = backoff, jitter_percent = jitter,
               circuit_failure_threshold = threshold, circuit_cooldown_ms = cooldown,
               respect_retry_after = respect\<rparr>)"

definition RetryPolicy_standard :: RetryPolicy where
  "RetryPolicy_standard =
     \<lparr>base_delay_ms = DEFAULT_RETRY_BASE_DELAY_MS,
      max_backoff_ms = DEFAULT_RETRY_MAX_BACKOFF_MS,
      jitter_percent = DEFAULT_RETRY_JITTER_PERCENT,
      circuit_failure_threshold = DEFAULT_RETRY_CIRCUIT_FAILURE_THRESHOLD,
      circuit_cooldown_ms = DEFAULT_RETRY_CIRCUIT_COOLDOWN_MS,
      respect_retry_after = True\<rparr>"

text \<open>
  The fields a serialised policy carries; \<open>deserialize\<close> hands them to the constructor, so a
  stored value that is out of range is refused and not repaired.
\<close>

record RetryPolicyFields =
  f_base_delay_ms :: u64
  f_max_backoff_ms :: u64
  f_jitter_percent :: u8
  f_circuit_failure_threshold :: u32
  f_circuit_cooldown_ms :: u64
  f_respect_retry_after :: bool

definition RetryPolicy_deserialize ::
  "RetryPolicyFields \<Rightarrow> RetryPolicyError + RetryPolicy" where
  "RetryPolicy_deserialize f =
     RetryPolicy_new (f_base_delay_ms f) (f_max_backoff_ms f) (f_jitter_percent f)
       (f_circuit_failure_threshold f) (f_circuit_cooldown_ms f) (f_respect_retry_after f)"

text \<open>The derived \<open>Serialize\<close> writes each field under its own name.\<close>

definition RetryPolicy_serialize :: "RetryPolicy \<Rightarrow> RetryPolicyFields" where
  "RetryPolicy_serialize p =
     \<lparr>f_base_delay_ms = base_delay_ms p, f_max_backoff_ms = max_backoff_ms p,
      f_jitter_percent = jitter_percent p,
      f_circuit_failure_threshold = circuit_failure_threshold p,
      f_circuit_cooldown_ms = circuit_cooldown_ms p,
      f_respect_retry_after = respect_retry_after p\<rparr>"

definition bounded_retry_after_ms :: "RetryPolicy \<Rightarrow> u64 option \<Rightarrow> u64 option" where
  "bounded_retry_after_ms p hint =
     (if respect_retry_after p
      then (case hint of
              Some value \<Rightarrow> if value > max_backoff_ms p then Some (max_backoff_ms p) else Some value
            | None \<Rightarrow> None)
      else None)"

section \<open>Well-formed policies\<close>

definition policy_ok :: "RetryPolicy \<Rightarrow> bool" where
  "policy_ok p \<longleftrightarrow>
     0 < unat (base_delay_ms p) \<and> unat (base_delay_ms p) \<le> unat (max_backoff_ms p) \<and>
     unat (max_backoff_ms p) \<le> 60000 \<and> unat (jitter_percent p) \<le> 100 \<and>
     1 \<le> unat (circuit_failure_threshold p) \<and> unat (circuit_failure_threshold p) \<le> 32 \<and>
     0 < unat (circuit_cooldown_ms p) \<and> unat (circuit_cooldown_ms p) \<le> 300000"

lemma RetryPolicy_new_Ok:
  "RetryPolicy_new b m j t c r = Ok p \<longleftrightarrow>
     p = \<lparr>base_delay_ms = b, max_backoff_ms = m, jitter_percent = j,
          circuit_failure_threshold = t, circuit_cooldown_ms = c, respect_retry_after = r\<rparr> \<and>
     policy_ok p"
  by (auto simp: RetryPolicy_new_def policy_ok_def word_le_nat_alt word_less_nat_alt
      unat_gt_0 not_less)

lemma policy_ok_standard: "policy_ok RetryPolicy_standard"
  by (simp add: policy_ok_def RetryPolicy_standard_def retry_defaults)

text \<open>
  A stored policy is accepted exactly when every value is within its documented bound, and
  it then reads back as the policy whose serialisation was stored: deserialisation and
  serialisation are inverse to each other on the valid policies and nothing else is accepted.
\<close>

lemma retry_policy_roundtrip:
  "RetryPolicy_deserialize f = Ok p \<longleftrightarrow> RetryPolicy_serialize p = f \<and> policy_ok p"
  by (cases f; cases p)
    (auto simp: RetryPolicy_deserialize_def RetryPolicy_serialize_def RetryPolicy_new_Ok)

text \<open>
  The wait a client derives from any \<open>Retry-After\<close> hint under a policy that was accepted is
  the hint itself or the policy's maximum backoff, whichever is smaller, so at most one minute;
  without a hint, or when the policy ignores hints, there is no such wait.
\<close>

lemma retry_hint_bounded:
  assumes "RetryPolicy_new b m j t c r = Ok p"
  shows "bounded_retry_after_ms p h =
           (if r then map_option (\<lambda>v. min v m) h else None) \<and>
         unat m \<le> 60000"
  using assms
  by (auto simp: RetryPolicy_new_Ok policy_ok_def bounded_retry_after_ms_def min_def
      split: option.splits)

lemma retry_hint_bounded_witness:
  "bounded_retry_after_ms RetryPolicy_standard (Some 60000) = Some 8000 \<and>
   unat (8000 :: u64) \<le> 60000"
proof -
  have ok: "RetryPolicy_new 100 8000 50 2 30000 True = Ok RetryPolicy_standard"
    using policy_ok_standard
    by (simp add: RetryPolicy_new_Ok) (simp add: RetryPolicy_standard_def retry_defaults)
  show ?thesis using retry_hint_bounded [OF ok, of "Some 60000"] by simp
qed

end
