(* ===== verification/File_Lease.thy ===== *)
theory File_Lease
  imports Rust_Prelude
begin

text \<open>
  \<open>crates/linguamesh-domain/src/file_lease.rs\<close>: a file resource a host lends to the core. The
  clones of a lease and its guards share one atomic byte, so the model keeps the leases of a
  process in a store of cells and a lease is a value that names its cell. The operations of the
  host and of the core on the shared cells interleave in any order; \<open>lease_step\<close> is one
  operation and \<open>lease_run\<close> a whole history. The lemmas show that a lease that has ended never
  becomes usable again and keeps the reason it ended for.
\<close>

section \<open>Resources and errors\<close>

datatype FileLeaseResource =
    DesktopPath string
  | PosixDescriptor int
  | AndroidParcelDescriptor int
  | WindowsHandle u64
  | TemporaryPath string
  | OutputPath string

datatype FileLeaseError =
    InvalidLocation
  | InvalidDescriptor
  | InvalidHandle
  | Expired
  | Revoked

definition ACTIVE :: u8 where "ACTIVE = 0"
definition EXPIRED :: u8 where "EXPIRED = 1"
definition REVOKED :: u8 where "REVOKED = 2"
definition MAX_LOCATION_BYTES :: nat where "MAX_LOCATION_BYTES = 4096"

lemmas lease_consts = ACTIVE_def EXPIRED_def REVOKED_def

text \<open>
  A lease: its identifier (a random UUID, given), its resource and the address of the atomic
  byte that every clone shares. \<open>cells\<close> holds those bytes.
\<close>

type_synonym cells = "nat \<Rightarrow> u8"

record FileLease =
  lease_id :: string
  lease_resource :: FileLeaseResource
  lease_cell :: nat

text \<open>
  \<open>FileLease::new\<close> allocates a fresh cell holding \<open>ACTIVE\<close>; \<open>fresh\<close> and \<open>uuid\<close> are the
  allocator's and the UUID generator's answers.
\<close>

definition FileLease_new ::
  "nat \<Rightarrow> string \<Rightarrow> cells \<Rightarrow> FileLeaseResource \<Rightarrow> FileLease \<times> cells" where
  "FileLease_new fresh uuid cs r =
     (\<lparr>lease_id = uuid, lease_resource = r, lease_cell = fresh\<rparr>, cs(fresh := ACTIVE))"

definition FileLease_location ::
  "nat \<Rightarrow> string \<Rightarrow> cells \<Rightarrow> (string \<Rightarrow> FileLeaseResource) \<Rightarrow> string \<Rightarrow>
     FileLeaseError + FileLease \<times> cells" where
  "FileLease_location fresh uuid cs constructor value =
     (if value = [] \<or> length value > MAX_LOCATION_BYTES \<or> CHR 0x00 \<in> set value
      then Err InvalidLocation
      else Ok (FileLease_new fresh uuid cs (constructor value)))"

definition FileLease_descriptor ::
  "nat \<Rightarrow> string \<Rightarrow> cells \<Rightarrow> FileLeaseResource \<Rightarrow> int \<Rightarrow> FileLeaseError + FileLease \<times> cells" where
  "FileLease_descriptor fresh uuid cs r fd =
     (if fd < 0 then Err InvalidDescriptor else Ok (FileLease_new fresh uuid cs r))"

definition desktop_path ::
  "nat \<Rightarrow> string \<Rightarrow> cells \<Rightarrow> string \<Rightarrow> FileLeaseError + FileLease \<times> cells" where
  "desktop_path fresh uuid cs value = FileLease_location fresh uuid cs DesktopPath value"

definition posix_descriptor ::
  "nat \<Rightarrow> string \<Rightarrow> cells \<Rightarrow> int \<Rightarrow> FileLeaseError + FileLease \<times> cells" where
  "posix_descriptor fresh uuid cs fd = FileLease_descriptor fresh uuid cs (PosixDescriptor fd) fd"

definition android_parcel_descriptor ::
  "nat \<Rightarrow> string \<Rightarrow> cells \<Rightarrow> int \<Rightarrow> FileLeaseError + FileLease \<times> cells" where
  "android_parcel_descriptor fresh uuid cs fd =
     FileLease_descriptor fresh uuid cs (AndroidParcelDescriptor fd) fd"

definition windows_handle ::
  "nat \<Rightarrow> string \<Rightarrow> cells \<Rightarrow> u64 \<Rightarrow> FileLeaseError + FileLease \<times> cells" where
  "windows_handle fresh uuid cs value =
     (if value = 0 then Err InvalidHandle
      else Ok (FileLease_new fresh uuid cs (WindowsHandle value)))"

definition temporary_path ::
  "nat \<Rightarrow> string \<Rightarrow> cells \<Rightarrow> string \<Rightarrow> FileLeaseError + FileLease \<times> cells" where
  "temporary_path fresh uuid cs value = FileLease_location fresh uuid cs TemporaryPath value"

definition output_path ::
  "nat \<Rightarrow> string \<Rightarrow> cells \<Rightarrow> string \<Rightarrow> FileLeaseError + FileLease \<times> cells" where
  "output_path fresh uuid cs value = FileLease_location fresh uuid cs OutputPath value"

section \<open>Operations on a lease\<close>

definition is_active :: "cells \<Rightarrow> FileLease \<Rightarrow> bool" where
  "is_active cs l \<longleftrightarrow> cs (lease_cell l) = ACTIVE"

definition ensure_active :: "cells \<Rightarrow> FileLease \<Rightarrow> FileLeaseError + unit" where
  "ensure_active cs l =
     (if cs (lease_cell l) = ACTIVE then Ok ()
      else if cs (lease_cell l) = EXPIRED then Err Expired
      else Err Revoked)"

text \<open>A guard only borrows its lease.\<close>

record FileLeaseGuard =
  guard_lease :: FileLease

definition acquire :: "cells \<Rightarrow> FileLease \<Rightarrow> FileLeaseError + FileLeaseGuard" where
  "acquire cs l = and_then (ensure_active cs l) (\<lambda>_. Ok \<lparr>guard_lease = l\<rparr>)"

definition guard_resource :: "cells \<Rightarrow> FileLeaseGuard \<Rightarrow> FileLeaseError + FileLeaseResource" where
  "guard_resource cs g =
     and_then (ensure_active cs (guard_lease g)) (\<lambda>_. Ok (lease_resource (guard_lease g)))"

text \<open>\<open>AtomicU8::compare_exchange\<close> on one cell, and the two operations that use it.\<close>

definition compare_exchange :: "cells \<Rightarrow> nat \<Rightarrow> u8 \<Rightarrow> u8 \<Rightarrow> cells" where
  "compare_exchange cs a expected new = (if cs a = expected then cs(a := new) else cs)"

definition expire :: "cells \<Rightarrow> FileLease \<Rightarrow> cells" where
  "expire cs l = compare_exchange cs (lease_cell l) ACTIVE EXPIRED"

definition revoke :: "cells \<Rightarrow> FileLease \<Rightarrow> cells" where
  "revoke cs l = compare_exchange cs (lease_cell l) ACTIVE REVOKED"

section \<open>Interleaved histories\<close>

text \<open>
  What the threads of a process can do to the shared cells: end a lease or one of its clones,
  borrow, read through a guard, or open a new lease in a cell that no live lease uses.
\<close>

datatype lease_op =
    OpExpire FileLease
  | OpRevoke FileLease
  | OpAcquire FileLease
  | OpResource FileLeaseGuard
  | OpOpen nat string FileLeaseResource

fun lease_step :: "cells \<Rightarrow> lease_op \<Rightarrow> cells" where
  "lease_step cs (OpExpire l) = expire cs l"
| "lease_step cs (OpRevoke l) = revoke cs l"
| "lease_step cs (OpAcquire l) = cs"
| "lease_step cs (OpResource g) = cs"
| "lease_step cs (OpOpen fresh uuid r) = snd (FileLease_new fresh uuid cs r)"

text \<open>\<open>keeps a op\<close>: the step does not allocate cell \<open>a\<close> again (it still has a live owner).\<close>

fun keeps :: "nat \<Rightarrow> lease_op \<Rightarrow> bool" where
  "keeps a (OpOpen fresh uuid r) \<longleftrightarrow> fresh \<noteq> a"
| "keeps a _ \<longleftrightarrow> True"

definition lease_run :: "cells \<Rightarrow> lease_op list \<Rightarrow> cells" where
  "lease_run = foldl lease_step"

lemma lease_run_simps [simp]:
  "lease_run cs [] = cs"
  "lease_run cs (s # ss) = lease_run (lease_step cs s) ss"
  by (simp_all add: lease_run_def)

lemma lease_step_ended:
  "keeps a s \<Longrightarrow> cs a \<noteq> ACTIVE \<Longrightarrow> lease_step cs s a = cs a"
  by (cases s) (auto simp: expire_def revoke_def compare_exchange_def FileLease_new_def)

lemma lease_run_ended:
  "list_all (keeps a) ss \<Longrightarrow> cs a \<noteq> ACTIVE \<Longrightarrow> lease_run cs ss a = cs a"
  by (induction ss arbitrary: cs) (auto simp: lease_step_ended)

lemma ensure_active_cong:
  "cs (lease_cell l) = cs' (lease_cell l) \<Longrightarrow> ensure_active cs l = ensure_active cs' l"
  by (simp add: ensure_active_def)

lemma ensure_active_Ok: "ensure_active cs l = Ok u \<longleftrightarrow> cs (lease_cell l) = ACTIVE"
  by (auto simp: ensure_active_def)

lemma ended_after:
  "cs (lease_cell l) = ACTIVE \<Longrightarrow>
     ensure_active (expire cs l) l = Err Expired \<and> ensure_active (revoke cs l) l = Err Revoked"
  by (auto simp: ensure_active_def expire_def revoke_def compare_exchange_def lease_consts)

text \<open>
  Once the host has expired or revoked a lease, no interleaving of later operations by any
  thread (further expiries or revocations of the lease or its clones, borrows, new leases) lets
  the core borrow it or read its resource through a guard taken earlier, and every later use
  reports the reason the lease ended for first.
\<close>

lemma lease_ended_for_good:
  fixes cs :: cells
  assumes "ensure_active cs l = Err e"
    and "list_all (keeps (lease_cell l)) ss"
    and "lease_cell (guard_lease g) = lease_cell l"
  shows "\<not> is_active (lease_run cs ss) l \<and>
         acquire (lease_run cs ss) l = Err e \<and>
         guard_resource (lease_run cs ss) g = Err e"
proof -
  from assms(1) have "cs (lease_cell l) \<noteq> ACTIVE" by (auto simp: ensure_active_def)
  with assms(2) have same: "lease_run cs ss (lease_cell l) = cs (lease_cell l)"
    by (rule lease_run_ended)
  then have "ensure_active (lease_run cs ss) l = Err e"
    using ensure_active_cong assms(1) by metis
  moreover from this have "ensure_active (lease_run cs ss) (guard_lease g) = Err e"
    using assms(3) by (simp only: ensure_active_def)
  ultimately show ?thesis
    using \<open>cs (lease_cell l) \<noteq> ACTIVE\<close> same
    by (simp add: acquire_def guard_resource_def is_active_def)
qed

lemma lease_ended_for_good_witness:
  "let l = \<lparr>lease_id = ''id'', lease_resource = OutputPath ''/tmp/o'', lease_cell = 0\<rparr>;
       cs = expire (\<lambda>_. ACTIVE) l
   in ensure_active cs l = Err Expired \<and>
      acquire (lease_run cs [OpRevoke l, OpOpen 1 ''n'' (PosixDescriptor 3)]) l = Err Expired"
proof -
  define l where "l = \<lparr>lease_id = ''id'', lease_resource = OutputPath ''/tmp/o'', lease_cell = 0\<rparr>"
  define cs where "cs = expire (\<lambda>_. ACTIVE) l"
  have e: "ensure_active cs l = Err Expired"
    by (simp add: cs_def l_def ended_after)
  have "acquire (lease_run cs [OpRevoke l, OpOpen 1 ''n'' (PosixDescriptor 3)]) l = Err Expired"
    using lease_ended_for_good [OF e, of "[OpRevoke l, OpOpen 1 ''n'' (PosixDescriptor 3)]"
        "\<lparr>guard_lease = l\<rparr>"]
    by (simp add: l_def)
  with e show ?thesis by (simp add: Let_def cs_def l_def)
qed

end
