(* ===== verification/Routing.thy ===== *)
theory Routing
  imports Json
begin

text \<open>
  \<open>crates/linguamesh-domain/src/routing.rs\<close>: the planner that filters the candidates of a
  routing profile by its constraints and ranks what is left. \<open>RoutingProfile_select\<close> is
  \<open>RoutingProfile::select\<close>, composed of the same helpers. The lemmas show what a decision
  contains, that no remote candidate survives a local-only or privacy-sensitive request, that
  the automatic ranking puts a best candidate first and does not depend on the order the
  candidates are listed in, and when the planner refuses.
\<close>

section \<open>Data\<close>

definition MAX_ROUTING_CANDIDATES :: nat where "MAX_ROUTING_CANDIDATES = 32"
definition MAX_ROUTING_IDENTIFIER_BYTES :: nat where "MAX_ROUTING_IDENTIFIER_BYTES = 128"
definition MAX_ROUTING_PROFILE_JSON_BYTES :: nat where
  "MAX_ROUTING_PROFILE_JSON_BYTES = 64 * 1024"

datatype RoutingMode = Manual | Ordered | Automatic

datatype RoutingPreference = PreferNone | PreferLocal | PreferQuality | PreferLatency | PreferCost

record RoutingConstraints =
  local_only :: bool
  allow_remote :: bool
  provider_allowlist :: "string list"
  provider_denylist :: "string list"
  model_allowlist :: "string list"
  model_denylist :: "string list"
  c_require_streaming :: bool
  c_require_document :: bool
  minimum_quality_tier :: "u8 option"
  max_request_bytes :: "nat option"
  preference :: RoutingPreference
  c_privacy_sensitive :: bool
  explicit_fallback_allowed :: bool

definition RoutingConstraints_default :: RoutingConstraints where
  "RoutingConstraints_default =
     \<lparr>local_only = False, allow_remote = True, provider_allowlist = [], provider_denylist = [],
      model_allowlist = [], model_denylist = [], c_require_streaming = False,
      c_require_document = False, minimum_quality_tier = None, max_request_bytes = None,
      preference = PreferNone, c_privacy_sensitive = False, explicit_fallback_allowed = False\<rparr>"

record RoutingCandidate =
  provider_id :: string
  model_id :: string
  is_local :: bool
  supports_streaming :: bool
  supports_document :: bool
  context_capacity_bytes :: nat
  quality_tier :: u8
  estimated_latency_ms :: "u64 option"
  estimated_cost_micros :: "u64 option"
  source_locales :: "string list"
  target_locales :: "string list"

record RoutingContext =
  source_locale :: "string option"
  target_locale :: string
  request_bytes :: nat
  require_streaming :: bool
  require_document :: bool
  privacy_sensitive :: bool

datatype RoutingRejectionReason =
    ProviderNotAllowed
  | ProviderDenied
  | ModelNotAllowed
  | ModelDenied
  | RemoteDisallowed
  | PrivacyRemoteDisallowed
  | StreamingUnsupported
  | DocumentUnsupported
  | ContextTooSmall
  | QualityTooLow
  | SourceLocaleUnsupported
  | TargetLocaleUnsupported
  | RequestTooLarge

record RoutingRejection =
  rejected_candidate :: RoutingCandidate
  reason :: RoutingRejectionReason

record RoutingRank =
  rank_candidate :: RoutingCandidate
  score_components :: "int list"

record RoutingDecision =
  selected :: RoutingCandidate
  eligible_candidates :: "RoutingCandidate list"
  rejected_candidates :: "RoutingRejection list"
  ranking :: "RoutingRank list"
  fallback_order :: "RoutingCandidate list"

record RoutingProfile =
  profile_id :: string
  mode :: RoutingMode
  candidates :: "RoutingCandidate list"
  constraints :: RoutingConstraints

datatype RoutingError =
    InvalidConfiguration string
  | NoEligibleCandidates "RoutingRejection list"

section \<open>Validation\<close>

definition is_identifier_byte :: "char \<Rightarrow> bool" where
  "is_identifier_byte b \<longleftrightarrow> is_ascii_alphanumeric b \<or> b \<in> set ''._-''"

definition validate_identifier :: "string \<Rightarrow> string \<Rightarrow> RoutingError + unit" where
  "validate_identifier value field =
     (if value = [] \<or> length value > MAX_ROUTING_IDENTIFIER_BYTES \<or>
         \<not> list_all is_identifier_byte value
      then Err (InvalidConfiguration field) else Ok ())"

definition validate_identifier_list :: "string list \<Rightarrow> string \<Rightarrow> RoutingError + unit" where
  "validate_identifier_list values field = try_each (\<lambda>v. validate_identifier v field) values"

definition is_locale_byte :: "char \<Rightarrow> bool" where
  "is_locale_byte b \<longleftrightarrow> is_ascii_alphanumeric b \<or> b \<in> set ''-_''"

definition validate_locale_list :: "string list \<Rightarrow> string \<Rightarrow> RoutingError + unit" where
  "validate_locale_list values field =
     try_each (\<lambda>v. if v = [] \<or> length v > 64 \<or> \<not> list_all is_locale_byte v
                   then Err (InvalidConfiguration field) else Ok ()) values"

definition validate_candidate :: "RoutingCandidate \<Rightarrow> RoutingError + unit" where
  "validate_candidate c =
     and_then (validate_identifier (provider_id c) ''provider_id'') (\<lambda>_.
     and_then (validate_identifier (model_id c) ''model_id'') (\<lambda>_.
     if context_capacity_bytes c = 0
     then Err (InvalidConfiguration ''context capacity must be greater than zero'')
     else and_then (validate_locale_list (source_locales c) ''source locale'') (\<lambda>_.
          validate_locale_list (target_locales c) ''target locale'')))"

text \<open>The second loop: no earlier candidate has the same provider and model.\<close>

fun unique_pairs :: "RoutingCandidate list \<Rightarrow> RoutingCandidate list \<Rightarrow> RoutingError + unit" where
  "unique_pairs previous [] = Ok ()"
| "unique_pairs previous (c # cs) =
     (if \<exists>p \<in> set previous. provider_id p = provider_id c \<and> model_id p = model_id c
      then Err (InvalidConfiguration ''routing candidates must have unique provider/model pairs'')
      else unique_pairs (previous @ [c]) cs)"

definition validate_candidates :: "RoutingCandidate list \<Rightarrow> RoutingError + unit" where
  "validate_candidates cs =
     (if cs = [] then Err (InvalidConfiguration ''at least one routing candidate is required'')
      else if length cs > MAX_ROUTING_CANDIDATES
      then Err (InvalidConfiguration ''routing candidate count exceeds the limit'')
      else and_then (try_each validate_candidate cs) (\<lambda>_. unique_pairs [] cs))"

definition RoutingProfile_validate :: "RoutingProfile \<Rightarrow> RoutingError + unit" where
  "RoutingProfile_validate p =
     and_then (validate_identifier (profile_id p) ''routing profile id'') (\<lambda>_.
     and_then (validate_candidates (candidates p)) (\<lambda>_.
     and_then (validate_identifier_list (provider_allowlist (constraints p)) ''provider allowlist'') (\<lambda>_.
     and_then (validate_identifier_list (provider_denylist (constraints p)) ''provider denylist'') (\<lambda>_.
     and_then (validate_identifier_list (model_allowlist (constraints p)) ''model allowlist'') (\<lambda>_.
     and_then (validate_identifier_list (model_denylist (constraints p)) ''model denylist'') (\<lambda>_.
     if max_request_bytes (constraints p) = Some 0
     then Err (InvalidConfiguration ''maximum request bytes must be greater than zero'')
     else Ok ()))))))"

definition RoutingProfile_new ::
  "string \<Rightarrow> RoutingMode \<Rightarrow> RoutingCandidate list \<Rightarrow> RoutingConstraints \<Rightarrow>
     RoutingError + RoutingProfile" where
  "RoutingProfile_new i m cs k =
     (let p = \<lparr>profile_id = i, mode = m, candidates = cs, constraints = k\<rparr>
      in and_then (RoutingProfile_validate p) (\<lambda>_. Ok p))"

definition RoutingCandidate_new ::
  "string \<Rightarrow> string \<Rightarrow> bool \<Rightarrow> nat \<Rightarrow> RoutingError + RoutingCandidate" where
  "RoutingCandidate_new pid mid loc capacity =
     and_then (validate_identifier pid ''provider_id'') (\<lambda>_.
     and_then (validate_identifier mid ''model_id'') (\<lambda>_.
     if capacity = 0
     then Err (InvalidConfiguration ''context capacity must be greater than zero'')
     else Ok \<lparr>provider_id = pid, model_id = mid, is_local = loc, supports_streaming = True,
              supports_document = False, context_capacity_bytes = capacity, quality_tier = 0,
              estimated_latency_ms = None, estimated_cost_micros = None, source_locales = [],
              target_locales = []\<rparr>))"

section \<open>Selection\<close>

definition candidate_key :: "RoutingCandidate \<Rightarrow> string" where
  "candidate_key c = provider_id c @ ''@'' @ model_id c"

definition rejection_reason ::
  "RoutingProfile \<Rightarrow> RoutingCandidate \<Rightarrow> RoutingContext \<Rightarrow> RoutingRejectionReason option" where
  "rejection_reason p c x =
     (let k = constraints p in
      if provider_allowlist k \<noteq> [] \<and> provider_id c \<notin> set (provider_allowlist k)
      then Some ProviderNotAllowed
      else if provider_id c \<in> set (provider_denylist k) then Some ProviderDenied
      else if model_allowlist k \<noteq> [] \<and> model_id c \<notin> set (model_allowlist k)
      then Some ModelNotAllowed
      else if model_id c \<in> set (model_denylist k) then Some ModelDenied
      else if local_only k \<and> \<not> is_local c then Some RemoteDisallowed
      else if (\<not> allow_remote k \<or> (c_privacy_sensitive k \<and> privacy_sensitive x)) \<and> \<not> is_local c
      then Some (if c_privacy_sensitive k \<and> privacy_sensitive x
                 then PrivacyRemoteDisallowed else RemoteDisallowed)
      else if (c_require_streaming k \<or> require_streaming x) \<and> \<not> supports_streaming c
      then Some StreamingUnsupported
      else if (c_require_document k \<or> require_document x) \<and> \<not> supports_document c
      then Some DocumentUnsupported
      else if request_bytes x > context_capacity_bytes c then Some ContextTooSmall
      else if (case max_request_bytes k of None \<Rightarrow> False | Some limit \<Rightarrow> request_bytes x > limit)
      then Some RequestTooLarge
      else if (case minimum_quality_tier k of None \<Rightarrow> False
               | Some minimum \<Rightarrow> quality_tier c < minimum)
      then Some QualityTooLow
      else if (case source_locale x of None \<Rightarrow> False
               | Some l \<Rightarrow> source_locales c \<noteq> [] \<and>
                           \<not> list_ex (\<lambda>m. eq_ignore_ascii_case m l) (source_locales c))
      then Some SourceLocaleUnsupported
      else if target_locales c \<noteq> [] \<and>
              \<not> list_ex (\<lambda>m. eq_ignore_ascii_case m (target_locale x)) (target_locales c)
      then Some TargetLocaleUnsupported
      else None)"

definition bool_i64 :: "bool \<Rightarrow> int" where "bool_i64 b = (if b then 1 else 0)"

definition negated_estimate :: "u64 option \<Rightarrow> int" where
  "negated_estimate e = (case e of None \<Rightarrow> - (2 ^ 63)
     | Some v \<Rightarrow> - (if unat v \<le> 2 ^ 63 - 1 then int (unat v) else 2 ^ 63 - 1))"

definition candidate_score :: "RoutingProfile \<Rightarrow> RoutingCandidate \<Rightarrow> int list" where
  "candidate_score p c = (case preference (constraints p) of
       PreferLocal \<Rightarrow> [bool_i64 (is_local c), int (unat (quality_tier c))]
     | PreferQuality \<Rightarrow> [int (unat (quality_tier c)), bool_i64 (is_local c)]
     | PreferLatency \<Rightarrow> [negated_estimate (estimated_latency_ms c), bool_i64 (is_local c)]
     | PreferCost \<Rightarrow> [negated_estimate (estimated_cost_micros c), bool_i64 (is_local c)]
     | PreferNone \<Rightarrow> [bool_i64 (is_local c)])"

text \<open>The comparison handed to \<open>sort_by\<close>: better scores first, then the smaller key.\<close>

definition rank_le :: "RoutingRank \<Rightarrow> RoutingRank \<Rightarrow> bool" where
  "rank_le l r \<longleftrightarrow>
     score_components r < score_components l \<or>
     (score_components l = score_components r \<and>
      candidate_key (rank_candidate l) \<le> candidate_key (rank_candidate r))"

text \<open>The loop that splits the candidates into eligible and rejected ones.\<close>

fun partition_candidates ::
  "RoutingProfile \<Rightarrow> RoutingContext \<Rightarrow> RoutingCandidate list \<Rightarrow>
     RoutingCandidate list \<Rightarrow> RoutingRejection list \<Rightarrow>
     RoutingCandidate list \<times> RoutingRejection list" where
  "partition_candidates p x [] eligible rejected = (eligible, rejected)"
| "partition_candidates p x (c # cs) eligible rejected =
     (case rejection_reason p c x of
        Some r \<Rightarrow> partition_candidates p x cs eligible
                    (rejected @ [\<lparr>rejected_candidate = c, reason = r\<rparr>])
      | None \<Rightarrow> partition_candidates p x cs (eligible @ [c]) rejected)"

definition rank_candidates :: "RoutingProfile \<Rightarrow> RoutingCandidate list \<Rightarrow> RoutingRank list" where
  "rank_candidates p eligible =
     sort_by rank_le
       (map (\<lambda>c. \<lparr>rank_candidate = c, score_components = candidate_score p c\<rparr>) eligible)"

definition RoutingProfile_select ::
  "RoutingProfile \<Rightarrow> RoutingContext \<Rightarrow> RoutingError + RoutingDecision" where
  "RoutingProfile_select p x =
     and_then (RoutingProfile_validate p) (\<lambda>_.
     if is_blank (target_locale x)
     then Err (InvalidConfiguration ''target locale must not be empty'')
     else
       (let (eligible, rejected) = partition_candidates p x (candidates p) [] [] in
        if eligible = [] then Err (NoEligibleCandidates rejected)
        else
          (let ranked = (if mode p = Automatic then rank_candidates p eligible else []);
               ordered = (if mode p = Automatic then map rank_candidate ranked else eligible)
           in Ok \<lparr>selected = ordered ! 0, eligible_candidates = ordered,
                  rejected_candidates = rejected, ranking = ranked,
                  fallback_order =
                    (if explicit_fallback_allowed (constraints p) \<and> mode p \<noteq> Manual
                     then drop 1 ordered else [])\<rparr>)))"

section \<open>Exchange as JSON\<close>

definition json_invalid :: RoutingError where
  "json_invalid = InvalidConfiguration ''routing profile JSON is invalid''"

definition ensure_fields :: "(string \<times> json) list \<Rightarrow> string list \<Rightarrow> RoutingError + unit" where
  "ensure_fields object allowed =
     (if list_all (\<lambda>(k, v). k \<in> set allowed) object then Ok ()
      else Err (InvalidConfiguration ''routing profile JSON contains unsupported fields''))"

definition profile_fields :: "string list" where
  "profile_fields = [''id'', ''mode'', ''candidates'', ''constraints'']"

definition candidate_fields :: "string list" where
  "candidate_fields =
     [''provider_id'', ''model_id'', ''local'', ''supports_streaming'', ''supports_document'',
      ''context_capacity_bytes'', ''quality_tier'', ''estimated_latency_ms'',
      ''estimated_cost_micros'', ''source_locales'', ''target_locales'']"

definition constraint_fields :: "string list" where
  "constraint_fields =
     [''local_only'', ''allow_remote'', ''provider_allowlist'', ''provider_denylist'',
      ''model_allowlist'', ''model_denylist'', ''require_streaming'', ''require_document'',
      ''minimum_quality_tier'', ''max_request_bytes'', ''preference'', ''privacy_sensitive'',
      ''explicit_fallback_allowed'']"

definition validate_candidate_fields :: "json \<Rightarrow> RoutingError + unit" where
  "validate_candidate_fields v =
     (case as_object v of None \<Rightarrow> Err json_invalid
      | Some c \<Rightarrow> ensure_fields c candidate_fields)"

definition validate_exchange_fields :: "json \<Rightarrow> RoutingError + unit" where
  "validate_exchange_fields value =
     (case as_object value of None \<Rightarrow> Err json_invalid
      | Some profile \<Rightarrow>
         and_then (ensure_fields profile profile_fields) (\<lambda>_.
         case Option.bind (map_of profile ''candidates'') as_array of None \<Rightarrow> Err json_invalid
         | Some cs \<Rightarrow>
            and_then (try_each validate_candidate_fields cs) (\<lambda>_.
            case map_of profile ''constraints'' of None \<Rightarrow> Ok ()
            | Some k \<Rightarrow>
               (case as_object k of None \<Rightarrow> Err json_invalid
                | Some k' \<Rightarrow> ensure_fields k' constraint_fields))))"

text \<open>
  \<open>to_string\<close>, \<open>from_str\<close> and \<open>from_value\<close> are \<open>serde_json\<close>'s printing, parsing and typed
  decoding of a profile.
\<close>

definition serialize_routing_profile ::
  "(RoutingProfile \<Rightarrow> string option) \<Rightarrow> RoutingProfile \<Rightarrow> RoutingError + string" where
  "serialize_routing_profile to_string p =
     and_then (RoutingProfile_validate p) (\<lambda>_.
     and_then (ok_or json_invalid (to_string p)) (\<lambda>contents.
     if length contents > MAX_ROUTING_PROFILE_JSON_BYTES
     then Err (InvalidConfiguration ''routing profile JSON exceeds the size limit'')
     else Ok contents))"

definition deserialize_routing_profile ::
  "(string \<Rightarrow> json option) \<Rightarrow> (json \<Rightarrow> RoutingProfile option) \<Rightarrow> string \<Rightarrow>
     RoutingError + RoutingProfile" where
  "deserialize_routing_profile from_str from_value contents =
     (if length contents > MAX_ROUTING_PROFILE_JSON_BYTES
      then Err (InvalidConfiguration ''routing profile JSON exceeds the size limit'')
      else and_then (ok_or json_invalid (from_str contents)) (\<lambda>value.
           and_then (validate_exchange_fields value) (\<lambda>_.
           and_then (ok_or json_invalid (from_value value)) (\<lambda>p.
           and_then (RoutingProfile_validate p) (\<lambda>_. Ok p)))))"

section \<open>What validation guarantees\<close>

abbreviation same_pair :: "RoutingCandidate \<Rightarrow> RoutingCandidate \<Rightarrow> bool" where
  "same_pair a b \<equiv> provider_id a = provider_id b \<and> model_id a = model_id b"

lemma validate_identifier_Ok [result_iff]:
  "validate_identifier v f = Ok u \<longleftrightarrow>
     v \<noteq> [] \<and> length v \<le> MAX_ROUTING_IDENTIFIER_BYTES \<and> list_all is_identifier_byte v"
  by (auto simp: validate_identifier_def)

lemma identifier_no_at: "list_all is_identifier_byte v \<Longrightarrow> CHR ''@'' \<notin> set v"
  by (auto simp: list_all_iff is_identifier_byte_def is_ascii_alphanumeric_def is_ascii_digit_def
      is_ascii_lowercase_def is_ascii_uppercase_def)

lemma unique_pairs_Ok:
  "unique_pairs ps cs = Ok u \<longleftrightarrow>
     (\<forall>c \<in> set cs. \<forall>p \<in> set ps. \<not> same_pair p c) \<and> distinct (map (\<lambda>c. (provider_id c, model_id c)) cs)"
proof (induction cs arbitrary: ps)
  case Nil
  then show ?case by simp
next
  case (Cons c cs)
  have "unique_pairs (ps @ [c]) cs = Ok u \<longleftrightarrow>
      (\<forall>d \<in> set cs. \<not> same_pair c d \<and> (\<forall>p \<in> set ps. \<not> same_pair p d)) \<and>
      distinct (map (\<lambda>c. (provider_id c, model_id c)) cs)"
    unfolding Cons.IH by auto
  then show ?case by (auto simp: image_iff)
qed

lemma validate_candidates_Ok:
  assumes "validate_candidates cs = Ok u"
  shows "cs \<noteq> []" "length cs \<le> MAX_ROUTING_CANDIDATES"
    "\<And>c. c \<in> set cs \<Longrightarrow> validate_candidate c = Ok ()"
    "distinct (map (\<lambda>c. (provider_id c, model_id c)) cs)"
  using assms by (auto simp: validate_candidates_def result_iff unique_pairs_Ok split: if_splits)

lemma RoutingProfile_validate_Ok:
  assumes "RoutingProfile_validate p = Ok u"
  shows "validate_candidates (candidates p) = Ok ()"
  using assms by (auto simp: RoutingProfile_validate_def and_then_Inr)

lemma candidate_key_inj:
  assumes "validate_candidate a = Ok ()" "validate_candidate b = Ok ()"
    and "candidate_key a = candidate_key b"
  shows "same_pair a b"
proof -
  have at: "CHR ''@'' \<notin> set (provider_id a)" "CHR ''@'' \<notin> set (provider_id b)"
    using assms(1,2) by (auto simp: validate_candidate_def result_iff dest!: identifier_no_at)
  have split: "takeWhile (\<lambda>b. b \<noteq> CHR ''@'') (candidate_key c) = provider_id c"
    if "CHR ''@'' \<notin> set (provider_id c)" for c
    using that by (subst candidate_key_def, subst takeWhile_append2) auto
  from split at assms(3) have "provider_id a = provider_id b" by metis
  with assms(3) show ?thesis by (simp add: candidate_key_def)
qed

section \<open>What selection returns\<close>

lemma partition_candidates_eq:
  "partition_candidates p x cs es rs =
     (es @ filter (\<lambda>c. rejection_reason p c x = None) cs,
      rs @ map (\<lambda>c. \<lparr>rejected_candidate = c, reason = the (rejection_reason p c x)\<rparr>)
             (filter (\<lambda>c. rejection_reason p c x \<noteq> None) cs))"
  by (induction cs arbitrary: es rs) (auto split: option.splits)

definition eligible :: "RoutingProfile \<Rightarrow> RoutingContext \<Rightarrow> RoutingCandidate list" where
  "eligible p x = filter (\<lambda>c. rejection_reason p c x = None) (candidates p)"

definition ordered :: "RoutingProfile \<Rightarrow> RoutingContext \<Rightarrow> RoutingCandidate list" where
  "ordered p x =
     (if mode p = Automatic then map rank_candidate (rank_candidates p (eligible p x))
      else eligible p x)"

lemma select_Ok_iff:
  "RoutingProfile_select p x = Ok d \<longleftrightarrow>
     RoutingProfile_validate p = Ok () \<and> \<not> is_blank (target_locale x) \<and> eligible p x \<noteq> [] \<and>
     d = \<lparr>selected = ordered p x ! 0, eligible_candidates = ordered p x,
          rejected_candidates =
            map (\<lambda>c. \<lparr>rejected_candidate = c, reason = the (rejection_reason p c x)\<rparr>)
              (filter (\<lambda>c. rejection_reason p c x \<noteq> None) (candidates p)),
          ranking = (if mode p = Automatic then rank_candidates p (eligible p x) else []),
          fallback_order =
            (if explicit_fallback_allowed (constraints p) \<and> mode p \<noteq> Manual
             then drop 1 (ordered p x) else [])\<rparr>"
  unfolding RoutingProfile_select_def
  by (auto simp: and_then_Inr partition_candidates_eq Let_def eligible_def ordered_def)

lemma select_OkD:
  assumes "RoutingProfile_select p x = Ok d"
  shows "RoutingProfile_validate p = Ok ()" "\<not> is_blank (target_locale x)" "eligible p x \<noteq> []"
    "selected d = ordered p x ! 0" "eligible_candidates d = ordered p x"
    "rejected_candidates d =
       map (\<lambda>c. \<lparr>rejected_candidate = c, reason = the (rejection_reason p c x)\<rparr>)
         (filter (\<lambda>c. rejection_reason p c x \<noteq> None) (candidates p))"
    "ranking d = (if mode p = Automatic then rank_candidates p (eligible p x) else [])"
    "fallback_order d =
       (if explicit_fallback_allowed (constraints p) \<and> mode p \<noteq> Manual
        then drop 1 (ordered p x) else [])"
  using assms [unfolded select_Ok_iff] by simp_all

lemma mset_ordered: "mset (ordered p x) = mset (eligible p x)"
proof -
  have "mset (map rank_candidate (rank_candidates p es)) = mset es" for es
  proof -
    have "mset (map rank_candidate (rank_candidates p es)) =
        image_mset rank_candidate (mset (rank_candidates p es))" by simp
    also have "\<dots> = mset es"
      by (simp add: rank_candidates_def multiset.map_comp comp_def)
    finally show ?thesis .
  qed
  then show ?thesis by (simp add: ordered_def)
qed

lemma set_ordered: "set (ordered p x) = set (eligible p x)"
  using mset_ordered by (metis set_mset_mset)

lemma rank_le_total: "rank_le a b \<or> rank_le b a"
  by (auto simp: rank_le_def)

lemma rank_le_trans: "rank_le a b \<Longrightarrow> rank_le b c \<Longrightarrow> rank_le a c"
  by (auto simp: rank_le_def)

lemma selected_in_ordered:
  assumes "RoutingProfile_select p x = Ok d"
  shows "selected d \<in> set (ordered p x)"
proof -
  have "ordered p x \<noteq> []" using select_OkD(3) [OF assms] mset_ordered by (metis mset_zero_iff)
  then show ?thesis unfolding select_OkD(4) [OF assms] by (intro nth_mem) auto
qed

text \<open>
  A decision partitions the profile's candidates: the eligible ones are exactly the
  candidates that no constraint rejects (each as often as it is listed), every other candidate
  appears among the rejected ones with the reason the constraints give for it, the selected
  candidate is the first eligible one, and the fallback chain is the rest of the eligible
  candidates in order when the profile allows fallback outside manual mode, and empty otherwise.
\<close>

lemma select_partitions_candidates:
  assumes "RoutingProfile_select p x = Ok d"
  shows "mset (eligible_candidates d) =
           mset (filter (\<lambda>c. rejection_reason p c x = None) (candidates p)) \<and>
         map (\<lambda>r. (rejected_candidate r, Some (reason r))) (rejected_candidates d) =
           map (\<lambda>c. (c, rejection_reason p c x))
             (filter (\<lambda>c. rejection_reason p c x \<noteq> None) (candidates p)) \<and>
         (\<exists>rest. eligible_candidates d = selected d # rest \<and>
            fallback_order d =
              (if explicit_fallback_allowed (constraints p) \<and> mode p \<noteq> Manual
               then rest else []))"
proof -
  note d = select_OkD(3,5,4,8,6) [OF assms]
  have "ordered p x \<noteq> []"
    using d(1) mset_ordered by (metis mset_zero_iff)
  then have "eligible_candidates d = selected d # drop 1 (eligible_candidates d)"
    unfolding d(2,3) by (cases "ordered p x") auto
  then have "\<exists>rest. eligible_candidates d = selected d # rest \<and>
      fallback_order d = (if explicit_fallback_allowed (constraints p) \<and> mode p \<noteq> Manual
         then rest else [])"
    using d(2,4) by metis
  moreover have "map (\<lambda>r. (rejected_candidate r, Some (reason r))) (rejected_candidates d) =
      map (\<lambda>c. (c, rejection_reason p c x))
             (filter (\<lambda>c. rejection_reason p c x \<noteq> None) (candidates p))"
    unfolding d by auto
  ultimately show ?thesis
    unfolding d(2) using mset_ordered [of p x] by (simp add: eligible_def)
qed

text \<open>Two candidates and a profile to evaluate the planner on.\<close>

definition demo_remote :: RoutingCandidate where
  "demo_remote = \<lparr>provider_id = ''cloud'', model_id = ''big'', is_local = False,
     supports_streaming = True, supports_document = True, context_capacity_bytes = 100,
     quality_tier = 3, estimated_latency_ms = None, estimated_cost_micros = None,
     source_locales = [], target_locales = []\<rparr>"

definition demo_local :: RoutingCandidate where
  "demo_local = demo_remote\<lparr>provider_id := ''home'', model_id := ''small'', is_local := True,
     quality_tier := 1\<rparr>"

definition demo_profile :: "RoutingMode \<Rightarrow> bool \<Rightarrow> RoutingProfile" where
  "demo_profile m loc = \<lparr>profile_id = ''p'', mode = m, candidates = [demo_remote, demo_local],
     constraints = RoutingConstraints_default
       \<lparr>local_only := loc, preference := PreferQuality, explicit_fallback_allowed := True\<rparr>\<rparr>"

definition demo_context :: RoutingContext where
  "demo_context = \<lparr>source_locale = None, target_locale = ''fr'', request_bytes = 10,
     require_streaming = False, require_document = False, privacy_sensitive = False\<rparr>"

lemmas demo_defs = demo_remote_def demo_local_def demo_profile_def demo_context_def
  RoutingConstraints_default_def

lemma demo_validate: "RoutingProfile_validate (demo_profile m loc) = Ok ()"
  by (simp add: demo_defs RoutingProfile_validate_def validate_identifier_def
      MAX_ROUTING_IDENTIFIER_BYTES_def MAX_ROUTING_CANDIDATES_def validate_candidates_def
      validate_candidate_def validate_locale_list_def validate_identifier_list_def
      is_identifier_byte_def is_ascii_alphanumeric_def is_ascii_digit_def is_ascii_lowercase_def
      is_ascii_uppercase_def)

lemma demo_not_blank: "\<not> is_blank (target_locale demo_context)"
  by code_simp

lemma demo_reasons:
  "rejection_reason (demo_profile m False) demo_remote demo_context = None"
  "rejection_reason (demo_profile m False) demo_local demo_context = None"
  "rejection_reason (demo_profile m True) demo_remote demo_context = Some RemoteDisallowed"
  "rejection_reason (demo_profile m True) demo_local demo_context = None"
  by (simp_all add: demo_defs rejection_reason_def)

lemma demo_candidates: "candidates (demo_profile m loc) = [demo_remote, demo_local]"
  by (simp add: demo_profile_def)

lemma demo_select: "\<exists>d. RoutingProfile_select (demo_profile m loc) demo_context = Ok d"
  by (cases loc) (auto simp: select_Ok_iff demo_validate demo_not_blank eligible_def
      demo_candidates demo_reasons)

lemma select_partitions_candidates_witness:
  "\<exists>d. RoutingProfile_select (demo_profile Ordered False) demo_context = Ok d \<and>
     mset (eligible_candidates d) = {#demo_remote, demo_local#}"
proof -
  obtain d where d: "RoutingProfile_select (demo_profile Ordered False) demo_context = Ok d"
    using demo_select by blast
  from select_partitions_candidates [OF d] show ?thesis
    by (intro exI [of _ d]) (simp add: d demo_candidates demo_reasons)
qed

section \<open>The constraints as a specification\<close>

text \<open>What the profile's constraints and the request demand of a candidate, one clause each.\<close>

definition admissible :: "RoutingProfile \<Rightarrow> RoutingCandidate \<Rightarrow> RoutingContext \<Rightarrow> bool" where
  "admissible p c x \<longleftrightarrow>
     (let k = constraints p in
      (provider_allowlist k = [] \<or> provider_id c \<in> set (provider_allowlist k)) \<and>
      provider_id c \<notin> set (provider_denylist k) \<and>
      (model_allowlist k = [] \<or> model_id c \<in> set (model_allowlist k)) \<and>
      model_id c \<notin> set (model_denylist k) \<and>
      (is_local c \<or> \<not> local_only k \<and> allow_remote k \<and>
         \<not> (c_privacy_sensitive k \<and> privacy_sensitive x)) \<and>
      (c_require_streaming k \<or> require_streaming x \<longrightarrow> supports_streaming c) \<and>
      (c_require_document k \<or> require_document x \<longrightarrow> supports_document c) \<and>
      request_bytes x \<le> context_capacity_bytes c \<and>
      (\<forall>limit. max_request_bytes k = Some limit \<longrightarrow> request_bytes x \<le> limit) \<and>
      (\<forall>q. minimum_quality_tier k = Some q \<longrightarrow> q \<le> quality_tier c) \<and>
      (\<forall>l. source_locale x = Some l \<longrightarrow> source_locales c = [] \<or>
         (\<exists>m \<in> set (source_locales c). eq_ignore_ascii_case m l)) \<and>
      (target_locales c = [] \<or>
         (\<exists>m \<in> set (target_locales c). eq_ignore_ascii_case m (target_locale x))))"

lemma if_Some_None: "(if b then Some r else y) = None \<longleftrightarrow> \<not> b \<and> y = None"
  by simp

lemma case_option_False: "(case m of None \<Rightarrow> False | Some l \<Rightarrow> P l) \<longleftrightarrow> (\<exists>l. m = Some l \<and> P l)"
  by (cases m) auto

lemma rejection_reason_None: "rejection_reason p c x = None \<longleftrightarrow> admissible p c x"
  unfolding rejection_reason_def admissible_def Let_def if_Some_None case_option_False list_ex_iff
    de_Morgan_conj de_Morgan_disj not_not not_ex not_less
  by (simp only: simp_thms imp_conv_disj conj_assoc disj_assoc) blast

text \<open>
  Whatever the planner selects, lists as eligible or offers as a fallback is a candidate of
  the profile that meets every constraint of the profile and of the request; in particular
  nothing remote is ever offered when the profile is local-only, forbids remote providers, or
  both the profile and the request are privacy-sensitive.
\<close>

lemma select_only_admissible:
  assumes "RoutingProfile_select p x = Ok d"
    and "c \<in> {selected d} \<union> set (eligible_candidates d) \<union> set (fallback_order d)"
  shows "c \<in> set (candidates p) \<and> admissible p c x \<and>
         (local_only (constraints p) \<or> \<not> allow_remote (constraints p) \<or>
          c_privacy_sensitive (constraints p) \<and> privacy_sensitive x \<longrightarrow> is_local c)"
proof -
  note el = select_OkD(5) [OF assms(1)]
  have fb: "set (fallback_order d) \<subseteq> set (ordered p x)"
    unfolding select_OkD(8) [OF assms(1)] by (auto dest: in_set_dropD)
  from assms(2) el fb selected_in_ordered [OF assms(1)] have "c \<in> set (ordered p x)" by auto
  then have "c \<in> set (candidates p)" "rejection_reason p c x = None"
    unfolding set_ordered by (auto simp: eligible_def)
  then show ?thesis
    by (auto simp: rejection_reason_None admissible_def Let_def)
qed

lemma select_only_admissible_witness:
  "\<exists>d. RoutingProfile_select (demo_profile Automatic True) demo_context = Ok d \<and>
     is_local (selected d)"
proof -
  obtain d where d: "RoutingProfile_select (demo_profile Automatic True) demo_context = Ok d"
    using demo_select by blast
  have "local_only (constraints (demo_profile Automatic True))" by (simp add: demo_defs)
  with select_only_admissible [OF d, of "selected d"] d show ?thesis by auto
qed

section \<open>Automatic ranking\<close>

lemma rank_candidates_sorted: "sorted_wrt rank_le (rank_candidates p es)"
  unfolding rank_candidates_def using rank_le_total rank_le_trans by (rule sorted_wrt_sort_by)

lemma set_rank_candidates:
  "set (rank_candidates p es) =
     (\<lambda>c. \<lparr>rank_candidate = c, score_components = candidate_score p c\<rparr>) ` set es"
  by (simp add: rank_candidates_def)

text \<open>
  What each preference asks for, as the documentation of \<open>RoutingPreference\<close> has it, without scores: an
  estimate is better if it is known and the other is not, or both are known and it is smaller
  (estimates from \<open>2 ^ 63 - 1\<close> on count as equal); local before remote decides next.
\<close>

definition better_estimate :: "u64 option \<Rightarrow> u64 option \<Rightarrow> bool" where
  "better_estimate a b \<longleftrightarrow> (case (a, b) of
       (Some u, Some v) \<Rightarrow> u < v \<and> unat u < 2 ^ 63 - 1
     | (Some u, None) \<Rightarrow> True
     | (None, _) \<Rightarrow> False)"

fun preferred :: "RoutingPreference \<Rightarrow> RoutingCandidate \<Rightarrow> RoutingCandidate \<Rightarrow> bool" where
  "preferred PreferLocal a b \<longleftrightarrow> is_local a \<and> \<not> is_local b \<or>
     is_local a = is_local b \<and> quality_tier b < quality_tier a"
| "preferred PreferQuality a b \<longleftrightarrow> quality_tier b < quality_tier a \<or>
     quality_tier a = quality_tier b \<and> is_local a \<and> \<not> is_local b"
| "preferred PreferLatency a b \<longleftrightarrow> better_estimate (estimated_latency_ms a) (estimated_latency_ms b) \<or>
     \<not> better_estimate (estimated_latency_ms b) (estimated_latency_ms a) \<and> is_local a \<and> \<not> is_local b"
| "preferred PreferCost a b \<longleftrightarrow> better_estimate (estimated_cost_micros a) (estimated_cost_micros b) \<or>
     \<not> better_estimate (estimated_cost_micros b) (estimated_cost_micros a) \<and> is_local a \<and> \<not> is_local b"
| "preferred PreferNone a b \<longleftrightarrow> is_local a \<and> \<not> is_local b"

text \<open>Candidate \<open>a\<close> comes before \<open>b\<close>: it is preferred, or neither is and its key is not greater.\<close>

definition ahead :: "RoutingPreference \<Rightarrow> RoutingCandidate \<Rightarrow> RoutingCandidate \<Rightarrow> bool" where
  "ahead pref a b \<longleftrightarrow> preferred pref a b \<or> \<not> preferred pref b a \<and> candidate_key a \<le> candidate_key b"

lemma negated_estimate_Some: "negated_estimate (Some v) = - int (min (unat v) (2 ^ 63 - 1))"
  by (simp add: negated_estimate_def min_def)

lemma negated_estimate_None: "negated_estimate None = - int (2 ^ 63)"
  by (simp add: negated_estimate_def)

lemma negated_min_less:
  fixes m n k :: nat
  shows "- int (min m k) < - int (min n k) \<longleftrightarrow> n < m \<and> n < k" "k < l \<Longrightarrow> - int l < - int (min n k)"
    "k < l \<Longrightarrow> \<not> - int (min n k) < - int l"
  by auto

lemma negated_estimate_less: "negated_estimate a < negated_estimate b \<longleftrightarrow> better_estimate b a"
proof (cases a; cases b)
  fix u v
  assume "a = Some u" "b = Some v"
  then show ?thesis
    by (simp only: negated_estimate_Some negated_min_less better_estimate_def option.case prod.case word_less_nat_alt)
qed (simp_all only: negated_estimate_Some negated_estimate_None negated_min_less better_estimate_def option.case prod.case
  less_irrefl, simp_all)

lemma negated_estimate_eq:
  "negated_estimate a = negated_estimate b \<longleftrightarrow> \<not> better_estimate a b \<and> \<not> better_estimate b a"
  using negated_estimate_less [of a b] negated_estimate_less [of b a] by linarith

lemma score_less: "candidate_score p b < candidate_score p a \<longleftrightarrow> preferred (preference (constraints p)) a b"
  by (cases "preference (constraints p)")
    (auto simp: candidate_score_def bool_i64_def negated_estimate_less negated_estimate_eq word_less_def
      word_uint_eq_iff)

lemma score_eq:
  "candidate_score p a = candidate_score p b \<longleftrightarrow>
     \<not> preferred (preference (constraints p)) a b \<and> \<not> preferred (preference (constraints p)) b a"
  using score_less [of p a b] score_less [of p b a] by (metis linorder_less_linear order_less_irrefl)

lemma rank_le_ahead:
  assumes "score_components l = candidate_score p (rank_candidate l)"
    and "score_components r = candidate_score p (rank_candidate r)"
  shows "rank_le l r \<longleftrightarrow> ahead (preference (constraints p)) (rank_candidate l) (rank_candidate r)"
  by (auto simp: rank_le_def ahead_def assms score_less score_eq)

text \<open>
  C24: In automatic mode under one of the four preferences (local, quality, latency, cost) the eligible
  candidates are exactly the admissible ones and are listed in the order of the preference, ties broken
  by local before remote and quality as the preference has it and then by the key; the selected candidate
  is the first. For profiles without a preference see \<open>no_preference_selects_local\<close>.
\<close>

theorem automatic_selects_best:
  assumes "RoutingProfile_select p x = Ok d" and "mode p = Automatic"
    and "preference (constraints p) \<noteq> PreferNone"
  shows "mset (eligible_candidates d) = mset (filter (\<lambda>c. admissible p c x) (candidates p)) \<and>
    sorted_wrt (ahead (preference (constraints p))) (eligible_candidates d) \<and>
    eligible_candidates d \<noteq> [] \<and> selected d = hd (eligible_candidates d) \<and>
    (\<forall>c \<in> set (candidates p). admissible p c x \<longrightarrow> c = selected d \<or> ahead (preference (constraints p)) (selected d) c)"
proof -
  note d = select_partitions_candidates [OF assms(1)]
  then obtain rest where el: "eligible_candidates d = selected d # rest" by blast
  have ms: "mset (eligible_candidates d) = mset (filter (\<lambda>c. admissible p c x) (candidates p))"
    using d by (simp add: rejection_reason_None)
  have "eligible_candidates d = map rank_candidate (rank_candidates p (eligible p x))"
    using select_OkD(5) [OF assms(1)] assms(2) by (simp add: ordered_def)
  moreover have "sorted_wrt (\<lambda>l r. ahead (preference (constraints p)) (rank_candidate l) (rank_candidate r))
      (rank_candidates p es)" for es
    by (rule sorted_wrt_mono_rel [OF _ rank_candidates_sorted])
      (auto simp: set_rank_candidates rank_le_ahead [of _ p])
  ultimately have sorted: "sorted_wrt (ahead (preference (constraints p))) (eligible_candidates d)"
    by (simp add: sorted_wrt_map)
  have "c = selected d \<or> ahead (preference (constraints p)) (selected d) c"
    if "c \<in> set (candidates p)" "admissible p c x" for c
  proof -
    have "c \<in> set (eligible_candidates d)" using that mset_eq_setD [OF ms] by simp
    with sorted show ?thesis by (auto simp: el)
  qed
  with ms sorted el show ?thesis by simp
qed

theorem automatic_selects_best_witness:
  "\<exists>d. RoutingProfile_select (demo_profile Automatic False) demo_context = Ok d \<and>
     selected d = demo_remote"
proof -
  let ?p = "demo_profile Automatic False"
  have m: "mode ?p = Automatic" "preference (constraints ?p) = PreferQuality" by (simp_all add: demo_defs)
  obtain d where d: "RoutingProfile_select ?p demo_context = Ok d" using demo_select by blast
  have "admissible ?p demo_remote demo_context" "admissible ?p demo_local demo_context"
    by (simp_all add: demo_reasons flip: rejection_reason_None)
  note ad = this
  have "preference (constraints ?p) \<noteq> PreferNone" using m(2) by simp
  note best = automatic_selects_best [OF d m(1) this, unfolded m(2) demo_candidates]
  from best ad have ms: "mset (eligible_candidates d) = {#demo_remote, demo_local#}" by simp
  from best have hd: "eligible_candidates d \<noteq> []" "selected d = hd (eligible_candidates d)" by blast+
  from best ad have first: "demo_remote = selected d \<or> ahead PreferQuality (selected d) demo_remote"
    by (metis list.set_intros(1))
  have "selected d \<in> {demo_remote, demo_local}"
    using hd hd_in_set [OF hd(1)] mset_eq_setD [of "eligible_candidates d" "[demo_remote, demo_local]"] ms by simp
  moreover have "\<not> ahead PreferQuality demo_local demo_remote" by (simp add: ahead_def demo_defs)
  ultimately have "selected d = demo_remote" using first by auto
  with d show ?thesis by blast
qed

text \<open>
  Without a preference local candidates come first, although the comment on \<open>RoutingPreference::None\<close>
  says that the identifiers are the only rule.
\<close>

lemma no_preference_selects_local:
  "preference (constraints p) = PreferNone \<Longrightarrow> is_local a \<Longrightarrow> \<not> is_local b \<Longrightarrow>
     rank_le \<lparr>rank_candidate = a, score_components = candidate_score p a\<rparr>
       \<lparr>rank_candidate = b, score_components = candidate_score p b\<rparr>"
  by (simp add: rank_le_ahead [of _ p] ahead_def)

lemma validate_mset_cong:
  assumes "mset cs = mset (candidates p)"
  shows "RoutingProfile_validate (p\<lparr>candidates := cs\<rparr>) = Ok () \<longleftrightarrow>
         RoutingProfile_validate p = Ok ()"
proof -
  have len: "length cs = length (candidates p)" using assms by (metis size_mset)
  have set: "set cs = set (candidates p)" using assms by (metis set_mset_mset)
  have nil: "cs = [] \<longleftrightarrow> candidates p = []" using len by auto
  have dist: "distinct (map f cs) \<longleftrightarrow> distinct (map f (candidates p))" for f :: "_ \<Rightarrow> string \<times> string"
    using assms by (metis mset_eq_imp_distinct_iff mset_map)
  have "validate_candidates cs = Ok () \<longleftrightarrow> validate_candidates (candidates p) = Ok ()"
    using len set nil dist
    by (auto simp: validate_candidates_def result_iff unique_pairs_Ok)
  then show ?thesis
    by (simp add: RoutingProfile_validate_def and_then_Inr)
qed

lemma rank_candidates_mset_cong:
  assumes "mset es = mset fs" "candidate_score p = candidate_score q"
    and "\<And>c. c \<in> set es \<Longrightarrow> validate_candidate c = Ok ()"
    and "\<And>a b. a \<in> set es \<Longrightarrow> b \<in> set es \<Longrightarrow> same_pair a b \<Longrightarrow> a = b"
  shows "rank_candidates p es = rank_candidates q fs"
  unfolding rank_candidates_def assms(2)
proof (rule sort_by_mset_cong)
  let ?r = "\<lambda>c. \<lparr>rank_candidate = c, score_components = candidate_score q c\<rparr>"
  show "mset (map ?r es) = mset (map ?r fs)" using assms(1) by (metis mset_map)
  fix a b assume ab: "a \<in> set (map ?r es)" "b \<in> set (map ?r es)" "rank_le a b" "rank_le b a"
  then have "candidate_key (rank_candidate a) = candidate_key (rank_candidate b)"
    by (auto simp: rank_le_def)
  with ab(1,2) assms(3) have "same_pair (rank_candidate a) (rank_candidate b)"
    by (intro candidate_key_inj) auto
  with ab(1,2) assms(4) have "rank_candidate a = rank_candidate b" by auto
  with ab(1,2) show "a = b" by auto
qed (use rank_le_total rank_le_trans in blast)+

text \<open>
  Automatic routing is independent of the order in which the candidates are listed: for any
  permutation of them the planner succeeds in the same cases, with the same selected candidate,
  the same eligible candidates in the same order, the same ranking and the same fallback chain.
\<close>

lemma automatic_order_independent:
  assumes "mode p = Automatic" and "mset cs = mset (candidates p)"
    and "RoutingProfile_select p x = Ok d"
  shows "\<exists>d'. RoutingProfile_select (p\<lparr>candidates := cs\<rparr>) x = Ok d' \<and>
           selected d' = selected d \<and> eligible_candidates d' = eligible_candidates d \<and>
           ranking d' = ranking d \<and> fallback_order d' = fallback_order d"
proof -
  let ?q = "p\<lparr>candidates := cs\<rparr>"
  have rr: "rejection_reason ?q c x = rejection_reason p c x" for c
    by (simp add: rejection_reason_def)
  note val = select_OkD(1) [OF assms(3)]
  note vc = validate_candidates_Ok [OF RoutingProfile_validate_Ok [OF val]]
  have me: "mset (eligible p x) = mset (eligible ?q x)"
    using assms(2) by (simp add: eligible_def rr)
  have rk: "rank_candidates p (eligible p x) = rank_candidates ?q (eligible ?q x)"
  proof (rule rank_candidates_mset_cong)
    show "mset (eligible p x) = mset (eligible ?q x)" by (rule me)
    show "candidate_score p = candidate_score ?q" by (simp add: fun_eq_iff candidate_score_def)
    show "validate_candidate c = Ok ()" if "c \<in> set (eligible p x)" for c
      using that vc(3) by (simp add: eligible_def)
    show "a = b" if "a \<in> set (eligible p x)" "b \<in> set (eligible p x)" "same_pair a b" for a b
      using that vc(4) by (auto simp: eligible_def distinct_map inj_on_def)
  qed
  have "ordered ?q x = ordered p x" using rk assms(1) by (simp add: ordered_def)
  moreover have "eligible ?q x \<noteq> []" using me select_OkD(3) [OF assms(3)] by auto
  moreover have "RoutingProfile_validate ?q = Ok ()"
    using validate_mset_cong [OF assms(2)] val by simp
  ultimately show ?thesis
    using select_OkD [OF assms(3)] assms(1) rk by (simp add: select_Ok_iff)
qed

lemma automatic_order_independent_witness:
  "\<exists>d d'. RoutingProfile_select (demo_profile Automatic False) demo_context = Ok d \<and>
     RoutingProfile_select
       (demo_profile Automatic False\<lparr>candidates := [demo_local, demo_remote]\<rparr>) demo_context = Ok d' \<and>
     eligible_candidates d' = eligible_candidates d"
proof -
  obtain d where d: "RoutingProfile_select (demo_profile Automatic False) demo_context = Ok d"
    using demo_select by blast
  have "mset [demo_local, demo_remote] = mset (candidates (demo_profile Automatic False))"
    by (simp add: demo_candidates add_mset_commute)
  from automatic_order_independent [OF _ this d] d show ?thesis
    by (auto simp: demo_profile_def)
qed

section \<open>Refusals and exchange\<close>

text \<open>
  Manual mode does not restrict the choice to the first candidate of the profile: when that
  one is rejected, the planner silently selects a later candidate, exactly as in ordered mode.
\<close>

lemma manual_mode_passes_over_first:
  "\<exists>p x d. mode p = Manual \<and> RoutingProfile_select p x = Ok d \<and>
     rejection_reason p (hd (candidates p)) x = Some RemoteDisallowed \<and>
     selected d = candidates p ! 1"
proof -
  obtain d where d: "RoutingProfile_select (demo_profile Manual True) demo_context = Ok d"
    using demo_select by blast
  then have "selected d = demo_local"
    by (simp add: select_Ok_iff ordered_def eligible_def demo_candidates demo_reasons)
      (simp add: demo_profile_def)
  with d show ?thesis
    by (intro exI [of _ "demo_profile Manual True"] exI [of _ demo_context] exI [of _ d])
      (simp add: demo_candidates demo_reasons, simp add: demo_profile_def)
qed

text \<open>
  A serialised profile reads back unchanged and within the size limit, provided
  \<open>serde_json\<close> parses what it printed into an object with the profile's own fields and decodes
  it to the same profile.
\<close>

lemma routing_profile_exchange:
  assumes "serialize_routing_profile to_string p = Ok contents"
    and "\<And>q s. to_string q = Some s \<Longrightarrow>
           \<exists>v. from_str s = Some v \<and> validate_exchange_fields v = Ok () \<and> from_value v = Some q"
  shows "deserialize_routing_profile from_str from_value contents = Ok p \<and>
         length contents \<le> 65536"
proof -
  from assms(1) have "to_string p = Some contents" "RoutingProfile_validate p = Ok ()"
      "length contents \<le> MAX_ROUTING_PROFILE_JSON_BYTES"
    by (auto simp: serialize_routing_profile_def result_iff split: if_splits)
  with assms(2) show ?thesis
    by (fastforce simp: deserialize_routing_profile_def MAX_ROUTING_PROFILE_JSON_BYTES_def)
qed

text \<open>A printer and a parser for the profiles of the witness.\<close>

definition demo_json :: json where
  "demo_json = JObject [(''id'', JString ''p''), (''candidates'', JArray [])]"

lemma routing_profile_exchange_witness:
  "deserialize_routing_profile (\<lambda>s. if s = ''{}'' then Some demo_json else None)
     (\<lambda>v. Some (demo_profile Ordered False)) ''{}'' = Ok (demo_profile Ordered False)"
proof -
  let ?ts = "\<lambda>q. if q = demo_profile Ordered False then Some ''{}'' else None"
  have "serialize_routing_profile ?ts (demo_profile Ordered False) = Ok ''{}''"
    by (simp add: serialize_routing_profile_def demo_validate MAX_ROUTING_PROFILE_JSON_BYTES_def)
  moreover have "validate_exchange_fields demo_json = Ok ()"
    by (simp add: validate_exchange_fields_def demo_json_def ensure_fields_def profile_fields_def)
  ultimately show ?thesis
    by (intro conjunct1 [OF routing_profile_exchange [where to_string = ?ts]])
      (auto split: if_splits)
qed

end
