(* ===== verification/Tbx.thy ===== *)
theory Tbx
  imports Glossary
begin

text \<open>
  \<open>crates/linguamesh-domain/src/lib.rs\<close>, \<open>Glossary::from_tbx\<close> and its helpers: the import of
  glossary rules from a TBX (XML) file. The XML reader is the crate \<open>quick-xml\<close>: the list of
  the events it reads, and its \<open>unescape\<close> function, are arguments. The import itself is a state
  machine over the events; one definition per event handler.
\<close>

section \<open>Events and state\<close>

definition MAX_GLOSSARY_TBX_BYTES :: nat where
  "MAX_GLOSSARY_TBX_BYTES = MAX_GLOSSARY_CSV_BYTES"

text \<open>
  An attribute as the reader's iterator yields it: an error, or the local name of its key with
  its decoded value, which is missing when decoding fails.
\<close>

datatype XmlAttribute = BadAttribute | Attribute string "string option"

text \<open>Events before the end of the input; element names are local names.\<close>

datatype XmlEvent =
    XStart string "XmlAttribute list"
  | XEmpty string
  | XText string
  | XCData string
  | XGeneralRef string
  | XEnd string
  | XComment
  | XDecl
  | XPI
  | XDocType
  | XError

record TbxLangSet =
  locale_of :: "string option"
  terms :: "string list"

record TbxEntry =
  lang_sets :: "TbxLangSet list"
  tbx_note :: "string option"

text \<open>
  The last two are not errors of the source: \<open>TbxPanic\<close> stands for the panic of \<open>lang_sets[index]\<close>
  with an index out of range, \<open>TbxUnderflow\<close> for a \<open>-= 1\<close> on a counter (an unsigned number) that is 0.
\<close>

datatype GlossaryTbxError =
    TbxTooLarge
  | TbxMalformed
  | MissingTerms
  | TbxTooManyEntries
  | TbxInvalidEntry GlossaryError
  | TbxGlossary GlossaryError
  | TbxPanic
  | TbxUnderflow

definition tbx_decrement :: "nat \<Rightarrow> GlossaryTbxError + nat" where
  "tbx_decrement n = (if n = 0 then Err TbxUnderflow else Ok (n - 1))"

lemma tbx_decrement_positive [simp]: "n > 0 \<Longrightarrow> tbx_decrement n = Ok (n - 1)"
  by (simp add: tbx_decrement_def)

record TbxState =
  depth :: nat
  root_seen :: bool
  root_closed :: bool
  entry :: "TbxEntry option"
  current_lang :: "nat option"
  current_term :: "string option"
  current_note :: "string option"
  note_depth :: nat
  imported :: "GlossaryEntry list"

definition tbx_initial :: TbxState where
  "tbx_initial = \<lparr>depth = 0, root_seen = False, root_closed = False, entry = None,
     current_lang = None, current_term = None, current_note = None, note_depth = 0,
     imported = []\<rparr>"

section \<open>Handlers\<close>

fun tbx_attribute :: "XmlAttribute list \<Rightarrow> string \<Rightarrow> GlossaryTbxError + string option" where
  "tbx_attribute [] name = Ok None"
| "tbx_attribute (BadAttribute # as) name = Err TbxMalformed"
| "tbx_attribute (Attribute key v # as) name =
     (if key = name
      then (case v of None \<Rightarrow> Err TbxMalformed | Some t \<Rightarrow> Ok (Some (trim t)))
      else tbx_attribute as name)"

definition append_tbx_text :: "string \<Rightarrow> TbxState \<Rightarrow> GlossaryTbxError + TbxState" where
  "append_tbx_text t s =
     (case current_term s of
        Some term \<Rightarrow> Ok (s\<lparr>current_term := Some (term @ t)\<rparr>)
      | None \<Rightarrow>
         (if note_depth s > 0 then
            (case current_note s of None \<Rightarrow> Err TbxMalformed
             | Some n \<Rightarrow> Ok (s\<lparr>current_note := Some (n @ t)\<rparr>))
          else Ok s))"

text \<open>The rule of one target term, and the two loops over the target language sets.\<close>

definition tbx_rule ::
  "TbxEntry \<Rightarrow> TbxLangSet \<Rightarrow> string \<Rightarrow> TbxLangSet \<Rightarrow> string \<Rightarrow> GlossaryTbxError + GlossaryEntry" where
  "tbx_rule e source sterm target tterm =
     and_then (map_err TbxInvalidEntry (GlossaryEntry_new sterm tterm)) (\<lambda>r.
     let r1 = (case locale_of source of None \<Rightarrow> r | Some l \<Rightarrow> r\<lparr>entry_source_locale := Some l\<rparr>);
         r2 = (case locale_of target of None \<Rightarrow> r1 | Some l \<Rightarrow> r1\<lparr>entry_target_locale := Some l\<rparr>);
         r3 = (case tbx_note e of None \<Rightarrow> r2
               | Some n \<Rightarrow> if is_blank n then r2 else r2\<lparr>entry_notes := Some (trim n)\<rparr>)
     in Ok r3)"

fun append_target_terms ::
  "TbxEntry \<Rightarrow> TbxLangSet \<Rightarrow> string \<Rightarrow> TbxLangSet \<Rightarrow> string list \<Rightarrow> GlossaryEntry list \<Rightarrow>
     GlossaryTbxError + GlossaryEntry list" where
  "append_target_terms e source sterm target [] out = Ok out"
| "append_target_terms e source sterm target (t # ts) out =
     (if length out \<ge> MAX_GLOSSARY_ENTRIES then Err TbxTooManyEntries
      else and_then (tbx_rule e source sterm target t) (\<lambda>r.
           append_target_terms e source sterm target ts (out @ [r])))"

fun append_targets ::
  "TbxEntry \<Rightarrow> TbxLangSet \<Rightarrow> string \<Rightarrow> TbxLangSet list \<Rightarrow> GlossaryEntry list \<Rightarrow>
     GlossaryTbxError + GlossaryEntry list" where
  "append_targets e source sterm [] out = Ok out"
| "append_targets e source sterm (target # targets) out =
     (if terms target = [] then Err MissingTerms
      else and_then (append_target_terms e source sterm target (terms target) out)
             (append_targets e source sterm targets))"

definition append_tbx_entries ::
  "GlossaryEntry list \<Rightarrow> TbxEntry \<Rightarrow> GlossaryTbxError + GlossaryEntry list" where
  "append_tbx_entries out e =
     (case lang_sets e of [] \<Rightarrow> Err MissingTerms
      | source # targets \<Rightarrow>
         (case terms source of [] \<Rightarrow> Err MissingTerms
          | sterm # _ \<Rightarrow>
             (if targets = [] then Err MissingTerms
              else append_targets e source sterm targets out)))"

definition tbx_open :: "TbxState \<Rightarrow> GlossaryTbxError + TbxState" where
  "tbx_open s =
     (let s' = s\<lparr>depth := depth s + 1\<rparr> in
      if depth s' = 1 then
        (if root_seen s then Err TbxMalformed else Ok (s'\<lparr>root_seen := True\<rparr>))
      else if root_closed s then Err TbxMalformed
      else Ok s')"

definition tbx_start_named ::
  "string \<Rightarrow> XmlAttribute list \<Rightarrow> TbxState \<Rightarrow> GlossaryTbxError + TbxState" where
  "tbx_start_named name attrs s =
     (if name = ''termEntry'' then
        (if entry s \<noteq> None then Err TbxMalformed
         else Ok (s\<lparr>entry := Some \<lparr>lang_sets = [], tbx_note = None\<rparr>\<rparr>))
      else if name = ''langSet'' then
        (case entry s of None \<Rightarrow> Err TbxMalformed
         | Some e \<Rightarrow>
            and_then (tbx_attribute attrs ''lang'') (\<lambda>l.
            Ok (s\<lparr>entry := Some (e\<lparr>lang_sets := lang_sets e @ [\<lparr>locale_of = l, terms = []\<rparr>]\<rparr>),
                  current_lang := Some (length (lang_sets e))\<rparr>)))
      else if name = ''term'' then
        (if current_lang s = None \<or> current_term s \<noteq> None then Err TbxMalformed
         else Ok (s\<lparr>current_term := Some []\<rparr>))
      else if name = ''descrip'' then
        (if entry s = None \<or> current_term s \<noteq> None \<or> note_depth s > 0 then Err TbxMalformed
         else Ok (s\<lparr>current_note := Some [], note_depth := 1\<rparr>))
      else if note_depth s > 0 then Ok (s\<lparr>note_depth := note_depth s + 1\<rparr>)
      else Ok s)"

definition tbx_end_named :: "string \<Rightarrow> TbxState \<Rightarrow> GlossaryTbxError + TbxState" where
  "tbx_end_named name s =
     (if name = ''term'' then
        (case current_term s of None \<Rightarrow> Err TbxMalformed
         | Some t \<Rightarrow>
            if is_blank t then Err TbxMalformed
            else (case (current_lang s, entry s) of
                (None, _) \<Rightarrow> Err TbxMalformed
              | (Some i, None) \<Rightarrow> Err TbxMalformed
              | (Some i, Some e) \<Rightarrow>
                  if i < length (lang_sets e)
                  then let ls = lang_sets e ! i in
                       Ok (s\<lparr>current_term := None,
                             entry := Some (e\<lparr>lang_sets :=
                               (lang_sets e)[i := ls\<lparr>terms := terms ls @ [trim t]\<rparr>]\<rparr>)\<rparr>)
                  else Err TbxPanic))
      else if name = ''langSet'' then Ok (s\<lparr>current_lang := None\<rparr>)
      else if name = ''descrip'' \<and> note_depth s > 0 then
        and_then (tbx_decrement (note_depth s)) (\<lambda>n.
         if n = 0 then
           (case entry s of None \<Rightarrow> Err TbxMalformed
            | Some e \<Rightarrow> Ok (s\<lparr>note_depth := n, entry := Some (e\<lparr>tbx_note := current_note s\<rparr>),
                              current_note := None\<rparr>))
         else Ok (s\<lparr>note_depth := n\<rparr>))
      else if name = ''termEntry'' then
        (if current_term s \<noteq> None \<or> note_depth s > 0 then Err TbxMalformed
         else (case entry s of None \<Rightarrow> Err TbxMalformed
            | Some e \<Rightarrow> and_then (append_tbx_entries (imported s) e) (\<lambda>out.
                Ok (s\<lparr>entry := None, imported := out\<rparr>))))
      else if note_depth s > 0 then
        and_then (tbx_decrement (note_depth s)) (\<lambda>n. Ok (s\<lparr>note_depth := n\<rparr>))
      else Ok s)"

definition tbx_close :: "TbxState \<Rightarrow> GlossaryTbxError + TbxState" where
  "tbx_close s = and_then (tbx_decrement (depth s)) (\<lambda>n.
     Ok (if n = 0 then s\<lparr>depth := n, root_closed := True\<rparr> else s\<lparr>depth := n\<rparr>))"

fun tbx_step ::
  "(string \<Rightarrow> string option) \<Rightarrow> XmlEvent \<Rightarrow> TbxState \<Rightarrow> GlossaryTbxError + TbxState" where
  "tbx_step unescape (XStart name attrs) s = and_then (tbx_open s) (tbx_start_named name attrs)"
| "tbx_step unescape (XEmpty name) s =
     (if name = ''term'' \<or> name = ''langSet'' \<or> name = ''termEntry'' then Err TbxMalformed
      else Ok s)"
| "tbx_step unescape (XText t) s =
     and_then (ok_or TbxMalformed (from_utf8 t)) (\<lambda>d.
     and_then (ok_or TbxMalformed (unescape d)) (\<lambda>d. append_tbx_text d s))"
| "tbx_step unescape (XCData t) s =
     and_then (ok_or TbxMalformed (from_utf8 t)) (\<lambda>d. append_tbx_text d s)"
| "tbx_step unescape (XGeneralRef t) s =
     and_then (ok_or TbxMalformed (from_utf8 t)) (\<lambda>d.
     and_then (ok_or TbxMalformed (unescape (''&'' @ d @ '';''))) (\<lambda>d. append_tbx_text d s))"
| "tbx_step unescape (XEnd name) s =
     (if depth s = 0 then Err TbxMalformed
      else and_then (tbx_end_named name s) tbx_close)"
| "tbx_step unescape XComment s = Ok s"
| "tbx_step unescape XDecl s = Ok s"
| "tbx_step unescape XPI s = Ok s"
| "tbx_step unescape XDocType s = Err TbxMalformed"
| "tbx_step unescape XError s = Err TbxMalformed"

fun tbx_run ::
  "(string \<Rightarrow> string option) \<Rightarrow> XmlEvent list \<Rightarrow> TbxState \<Rightarrow> GlossaryTbxError + TbxState" where
  "tbx_run unescape [] s = Ok s"
| "tbx_run unescape (ev # evs) s = and_then (tbx_step unescape ev s) (tbx_run unescape evs)"

definition tbx_finish :: "TbxState \<Rightarrow> GlossaryTbxError + Glossary" where
  "tbx_finish s =
     (if \<not> root_seen s \<or> \<not> root_closed s \<or> depth s \<noteq> 0 \<or> entry s \<noteq> None \<or> current_term s \<noteq> None
      then Err TbxMalformed
      else if imported s = [] then Err MissingTerms
      else map_err TbxGlossary (Glossary_new (imported s)))"

definition from_tbx ::
  "(string \<Rightarrow> XmlEvent list) \<Rightarrow> (string \<Rightarrow> string option) \<Rightarrow> string \<Rightarrow>
     GlossaryTbxError + Glossary" where
  "from_tbx reader unescape source =
     (if length source > MAX_GLOSSARY_TBX_BYTES then Err TbxTooLarge
      else and_then (tbx_run unescape (reader source) tbx_initial) tbx_finish)"

section \<open>The index of the current language set\<close>

text \<open>
  The reader checks that every end tag closes the innermost open element. \<open>nested evs st\<close>:
  the events \<open>evs\<close> are nested properly when the elements \<open>st\<close> are open, innermost first.
\<close>

fun nested :: "XmlEvent list \<Rightarrow> string list \<Rightarrow> bool" where
  "nested [] st \<longleftrightarrow> True"
| "nested (XStart name attrs # evs) st \<longleftrightarrow> nested evs (name # st)"
| "nested (XEnd name # evs) st \<longleftrightarrow> (case st of [] \<Rightarrow> False | n # st' \<Rightarrow> n = name \<and> nested evs st')"
| "nested (_ # evs) st \<longleftrightarrow> nested evs st"

definition tbx_inv :: "string list \<Rightarrow> TbxState \<Rightarrow> bool" where
  "tbx_inv st s \<longleftrightarrow>
     count_list st ''termEntry'' = (if entry s = None then 0 else 1) \<and>
     (\<forall>i. current_lang s = Some i \<longrightarrow>
        ''langSet'' \<in> set (takeWhile (\<lambda>n. n \<noteq> ''termEntry'') st) \<and>
        (\<exists>e. entry s = Some e \<and> i < length (lang_sets e)))"

lemma tbx_inv_same:
  assumes "tbx_inv st s" "entry s' = entry s" "current_lang s' = current_lang s"
  shows "tbx_inv st s'"
  using assms by (simp add: tbx_inv_def)

lemma append_tbx_text_frame:
  assumes "append_tbx_text t s = r"
  shows "r \<noteq> Err TbxPanic"
    "r = Ok s' \<Longrightarrow> entry s' = entry s \<and> current_lang s' = current_lang s"
  using assms by (auto simp: append_tbx_text_def split: option.splits if_splits)

lemma append_target_terms_no_panic:
  "append_target_terms e source sterm target ts out \<noteq> Err TbxPanic"
proof (induction ts arbitrary: out)
  case Nil
  then show ?case by simp
next
  case (Cons t ts)
  have "tbx_rule e source sterm target t \<noteq> Err TbxPanic"
    by (cases "GlossaryEntry_new sterm t") (simp_all add: tbx_rule_def Let_def)
  with Cons show ?case by (cases "tbx_rule e source sterm target t") auto
qed

lemma append_tbx_entries_no_panic: "append_tbx_entries out e \<noteq> Err TbxPanic"
proof -
  have "append_targets e source sterm targets o1 \<noteq> Err TbxPanic" for source sterm targets o1
  proof (induction targets arbitrary: o1)
    case Nil
    then show ?case by simp
  next
    case (Cons t ts)
    then show ?case
      using append_target_terms_no_panic [of e source sterm t "terms t" o1]
      by (cases "append_target_terms e source sterm t (terms t) o1") auto
  qed
  then show ?thesis by (auto simp: append_tbx_entries_def split: list.splits)
qed

lemma tbx_attribute_no_panic: "tbx_attribute attrs name \<noteq> Err TbxPanic"
  by (induction attrs name rule: tbx_attribute.induct) (auto split: option.splits)

lemma tbx_start_named_inv:
  assumes inv: "tbx_inv st s"
  shows "tbx_start_named name attrs s \<noteq> Err TbxPanic"
    "tbx_start_named name attrs s = Ok s1 \<Longrightarrow> tbx_inv (name # st) s1"
proof -
  consider "name = ''term''" | "name = ''langSet''" | "name = ''termEntry''"
    | "name = ''descrip''" | "name \<notin> {''term'', ''langSet'', ''termEntry'', ''descrip''}" by blast
  then have "tbx_start_named name attrs s \<noteq> Err TbxPanic \<and>
      (tbx_start_named name attrs s = Ok s1 \<longrightarrow> tbx_inv (name # st) s1)"
  proof cases
    case 1
    with inv show ?thesis by (auto simp: tbx_start_named_def tbx_inv_def)
  next
    case 2
    with inv tbx_attribute_no_panic [of attrs "''lang''"] show ?thesis
      by (cases "tbx_attribute attrs ''lang''"; cases "entry s")
        (auto simp: tbx_start_named_def tbx_inv_def)
  next
    case 3
    with inv show ?thesis by (cases "entry s") (auto simp: tbx_start_named_def tbx_inv_def)
  next
    case 4
    with inv show ?thesis by (auto simp: tbx_start_named_def tbx_inv_def)
  next
    case 5
    with inv show ?thesis by (auto simp: tbx_start_named_def tbx_inv_def)
  qed
  then show "tbx_start_named name attrs s \<noteq> Err TbxPanic"
    "tbx_start_named name attrs s = Ok s1 \<Longrightarrow> tbx_inv (name # st) s1" by blast+
qed

lemma tbx_open_cases:
  obtains "tbx_open s = Err TbxMalformed"
  | s1 where "tbx_open s = Ok s1" "entry s1 = entry s" "current_lang s1 = current_lang s"
  by (cases "tbx_open s") (auto simp: tbx_open_def Let_def split: if_splits)

lemma tbx_start_inv:
  assumes "tbx_inv st s" "tbx_step unescape (XStart name attrs) s = r"
  shows "r \<noteq> Err TbxPanic" "r = Ok s' \<Longrightarrow> tbx_inv (name # st) s'"
proof -
  have "r \<noteq> Err TbxPanic \<and> (r = Ok s' \<longrightarrow> tbx_inv (name # st) s')"
  proof (cases s rule: tbx_open_cases)
    case 1
    with assms(2) show ?thesis by auto
  next
    case (2 s1)
    then have "tbx_inv st s1" using tbx_inv_same [OF assms(1)] by simp
    from tbx_start_named_inv [OF this] 2(1) assms(2) show ?thesis by auto
  qed
  then show "r \<noteq> Err TbxPanic" "r = Ok s' \<Longrightarrow> tbx_inv (name # st) s'" by blast+
qed

lemma tbx_end_named_inv:
  assumes inv: "tbx_inv (name # st) s"
  shows "tbx_end_named name s \<noteq> Err TbxPanic"
    "tbx_end_named name s = Ok s1 \<Longrightarrow> tbx_inv st s1"
proof -
  consider "name = ''term''" | "name = ''langSet''" | "name = ''termEntry''" | "name = ''descrip''"
    | "name \<notin> {''term'', ''langSet'', ''termEntry'', ''descrip''}" by blast
  then have "tbx_end_named name s \<noteq> Err TbxPanic \<and>
      (tbx_end_named name s = Ok s1 \<longrightarrow> tbx_inv st s1)"
  proof cases
    case 1
    with inv show ?thesis
      by (auto simp: tbx_end_named_def tbx_inv_def Let_def split: option.splits if_splits)
  next
    case 2
    with inv show ?thesis by (auto simp: tbx_end_named_def tbx_inv_def)
  next
    case 3
    with inv append_tbx_entries_no_panic show ?thesis
      by (auto simp: tbx_end_named_def tbx_inv_def and_then_def split: option.splits sum.splits if_splits)
  next
    case 4
    with inv show ?thesis
      by (auto simp: tbx_end_named_def tbx_inv_def Let_def split: option.splits if_splits)
  next
    case 5
    with inv show ?thesis by (auto simp: tbx_end_named_def tbx_inv_def split: if_splits)
  qed
  then show "tbx_end_named name s \<noteq> Err TbxPanic"
    "tbx_end_named name s = Ok s1 \<Longrightarrow> tbx_inv st s1" by blast+
qed

lemma tbx_end_inv:
  assumes "tbx_inv (name # st) s" "tbx_step unescape (XEnd name) s = r"
  shows "r \<noteq> Err TbxPanic" "r = Ok s' \<Longrightarrow> tbx_inv st s'"
proof -
  have "tbx_inv st s1 \<Longrightarrow> tbx_close s1 = Ok s2 \<Longrightarrow> tbx_inv st s2" for s1 s2
    by (erule tbx_inv_same) (auto simp: tbx_close_def and_then_Inr split: if_splits)
  moreover have "tbx_close s1 \<noteq> Err TbxPanic" for s1
    by (simp add: tbx_close_def tbx_decrement_def)
  ultimately show "r \<noteq> Err TbxPanic" "r = Ok s' \<Longrightarrow> tbx_inv st s'"
    using tbx_end_named_inv [OF assms(1)] assms(2)
    by (cases "tbx_end_named name s"; auto split: if_splits)+
qed

lemma tbx_run_no_panic:
  "tbx_inv st s \<Longrightarrow> nested evs st \<Longrightarrow> tbx_run unescape evs s \<noteq> Err TbxPanic"
proof (induction evs st arbitrary: s rule: nested.induct)
  case (1 st)
  then show ?case by simp
next
  case (2 name attrs evs st)
  then show ?case
    using tbx_start_inv [OF "2.prems"(1) refl]
    by (cases "tbx_step unescape (XStart name attrs) s") auto
next
  case (3 name evs st)
  then obtain st' where st: "st = name # st'" "nested evs st'" by (cases st) auto
  with 3 show ?case
    using tbx_end_inv [OF "3.prems"(1) [unfolded st(1)] refl]
    by (cases "tbx_step unescape (XEnd name) s") auto
qed (auto simp: and_then_def ok_or_def append_tbx_text_frame tbx_inv_same
      split: sum.splits option.splits dest: append_tbx_text_frame)

text \<open>
  No counter goes below 0, whatever the reader returns: an end tag is handled only at a depth above
  0, no case of it changes the depth, and the counter of nested notes is decreased only above 0.
\<close>

lemma append_target_terms_no_underflow:
  "append_target_terms e source sterm target ts out \<noteq> Err TbxUnderflow"
proof (induction ts arbitrary: out)
  case (Cons t ts)
  have "tbx_rule e source sterm target t \<noteq> Err TbxUnderflow"
    by (cases "GlossaryEntry_new sterm t") (simp_all add: tbx_rule_def Let_def)
  with Cons show ?case by (cases "tbx_rule e source sterm target t") auto
qed simp

lemma append_tbx_entries_no_underflow: "append_tbx_entries out e \<noteq> Err TbxUnderflow"
proof -
  have "append_targets e source sterm targets o1 \<noteq> Err TbxUnderflow" for source sterm targets o1
  proof (induction targets arbitrary: o1)
    case (Cons t ts)
    then show ?case
      using append_target_terms_no_underflow [of e source sterm t "terms t" o1]
      by (cases "append_target_terms e source sterm t (terms t) o1") auto
  qed simp
  then show ?thesis by (auto simp: append_tbx_entries_def split: list.splits)
qed

lemma tbx_end_named_depth:
  "tbx_end_named name s \<noteq> Err TbxUnderflow" "tbx_end_named name s = Ok s1 \<Longrightarrow> depth s1 = depth s"
  using append_tbx_entries_no_underflow [of "imported s"]
  by (auto simp: tbx_end_named_def tbx_decrement_def Let_def and_then_def
    split: option.splits if_splits sum.splits)

lemma tbx_attribute_no_underflow: "tbx_attribute attrs name \<noteq> Err TbxUnderflow"
  by (induction attrs name rule: tbx_attribute.induct) (auto split: option.splits)

lemma tbx_step_no_underflow: "tbx_step unescape ev s \<noteq> Err TbxUnderflow"
proof (cases ev)
  case (XStart name attrs)
  have "tbx_start_named name attrs s1 \<noteq> Err TbxUnderflow" for s1
    using tbx_attribute_no_underflow [of attrs "''lang''"]
    by (auto simp: tbx_start_named_def and_then_def split: option.splits sum.splits)
  with XStart show ?thesis by (cases s rule: tbx_open_cases) simp_all
next
  case (XEnd name)
  then show ?thesis
    using tbx_end_named_depth [of name s]
    by (cases "tbx_end_named name s") (simp_all add: tbx_close_def tbx_decrement_def)
qed (auto simp: append_tbx_text_def and_then_def ok_or_def split: sum.splits option.splits)

lemma tbx_run_no_underflow: "tbx_run unescape evs s \<noteq> Err TbxUnderflow"
proof (induction evs arbitrary: s)
  case (Cons ev evs)
  with tbx_step_no_underflow [of unescape ev s] show ?case by (cases "tbx_step unescape ev s") simp_all
qed simp

text \<open>
  C26: No counter of the import underflows, whatever events the XML reader returns, and if its end
  tags match its start tags the import never indexes a language set that does not exist: it
  ends with a glossary or with one of its own errors, and does not panic.
\<close>

theorem from_tbx_never_panics:
  "from_tbx reader unescape source \<noteq> Err TbxUnderflow \<and>
   (nested (reader source) [] \<longrightarrow> from_tbx reader unescape source \<noteq> Err TbxPanic)"
proof -
  have "tbx_inv [] tbx_initial" by (simp add: tbx_inv_def tbx_initial_def)
  note no_panic = tbx_run_no_panic [OF this, of "reader source" unescape]
  have "tbx_finish s \<noteq> Err TbxPanic" "tbx_finish s \<noteq> Err TbxUnderflow" for s
    by (cases "Glossary_new (imported s)"; auto simp: tbx_finish_def)+
  then show ?thesis
    using no_panic tbx_run_no_underflow [of unescape "reader source" tbx_initial]
    by (cases "tbx_run unescape (reader source) tbx_initial") (auto simp: from_tbx_def)
qed

definition demo_nested :: "XmlEvent list" where
  "demo_nested = [XStart ''martif'' [], XStart ''termEntry'' [], XStart ''langSet'' [],
      XStart ''term'' [], XText ''a'', XEnd ''term'', XEnd ''langSet'', XEnd ''termEntry'']"

theorem from_tbx_never_panics_witness:
  "nested demo_nested [] \<and> from_tbx (\<lambda>_. demo_nested) Some ''x'' \<noteq> Err TbxPanic"
  using from_tbx_never_panics [of "\<lambda>_. demo_nested" Some "''x''"] by (simp add: demo_nested_def)

section \<open>What is imported\<close>

text \<open>
  The events of a TBX document that lists term entries: for each entry its notes, then its
  language sets with their terms.
\<close>

record tbx_source =
  src_notes :: "string list"
  src_langs :: "(string option \<times> string list) list"

definition term_events :: "string \<Rightarrow> XmlEvent list" where
  "term_events t = [XStart ''term'' [], XText t, XEnd ''term'']"

definition lang_events :: "string option \<times> string list \<Rightarrow> XmlEvent list" where
  "lang_events l =
     [XStart ''langSet'' (case fst l of None \<Rightarrow> [] | Some v \<Rightarrow> [Attribute ''lang'' (Some v)])] @
     concat (map term_events (snd l)) @ [XEnd ''langSet'']"

definition note_events :: "string \<Rightarrow> XmlEvent list" where
  "note_events n = [XStart ''descrip'' [], XText n, XEnd ''descrip'']"

definition entry_events :: "tbx_source \<Rightarrow> XmlEvent list" where
  "entry_events d =
     [XStart ''termEntry'' []] @ concat (map note_events (src_notes d)) @
     concat (map lang_events (src_langs d)) @ [XEnd ''termEntry'']"

definition document_events :: "tbx_source list \<Rightarrow> XmlEvent list" where
  "document_events ds = [XStart ''martif'' []] @ concat (map entry_events ds) @ [XEnd ''martif'']"

text \<open>The entry that the importer builds: terms and locales trimmed, the last note.\<close>

definition built_lang :: "string option \<times> string list \<Rightarrow> TbxLangSet" where
  "built_lang l = \<lparr>locale_of = map_option trim (fst l), terms = map trim (snd l)\<rparr>"

definition built_entry :: "tbx_source \<Rightarrow> TbxEntry" where
  "built_entry d =
     \<lparr>lang_sets = map built_lang (src_langs d),
      tbx_note = (if src_notes d = [] then None else Some (last (src_notes d)))\<rparr>"

fun append_all ::
  "TbxEntry list \<Rightarrow> GlossaryEntry list \<Rightarrow> GlossaryTbxError + GlossaryEntry list" where
  "append_all [] out = Ok out"
| "append_all (e # es) out = and_then (append_tbx_entries out e) (append_all es)"

text \<open>Text that the reader passes on as it is.\<close>

definition plain_text :: "(string \<Rightarrow> string option) \<Rightarrow> string \<Rightarrow> bool" where
  "plain_text unescape t \<longleftrightarrow> from_utf8 t = Some t \<and> unescape t = Some t"

definition plain_source :: "(string \<Rightarrow> string option) \<Rightarrow> tbx_source \<Rightarrow> bool" where
  "plain_source unescape d \<longleftrightarrow>
     (\<forall>n \<in> set (src_notes d). plain_text unescape n) \<and>
     (\<forall>l \<in> set (src_langs d). \<forall>t \<in> set (snd l). plain_text unescape t \<and> \<not> is_blank t)"

definition in_entry :: "TbxEntry \<Rightarrow> nat option \<Rightarrow> GlossaryEntry list \<Rightarrow> TbxState" where
  "in_entry e l out = \<lparr>depth = (if l = None then 2 else 3), root_seen = True,
     root_closed = False, entry = Some e, current_lang = l, current_term = None,
     current_note = None, note_depth = 0, imported = out\<rparr>"

definition between_entries :: "GlossaryEntry list \<Rightarrow> TbxState" where
  "between_entries out = \<lparr>depth = 1, root_seen = True, root_closed = False, entry = None,
     current_lang = None, current_term = None, current_note = None, note_depth = 0,
     imported = out\<rparr>"

lemmas tbx_defs = in_entry_def tbx_open_def tbx_start_named_def tbx_end_named_def tbx_close_def
  append_tbx_text_def Let_def

lemma tbx_run_append:
  "tbx_run unescape (xs @ ys) s = and_then (tbx_run unescape xs s) (tbx_run unescape ys)"
proof (induction xs arbitrary: s)
  case Nil
  then show ?case by simp
next
  case (Cons x xs)
  then show ?case by (cases "tbx_step unescape x s") auto
qed

lemma tbx_run_Nil: "tbx_run unescape [] = Ok"
  by (rule ext) simp

lemma run_term:
  assumes "plain_text unescape t" "\<not> is_blank t"
  shows "tbx_run unescape (term_events t)
       (in_entry \<lparr>lang_sets = pre @ [\<lparr>locale_of = l, terms = ts\<rparr>], tbx_note = n\<rparr> (Some (length pre)) out) =
     Ok (in_entry \<lparr>lang_sets = pre @ [\<lparr>locale_of = l, terms = ts @ [trim t]\<rparr>], tbx_note = n\<rparr>
           (Some (length pre)) out)"
  using assms by (simp add: term_events_def plain_text_def tbx_defs)

lemma run_terms:
  assumes "\<And>t. t \<in> set ts \<Longrightarrow> plain_text unescape t \<and> \<not> is_blank t"
  shows "tbx_run unescape (concat (map term_events ts))
       (in_entry \<lparr>lang_sets = pre @ [\<lparr>locale_of = l, terms = us\<rparr>], tbx_note = n\<rparr> (Some (length pre)) out) =
     Ok (in_entry \<lparr>lang_sets = pre @ [\<lparr>locale_of = l, terms = us @ map trim ts\<rparr>], tbx_note = n\<rparr>
           (Some (length pre)) out)"
  using assms
proof (induction ts arbitrary: us)
  case Nil
  then show ?case by simp
next
  case (Cons t ts)
  then show ?case by (simp add: tbx_run_append run_term)
qed

lemma run_lang:
  assumes "\<And>t. t \<in> set (snd l) \<Longrightarrow> plain_text unescape t \<and> \<not> is_blank t"
  shows "tbx_run unescape (lang_events l) (in_entry \<lparr>lang_sets = pre, tbx_note = n\<rparr> None out) =
     Ok (in_entry \<lparr>lang_sets = pre @ [built_lang l], tbx_note = n\<rparr> None out)"
proof -
  let ?s = "in_entry \<lparr>lang_sets = pre @ [\<lparr>locale_of = map_option trim (fst l), terms = []\<rparr>],
                      tbx_note = n\<rparr> (Some (length pre)) out"
  have "tbx_step unescape
      (XStart ''langSet'' (case fst l of None \<Rightarrow> [] | Some v \<Rightarrow> [Attribute ''lang'' (Some v)]))
      (in_entry \<lparr>lang_sets = pre, tbx_note = n\<rparr> None out) = Ok ?s"
    by (cases "fst l") (simp_all add: tbx_defs)
  moreover have "tbx_step unescape (XEnd ''langSet'')
      (in_entry \<lparr>lang_sets = pre @ [\<lparr>locale_of = map_option trim (fst l), terms = map trim (snd l)\<rparr>],
                 tbx_note = n\<rparr> (Some (length pre)) out) =
      Ok (in_entry \<lparr>lang_sets = pre @ [built_lang l], tbx_note = n\<rparr> None out)"
    by (simp add: tbx_defs built_lang_def)
  ultimately show ?thesis
    using assms by (simp add: lang_events_def tbx_run_append run_terms)
qed

lemma run_langs:
  assumes "\<forall>l \<in> set ls. \<forall>t \<in> set (snd l). plain_text unescape t \<and> \<not> is_blank t"
  shows "tbx_run unescape (concat (map lang_events ls)) (in_entry \<lparr>lang_sets = pre, tbx_note = n\<rparr> None out) =
     Ok (in_entry \<lparr>lang_sets = pre @ map built_lang ls, tbx_note = n\<rparr> None out)"
  using assms
proof (induction ls arbitrary: pre)
  case Nil
  then show ?case by simp
next
  case (Cons l ls)
  have "tbx_run unescape (lang_events l) (in_entry \<lparr>lang_sets = pre, tbx_note = n\<rparr> None out) =
     Ok (in_entry \<lparr>lang_sets = pre @ [built_lang l], tbx_note = n\<rparr> None out)"
    using Cons.prems by (intro run_lang) simp
  with Cons show ?case by (simp add: tbx_run_append)
qed

lemma run_notes:
  assumes "\<And>n. n \<in> set ns \<Longrightarrow> plain_text unescape n"
  shows "tbx_run unescape (concat (map note_events ns)) (in_entry \<lparr>lang_sets = ls, tbx_note = n\<rparr> None out) =
     Ok (in_entry \<lparr>lang_sets = ls, tbx_note = (if ns = [] then n else Some (last ns))\<rparr> None out)"
  using assms
proof (induction ns arbitrary: n)
  case Nil
  then show ?case by simp
next
  case (Cons m ns)
  have "tbx_run unescape (note_events m) (in_entry \<lparr>lang_sets = ls, tbx_note = n\<rparr> None out) =
      Ok (in_entry \<lparr>lang_sets = ls, tbx_note = Some m\<rparr> None out)"
    using Cons.prems [of m] by (simp add: note_events_def plain_text_def tbx_defs)
  with Cons show ?case by (simp add: tbx_run_append)
qed

lemma run_entry:
  assumes "plain_source unescape d"
  shows "tbx_run unescape (entry_events d) (between_entries out) =
     and_then (append_tbx_entries out (built_entry d)) (\<lambda>w. Ok (between_entries w))"
proof -
  have "tbx_step unescape (XStart ''termEntry'' []) (between_entries out) =
      Ok (in_entry \<lparr>lang_sets = [], tbx_note = None\<rparr> None out)"
    by (simp add: tbx_defs between_entries_def)
  moreover have "tbx_step unescape (XEnd ''termEntry'') (in_entry e None out) =
      and_then (append_tbx_entries out e) (\<lambda>w. Ok (between_entries w))" for e
    by (cases "append_tbx_entries out e") (simp_all add: tbx_defs between_entries_def)
  ultimately show ?thesis
    using assms
    by (simp add: entry_events_def tbx_run_append plain_source_def run_notes run_langs
        built_entry_def tbx_run_Nil and_then_assoc del: tbx_step.simps)
qed

lemma run_entries:
  assumes "\<And>d. d \<in> set ds \<Longrightarrow> plain_source unescape d"
  shows "tbx_run unescape (concat (map entry_events ds)) (between_entries out) =
     and_then (append_all (map built_entry ds) out) (\<lambda>w. Ok (between_entries w))"
  using assms
proof (induction ds arbitrary: out)
  case Nil
  then show ?case by simp
next
  case (Cons d ds)
  then show ?case
    by (cases "append_tbx_entries out (built_entry d)") (simp_all add: tbx_run_append run_entry)
qed

text \<open>The run over a whole document, by entries.\<close>

lemma from_tbx_runs_entries:
  assumes "reader source = document_events ds" and "length source \<le> 4 * 1024 * 1024"
    and "\<forall>d \<in> set ds. plain_source unescape d"
  shows "from_tbx reader unescape source =
     and_then (append_all (map built_entry ds) []) (\<lambda>rules.
       if rules = [] then Err MissingTerms else map_err TbxGlossary (Glossary_new rules))"
proof -
  have "tbx_step unescape (XStart ''martif'' []) tbx_initial = Ok (between_entries [])"
    by (simp add: tbx_initial_def between_entries_def tbx_open_def tbx_start_named_def)
  moreover have "and_then (tbx_step unescape (XEnd ''martif'') (between_entries w)) tbx_finish =
      (if w = [] then Err MissingTerms else map_err TbxGlossary (Glossary_new w))" for w
    by (simp add: between_entries_def tbx_end_named_def tbx_close_def tbx_finish_def)
  ultimately show ?thesis
    using assms
    by (cases "append_all (map built_entry ds) []")
      (simp_all add: from_tbx_def MAX_GLOSSARY_TBX_BYTES_def glossary_limits document_events_def
        tbx_run_append run_entries tbx_run_Nil and_then_assoc del: tbx_step.simps)
qed

text \<open>
  What an entry with at most one note should give: a rule from the first term of the first language
  to each term of each other language, in the order of the document.
\<close>

definition expected_rule ::
  "string list \<Rightarrow> string option \<Rightarrow> string \<Rightarrow> string option \<Rightarrow> string \<Rightarrow> GlossaryEntry" where
  "expected_rule notes sloc s tloc t =
     \<lparr>source_term = trim s, target_term = trim t,
      entry_source_locale = map_option trim sloc, entry_target_locale = map_option trim tloc,
      case_sensitive = True, whole_word = True, immutable = False, entry_domain = None, priority = 0,
      entry_notes = (case notes of [n] \<Rightarrow> if is_blank n then None else Some (trim n) | _ \<Rightarrow> None),
      enabled = True\<rparr>"

definition expected_rules :: "tbx_source \<Rightarrow> GlossaryEntry list" where
  "expected_rules d = (case src_langs d of
       (sloc, s # _) # targets \<Rightarrow>
         concat (map (\<lambda>(tloc, ts). map (expected_rule (src_notes d) sloc s tloc) ts) targets)
     | _ \<Rightarrow> [])"

definition complete_source :: "tbx_source \<Rightarrow> bool" where
  "complete_source d \<longleftrightarrow> length (src_langs d) \<ge> 2 \<and> (\<forall>l \<in> set (src_langs d). snd l \<noteq> [])"

definition terms_ok :: "GlossaryEntry \<Rightarrow> bool" where
  "terms_ok r \<longleftrightarrow>
     validate_glossary_text (source_term r) MAX_GLOSSARY_TERM_BYTES ''source term'' = Ok () \<and>
     validate_glossary_text (target_term r) MAX_GLOSSARY_TERM_BYTES ''target term'' = Ok ()"

lemma tbx_rule_expected:
  assumes "length (src_notes d) \<le> 1"
  shows "tbx_rule (built_entry d) (built_lang (sloc, ss)) (trim s) (built_lang (tloc, ts)) (trim t) = Ok r \<longleftrightarrow>
    terms_ok (expected_rule (src_notes d) sloc s tloc t) \<and> r = expected_rule (src_notes d) sloc s tloc t"
proof -
  from assms consider "src_notes d = []" | n where "src_notes d = [n]"
    by (cases "src_notes d") auto
  then show ?thesis
    by cases (auto simp: tbx_rule_def result_iff GlossaryEntry_new_def GlossaryEntry_validate_def Let_def
      validate_optional_def terms_ok_def expected_rule_def built_entry_def built_lang_def split: option.splits)
qed

lemma append_target_terms_expected:
  assumes "length (src_notes d) \<le> 1" "length out \<le> MAX_GLOSSARY_ENTRIES"
  shows "append_target_terms (built_entry d) (built_lang (sloc, ss)) (trim s) (built_lang (tloc, us)) (map trim ts) out = Ok w \<longleftrightarrow>
    list_all terms_ok (map (expected_rule (src_notes d) sloc s tloc) ts) \<and>
    length out + length ts \<le> MAX_GLOSSARY_ENTRIES \<and> w = out @ map (expected_rule (src_notes d) sloc s tloc) ts"
  using assms(2)
proof (induction ts arbitrary: out)
  case (Cons t ts)
  have "append_target_terms (built_entry d) (built_lang (sloc, ss)) (trim s) (built_lang (tloc, us)) (map trim (t # ts)) out = Ok w \<longleftrightarrow>
      length out < MAX_GLOSSARY_ENTRIES \<and> terms_ok (expected_rule (src_notes d) sloc s tloc t) \<and>
      append_target_terms (built_entry d) (built_lang (sloc, ss)) (trim s) (built_lang (tloc, us)) (map trim ts)
        (out @ [expected_rule (src_notes d) sloc s tloc t]) = Ok w"
    by (auto simp: and_then_Inr tbx_rule_expected [OF assms(1)])
  with Cons.IH [of "out @ [expected_rule (src_notes d) sloc s tloc t]"] show ?case by auto
qed auto

lemma append_targets_expected:
  assumes "length (src_notes d) \<le> 1" "length out \<le> MAX_GLOSSARY_ENTRIES"
  shows "append_targets (built_entry d) (built_lang (sloc, ss)) (trim s) (map built_lang ls) out = Ok w \<longleftrightarrow>
    (\<forall>l \<in> set ls. snd l \<noteq> []) \<and>
    (let rs = concat (map (\<lambda>(tloc, ts). map (expected_rule (src_notes d) sloc s tloc) ts) ls) in
     list_all terms_ok rs \<and> length out + length rs \<le> MAX_GLOSSARY_ENTRIES \<and> w = out @ rs)"
  using assms(2)
proof (induction ls arbitrary: out)
  case (Cons l ls)
  obtain tloc ts where l: "l = (tloc, ts)" by (cases l)
  let ?r = "expected_rule (src_notes d) sloc s tloc"
  have "append_targets (built_entry d) (built_lang (sloc, ss)) (trim s) (map built_lang (l # ls)) out = Ok w \<longleftrightarrow>
      ts \<noteq> [] \<and> list_all terms_ok (map ?r ts) \<and> length out + length ts \<le> MAX_GLOSSARY_ENTRIES \<and>
      append_targets (built_entry d) (built_lang (sloc, ss)) (trim s) (map built_lang ls) (out @ map ?r ts) = Ok w"
    using append_target_terms_expected [OF assms(1) Cons.prems, of sloc ss s tloc ts ts]
    by (auto simp: l and_then_Inr built_lang_def)
  with Cons.IH [of "out @ map ?r ts"] show ?case by (auto simp: l Let_def)
qed auto

lemma append_entry_expected:
  assumes "length (src_notes d) \<le> 1" "length out \<le> MAX_GLOSSARY_ENTRIES"
  shows "append_tbx_entries out (built_entry d) = Ok w \<longleftrightarrow>
    complete_source d \<and> list_all terms_ok (expected_rules d) \<and>
    length out + length (expected_rules d) \<le> MAX_GLOSSARY_ENTRIES \<and> w = out @ expected_rules d"
proof (cases "src_langs d")
  case Nil
  then show ?thesis by (simp add: append_tbx_entries_def built_entry_def complete_source_def)
next
  case (Cons l targets)
  obtain sloc ss where l: "l = (sloc, ss)" by (cases l)
  show ?thesis
  proof (cases ss)
    case Nil
    with Cons l show ?thesis by (simp add: append_tbx_entries_def built_entry_def built_lang_def complete_source_def)
  next
    case (Cons s ss')
    with append_targets_expected [OF assms, of sloc ss s targets w] \<open>src_langs d = l # targets\<close> l show ?thesis
      by (auto simp: append_tbx_entries_def built_entry_def built_lang_def complete_source_def expected_rules_def
        Let_def Suc_le_eq)
  qed
qed

lemma append_all_expected:
  assumes "\<forall>d \<in> set ds. length (src_notes d) \<le> 1" "length out \<le> MAX_GLOSSARY_ENTRIES"
  shows "append_all (map built_entry ds) out = Ok w \<longleftrightarrow>
    list_all complete_source ds \<and> list_all terms_ok (concat (map expected_rules ds)) \<and>
    length out + length (concat (map expected_rules ds)) \<le> MAX_GLOSSARY_ENTRIES \<and>
    w = out @ concat (map expected_rules ds)"
  using assms
proof (induction ds arbitrary: out)
  case (Cons d ds)
  have "append_all (map built_entry (d # ds)) out = Ok w \<longleftrightarrow>
      complete_source d \<and> list_all terms_ok (expected_rules d) \<and>
      length out + length (expected_rules d) \<le> MAX_GLOSSARY_ENTRIES \<and>
      append_all (map built_entry ds) (out @ expected_rules d) = Ok w"
    using append_entry_expected [of d out] Cons.prems by (auto simp: and_then_Inr)
  with Cons.IH [of "out @ expected_rules d"] Cons.prems(1) show ?case by auto
qed auto

lemma expected_rules_not_empty: "complete_source d \<Longrightarrow> expected_rules d \<noteq> []"
  by (cases "src_langs d"; cases "tl (src_langs d)")
    (auto simp: complete_source_def expected_rules_def split: list.splits)

lemma valid_terms: "GlossaryEntry_validate r = Ok () \<Longrightarrow> terms_ok r"
  by (simp add: GlossaryEntry_validate_OkD(1,2) terms_ok_def)


definition demo_tbx :: "tbx_source list" where
  "demo_tbx = [\<lparr>src_notes = [''mine ''],
      src_langs = [(Some ''en'', [''mesh'']), (Some ''de'', ['' Netz '']), (Some ''fr'', [''maillage''])]\<rparr>]"

definition demo_tbx_rule :: "string \<Rightarrow> string \<Rightarrow> GlossaryEntry" where
  "demo_tbx_rule l t = \<lparr>source_term = ''mesh'', target_term = t,
     entry_source_locale = Some ''en'', entry_target_locale = Some l, case_sensitive = True,
     whole_word = True, immutable = False, entry_domain = None, priority = 0,
     entry_notes = Some ''mine'', enabled = True\<rparr>"


text \<open>
  An entry with several notes gets the last one; the README says that the first one is imported.
\<close>

lemma last_note_wins:
  "append_tbx_entries [] (built_entry \<lparr>src_notes = [''first'', ''last''],
      src_langs = [(Some ''en'', [''mesh'']), (Some ''de'', [''Netz''])]\<rparr>) =
    Ok [(demo_tbx_rule ''de'' ''Netz'')\<lparr>entry_notes := Some ''last''\<rparr>]"
  by code_simp

text \<open>
  Two terms of one language after the first give two rules that contradict each other, so such an
  entry is always refused, with the error about conflicting rules.
\<close>

lemma synonyms_conflict:
  "t \<noteq> u \<Longrightarrow> Glossary_validate \<lparr>entries = [demo_tbx_rule l t, demo_tbx_rule l u]\<rparr> \<noteq> Ok ()"
  by (auto dest!: Glossary_validate_OkD(3) simp: demo_tbx_rule_def conflicts_def)

end
