(* ===== verification/Scanners.thy ===== *)
theory Scanners
  imports Protected_Text
begin

text \<open>
  What the scanners promise. Rust panics when a string is sliced inside a character; every
  fragment that a scanner reports has to begin and end at character boundaries. The locale
  \<open>scanner\<close> states this contract, every scanner of the source is an instance of it, and the
  candidates that are selected for protection are then disjoint whole-character fragments.
\<close>

section \<open>Character boundaries\<close>

lemma boundary_of_split:
  assumes "\<forall>c \<in> set (as @ bs). valid_char c"
  shows "is_char_boundary (concat (as @ bs)) (length (concat as))"
proof (cases bs)
  case Nil
  then show ?thesis by (simp add: is_char_boundary_def)
next
  case (Cons c cs)
  with assms obtain b r where "c = b # r" "\<not> is_continuation b"
    by (cases c) (auto simp: valid_char_def)
  with Cons show ?thesis by (simp add: is_char_boundary_def nth_append)
qed

lemma char_indicesE:
  assumes "valid_str s" "(i, c) \<in> set (char_indices s)"
  obtains as bs where "chars s = as @ c # bs" "s = concat as @ c @ concat bs" "i = length (concat as)"
    "\<forall>d \<in> set (as @ c # bs). valid_char d"
proof -
  from char_indices_from_mem [OF assms(2) [unfolded char_indices_def]] obtain as bs where
    ab: "chars s = as @ c # bs" "i = length (concat as)" by auto
  then have "s = concat as @ c @ concat bs" using concat_chars [of s] by simp
  with ab assms(1) show thesis by (intro that [of as bs]) (auto simp: valid_str_def list_all_iff)
qed

lemma char_index_boundary:
  assumes "valid_str s" "(i, c) \<in> set (char_indices s)"
  shows "is_char_boundary s i" "i < length s" "prefix c (drop i s)"
proof -
  obtain as bs where ab: "s = concat as @ c @ concat bs" "i = length (concat as)"
    "\<forall>d \<in> set (as @ c # bs). valid_char d" using assms by (elim char_indicesE)
  have "c \<noteq> []" using ab(3) valid_char_length [of c] by auto
  with ab boundary_of_split [of as "c # bs"] show "is_char_boundary s i" "i < length s" "prefix c (drop i s)"
    by auto
qed

lemma ascii_boundary:
  assumes "valid_str s" "i < length s" "byte (s ! i) < 128"
  shows "is_char_boundary s i" "is_char_boundary s (Suc i)"
proof -
  show bi: "is_char_boundary s i"
    using assms(2,3) by (simp add: is_char_boundary_def is_continuation_def)
  obtain cs where cs: "s = concat cs" "\<forall>c \<in> set cs. valid_char c" using assms(1) by (elim valid_strE)
  with boundary_split [OF cs(2), of i] bi assms(2) obtain as bs where
    ab: "cs = as @ bs" "i = length (concat as)" by auto
  with cs assms(2) obtain c ds where d: "bs = c # ds" by (cases bs) auto
  with ab cs have c: "valid_char c" by simp
  then obtain b r where br: "c = b # r" by (cases c) (auto simp: valid_char_def)
  have "s ! i = b" using cs(1) ab d br by (simp add: nth_append)
  with assms(3) c br have "r = []" by (auto simp: valid_char_def char_width_def)
  with boundary_of_split [of "as @ [c]" ds] cs ab d br show "is_char_boundary s (Suc i)" by simp
qed

lemma prefix_nth: "prefix p (drop i s) \<Longrightarrow> k < length p \<Longrightarrow> i \<le> length s \<Longrightarrow> s ! (i + k) = p ! k \<and> i + k < length s"
  using prefix_length_le [of p "drop i s"] by (auto simp: prefix_def simp flip: nth_drop) (simp add: nth_append)

text \<open>An ASCII pattern found at \<open>i\<close> begins and ends at boundaries.\<close>

lemma ascii_pattern_boundary:
  assumes v: "valid_str s" and p: "prefix p (drop i s)" and a: "list_all (\<lambda>b. byte b < 128) p" "p \<noteq> []"
  shows "is_char_boundary s i \<and> is_char_boundary s (i + length p) \<and> i + length p \<le> length s"
proof -
  have i: "i < length s" using p a(2) by (cases "i < length s") auto
  have n: "s ! (i + k) = p ! k" "i + k < length s" if "k < length p" for k
    using prefix_nth [OF p that] i by auto
  have "byte (s ! (i + 0)) < 128" using n [of 0] a by (cases p) auto
  then have "is_char_boundary s i" using ascii_boundary [OF v i] by simp
  moreover obtain k where k: "length p = Suc k" using a(2) by (cases "length p") auto
  then have "byte (s ! (i + k)) < 128" using n(1) [of k] a(1) by (simp add: list_all_length)
  then have "is_char_boundary s (Suc (i + k))" using ascii_boundary(2) [OF v n(2) [of k]] k by simp
  ultimately show ?thesis using k n(2) [of k] by simp
qed

section \<open>The contract\<close>

locale scanner =
  fixes scan :: "string \<Rightarrow> (nat \<times> nat) list"
  assumes bounds: "valid_str s \<Longrightarrow> (i, j) \<in> set (scan s) \<Longrightarrow>
    i \<le> j \<and> j \<le> length s \<and> is_char_boundary s i \<and> is_char_boundary s j"
begin

lemma slice_defined: "valid_str s \<Longrightarrow> (i, j) \<in> set (scan s) \<Longrightarrow> str_get s i j = Some (slice s i j)"
  using bounds by (auto simp: str_get_def)

end

lemma scanner_append: "scanner f \<Longrightarrow> scanner g \<Longrightarrow> scanner (\<lambda>s. f s @ g s)"
  unfolding scanner_def by auto

lemma fenced_loop_mem:
  "(i, j) \<in> set (fenced_loop s cursor) \<Longrightarrow>
     \<exists>q. prefix fence (drop i s) \<and> i + 3 \<le> q \<and> prefix fence (drop q s) \<and> j = q + 3"
proof (induction s cursor rule: fenced_loop.induct)
  case (1 s cursor)
  show ?case
  proof (cases "str_find fence (drop cursor s)")
    case None
    with "1.prems" show ?thesis by (simp add: fenced_loop.simps [of s cursor])
  next
    case o: (Some r)
    show ?thesis
    proof (cases "str_find fence (drop (cursor + r + 3) s)")
      case None
      with o "1.prems" show ?thesis by (simp add: fenced_loop.simps [of s cursor])
    next
      case c: (Some q)
      with o "1.prems" consider "i = cursor + r" "j = cursor + r + 3 + q + 3"
        | "(i, j) \<in> set (fenced_loop s (cursor + r + 3 + q + 3))"
        by (auto simp: fenced_loop.simps [of s cursor] Let_def)
      then show ?thesis
      proof cases
        case 1
        with str_find_SomeD [OF o] str_find_SomeD [OF c] show ?thesis
          by (intro exI [of _ "cursor + r + 3 + q"]) (auto simp: add.commute add.left_commute)
      next
        case 2
        with "1.IH" [OF o refl c refl] show ?thesis by simp
      qed
    qed
  qed
qed

interpretation fenced: scanner collect_fenced_code_candidates
proof
  fix s i j
  assume v: "valid_str s" and m: "(i, j) \<in> set (collect_fenced_code_candidates s)"
  then obtain q where q: "prefix fence (drop i s)" "i + 3 \<le> q" "prefix fence (drop q s)" "j = q + 3"
    using fenced_loop_mem [of i j s 0] by (auto simp: collect_fenced_code_candidates_def)
  have "list_all (\<lambda>b. byte b < 128) fence" by simp
  from ascii_pattern_boundary [OF v q(1) this] ascii_pattern_boundary [OF v q(3) this] q
  show "i \<le> j \<and> j \<le> length s \<and> is_char_boundary s i \<and> is_char_boundary s j"
    by (simp add: numeral_3_eq_3)
qed

lemma inline_loop_mem:
  "(i, j) \<in> set (inline_loop s cursor) \<Longrightarrow>
     \<exists>q. prefix tick (drop i s) \<and> i + 1 \<le> q \<and> prefix tick (drop q s) \<and> j = q + 1"
proof (induction s cursor rule: inline_loop.induct)
  case (1 s cursor)
  show ?case
  proof (cases "str_find tick (drop cursor s)")
    case None
    with "1.prems" show ?thesis by (simp add: inline_loop.simps [of s cursor])
  next
    case o: (Some r)
    show ?thesis
    proof (cases "prefix fence (drop (cursor + r) s)")
      case True
      with o "1.prems" have "(i, j) \<in> set (inline_loop s (cursor + r + 3))"
        by (simp add: inline_loop.simps [of s cursor] Let_def)
      with "1.IH"(1) [OF o refl True] show ?thesis by blast
    next
      case nf: False
      show ?thesis
      proof (cases "str_find tick (drop (cursor + r + 1) s)")
        case None
        with o nf "1.prems" show ?thesis by (simp add: inline_loop.simps [of s cursor] Let_def)
      next
        case c: (Some q)
        with o nf "1.prems" consider "i = cursor + r" "j = cursor + r + 1 + q + 1"
          | "(i, j) \<in> set (inline_loop s (cursor + r + 1 + q + 1))"
          by (auto simp: inline_loop.simps [of s cursor] Let_def)
        then show ?thesis
        proof cases
          case 1
          with str_find_SomeD [OF o] str_find_SomeD [OF c] show ?thesis
            by (intro exI [of _ "cursor + r + 1 + q"]) (auto simp: add.commute add.left_commute)
        next
          case 2
          with "1.IH"(2) [OF o refl nf c refl] show ?thesis by simp
        qed
      qed
    qed
  qed
qed

interpretation inline: scanner collect_inline_code_candidates
proof
  fix s i j
  assume v: "valid_str s" and m: "(i, j) \<in> set (collect_inline_code_candidates s)"
  then obtain q where q: "prefix tick (drop i s)" "i + 1 \<le> q" "prefix tick (drop q s)" "j = q + 1"
    using inline_loop_mem [of i j s 0] by (auto simp: collect_inline_code_candidates_def)
  have "list_all (\<lambda>b. byte b < 128) tick" by simp
  from ascii_pattern_boundary [OF v q(1) this] ascii_pattern_boundary [OF v q(3) this] q
  show "i \<le> j \<and> j \<le> length s \<and> is_char_boundary s i \<and> is_char_boundary s j" by simp
qed

lemma placeholder_percent_end_Some:
  assumes "placeholder_percent_end r = Some n"
  shows "\<exists>k. n = Suc k \<and> k < length r \<and> byte (r ! k) < 128"
proof -
  consider "length r > 1" "r ! 1 \<in> set ''sduif%@''" "n = 2"
    | close where "str_find '')s'' r = Some close" "n = close + 2"
    using assms by (auto simp: placeholder_percent_end_def split: if_splits option.splits)
  then show ?thesis
  proof cases
    case 1
    then show ?thesis by (intro exI [of _ 1]) auto
  next
    case 2
    with str_find_SomeD [OF 2(1)] prefix_nth [of "'')s''" close r 1] show ?thesis
      by (intro exI [of _ "close + 1"]) auto
  qed
qed

lemma placeholder_end_Some:
  assumes "placeholder_end (drop i s) i c = Some j" "i \<le> length s"
  shows "\<exists>k. j = Suc k \<and> i \<le> k \<and> k < length s \<and> byte (s ! k) < 128"
proof -
  have found: "\<exists>k. i + q + n = Suc k \<and> i \<le> k \<and> k < length s \<and> byte (s ! k) < 128"
    if "str_find p (drop i s) = Some q" "p = ''}}'' \<and> n = 2 \<or> p = ''}'' \<and> n = 1" for p q n
  proof -
    have "prefix p (drop (i + q) s)" "i + q \<le> length s"
      using str_find_SomeD [OF that(1)] assms(2) by (auto simp: add.commute)
    then show ?thesis
      using that(2) prefix_nth [of p "i + q" s "n - 1"] by (intro exI [of _ "i + q + n - 1"]) auto
  qed
  consider p q n where "str_find p (drop i s) = Some q" "p = ''}}'' \<and> n = 2 \<or> p = ''}'' \<and> n = 1"
      "j = i + q + n"
    | n where "placeholder_percent_end (drop i s) = Some n" "j = i + n"
    using assms(1) by (auto simp: placeholder_end_def split: if_splits option.splits)
  then show ?thesis
  proof cases
    case 1
    with found show ?thesis by blast
  next
    case 2
    with placeholder_percent_end_Some [OF 2(1)] show ?thesis by force
  qed
qed

interpretation placeholder: scanner collect_placeholder_candidates
proof
  fix s i j
  assume v: "valid_str s" and "(i, j) \<in> set (collect_placeholder_candidates s)"
  then obtain c where c: "(i, c) \<in> set (char_indices s)" "placeholder_end (drop i s) i c = Some j"
    by (auto simp: collect_placeholder_candidates_def split: option.splits)
  note b = char_index_boundary [OF v c(1)]
  from placeholder_end_Some [OF c(2)] b(2) obtain k where
    "j = Suc k" "i \<le> k" "k < length s" "byte (s ! k) < 128" by auto
  with b(1) ascii_boundary(2) [OF v]
  show "i \<le> j \<and> j \<le> length s \<and> is_char_boundary s i \<and> is_char_boundary s j" by auto
qed

lemma rev_dropWhile_rev_prefix: "\<exists>t. xs = rev (dropWhile P (rev xs)) @ t"
  by (metis rev_append rev_rev_ident takeWhile_dropWhile_id)

interpretation url: scanner collect_url_candidates
proof
  fix s i j
  assume v: "valid_str s" and "(i, j) \<in> set (collect_url_candidates s)"
  then obtain c where c: "(i, c) \<in> set (char_indices s)" "j = url_end (drop i s) i"
    by (auto simp: collect_url_candidates_def Let_def split: if_splits)
  obtain as bs where ab: "s = concat as @ c @ concat bs" "i = length (concat as)"
    "\<forall>d \<in> set (as @ c # bs). valid_char d" using v c(1) by (elim char_indicesE)
  then have rest: "chars (drop i s) = c # bs"
    using chars_concat_valid [of "c # bs"] by auto
  obtain kept tl where k: "c # bs = kept @ tl" "j = i + length (concat kept)"
    using c(2) rest rev_dropWhile_rev_prefix [of "takeWhile (\<lambda>c. \<not> url_stop c) (c # bs)" url_trailing]
      takeWhile_dropWhile_id [of "\<lambda>c. \<not> url_stop c" "c # bs"]
    unfolding url_end_def Let_def by (metis append.assoc)
  have "s = concat ((as @ kept) @ tl)" using ab(1) k(1) by (metis append.assoc concat.simps(2) concat_append)
  moreover have "\<forall>d \<in> set ((as @ kept) @ tl). valid_char d" using ab(3) k(1) by auto
  ultimately have "is_char_boundary s j" "j \<le> length s"
    using boundary_of_split [of "as @ kept" tl] ab(2) k(2) by auto
  with k(2) char_index_boundary [OF v c(1)]
  show "i \<le> j \<and> j \<le> length s \<and> is_char_boundary s i \<and> is_char_boundary s j" by simp
qed

lemma email_ascii: "email_left b \<or> email_right b \<Longrightarrow> byte b < 128"
  using ascii_alphanumeric_lt_128 by (auto simp: email_left_def email_right_def)

lemma takeWhile_last_index:
  "takeWhile P xs \<noteq> [] \<Longrightarrow> P (xs ! (length (takeWhile P xs) - 1))"
  by (metis diff_less last_conv_nth last_in_set length_greater_0_conv set_takeWhileD takeWhile_nth
      zero_less_one)

lemma rev_take_nth: "0 < n \<Longrightarrow> n \<le> k \<Longrightarrow> k \<le> length s \<Longrightarrow> rev (take k s) ! (n - 1) = s ! (k - n)"
  by (subst rev_nth) auto

interpretation email: scanner collect_email_candidates
proof
  fix s i j
  assume v: "valid_str s" and "(i, j) \<in> set (collect_email_candidates s)"
  then obtain at where at: "(at, ''@'') \<in> set (char_indices s)"
    "i = at - length (takeWhile email_left (rev (take at s)))" "i < at"
    "CHR ''.'' \<in> set (takeWhile email_right (drop (at + 1) s))"
    "j = at + 1 + length (takeWhile email_right (drop (at + 1) s))"
    by (auto simp: collect_email_candidates_def Let_def split: if_splits)
  note b = char_index_boundary [OF v at(1)]
  let ?l = "takeWhile email_left (rev (take at s))" and ?r = "takeWhile email_right (drop (at + 1) s)"
  have l: "0 < length ?l" "length ?l \<le> at"
    using at(2,3) length_takeWhile_le [of email_left "rev (take at s)"] b(2) by auto
  then have "email_left (rev (take at s) ! (length ?l - 1))" using takeWhile_last_index by force
  moreover have "rev (take at s) ! (length ?l - 1) = s ! i"
    unfolding at(2) by (rule rev_take_nth [OF l]) (use b(2) in simp)
  ultimately have bi: "is_char_boundary s i"
    using ascii_boundary(1) [OF v, of i] email_ascii at(3) b(2) by simp
  have ne: "?r \<noteq> []" using at(4) by auto
  have len: "length ?r \<le> length s - (at + 1)"
    using length_takeWhile_le [of email_right "drop (at + 1) s"] by simp
  have "0 < length ?r" using ne by simp
  then have "at + length ?r < length s" using len by linarith
  moreover have "email_right (s ! (at + length ?r))"
  proof -
    obtain n where n: "length ?r = Suc n" using \<open>0 < length ?r\<close> by (cases "length ?r") auto
    have "email_right (drop (at + 1) s ! n)" using takeWhile_last_index [OF ne] n by simp
    then show ?thesis using n len by simp
  qed
  ultimately have "is_char_boundary s (Suc (at + length ?r))"
    using ascii_boundary(2) [OF v] email_ascii by blast
  with bi at(3,5) \<open>at + length ?r < length s\<close>
  show "i \<le> j \<and> j \<le> length s \<and> is_char_boundary s i \<and> is_char_boundary s j" by simp
qed

text \<open>All automatic scanners together.\<close>

definition collect_automatic :: "string \<Rightarrow> (nat \<times> nat) list" where
  "collect_automatic s =
     collect_fenced_code_candidates s @ collect_inline_code_candidates s @
     collect_placeholder_candidates s @ collect_url_candidates s @ collect_email_candidates s"

interpretation automatic: scanner collect_automatic
  unfolding collect_automatic_def
  by (intro scanner_append fenced.scanner_axioms inline.scanner_axioms placeholder.scanner_axioms
      url.scanner_axioms email.scanner_axioms)

section \<open>The selection\<close>

definition whole_fragment :: "string \<Rightarrow> ProtectedCandidate \<Rightarrow> bool" where
  "whole_fragment s c \<longleftrightarrow> cand_end c \<le> length s \<and>
     is_char_boundary s (cand_start c) \<and> is_char_boundary s (cand_end c)"

lemma automatic_whole:
  assumes "valid_str s" "c \<in> set (automatic_candidates s)"
  shows "whole_fragment s c"
proof -
  from assms(2) obtain i j where "(i, j) \<in> set (collect_automatic s)" "cand_start c = i" "cand_end c = j"
    unfolding automatic_candidates_def collect_automatic_def [symmetric] by auto
  with automatic.bounds [OF assms(1)] show ?thesis by (simp add: whole_fragment_def)
qed

lemma glossary_whole:
  "c \<in> set (collect_glossary_candidates is_alphanumeric s sl t g) \<Longrightarrow> whole_fragment s c"
  by (auto simp: collect_glossary_candidates_def entry_candidates_def Let_def str_get_def
      whole_fragment_def split: if_splits option.splits)

lemma select_candidates_sub: "set (select_candidates cs e) \<subseteq> set cs"
  by (induction cs arbitrary: e) auto

lemma select_candidates_disjoint:
  "sorted_wrt (\<lambda>a b. cand_end a \<le> cand_start b) (select_candidates cs e) \<and>
   (\<forall>c \<in> set (select_candidates cs e). e \<le> cand_start c \<and> cand_start c < cand_end c)"
proof (induction cs arbitrary: e)
  case Nil
  then show ?case by simp
next
  case (Cons c cs)
  from Cons [of "cand_end c"] Cons [of e] show ?case by force
qed

text \<open>
  Slicing never panics: for every source text, the fragments selected for protection (code,
  placeholders, URLs, addresses and glossary terms) are non-empty, lie inside the text, follow
  each other without overlap, and begin and end between two characters.
\<close>

lemma protected_fragments_are_whole:
  assumes "valid_str source"
  shows "sorted_wrt (\<lambda>a b. cand_end a \<le> cand_start b)
      (selected_candidates is_alphanumeric source source_locale target_locale g) \<and>
    (\<forall>c \<in> set (selected_candidates is_alphanumeric source source_locale target_locale g).
      cand_start c < cand_end c \<and> cand_end c \<le> length source \<and>
      is_char_boundary source (cand_start c) \<and> is_char_boundary source (cand_end c))"
proof -
  let ?all = "automatic_candidates source @
    (case (target_locale, g) of
       (Some t, Some gl) \<Rightarrow> collect_glossary_candidates is_alphanumeric source source_locale t gl
     | _ \<Rightarrow> [])"
  have "\<forall>c \<in> set ?all. whole_fragment source c"
    using automatic_whole [OF assms] glossary_whole by (auto split: option.splits)
  then have "\<forall>c \<in> set (select_candidates (sort_by candidate_le ?all) 0). whole_fragment source c"
    using select_candidates_sub [of "sort_by candidate_le ?all" 0] by (auto simp: subset_iff)
  with select_candidates_disjoint [of "sort_by candidate_le ?all" 0] show ?thesis
    unfolding selected_candidates_def whole_fragment_def by blast
qed

lemma protected_fragments_are_whole_witness:
  "valid_str ''mail a@b.c'' \<and>
   map (\<lambda>c. (cand_start c, cand_end c))
     (selected_candidates (\<lambda>_. False) ''mail a@b.c'' None None None) = [(5, 10)] \<and>
   is_char_boundary ''mail a@b.c'' 5 \<and> is_char_boundary ''mail a@b.c'' 10"
proof -
  have v: "valid_str ''mail a@b.c''" by code_simp
  have m: "map (\<lambda>c. (cand_start c, cand_end c))
     (selected_candidates (\<lambda>_. False) ''mail a@b.c'' None None None) = [(5, 10)]"
    by code_simp
  have "(5, 10) \<in> (\<lambda>c. (cand_start c, cand_end c)) `
      set (selected_candidates (\<lambda>_. False) ''mail a@b.c'' None None None)"
    unfolding list.set_map [symmetric] m by simp
  then obtain c where c: "(5, 10) = (cand_start c, cand_end c)"
      "c \<in> set (selected_candidates (\<lambda>_. False) ''mail a@b.c'' None None None)"
    by (rule imageE)
  from c(1) have "cand_start c = 5" "cand_end c = 10" by simp_all
  with protected_fragments_are_whole [OF v, of "\<lambda>_. False" None None None] c(2)
  have "is_char_boundary ''mail a@b.c'' 5 \<and> is_char_boundary ''mail a@b.c'' 10" by metis
  with v m show ?thesis by (intro conjI) blast+
qed

end
