(* ===== verification/Catalog.thy ===== *)
theory Catalog
  imports Translation
begin

text \<open>
  \<open>crates/linguamesh-provider-catalog/src/lib.rs\<close>, \<open>crates/linguamesh-protocol/src/lib.rs\<close> and the
  compatibility check of \<open>crates/linguamesh-domain/src/lib.rs\<close> with \<open>core_compatibility\<close> of the
  engine: the versioned contracts between the core and its clients. Deserialization with \<open>serde\<close>
  and the wire format of \<open>prost\<close> are outside; the catalog text compiled into the core is an
  argument together with its parser.
\<close>

section \<open>Catalog\<close>

definition CATALOG_SCHEMA_VERSION :: u32 where "CATALOG_SCHEMA_VERSION = 1"

record ProviderPreset =
  provider_preset_id :: string
  provider_display_name :: string
  provider_adapter :: string
  model_listing :: string
  documentation_url :: "string option"
  loopback_only :: bool

record ProviderCatalog =
  schema_version :: u32
  catalog_version :: string
  providers :: "ProviderPreset list"

datatype CatalogError =
    InvalidJson string
  | UnsupportedSchema u32 u32
  | InvalidCatalogVersion
  | InvalidPresetId string
  | EmptyRequiredField string
  | InvalidDocumentationUrl string

definition is_semantic_version :: "string \<Rightarrow> bool" where
  "is_semantic_version value \<longleftrightarrow>
     (let parts = split_char (CHR ''.'') value in
      length parts = 3 \<and> list_all (\<lambda>part. part \<noteq> [] \<and> list_all is_ascii_digit part) parts)"

definition is_stable_id :: "string \<Rightarrow> bool" where
  "is_stable_id value \<longleftrightarrow> value \<noteq> [] \<and>
     list_all (\<lambda>b. is_ascii_lowercase b \<or> is_ascii_digit b \<or> b = CHR ''-'') value"

definition validate_preset :: "ProviderPreset \<Rightarrow> CatalogError + unit" where
  "validate_preset p =
     and_then (try_each (\<lambda>(name, value). if is_blank value then Err (EmptyRequiredField name) else Ok ())
       [(''display_name'', provider_display_name p), (''adapter'', provider_adapter p),
        (''model_listing'', model_listing p)]) (\<lambda>_.
     case documentation_url p of None \<Rightarrow> Ok ()
     | Some url \<Rightarrow> if \<not> starts_with url ''https://'' \<or> list_ex is_whitespace (chars url)
         then Err (InvalidDocumentationUrl url) else Ok ())"

text \<open>The loop over the presets with the set of identifiers seen so far.\<close>

fun validate_providers :: "string list \<Rightarrow> ProviderPreset list \<Rightarrow> CatalogError + unit" where
  "validate_providers ids [] = Ok ()"
| "validate_providers ids (p # ps) =
     (if \<not> is_stable_id (provider_preset_id p) \<or> provider_preset_id p \<in> set ids
      then Err (InvalidPresetId (provider_preset_id p))
      else and_then (validate_preset p) (\<lambda>_. validate_providers (provider_preset_id p # ids) ps))"

definition ProviderCatalog_validate :: "ProviderCatalog \<Rightarrow> CatalogError + unit" where
  "ProviderCatalog_validate c =
     (if schema_version c \<noteq> CATALOG_SCHEMA_VERSION
      then Err (UnsupportedSchema CATALOG_SCHEMA_VERSION (schema_version c))
      else if \<not> is_semantic_version (catalog_version c) then Err InvalidCatalogVersion
      else validate_providers [] (providers c))"

text \<open>\<open>from_json\<close>: \<open>serde_json::from_str\<close>, with its error message.\<close>

definition ProviderCatalog_parse ::
  "(string \<Rightarrow> string + ProviderCatalog) \<Rightarrow> string \<Rightarrow> CatalogError + ProviderCatalog" where
  "ProviderCatalog_parse from_json input =
     and_then (map_err InvalidJson (from_json input)) (\<lambda>c.
     and_then (ProviderCatalog_validate c) (\<lambda>_. Ok c))"

section \<open>Compatibility\<close>

record CoreCompatibility =
  core_version :: string
  abi_major :: u32
  compat_protocol_version :: u32
  provider_catalog_version :: string
  enabled_features :: "string list"

record CompatibilityRequirements =
  req_core_version :: string
  req_abi_major :: u32
  req_protocol_version :: u32
  req_provider_catalog_version :: string
  required_features :: "string list"

datatype CompatibilityError =
    CoreVersion string string
  | AbiMajor u32 u32
  | ProtocolVersion u32 u32
  | ProviderCatalogVersion string string
  | MissingFeature string

definition requirements_validate ::
  "CompatibilityRequirements \<Rightarrow> CoreCompatibility \<Rightarrow> CompatibilityError + unit" where
  "requirements_validate req actual =
     (if core_version actual \<noteq> req_core_version req
      then Err (CoreVersion (req_core_version req) (core_version actual))
      else if abi_major actual \<noteq> req_abi_major req
      then Err (AbiMajor (req_abi_major req) (abi_major actual))
      else if compat_protocol_version actual \<noteq> req_protocol_version req
      then Err (ProtocolVersion (req_protocol_version req) (compat_protocol_version actual))
      else if provider_catalog_version actual \<noteq> req_provider_catalog_version req
      then Err (ProviderCatalogVersion (req_provider_catalog_version req)
                  (provider_catalog_version actual))
      else try_each (\<lambda>f. if f \<notin> set (enabled_features actual) then Err (MissingFeature f) else Ok ())
             (required_features req))"

definition ABI_VERSION_MAJOR :: u32 where "ABI_VERSION_MAJOR = 1"
definition PROTOCOL_VERSION :: u32 where "PROTOCOL_VERSION = 1"

definition CORE_FEATURES :: "string list" where
  "CORE_FEATURES =
     [''cancellation_v1'', ''azure_openai_chat_v1'', ''openai_responses_v1'',
      ''compatibility_negotiation_v1'', ''file_lease_v1'', ''typed_rust_host_secret_broker_v1'',
      ''model_discovery_v1'', ''provider_health_status_v1'', ''protected_spans_v1'',
      ''long_text_chunking_v1'', ''provider_profile_persistence_v1'', ''bounded_text_document_v1'',
      ''routing_planner_v1'', ''translation_quality_modes_v1'', ''translation_presets_v1'',
      ''usage_records_v1'', ''streaming_text_v1'', ''text_translation_v1'']"

fun catalog_error_message :: "CatalogError \<Rightarrow> string" where
  "catalog_error_message (InvalidJson m) = ''Provider catalog JSON is invalid: '' @ m"
| "catalog_error_message (UnsupportedSchema expected actual) =
     ''Provider catalog schema version '' @ nat_to_string (unat actual) @
     '' is unsupported; expected '' @ nat_to_string (unat expected) @ ''.''"
| "catalog_error_message InvalidCatalogVersion = ''Provider catalog version is invalid.''"
| "catalog_error_message (InvalidPresetId i) =
     ''Provider preset ID is invalid or duplicated: '' @ i"
| "catalog_error_message (EmptyRequiredField f) =
     ''Provider preset contains an empty required field: '' @ f"
| "catalog_error_message (InvalidDocumentationUrl u) =
     ''Provider documentation URL is invalid: '' @ u"

text \<open>\<open>version\<close> is the package version the build inserts, \<open>bundled\<close> the catalog text.\<close>

definition core_compatibility ::
  "(string \<Rightarrow> string + ProviderCatalog) \<Rightarrow> string \<Rightarrow> string \<Rightarrow> TranslationError + CoreCompatibility" where
  "core_compatibility from_json bundled version =
     and_then (map_err (\<lambda>e. TranslationError_new Internal
         (''Bundled provider catalog is invalid: '' @ catalog_error_message e))
       (ProviderCatalog_parse from_json bundled)) (\<lambda>c.
     Ok \<lparr>core_version = version, abi_major = ABI_VERSION_MAJOR,
         compat_protocol_version = PROTOCOL_VERSION,
         provider_catalog_version = catalog_version c, enabled_features = CORE_FEATURES\<rparr>)"

section \<open>Envelopes\<close>

record Envelope =
  protocol_version :: u32
  env_operation_id :: string
  env_correlation_id :: string
  env_sequence :: u64
  message_type :: string
  payload :: string

datatype ProtocolError = IncompatibleVersion u32 u32

definition validate_version :: "Envelope \<Rightarrow> ProtocolError + unit" where
  "validate_version e =
     (if protocol_version e = PROTOCOL_VERSION then Ok ()
      else Err (IncompatibleVersion PROTOCOL_VERSION (protocol_version e)))"

section \<open>Properties\<close>

lemma validate_providers_ok:
  "validate_providers ids ps = Ok () \<Longrightarrow>
     distinct (map provider_preset_id ps) \<and>
     (\<forall>p \<in> set ps. provider_preset_id p \<notin> set ids \<and> is_stable_id (provider_preset_id p) \<and>
        validate_preset p = Ok ())"
proof (induction ids ps rule: validate_providers.induct)
  case (1 ids)
  then show ?case by simp
next
  case (2 ids p ps)
  from "2.prems" have p: "is_stable_id (provider_preset_id p)" "provider_preset_id p \<notin> set ids"
    "validate_preset p = Ok ()" "validate_providers (provider_preset_id p # ids) ps = Ok ()"
    by (simp_all add: and_then_Inr split: if_split_asm)
  with "2.IH" have "distinct (map provider_preset_id ps)"
    "\<forall>q \<in> set ps. provider_preset_id q \<notin> insert (provider_preset_id p) (set ids) \<and>
       is_stable_id (provider_preset_id q) \<and> validate_preset q = Ok ()"
    by simp_all
  with p(1-3) show ?case by auto
qed

text \<open>
  A catalog that loads is usable: its schema is the supported one, its identifiers are
  lowercase and pairwise different, no required field of a preset is blank and every
  documentation link is an HTTPS address without white space.
\<close>

lemma loaded_catalog_is_usable:
  assumes "ProviderCatalog_parse from_json input = Ok c"
  shows "schema_version c = 1 \<and> is_semantic_version (catalog_version c) \<and>
    distinct (map provider_preset_id (providers c)) \<and>
    (\<forall>p \<in> set (providers c). is_stable_id (provider_preset_id p) \<and>
       \<not> is_blank (provider_display_name p) \<and> \<not> is_blank (provider_adapter p) \<and>
       \<not> is_blank (model_listing p) \<and>
       (\<forall>url. documentation_url p = Some url \<longrightarrow>
          starts_with url ''https://'' \<and> \<not> list_ex is_whitespace (chars url)))"
proof -
  from assms have v: "ProviderCatalog_validate c = Ok ()"
    by (auto simp: ProviderCatalog_parse_def result_iff)
  then have c: "schema_version c = 1" "is_semantic_version (catalog_version c)"
    "validate_providers [] (providers c) = Ok ()"
    by (auto simp: ProviderCatalog_validate_def CATALOG_SCHEMA_VERSION_def split: if_splits)
  have "\<not> is_blank (provider_display_name p) \<and> \<not> is_blank (provider_adapter p) \<and>
       \<not> is_blank (model_listing p) \<and>
       (\<forall>url. documentation_url p = Some url \<longrightarrow>
          starts_with url ''https://'' \<and> \<not> list_ex is_whitespace (chars url))"
    if "validate_preset p = Ok ()" for p
    using that by (auto simp: validate_preset_def and_then_Inr split: if_splits)
  with c validate_providers_ok [OF c(3)] show ?thesis by blast
qed

definition demo_catalog :: ProviderCatalog where
  "demo_catalog = \<lparr>schema_version = 1, catalog_version = ''0.1.0'',
     providers = [\<lparr>provider_preset_id = ''openai'', provider_display_name = ''OpenAI'',
       provider_adapter = ''openai'', model_listing = ''api'',
       documentation_url = Some ''https://example.org'', loopback_only = False\<rparr>]\<rparr>"

lemma loaded_catalog_is_usable_witness:
  "ProviderCatalog_parse (\<lambda>_. Ok demo_catalog) [] = Ok demo_catalog \<and>
   distinct (map provider_preset_id (providers demo_catalog))"
proof -
  have "ProviderCatalog_validate demo_catalog = Ok ()" by code_simp
  then have "ProviderCatalog_parse (\<lambda>_. Ok demo_catalog) [] = Ok demo_catalog"
    by (simp add: ProviderCatalog_parse_def)
  with loaded_catalog_is_usable [OF this] show ?thesis by blast
qed

text \<open>
  Version negotiation is exact: a client accepts a core exactly when the core version, the
  ABI, the protocol and the catalog version are the ones it was reviewed with and every feature
  it requires is enabled; extra features of the core never matter.
\<close>

lemma compatibility_is_exact:
  "requirements_validate req actual = Ok () \<longleftrightarrow>
     core_version actual = req_core_version req \<and> abi_major actual = req_abi_major req \<and>
     compat_protocol_version actual = req_protocol_version req \<and>
     provider_catalog_version actual = req_provider_catalog_version req \<and>
     set (required_features req) \<subseteq> set (enabled_features actual)"
  by (auto simp: requirements_validate_def try_each_Inr split: if_splits)

end
