(* ===== verification/Document_Base.thy ===== *)
theory Document_Base
  imports Rust_Prelude
begin

text \<open>
  \<open>crates/linguamesh-document/src/lib.rs\<close>, the data of a document job: formats, states,
  segments, errors and warnings, the job itself, and the line splitter. The locale at the end is
  the contract between a format's segmenter and the job that is built from its segments.
\<close>

section \<open>Formats and states\<close>

datatype DocumentError =
    DocumentTooLarge
  | InvalidUtf8
  | UnsupportedFormat
  | InvalidStructure
  | InvalidXlsxSelection
  | OutputTooLarge
  | UnknownSegment nat
  | VerbatimSegment nat
  | SegmentIncomplete nat
  | PdfTextEncodingUnsupported

datatype DocumentFormat =
    Txt | Markdown | Srt | WebVtt | Csv | Html | JsonFormat | Docx | Pptx | Xlsx | Epub | Pdf

definition DocumentFormat_from_name :: "string \<Rightarrow> DocumentError + DocumentFormat" where
  "DocumentFormat_from_name name =
     (let extension = to_ascii_lowercase
            (case rsplit_once name (CHR ''.'') of None \<Rightarrow> [] | Some (_, ext) \<Rightarrow> ext) in
      if extension = ''txt'' then Ok Txt
      else if extension = ''md'' \<or> extension = ''markdown'' then Ok Markdown
      else if extension = ''srt'' then Ok Srt
      else if extension = ''vtt'' then Ok WebVtt
      else if extension = ''csv'' then Ok Csv
      else if extension = ''html'' \<or> extension = ''htm'' then Ok Html
      else if extension = ''json'' then Ok JsonFormat
      else if extension = ''docx'' then Ok Docx
      else if extension = ''pptx'' then Ok Pptx
      else if extension = ''xlsx'' then Ok Xlsx
      else if extension = ''epub'' then Ok Epub
      else if extension = ''pdf'' then Ok Pdf
      else Err UnsupportedFormat)"

definition MAX_DOCUMENT_BYTES :: nat where "MAX_DOCUMENT_BYTES = 4 * 1024 * 1024"

text \<open>The comparison in binary, for evaluation.\<close>

lemma MAX_DOCUMENT_BYTES_code [code_unfold]: "MAX_DOCUMENT_BYTES < n \<longleftrightarrow> (4194304 :: int) < int n"
  by (simp add: MAX_DOCUMENT_BYTES_def)

datatype DocumentJobState =
    JobPending | JobRunning | JobPaused | JobCompleted | JobCancelled | JobFailed

fun is_resumable :: "DocumentJobState \<Rightarrow> bool" where
  "is_resumable JobPending = True"
| "is_resumable JobRunning = True"
| "is_resumable JobPaused = True"
| "is_resumable _ = False"

section \<open>Segments and jobs\<close>

datatype DocumentSegmentKind = Prose | Verbatim

record DocumentSegment =
  seg_index :: nat
  seg_kind :: DocumentSegmentKind
  seg_source :: string
  seg_translated :: "string option"
  seg_ending :: string

datatype DocumentWarningKind =
    PdfImageOnlyPage
  | PdfUncertainReadingOrder
  | PdfReconstructionLimited
  | SubtitleLineLengthExceeded
  | SubtitleReadingSpeedHigh

record DocumentWarning =
  warning_kind :: DocumentWarningKind
  warning_page :: "nat option"
  warning_cue :: "nat option"

definition output_text :: "DocumentSegment \<Rightarrow> DocumentError + string" where
  "output_text s = (case seg_kind s of
       Verbatim \<Rightarrow> Ok (seg_source s)
     | Prose \<Rightarrow> ok_or (SegmentIncomplete (seg_index s)) (seg_translated s))"

record DocumentJob =
  job_format :: DocumentFormat
  job_source_name :: string
  segments :: "DocumentSegment list"
  package :: "string option"

record XlsxSelection =
  sheet_name :: string
  cell_range :: string

definition XlsxSelection_new :: "string \<Rightarrow> string \<Rightarrow> DocumentError + XlsxSelection" where
  "XlsxSelection_new sheet cells =
     (if sheet = [] \<or> length sheet > 128 \<or> cells = [] then Err InvalidXlsxSelection
      else Ok \<lparr>sheet_name = sheet, cell_range = cells\<rparr>)"

definition pending_count :: "DocumentJob \<Rightarrow> nat" where
  "pending_count job =
     length (filter (\<lambda>s. seg_kind s = Prose \<and> seg_translated s = None) (segments job))"

definition segments_text :: "DocumentSegment list \<Rightarrow> string" where
  "segments_text ss = concat (map (\<lambda>s. seg_source s @ seg_ending s) ss)"

definition document_source_text :: "DocumentJob \<Rightarrow> string" where
  "document_source_text job = segments_text (segments job)"

text \<open>A segment as the segmenters push it: not translated yet.\<close>

definition new_segment :: "nat \<Rightarrow> DocumentSegmentKind \<Rightarrow> string \<Rightarrow> string \<Rightarrow> DocumentSegment" where
  "new_segment i k text ending = \<lparr>seg_index = i, seg_kind = k, seg_source = text,
     seg_translated = None, seg_ending = ending\<rparr>"

lemma new_segment_sel [simp]:
  "seg_index (new_segment i k t e) = i" "seg_kind (new_segment i k t e) = k"
  "seg_source (new_segment i k t e) = t" "seg_translated (new_segment i k t e) = None"
  "seg_ending (new_segment i k t e) = e"
  by (simp_all add: new_segment_def)

section \<open>Lines\<close>

text \<open>
  \<open>cur\<close> is \<open>text[start..offset]\<close>; the loop's characters may be read as bytes because a line feed
  is a character of its own.
\<close>

definition line_parts :: "string \<Rightarrow> string \<times> string" where
  "line_parts line =
     (if suffix [cr] line then (butlast line, [cr, lf]) else (line, [lf]))"

fun split_lines_loop :: "string \<Rightarrow> string \<Rightarrow> (string \<times> string) list" where
  "split_lines_loop cur [] = (if cur \<noteq> [] then [(cur, [])] else [])"
| "split_lines_loop cur (b # bs) =
     (if b = lf then line_parts cur # split_lines_loop [] bs else split_lines_loop (cur @ [b]) bs)"

definition split_lines :: "string \<Rightarrow> (string \<times> string) list" where
  "split_lines text = (if text = [] then [([], [])] else split_lines_loop [] text)"

lemma line_parts_text: "fst (line_parts l) @ snd (line_parts l) = l @ [lf]"
  by (auto simp: line_parts_def suffix_def)

lemma split_lines_loop_text:
  "concat (map (\<lambda>(l, e). l @ e) (split_lines_loop cur s)) = cur @ s"
proof (induction cur s rule: split_lines_loop.induct)
  case (2 cur b bs)
  show ?case
  proof (cases "b = lf")
    case True
    with 2 show ?thesis using line_parts_text [of cur] by (simp add: case_prod_unfold)
  next
    case False
    with 2 show ?thesis by simp
  qed
qed simp

lemma split_lines_text: "concat (map (\<lambda>(l, e). l @ e) (split_lines s)) = s"
  using split_lines_loop_text [of "[]" s] by (simp add: split_lines_def)

lemma split_lines_nonempty: "split_lines s \<noteq> []"
proof (cases "s = []")
  case False
  then have "split_lines_loop [] s \<noteq> []" using split_lines_loop_text [of "[]" s] by auto
  with False show ?thesis by (simp add: split_lines_def)
qed (simp add: split_lines_def)

section \<open>The contract of a segmenter\<close>

text \<open>The segments of a source: in order, numbered from 0, not translated, losing no byte.\<close>

definition fresh_segments :: "string \<Rightarrow> DocumentSegment list \<Rightarrow> bool" where
  "fresh_segments text ss \<longleftrightarrow> segments_text ss = text \<and> map seg_index ss = [0..<length ss] \<and>
     (\<forall>s \<in> set ss. seg_translated s = None)"

locale segmenter =
  fixes segment :: "string \<Rightarrow> DocumentError + DocumentSegment list"
  assumes lossless: "segment src = Ok ss \<Longrightarrow> segments_text ss = src"
    and numbered: "segment src = Ok ss \<Longrightarrow> map seg_index ss = [0..<length ss]"
    and untranslated: "segment src = Ok ss \<Longrightarrow> s \<in> set ss \<Longrightarrow> seg_translated s = None"
begin

lemma fresh: "segment src = Ok ss \<Longrightarrow> fresh_segments src ss"
  using lossless numbered untranslated by (auto simp: fresh_segments_def)

lemma index_is_position: "segment src = Ok ss \<Longrightarrow> i < length ss \<Longrightarrow> seg_index (ss ! i) = i"
  using numbered [of src ss] by (metis add_0 length_map map_nth nth_map nth_upt)

lemma pending_prose:
  assumes "segment src = Ok ss"
  shows "pending_count \<lparr>job_format = f, job_source_name = n, segments = ss, package = p\<rparr> =
    length (filter (\<lambda>s. seg_kind s = Prose) ss)"
  unfolding pending_count_def using untranslated [OF assms]
  by (intro arg_cong [of _ _ length] filter_cong) auto

end

end
