(* ===== verification/Subtitle.thy ===== *)
theory Subtitle
  imports Document_Base
begin

text \<open>
  The subtitle part of \<open>crates/linguamesh-document/src/lib.rs\<close>: time stamps of SubRip and WebVTT
  cues, the validator of the cue structure, the classification of lines into structure and cue
  text, and the readability warnings. \<open>u64\<close> arithmetic saturates in the source and is written
  with its bound here.
\<close>

section \<open>Time stamps\<close>

definition sat64 :: "nat \<Rightarrow> nat" where "sat64 n = min n (2 ^ 64 - 1)"

text \<open>The saturating sum of the parts of a time stamp, in the order of the source.\<close>

definition timestamp_value :: "nat \<Rightarrow> nat \<Rightarrow> nat \<Rightarrow> nat \<Rightarrow> nat" where
  "timestamp_value hour minute second ms =
     sat64 (sat64 (sat64 (sat64 (hour * 3600000) + sat64 (minute * 60000)) +
       sat64 (second * 1000)) + ms)"

lemma sat64_code [code]: "sat64 n = (if int n < 2 ^ 64 - 1 then n else 2 ^ 64 - 1)"
  by (auto simp: sat64_def)

lemma timestamp_value_code [code]:
  "timestamp_value hour minute second ms =
     nat (min (int hour * 3600000 + int minute * 60000 + int second * 1000 + int ms) (2 ^ 64 - 1))"
  by (auto simp: timestamp_value_def sat64_def min_def)

definition digit_fields :: "string list \<Rightarrow> bool" where
  "digit_fields parts \<longleftrightarrow> list_all (\<lambda>f. f \<noteq> [] \<and> list_all is_ascii_digit f) parts"

definition timestamp_millis :: "string \<Rightarrow> DocumentFormat \<Rightarrow> nat option" where
  "timestamp_millis value fmt =
     (case rsplit_once value (if fmt = Srt then CHR '','' else CHR ''.'') of
        None \<Rightarrow> None
      | Some (clock, milliseconds) \<Rightarrow>
        (if length milliseconds \<noteq> 3 \<or> \<not> list_all is_ascii_digit milliseconds then None
         else let parts = split_char (CHR '':'') clock in
          if \<not> (length parts = 2 \<or> length parts = 3) \<or> \<not> digit_fields parts then None
          else
            Option.bind (if length parts = 3 then parse_u64 (parts ! 0) else Some 0) (\<lambda>hour.
            Option.bind (parse_u64 (parts ! (length parts - 2))) (\<lambda>minute.
            Option.bind (parse_u64 (last parts)) (\<lambda>second.
            if minute \<ge> 60 \<or> second \<ge> 60 then None
            else Option.bind (parse_u64 milliseconds) (\<lambda>ms.
              Some (timestamp_value hour minute second ms)))))))"

text \<open>\<open>split_whitespace().next().unwrap_or("")\<close>.\<close>

definition first_word :: "string \<Rightarrow> string" where
  "first_word s = concat (takeWhile (\<lambda>c. \<not> is_whitespace c) (dropWhile is_whitespace (chars s)))"

definition subtitle_timestamp_range :: "string \<Rightarrow> DocumentFormat \<Rightarrow> (nat \<times> nat) option" where
  "subtitle_timestamp_range line fmt =
     Option.bind (split_once line ''-->'') (\<lambda>(start, end).
     Option.bind (timestamp_millis (trim start) fmt) (\<lambda>a.
     Option.bind (timestamp_millis (first_word end) fmt) (\<lambda>b. Some (a, b))))"

definition valid_timestamp_line :: "string \<Rightarrow> DocumentFormat \<Rightarrow> bool" where
  "valid_timestamp_line line fmt \<longleftrightarrow> subtitle_timestamp_range line fmt \<noteq> None"

definition vtt_metadata :: "string \<Rightarrow> bool" where
  "vtt_metadata trimmed \<longleftrightarrow> trimmed \<in> {''NOTE'', ''STYLE'', ''REGION''}"

section \<open>The validator\<close>

record cue_state =
  cue_start :: bool
  expecting_timestamp :: bool
  cue_count :: nat
  cue_has_text :: bool
  metadata :: bool

definition cue_initial :: cue_state where
  "cue_initial = \<lparr>cue_start = True, expecting_timestamp = False, cue_count = 0,
     cue_has_text = False, metadata = False\<rparr>"

text \<open>One line of the validator's loop.\<close>

definition cue_line :: "DocumentFormat \<Rightarrow> cue_state \<Rightarrow> string \<Rightarrow> DocumentError + cue_state" where
  "cue_line fmt s line =
     (let trimmed = trim line in
      if trimmed = [] then
        (if metadata s
         then Ok (s\<lparr>metadata := False, cue_start := True, expecting_timestamp := False,
                    cue_has_text := False\<rparr>)
         else if expecting_timestamp s \<or> (cue_count s > 0 \<and> \<not> cue_has_text s)
         then Err InvalidStructure
         else Ok (s\<lparr>cue_start := True, expecting_timestamp := False, cue_has_text := False\<rparr>))
      else if fmt = WebVtt \<and> cue_start s \<and> vtt_metadata trimmed
      then Ok (s\<lparr>metadata := True, cue_start := False\<rparr>)
      else if metadata s then Ok s
      else if fmt = WebVtt \<and> cue_count s = 0 \<and> prefix ''WEBVTT'' trimmed
      then Ok (s\<lparr>cue_start := False\<rparr>)
      else if expecting_timestamp s then
        (if \<not> valid_timestamp_line trimmed fmt then Err InvalidStructure
         else Ok (s\<lparr>cue_count := cue_count s + 1, expecting_timestamp := False,
                    cue_start := False, cue_has_text := False\<rparr>))
      else if cue_start s \<and> valid_timestamp_line trimmed fmt
      then Ok (s\<lparr>cue_count := cue_count s + 1, cue_start := False, cue_has_text := False\<rparr>)
      else if cue_start s then
        (if \<not> (fmt = WebVtt \<or> fmt = Srt \<and> list_all is_ascii_digit trimmed)
         then Err InvalidStructure
         else Ok (s\<lparr>expecting_timestamp := True\<rparr>))
      else Ok (s\<lparr>cue_has_text := True\<rparr>))"

fun cue_lines_loop :: "DocumentFormat \<Rightarrow> cue_state \<Rightarrow> string list \<Rightarrow> DocumentError + cue_state" where
  "cue_lines_loop fmt s [] = Ok s"
| "cue_lines_loop fmt s (line # ls) = and_then (cue_line fmt s line) (\<lambda>s'. cue_lines_loop fmt s' ls)"

text \<open>The part of \<open>validate_structure_with_delimiter\<close> for the two subtitle formats.\<close>

definition validate_subtitle :: "DocumentFormat \<Rightarrow> string \<Rightarrow> DocumentError + unit" where
  "validate_subtitle fmt text =
     (let ls = map fst (split_lines text) in
      if ls = [] then Err InvalidStructure
      else if fmt = WebVtt \<and> \<not> prefix ''WEBVTT'' (trim_start (hd ls)) then Err InvalidStructure
      else and_then (cue_lines_loop fmt cue_initial ls) (\<lambda>s.
        if expecting_timestamp s \<or> cue_count s = 0 \<or>
           (\<not> metadata s \<and> \<not> cue_start s \<and> \<not> cue_has_text s)
        then Err InvalidStructure else Ok ()))"

section \<open>The classification of lines\<close>

record kind_state =
  kind_cue_start :: bool
  kind_expecting :: bool
  kind_metadata :: bool

definition kind_initial :: kind_state where
  "kind_initial = \<lparr>kind_cue_start = True, kind_expecting = False, kind_metadata = False\<rparr>"

definition structural_line :: "DocumentFormat \<Rightarrow> nat \<Rightarrow> kind_state \<Rightarrow> string \<Rightarrow> bool" where
  "structural_line fmt index s trimmed =
     (let is_timestamp = valid_timestamp_line trimmed fmt;
          is_header = (fmt = WebVtt \<and> index = 0 \<and> prefix ''WEBVTT'' trimmed) in
      trimmed = [] \<or> is_header \<or> kind_metadata s \<or> (fmt = WebVtt \<and> vtt_metadata trimmed) \<or>
      kind_expecting s \<or> (kind_cue_start s \<and> is_timestamp) \<or>
      (fmt = Srt \<and> kind_cue_start s \<and> list_all is_ascii_digit trimmed \<and> trimmed \<noteq> []) \<or>
      (fmt = WebVtt \<and> kind_cue_start s \<and> \<not> is_timestamp \<and> \<not> is_header))"

definition kind_next :: "DocumentFormat \<Rightarrow> kind_state \<Rightarrow> string \<Rightarrow> kind_state" where
  "kind_next fmt s trimmed =
     (let is_timestamp = valid_timestamp_line trimmed fmt in
      if trimmed = [] then kind_initial
      else if fmt = WebVtt \<and> vtt_metadata trimmed
      then s\<lparr>kind_metadata := True, kind_cue_start := False\<rparr>
      else if kind_metadata s then s\<lparr>kind_cue_start := False\<rparr>
      else if kind_expecting s then s\<lparr>kind_expecting := False, kind_cue_start := False\<rparr>
      else if kind_cue_start s \<and> \<not> is_timestamp
      then s\<lparr>kind_expecting := True, kind_cue_start := False\<rparr>
      else if is_timestamp then s\<lparr>kind_cue_start := False\<rparr>
      else s)"

fun line_kinds_loop :: "DocumentFormat \<Rightarrow> nat \<Rightarrow> kind_state \<Rightarrow> string list \<Rightarrow> bool list" where
  "line_kinds_loop fmt index s [] = []"
| "line_kinds_loop fmt index s (line # ls) =
     structural_line fmt index s (trim line) #
     line_kinds_loop fmt (Suc index) (kind_next fmt s (trim line)) ls"

definition subtitle_line_kinds :: "DocumentFormat \<Rightarrow> string \<Rightarrow> bool list" where
  "subtitle_line_kinds fmt text =
     (if fmt \<noteq> Srt \<and> fmt \<noteq> WebVtt then []
      else line_kinds_loop fmt 0 kind_initial (map fst (split_lines text)))"

section \<open>Readability warnings\<close>

definition DEFAULT_SUBTITLE_MAX_LINE_CHARS :: nat where "DEFAULT_SUBTITLE_MAX_LINE_CHARS = 42"
definition DEFAULT_SUBTITLE_MAX_READING_SPEED :: nat where "DEFAULT_SUBTITLE_MAX_READING_SPEED = 17"

text \<open>The comparison of the reading speed, and the same in binary for evaluation.\<close>

definition reads_too_fast :: "nat \<Rightarrow> nat \<Rightarrow> nat \<Rightarrow> bool" where
  "reads_too_fast max_speed characters duration \<longleftrightarrow>
     sat64 (sat64 characters * 1000) > sat64 (max_speed * duration)"

lemma reads_too_fast_code [code]:
  "reads_too_fast max_speed characters duration \<longleftrightarrow>
     min (int max_speed * int duration) (2 ^ 64 - 1) <
     min (min (int characters) (2 ^ 64 - 1) * 1000) (2 ^ 64 - 1)"
proof -
  have sat: "int (sat64 n) = min (int n) (2 ^ 64 - 1)" for n
    by (simp add: sat64_def min_def of_nat_diff)
  have "reads_too_fast max_speed characters duration \<longleftrightarrow>
      int (sat64 (max_speed * duration)) < int (sat64 (sat64 characters * 1000))"
    by (simp add: reads_too_fast_def)
  then show ?thesis unfolding sat of_nat_mult by simp
qed

text \<open>The warnings of one cue.\<close>

definition cue_warnings :: "nat \<Rightarrow> nat \<Rightarrow> nat \<Rightarrow> nat \<Rightarrow> nat \<Rightarrow> string list \<Rightarrow> DocumentWarning list" where
  "cue_warnings max_line max_speed cue_number start end cue_lines =
     (if list_ex (\<lambda>l. length (chars l) > max_line) cue_lines
      then [\<lparr>warning_kind = SubtitleLineLengthExceeded, warning_page = None, warning_cue = Some cue_number\<rparr>]
      else []) @
     (let duration = end - start;
          characters = length (filter (\<lambda>c. \<not> is_whitespace c) (concat (map chars cue_lines))) in
      if duration > 0 \<and> reads_too_fast max_speed characters duration
      then [\<lparr>warning_kind = SubtitleReadingSpeedHigh, warning_page = None, warning_cue = Some cue_number\<rparr>]
      else [])"

text \<open>
  The loop: \<open>cursor\<close> is the source's index and \<open>rest\<close> are the lines from it on. A cue begins with
  a time stamp line or with an identifier line that a time stamp line follows.
\<close>

definition cue_head ::
  "DocumentFormat \<Rightarrow> string \<Rightarrow> string list \<Rightarrow> DocumentError + ((nat \<times> nat) \<times> string list \<times> nat)" where
  "cue_head fmt trimmed ls =
     (case subtitle_timestamp_range trimmed fmt of
        Some span \<Rightarrow> Ok (span, ls, 1)
      | None \<Rightarrow>
        (case ls of [] \<Rightarrow> Err InvalidStructure
         | l # ls' \<Rightarrow>
            (case subtitle_timestamp_range (trim l) fmt of
               Some span \<Rightarrow> Ok (span, ls', 2)
             | None \<Rightarrow> Err InvalidStructure)))"

lemma length_cue_head: "cue_head fmt trimmed ls = Ok (span, after, n) \<Longrightarrow> length after \<le> length ls"
  by (auto simp: cue_head_def split: option.splits list.splits)

function subtitle_warnings_loop ::
  "DocumentFormat \<Rightarrow> nat \<Rightarrow> nat \<Rightarrow> nat \<Rightarrow> string list \<Rightarrow> nat \<Rightarrow>
     DocumentError + DocumentWarning list" where
  "subtitle_warnings_loop fmt max_line max_speed cursor rest cue_number =
     (case rest of
        [] \<Rightarrow> Ok []
      | line # ls \<Rightarrow>
        (if is_blank line
         then subtitle_warnings_loop fmt max_line max_speed (cursor + 1) ls cue_number
         else let trimmed = trim line in
         if fmt = WebVtt \<and> (cursor = 0 \<and> prefix ''WEBVTT'' trimmed \<or> vtt_metadata trimmed)
         then subtitle_warnings_loop fmt max_line max_speed
                (cursor + 1 + length (takeWhile (\<lambda>l. \<not> is_blank l) ls))
                (dropWhile (\<lambda>l. \<not> is_blank l) ls) cue_number
         else (case cue_head fmt trimmed ls of
             Err e \<Rightarrow> Err e
           | Ok ((start, end), after, n) \<Rightarrow>
              (let cue_lines = takeWhile (\<lambda>l. \<not> is_blank l) after in
               if cue_lines = [] then Err InvalidStructure
               else and_then
                 (subtitle_warnings_loop fmt max_line max_speed (cursor + n + length cue_lines)
                   (dropWhile (\<lambda>l. \<not> is_blank l) after) (cue_number + 1)) (\<lambda>ws.
                 Ok (cue_warnings max_line max_speed (cue_number + 1) start end cue_lines @ ws))))))"
  by pat_completeness auto
termination
proof (relation "measure (\<lambda>(_, _, _, _, rest, _). length rest)")
  fix fmt max_line max_speed cursor rest cue_number line ls
  assume "rest = line # ls" "\<not> is_blank (line :: string)"
  show "((fmt, max_line, max_speed, cursor + 1 + length (takeWhile (\<lambda>l. \<not> is_blank l) ls),
      dropWhile (\<lambda>l. \<not> is_blank l) ls, cue_number), fmt, max_line, max_speed, cursor, rest, cue_number)
    \<in> measure (\<lambda>(_, _, _, _, rest, _). length rest)"
    using \<open>rest = line # ls\<close> by (simp add: le_imp_less_Suc length_dropWhile_le)
next
  fix fmt max_line max_speed cursor rest cue_number line ls trimmed b x y xa ya yb yc cue_lines
  assume h: "rest = line # (ls :: string list)" "cue_head fmt trimmed ls = Ok b"
    "(x, y) = b" "(xa, ya) = x" "(yb, yc) = y"
  then have "length yb \<le> length ls" using length_cue_head [of fmt trimmed ls x yb yc] by simp
  then have "length (dropWhile (\<lambda>l. \<not> is_blank l) yb) < length rest"
    using h(1) length_dropWhile_le [of "\<lambda>l. \<not> is_blank l" yb] by simp
  then show "((fmt, max_line, max_speed, cursor + yc + length cue_lines,
      dropWhile (\<lambda>l. \<not> is_blank l) yb, cue_number + 1), fmt, max_line, max_speed, cursor, rest, cue_number)
    \<in> measure (\<lambda>(_, _, _, _, rest, _). length rest)" by simp
qed auto

declare subtitle_warnings_loop.simps [simp del]

definition subtitle_warnings ::
  "DocumentFormat \<Rightarrow> string \<Rightarrow> nat \<Rightarrow> nat \<Rightarrow> DocumentError + DocumentWarning list" where
  "subtitle_warnings fmt text max_line max_speed =
     subtitle_warnings_loop fmt max_line max_speed 0 (map fst (split_lines text)) 0"

section \<open>What is offered for translation\<close>

text \<open>
  The reference reading of a SubRip file: blocks of lines separated by blank lines; a line is cue
  text when a time stamp line, the first or second line of its block, precedes it in the block.
\<close>

fun cue_text :: "nat \<Rightarrow> bool \<Rightarrow> string list \<Rightarrow> bool list" where
  "cue_text pos seen_time [] = []"
| "cue_text pos seen_time (l # ls) =
     (if is_blank l then False # cue_text 0 False ls
      else seen_time #
        cue_text (Suc pos) (seen_time \<or> pos < 2 \<and> valid_timestamp_line (trim l) Srt) ls)"

text \<open>Validator, classifier and reference agree on where in a block they are.\<close>

definition same_place :: "cue_state \<Rightarrow> kind_state \<Rightarrow> nat \<Rightarrow> bool \<Rightarrow> bool" where
  "same_place s k pos seen_time \<longleftrightarrow> \<not> metadata s \<and> \<not> kind_metadata k \<and>
     (cue_start s \<and> \<not> expecting_timestamp s \<and> kind_cue_start k \<and> \<not> kind_expecting k \<and>
        pos = 0 \<and> \<not> seen_time \<or>
      cue_start s \<and> expecting_timestamp s \<and> \<not> kind_cue_start k \<and> kind_expecting k \<and>
        pos = 1 \<and> \<not> seen_time \<or>
      \<not> cue_start s \<and> \<not> expecting_timestamp s \<and> \<not> kind_cue_start k \<and> \<not> kind_expecting k \<and> seen_time)"

lemma same_place_step:
  assumes "same_place s k pos seen_time" "cue_line Srt s l = Ok s'" "\<not> is_blank l"
  shows "same_place s' (kind_next Srt k (trim l)) (Suc pos)
      (seen_time \<or> pos < 2 \<and> valid_timestamp_line (trim l) Srt) \<and>
    (structural_line Srt i k (trim l) \<longleftrightarrow> \<not> seen_time)"
proof -
  from assms(1) consider
      (block_start) "cue_start s" "\<not> expecting_timestamp s" "kind_cue_start k" "\<not> kind_expecting k"
        "pos = 0" "\<not> seen_time" "\<not> metadata s" "\<not> kind_metadata k"
    | (after_id) "cue_start s" "expecting_timestamp s" "\<not> kind_cue_start k" "kind_expecting k"
        "pos = 1" "\<not> seen_time" "\<not> metadata s" "\<not> kind_metadata k"
    | (in_text) "\<not> cue_start s" "\<not> expecting_timestamp s" "\<not> kind_cue_start k" "\<not> kind_expecting k"
        "seen_time" "\<not> metadata s" "\<not> kind_metadata k"
    unfolding same_place_def by blast
  then show ?thesis
    using assms(2,3)
    by cases (auto simp: cue_line_def Let_def is_blank_def structural_line_def kind_next_def
        same_place_def split: if_splits)
qed

lemma same_place_blank:
  assumes "same_place s k pos seen_time" "cue_line Srt s l = Ok s'" "is_blank l"
  shows "same_place s' (kind_next Srt k (trim l)) 0 False \<and> structural_line Srt i k (trim l)"
  using assms
  by (auto simp: cue_line_def Let_def is_blank_def structural_line_def kind_next_def kind_initial_def
      same_place_def split: if_splits)

lemma line_kinds_cue_text:
  "same_place s k pos seen_time \<Longrightarrow> cue_lines_loop Srt s ls = Ok s' \<Longrightarrow>
     line_kinds_loop Srt i k ls = map Not (cue_text pos seen_time ls)"
proof (induction ls arbitrary: s k pos seen_time i)
  case (Cons l ls)
  from Cons.prems(2) obtain s1 where s1: "cue_line Srt s l = Ok s1" "cue_lines_loop Srt s1 ls = Ok s'"
    by (auto simp: and_then_Inr)
  show ?case
    using same_place_step [OF Cons.prems(1) s1(1), of i] same_place_blank [OF Cons.prems(1) s1(1), of i]
      Cons.IH [OF _ s1(2)]
    by (cases "is_blank l") simp_all
qed simp

text \<open>
  C31: Only cue text of a SubRip file is offered for translation: in every file the validator
  accepts, the lines classified as structure are exactly those that do not follow a time stamp
  line in their block, so cue numbers, time stamps and blank lines are never sent to a provider
  and every line of cue text is.
\<close>

theorem srt_offers_exactly_cue_text:
  assumes "validate_subtitle Srt src = Ok ()"
  shows "subtitle_line_kinds Srt src = map Not (cue_text 0 False (map fst (split_lines src)))"
proof -
  from assms obtain s where "cue_lines_loop Srt cue_initial (map fst (split_lines src)) = Ok s"
    by (auto simp: validate_subtitle_def Let_def and_then_Inr split: if_splits)
  moreover have "same_place cue_initial kind_initial 0 False"
    by (simp add: same_place_def cue_initial_def kind_initial_def)
  ultimately show ?thesis by (simp add: subtitle_line_kinds_def line_kinds_cue_text)
qed

definition demo_srt :: string where
  "demo_srt = ''1\<newline>00:00:00,100 --> 00:00:00,250\<newline>Hello\<newline>2\<newline>''"

theorem srt_offers_exactly_cue_text_witness:
  "validate_subtitle Srt demo_srt = Ok () \<and>
   subtitle_line_kinds Srt demo_srt = [True, True, False, False]"
proof -
  have v: "validate_subtitle Srt demo_srt = Ok ()" by code_simp
  moreover have "map Not (cue_text 0 False (map fst (split_lines demo_srt))) = [True, True, False, False]"
    by code_simp
  ultimately show ?thesis using srt_offers_exactly_cue_text [OF v] by (simp only: simp_thms)
qed

definition demo_vtt :: string where
  "demo_vtt = ''WEBVTT\<newline>Kind: captions\<newline>Language: en\<newline>\<newline>00:00.100 --> 00:00.200\<newline>Hi''"

definition demo_gap :: string where
  "demo_gap = ''1\<newline>00:00:00,000 --> 00:00:00,100\<newline>A\<newline>\<newline>\<newline>2\<newline>00:00:00,200 --> 00:00:00,300\<newline>B''"

text \<open>
  Two gaps in the subtitle rules. The second line of a WebVTT header block of an accepted file
  is classified as cue text and is offered for translation. A SubRip file with two blank lines
  between its cues is rejected, although the scan for warnings skips any number of blank lines
  and accepts the file.
\<close>

lemma subtitle_rules_disagree:
  "validate_subtitle WebVtt demo_vtt = Ok () \<and>
   subtitle_line_kinds WebVtt demo_vtt = [True, True, False, True, True, False] \<and>
   validate_subtitle Srt demo_gap = Err InvalidStructure \<and>
   subtitle_warnings Srt demo_gap DEFAULT_SUBTITLE_MAX_LINE_CHARS DEFAULT_SUBTITLE_MAX_READING_SPEED = Ok []"
proof (intro conjI)
  show "validate_subtitle WebVtt demo_vtt = Ok ()" by code_simp
  show "subtitle_line_kinds WebVtt demo_vtt = [True, True, False, True, True, False]" by code_simp
  show "validate_subtitle Srt demo_gap = Err InvalidStructure" by code_simp
  show "subtitle_warnings Srt demo_gap DEFAULT_SUBTITLE_MAX_LINE_CHARS
      DEFAULT_SUBTITLE_MAX_READING_SPEED = Ok []" by code_simp
qed

end
