(* ===== verification/Html_Document.thy ===== *)
theory Html_Document
  imports Document_Base
begin

text \<open>
  The HTML part of \<open>crates/linguamesh-document/src/lib.rs\<close>: the tag scanner, the tokenizer with its
  stack of open elements, the escaping of translated text and the segmentation. The source keeps
  absolute offsets and reads \<open>text[cursor..]\<close>; the scanners here take that rest of the text and
  give offsets relative to it, the tokenizer's loop adds the cursor.
\<close>

section \<open>Tags\<close>

definition MAX_HTML_SEGMENTS :: nat where "MAX_HTML_SEGMENTS = 10000"

definition HTML_VOID_TAGS :: "string list" where
  "HTML_VOID_TAGS = [''area'', ''base'', ''br'', ''col'', ''embed'', ''hr'', ''img'', ''input'', ''link'',
     ''meta'', ''param'', ''source'', ''track'', ''wbr'']"

definition HTML_RAW_TEXT_TAGS :: "string list" where
  "HTML_RAW_TEXT_TAGS = [''script'', ''style'']"

record HtmlToken =
  token_start :: nat
  token_end :: nat
  translatable :: bool

fun tag_scan :: "char option \<Rightarrow> string \<Rightarrow> nat option" where
  "tag_scan q [] = None"
| "tag_scan (Some expected) (b # bs) =
     map_option Suc (tag_scan (if b = expected then None else Some expected) bs)"
| "tag_scan None (b # bs) =
     (if b = CHR 0x22 \<or> b = CHR 0x27 then map_option Suc (tag_scan (Some b) bs)
      else if b = CHR ''>'' then Some 1
      else map_option Suc (tag_scan None bs))"

text \<open>\<open>html_tag_end(text, start)\<close> skips the byte at \<open>start\<close>.\<close>

definition html_tag_end :: "string \<Rightarrow> DocumentError + nat" where
  "html_tag_end rest = ok_or InvalidStructure (map_option Suc (tag_scan None (drop 1 rest)))"

fun find_ignoring_case :: "string \<Rightarrow> string \<Rightarrow> nat option" where
  "find_ignoring_case p [] = None"
| "find_ignoring_case p (b # bs) =
     (if eq_ignore_ascii_case (take (length p) (b # bs)) p then Some 0
      else map_option Suc (find_ignoring_case p bs))"

definition html_find_case_insensitive :: "string \<Rightarrow> string \<Rightarrow> nat option" where
  "html_find_case_insensitive rest p =
     (if p = [] \<or> rest = [] \<or> length p > length rest then None else find_ignoring_case p rest)"

definition is_ascii_whitespace :: "char \<Rightarrow> bool" where
  "is_ascii_whitespace b \<longleftrightarrow> b \<in> {CHR 0x20, CHR 0x09, CHR 0x0A, CHR 0x0C, CHR 0x0D}"

text \<open>The element name, whether it is a closing tag, whether it closes itself.\<close>

definition html_tag_name :: "string \<Rightarrow> DocumentError + (string option \<times> bool \<times> bool)" where
  "html_tag_name raw =
     (let body = trim (take (length raw - 2) (drop 1 raw)) in
      if body = [] then Err InvalidStructure
      else let closing = prefix ''/'' body;
               body = (if closing then trim_start (drop 1 body) else body) in
      if prefix ''!'' body \<or> prefix ''?'' body then Ok (None, closing, False)
      else let self_closing = (\<not> closing \<and> suffix ''/'' (trim_end body));
               name = takeWhile (\<lambda>b. \<not> (is_ascii_whitespace b \<or> b = CHR ''/'' \<or> b = CHR ''>'')) body in
      if name = [] \<or> \<not> list_all (\<lambda>b. is_ascii_alphanumeric b \<or> b = CHR ''-'' \<or> b = CHR '':'') name
      then Err InvalidStructure
      else Ok (Some (to_ascii_lowercase name), closing, self_closing))"

section \<open>The tokenizer\<close>

text \<open>The stack of open elements, the innermost first.\<close>

definition html_stack ::
  "string option \<times> bool \<times> bool \<Rightarrow> string list \<Rightarrow> DocumentError + string list" where
  "html_stack tag stack = (case tag of
       (None, _, _) \<Rightarrow> Ok stack
     | (Some name, closing, self_closing) \<Rightarrow>
        (if closing then
           (case stack of [] \<Rightarrow> Err InvalidStructure
            | inner # below \<Rightarrow> if inner \<noteq> name then Err InvalidStructure else Ok below)
         else if \<not> self_closing \<and> name \<notin> set HTML_VOID_TAGS then Ok (name # stack)
         else Ok stack))"

text \<open>
  One round of the loop on the text from the cursor on: the length of the token, whether it is
  translatable, the stack after it, and whether it is a text node (only those are counted
  against the limit).
\<close>

definition markup_token :: "string \<Rightarrow> string list \<Rightarrow> DocumentError + (nat \<times> bool \<times> string list \<times> bool)" where
  "markup_token rest stack =
     (if prefix ''<!--'' rest then
        (case str_find ''-->'' (drop 4 rest) of
           None \<Rightarrow> Err InvalidStructure
         | Some offset \<Rightarrow> Ok (4 + offset + 3, False, stack, False))
      else
        and_then (html_tag_end rest) (\<lambda>n.
        and_then (html_tag_name (take n rest)) (\<lambda>tag.
        and_then (html_stack tag stack) (\<lambda>stack'. Ok (n, False, stack', False)))))"

definition text_token :: "string \<Rightarrow> string list \<Rightarrow> nat \<times> bool \<times> string list \<times> bool" where
  "text_token rest stack =
     (let n = (case str_find ''<'' rest of None \<Rightarrow> length rest | Some offset \<Rightarrow> offset);
          inside_raw_text = list_ex (\<lambda>tag. tag \<in> set HTML_RAW_TEXT_TAGS) stack in
      (n, \<not> inside_raw_text \<and> list_ex (\<lambda>c. \<not> is_whitespace c) (chars (take n rest)), stack, True))"

definition raw_text_end :: "string \<Rightarrow> string list \<Rightarrow> DocumentError + nat" where
  "raw_text_end rest stack =
     (if stack \<noteq> [] \<and> hd stack \<in> set HTML_RAW_TEXT_TAGS
      then ok_or InvalidStructure (html_find_case_insensitive rest (''</'' @ hd stack))
      else Ok 0)"

definition html_token :: "string \<Rightarrow> string list \<Rightarrow> DocumentError + (nat \<times> bool \<times> string list \<times> bool)" where
  "html_token rest stack =
     and_then (raw_text_end rest stack) (\<lambda>close.
     if close > 0 then Ok (close, False, stack, False)
     else if prefix ''<'' rest then markup_token rest stack
     else Ok (text_token rest stack))"

lemma html_tag_end_bounds:
  assumes "html_tag_end rest = Ok n"
  shows "0 < n \<and> n \<le> length rest"
proof -
  have "tag_scan q s = Some k \<Longrightarrow> k \<le> length s" for q s k
    by (induction q s arbitrary: k rule: tag_scan.induct) (auto split: if_splits)
  with assms show ?thesis
    by (cases rest) (fastforce simp: html_tag_end_def ok_or_Inr)+
qed

lemma find_ignoring_case_bounds: "find_ignoring_case p s = Some k \<Longrightarrow> k \<le> length s"
  by (induction s arbitrary: k) (auto split: if_splits)

lemma html_token_advances:
  assumes "html_token rest stack = Ok (n, tr, stack', is_text)" "rest \<noteq> []"
  shows "0 < n \<and> n \<le> length rest"
proof -
  have m: "0 < n \<and> n \<le> length rest" if "markup_token rest stack = Ok (n, tr, stack', is_text)"
    using that html_tag_end_bounds [of rest n]
    by (auto simp: markup_token_def and_then_Inr dest!: str_find_SomeD prefix_length_le
        split: if_splits option.splits)
  have t: "0 < n \<and> n \<le> length rest"
    if "text_token rest stack = (n, tr, stack', is_text)" "\<not> prefix ''<'' rest"
  proof (cases "str_find ''<'' rest")
    case None
    with that assms(2) show ?thesis by (auto simp: text_token_def Let_def)
  next
    case (Some k)
    from str_find_SomeD [OF Some] that(2) have "0 < k" by (cases k) auto
    with Some that(1) str_find_SomeD [OF Some] show ?thesis by (auto simp: text_token_def Let_def)
  qed
  from assms(1) m t show ?thesis
    by (auto simp: html_token_def raw_text_end_def and_then_Inr html_find_case_insensitive_def ok_or_Inr
        dest: find_ignoring_case_bounds split: if_splits)
qed

function html_loop :: "string \<Rightarrow> nat \<Rightarrow> string list \<Rightarrow> nat \<Rightarrow> DocumentError + HtmlToken list" where
  "html_loop src cursor stack tcount =
     (if cursor < length src then
        (case html_token (drop cursor src) stack of
           Err e \<Rightarrow> Err e
         | Ok (n, tr, stack', is_text) \<Rightarrow>
            (if is_text \<and> tcount + 1 > MAX_HTML_SEGMENTS then Err InvalidStructure
             else and_then (html_loop src (cursor + n) stack' (tcount + 1)) (\<lambda>ts.
                  Ok (\<lparr>token_start = cursor, token_end = cursor + n, translatable = tr\<rparr> # ts))))
      else if stack \<noteq> [] then Err InvalidStructure else Ok [])"
  by pat_completeness auto
termination
proof (relation "measure (\<lambda>(s, cursor, _). length s - cursor)")
  fix src cursor stack tcount b x y xa ya xb yb
  assume h: "cursor < length (src :: string)" "html_token (drop cursor src) stack = Ok b"
    "(x, y) = b" "(xa, ya) = y" "(xb, yb) = ya"
  then have "0 < x" using html_token_advances [of "drop cursor src" stack x xa xb yb] by auto
  with h(1) show "((src, cursor + x, xb, tcount + 1), src, cursor, stack, tcount)
      \<in> measure (\<lambda>(s, cursor, _). length s - cursor)" by simp
qed simp

declare html_loop.simps [simp del]

definition parse_html_tokens :: "string \<Rightarrow> DocumentError + HtmlToken list" where
  "parse_html_tokens src = (if src = [] then Err InvalidStructure else html_loop src 0 [] 0)"

definition encode_html_text :: "string \<Rightarrow> string" where
  "encode_html_text translated =
     replace_char (CHR ''>'') ''&gt;'' (replace_char (CHR ''<'') ''&lt;''
       (replace_char (CHR ''&'') ''&amp;'' translated))"

text \<open>The segments of \<open>from_html_text\<close>.\<close>

definition html_segment :: "string \<Rightarrow> nat \<Rightarrow> HtmlToken \<Rightarrow> DocumentSegment" where
  "html_segment src index tok =
     new_segment index (if translatable tok then Prose else Verbatim)
       (take (token_end tok - token_start tok) (drop (token_start tok) src)) []"

definition html_segments :: "string \<Rightarrow> DocumentError + DocumentSegment list" where
  "html_segments src =
     and_then (parse_html_tokens src) (\<lambda>ts. Ok (map (\<lambda>(i, t). html_segment src i t) (enumerate 0 ts)))"

section \<open>Runs of the tokenizer\<close>

definition token_text :: "string \<Rightarrow> HtmlToken \<Rightarrow> string" where
  "token_text src t = take (token_end t - token_start t) (drop (token_start t) src)"

text \<open>A run over a text given as its tokens, each with its flag: the loop without offsets.\<close>

inductive html_run :: "string list \<Rightarrow> nat \<Rightarrow> (string \<times> bool) list \<Rightarrow> bool" where
  run_end: "html_run [] n []"
| run_token: "tok \<noteq> [] \<Longrightarrow>
    html_token (tok @ concat (map fst ps)) stack = Ok (length tok, tr, stack', is_text) \<Longrightarrow>
    \<not> (is_text \<and> n + 1 > MAX_HTML_SEGMENTS) \<Longrightarrow> html_run stack' (n + 1) ps \<Longrightarrow>
    html_run stack n ((tok, tr) # ps)"

inductive_cases html_run_ConsE: "html_run stack n ((tok, tr) # ps)"

lemma html_loop_run:
  "html_loop src cursor stack n = Ok ts \<Longrightarrow> cursor \<le> length src \<Longrightarrow>
     html_run stack n (map (\<lambda>t. (token_text src t, translatable t)) ts) \<and>
     concat (map (token_text src) ts) = drop cursor src"
proof (induction src cursor stack n arbitrary: ts rule: html_loop.induct)
  case (1 src cursor stack n)
  show ?case
  proof (cases "cursor < length src")
    case False
    with "1.prems" show ?thesis
      by (auto simp: html_loop.simps [of src cursor] intro: html_run.run_end split: if_splits)
  next
    case True
    with "1.prems" obtain k tr stack' is_text ts' where
      tok: "html_token (drop cursor src) stack = Ok (k, tr, stack', is_text)"
      and lim: "\<not> (is_text \<and> n + 1 > MAX_HTML_SEGMENTS)"
      and rest: "html_loop src (cursor + k) stack' (n + 1) = Ok ts'"
      and ts: "ts = \<lparr>token_start = cursor, token_end = cursor + k, translatable = tr\<rparr> # ts'"
      by (auto simp: html_loop.simps [of src cursor] and_then_Inr split: sum.splits if_splits)
    from html_token_advances [OF tok] True have k: "0 < k" "cursor + k \<le> length src" by auto
    from "1.IH" [OF True tok refl refl refl lim rest] k
    have IH: "html_run stack' (n + 1) (map (\<lambda>t. (token_text src t, translatable t)) ts')"
      "concat (map (token_text src) ts') = drop (cursor + k) src" by auto
    have split: "drop cursor src = take k (drop cursor src) @ drop (cursor + k) src"
      by (metis add.commute append_take_drop_id drop_drop)
    let ?ps = "map (\<lambda>t. (token_text src t, translatable t)) ts'"
    have ps: "concat (map fst ?ps) = drop (cursor + k) src" using IH(2) by (simp add: comp_def)
    have first: "token_text src (hd ts) = take k (drop cursor src)" by (simp add: ts token_text_def)
    have "html_run stack n ((take k (drop cursor src), tr) # ?ps)"
    proof (rule html_run.run_token)
      show "take k (drop cursor src) \<noteq> []" using k True by simp
      show "html_token (take k (drop cursor src) @ concat (map fst ?ps)) stack =
          Ok (length (take k (drop cursor src)), tr, stack', is_text)"
        using tok split ps k by (simp del: append_take_drop_id)
    qed (use lim IH(1) in simp_all)
    with first IH(2) split show ?thesis by (simp add: ts)
  qed
qed

lemma html_run_loop:
  "html_run stack n ps \<Longrightarrow> drop cursor src = concat (map fst ps) \<Longrightarrow> cursor \<le> length src \<Longrightarrow>
     \<exists>ts. html_loop src cursor stack n = Ok ts \<and>
       map (\<lambda>t. (token_text src t, translatable t)) ts = ps"
proof (induction arbitrary: cursor rule: html_run.induct)
  case (run_end n)
  then show ?case by (simp add: html_loop.simps)
next
  case (run_token tok ps stack tr stack' is_text n)
  have cur: "cursor < length src" using run_token.prems run_token.hyps(1) by (cases "cursor < length src") auto
  have len: "cursor + length tok \<le> length src"
    using arg_cong [OF run_token.prems(1), of length] cur by simp
  have "drop (cursor + length tok) src = concat (map fst ps)"
    using run_token.prems(1) by (metis add.commute append_eq_conv_conj drop_drop fst_conv list.map(2) concat.simps(2))
  from run_token.IH [OF this len] obtain ts where
    ts: "html_loop src (cursor + length tok) stack' (n + 1) = Ok ts"
    "map (\<lambda>t. (token_text src t, translatable t)) ts = ps" by blast
  have "html_token (drop cursor src) stack = Ok (length tok, tr, stack', is_text)"
    using run_token.hyps(2) run_token.prems(1) by simp
  with ts cur run_token.hyps(3) run_token.prems(1) show ?case
    by (simp add: html_loop.simps [of src cursor] token_text_def)
qed

interpretation html: segmenter html_segments
proof
  fix src ss
  assume "html_segments src = Ok ss"
  then obtain ts where ts: "html_loop src 0 [] 0 = Ok ts"
    and ss: "ss = map (\<lambda>(i, t). html_segment src i t) (enumerate 0 ts)"
    by (auto simp: html_segments_def parse_html_tokens_def and_then_Inr split: if_splits)
  have "map (\<lambda>s. seg_source s @ seg_ending s) ss = map (token_text src) ts"
    unfolding ss by (auto simp: html_segment_def token_text_def enumerate_eq_zip intro!: nth_equalityI)
  with html_loop_run [OF ts] show "segments_text ss = src"
    unfolding segments_text_def by simp
  show "map seg_index ss = [0..<length ss]"
    unfolding ss by (auto simp: html_segment_def enumerate_eq_zip intro!: nth_equalityI)
  show "seg_translated s = None" if "s \<in> set ss" for s
    using that unfolding ss by (auto simp: html_segment_def)
qed

section \<open>Tokens do not depend on the text after them\<close>

lemma tag_scan_local:
  "tag_scan q (a @ r) = Some (length a) \<Longrightarrow> tag_scan q (a @ r') = Some (length a)"
proof (induction q a rule: tag_scan.induct)
  case (1 q)
  have "tag_scan q s \<noteq> Some 0" for s by (induction q s rule: tag_scan.induct) auto
  with 1 show ?case by auto
qed (auto split: if_splits)

lemma tag_scan_last: "tag_scan q s = Some k \<Longrightarrow> 0 < k \<and> k \<le> length s \<and> s ! (k - 1) = CHR ''>''"
  by (induction q s arbitrary: k rule: tag_scan.induct) (auto simp: nth_Cons' split: if_splits)

lemma html_tag_end_local:
  assumes "html_tag_end (tok @ r) = Ok (length tok)" "tok \<noteq> []"
  shows "html_tag_end (tok @ r') = Ok (length tok) \<and> last tok = CHR ''>'' \<and> 2 \<le> length tok"
proof -
  from assms(2) obtain b bs where tok: "tok = b # bs" by (cases tok) auto
  with assms(1) have s: "tag_scan None (bs @ r) = Some (length bs)" by (auto simp: html_tag_end_def ok_or_Inr)
  from tag_scan_last [OF s] have "bs \<noteq> []" "last bs = CHR ''>''"
    by (auto simp: nth_append last_conv_nth)
  with tag_scan_local [OF s, of r'] show ?thesis
    by (cases bs) (simp_all add: tok html_tag_end_def)
qed

lemma str_find_local:
  assumes "str_find p (a @ r) = Some i" "i + length p \<le> length a"
  shows "str_find p (a @ r') = Some i"
proof (rule str_find_eq_SomeI)
  note f = str_find_SomeD [OF assms(1)]
  have move: "prefix p (drop j (a @ r'')) \<longleftrightarrow> prefix p (drop j a)" if "j \<le> i" for j r''
    using that assms(2) by (auto intro: prefix_append_shorter)
  show "prefix p (drop i (a @ r'))" using f move [of i] by blast
  show "\<not> prefix p (drop j (a @ r'))" if "j < i" for j
    using f that move [of j r] move [of j r'] by auto
  show "i \<le> length (a @ r')" using assms(2) by simp
qed

lemma take_append_cong:
  assumes "take m r = take m r'" "n \<le> m + length x"
  shows "take n (x @ r) = take n (x @ r')"
proof -
  have "take (n - length x) s = take (n - length x) (take m s)" for s :: "'a list"
  proof -
    have "n - length x \<le> m" using assms(2) by simp
    then show ?thesis by (simp add: min.absorb1)
  qed
  from this [of r] this [of r'] assms(1) show ?thesis by simp
qed

lemma find_ignoring_case_local:
  "find_ignoring_case p (a @ r) = Some (length a) \<Longrightarrow> take (length p) r = take (length p) r' \<Longrightarrow>
     r' \<noteq> [] \<Longrightarrow> find_ignoring_case p (a @ r') = Some (length a)"
proof (induction a)
  case Nil
  then show ?case by (cases r; cases r') (auto split: if_splits)
next
  case (Cons b a)
  have "take (length p) (b # a @ r) = take (length p) (b # a @ r')"
    using take_append_cong [OF Cons.prems(2), of "length p" "b # a"] by simp
  with Cons show ?case by (auto split: if_splits)
qed

lemma html_find_local:
  assumes "html_find_case_insensitive (a @ r) p = Some (length a)"
    and "take (length p) r = take (length p) r'" "length p \<le> length r'"
  shows "html_find_case_insensitive (a @ r') p = Some (length a)"
  using assms find_ignoring_case_local [of p a r r']
  by (cases "r' = []") (auto simp: html_find_case_insensitive_def split: if_splits)

lemma find_ignoring_case_match:
  "find_ignoring_case p s = Some i \<Longrightarrow> eq_ignore_ascii_case (take (length p) (drop i s)) p"
  by (induction s arbitrary: i) (auto split: if_splits)

text \<open>The end tag that follows raw text is at least as long as the text that was searched for.\<close>

lemma raw_tags: "raw \<in> set HTML_RAW_TEXT_TAGS \<Longrightarrow> CHR ''>'' \<notin> set (''</'' @ raw)"
  by (auto simp: HTML_RAW_TEXT_TAGS_def)

lemma lower_symbol:
  assumes "to_ascii_lower b = to_ascii_lower c" "\<not> is_ascii_alphanumeric c"
  shows "b = c"
proof (rule ccontr)
  assume "b \<noteq> c"
  with assms have up: "is_ascii_uppercase b" "char_of (byte b + 32) = c"
    by (auto simp: to_ascii_lower_def is_ascii_alphanumeric_def split: if_splits)
  then have "byte c = byte b + 32" by (auto simp: is_ascii_uppercase_def)
  with up(1) assms(2) show False
    by (auto simp: is_ascii_uppercase_def is_ascii_alphanumeric_def is_ascii_lowercase_def)
qed

lemma end_tag_covers:
  assumes "eq_ignore_ascii_case (take (length p) (tok @ r)) p" "CHR ''>'' \<notin> set p"
    and "last tok = CHR ''>''" "tok \<noteq> []"
  shows "length p \<le> length tok"
proof (rule ccontr)
  assume short: "\<not> length p \<le> length tok"
  let ?i = "length tok - 1"
  from assms(1) have low: "map to_ascii_lower (take (length p) (tok @ r)) = map to_ascii_lower p"
    by (simp add: eq_ignore_ascii_case_def to_ascii_lowercase_def)
  have i: "?i < length tok" "?i < length p" using assms(4) short by (cases tok; simp)+
  then have "to_ascii_lower (p ! ?i) = to_ascii_lower (CHR ''>'')"
    using arg_cong [OF low, of "\<lambda>s. s ! ?i"] arg_cong [OF low, of length] assms(3,4)
    by (simp add: nth_append last_conv_nth)
  then have "p ! ?i = CHR ''>''" by (rule lower_symbol) code_simp
  with i assms(2) show False by (metis nth_mem)
qed

lemma markup_token_local:
  assumes "markup_token (tok @ r) stack = Ok (length tok, tr, stack', is_text)" "tok \<noteq> []"
  shows "markup_token (tok @ r') stack = Ok (length tok, tr, stack', is_text) \<and> \<not> tr \<and>
    (prefix ''<!--'' (tok @ r) \<or> last tok = CHR ''>'')"
proof (cases "prefix ''<!--'' (tok @ r)")
  case True
  with assms(1) obtain i where i: "str_find ''-->'' (drop 4 (tok @ r)) = Some i" "4 + i + 3 = length tok"
    and eqs: "\<not> tr" "stack' = stack" "\<not> is_text"
    by (auto simp: markup_token_def split: option.splits)
  have "prefix ''<!--'' tok" using True i(2) by (intro prefix_append_shorter [OF True]) simp
  then have "prefix ''<!--'' (tok @ r')" by (rule prefix_prefix)
  moreover have "str_find ''-->'' (drop 4 tok @ r') = Some i"
  proof (rule str_find_local)
    have "4 \<le> length tok" using i(2) by linarith
    then show "str_find ''-->'' (drop 4 tok @ r) = Some i" using i(1) by simp
    show "i + length ''-->'' \<le> length (drop 4 tok)" using i(2) by simp
  qed
  ultimately show ?thesis using True i(2) eqs by (simp add: markup_token_def)
next
  case False
  with assms(1) obtain tag where tag: "html_tag_end (tok @ r) = Ok (length tok)"
    "html_tag_name tok = Ok tag" "html_stack tag stack = Ok stack'" "\<not> tr" "\<not> is_text"
    by (auto simp: markup_token_def and_then_Inr)
  from html_tag_end_local [OF tag(1) assms(2), of r']
  have e: "html_tag_end (tok @ r') = Ok (length tok)" "last tok = CHR ''>''" by blast+
  have "\<not> prefix ''<!--'' (tok @ r')"
  proof
    assume p: "prefix ''<!--'' (tok @ r')"
    have "prefix tok ''<!--'' \<or> prefix ''<!--'' tok" using p by (metis prefixI prefix_same_cases)
    moreover have "\<not> prefix ''<!--'' tok" using False by (auto intro: prefix_prefix)
    moreover have "last tok \<in> set ''<!--''" if "prefix tok ''<!--''"
      using that assms(2) by (meson last_in_set set_mono_prefix subsetD)
    ultimately show False using e(2) by auto
  qed
  with e tag show ?thesis by (simp add: markup_token_def)
qed

lemma html_run_starts:
  assumes "html_run stack n ps" "prefix ''<'' (concat (map fst ps))"
  obtains tok ps' where "ps = (tok, False) # ps'" "prefix ''<'' tok"
proof -
  from assms(2) obtain tok tr ps' where ps: "ps = (tok, tr) # ps'" by (cases ps) auto
  from assms(1) [unfolded ps] obtain stack' is_text where
    tok: "tok \<noteq> []" "html_token (tok @ concat (map fst ps')) stack = Ok (length tok, tr, stack', is_text)"
    by (auto elim: html_run_ConsE)
  have "prefix ''<'' tok" using assms(2) tok(1) unfolding ps by (cases tok) auto
  moreover have "\<not> tr"
  proof -
    have lt: "prefix ''<'' (tok @ concat (map fst ps'))" using assms(2) unfolding ps by simp
    from tok(2) have "\<not> tr \<or>
        markup_token (tok @ concat (map fst ps')) stack = Ok (length tok, tr, stack', is_text)"
      by (cases "raw_text_end (tok @ concat (map fst ps')) stack")
        (simp_all add: html_token_def lt split: if_split_asm)
    then show ?thesis using markup_token_local [OF _ tok(1)] by blast
  qed
  ultimately show ?thesis using that ps by simp
qed

definition retexted :: "string \<times> bool \<Rightarrow> string \<times> bool \<Rightarrow> bool" where
  "retexted p q \<longleftrightarrow> (if snd p
     then fst q \<noteq> [] \<and> CHR ''<'' \<notin> set (fst q) \<and>
          snd q = list_ex (\<lambda>c. \<not> is_whitespace c) (chars (fst q))
     else fst q = fst p \<and> \<not> snd q)"

lemma retexted_starts:
  assumes "html_run stack n ps" "list_all2 retexted ps qs" "prefix ''<'' (concat (map fst ps))"
  shows "prefix ''<'' (concat (map fst qs))"
proof -
  from html_run_starts [OF assms(1,3)] obtain tok ps' where ps: "ps = (tok, False) # ps'" "prefix ''<'' tok" .
  with assms(2) obtain q qs' where "qs = q # qs'" "fst q = tok"
    by (auto simp: list_all2_Cons1 retexted_def)
  with ps(2) show ?thesis by (simp add: prefix_prefix)
qed

text \<open>Text up to the next tag.\<close>

lemma str_find_lt:
  assumes "CHR ''<'' \<notin> set u" "r = [] \<or> prefix ''<'' r"
  shows "(case str_find ''<'' (u @ r) of None \<Rightarrow> length (u @ r) | Some k \<Rightarrow> k) = length u"
  using assms by (cases r; induction u) (auto split: option.splits)

lemma text_token_run:
  assumes "text_token (tok @ r) stack = (length tok, tr, stack', is_text)"
  shows "CHR ''<'' \<notin> set tok \<and> (r = [] \<or> prefix ''<'' r)"
proof (cases "str_find ''<'' (tok @ r)")
  case None
  then have "\<not> contains (tok @ r) ''<''" by (simp add: contains_def)
  then have "CHR ''<'' \<notin> set (tok @ r)"
    unfolding contains_iff by (metis append_Cons append_Nil split_list)
  with None assms show ?thesis by (auto simp: text_token_def Let_def)
next
  case (Some k)
  with assms have k: "k = length tok" by (auto simp: text_token_def Let_def)
  note f = str_find_SomeD [OF Some]
  have "tok ! i \<noteq> CHR ''<''" if "i < length tok" for i
  proof -
    have "drop i (tok @ r) = tok ! i # drop (Suc i) (tok @ r)"
      using that by (metis Cons_nth_drop_Suc length_append nth_append trans_less_add1)
    moreover have "\<not> prefix ''<'' (drop i (tok @ r))" using f that k by blast
    ultimately show ?thesis by auto
  qed
  then have "CHR ''<'' \<notin> set tok" by (metis in_set_conv_nth)
  with f k show ?thesis by auto
qed

text \<open>Where the end tag of a raw text element begins.\<close>

lemma raw_head:
  assumes "eq_ignore_ascii_case (take (length p) s) p" "p = ''</'' @ raw"
  shows "length p \<le> length s \<and> (\<exists>s'. s = CHR ''<'' # CHR ''/'' # s')"
proof -
  from assms(1) have low: "map to_ascii_lower (take (length p) s) = map to_ascii_lower p"
    by (simp add: eq_ignore_ascii_case_def to_ascii_lowercase_def)
  have len: "length p \<le> length s" using arg_cong [OF low, of length] by simp
  then obtain a b s' where s: "s = a # b # s'" using assms(2) by (cases s; cases "tl s") auto
  from low s assms(2) have "to_ascii_lower a = to_ascii_lower (CHR ''<'')"
    "to_ascii_lower b = to_ascii_lower (CHR ''/'')" by simp_all
  moreover have "\<not> is_ascii_alphanumeric (CHR ''<'')" "\<not> is_ascii_alphanumeric (CHR ''/'')"
    by code_simp+
  ultimately show ?thesis using len s lower_symbol by blast
qed

lemma html_find_0:
  assumes "eq_ignore_ascii_case (take (length p) s) p" "p = ''</'' @ raw"
  shows "html_find_case_insensitive s p = Some 0"
  using raw_head [OF assms] assms by (auto simp: html_find_case_insensitive_def)

lemma html_find_match:
  "html_find_case_insensitive s p = Some i \<Longrightarrow> eq_ignore_ascii_case (take (length p) (drop i s)) p"
  by (simp add: html_find_case_insensitive_def find_ignoring_case_match split: if_split_asm)

lemma end_tag_long:
  assumes raw: "raw \<in> set HTML_RAW_TEXT_TAGS" and p: "p = ''</'' @ raw"
    and m: "eq_ignore_ascii_case (take (length p) (tok @ r)) p"
    and tok: "tok \<noteq> []" "markup_token (tok @ r) stack = Ok (length tok, tr, stack', is_text)"
  shows "length p \<le> length tok"
proof -
  have "\<not> prefix ''<!--'' (tok @ r)" using raw_head [OF m p] by auto
  with markup_token_local [OF tok(2,1)] have "last tok = CHR ''>''" by blast
  with end_tag_covers [OF m] raw_tags [OF raw] tok(1) p show ?thesis by blast
qed

lemma raw_next:
  assumes "html_run stack n ps" "stack \<noteq> []" and raw: "hd stack \<in> set HTML_RAW_TEXT_TAGS"
    and p: "p = ''</'' @ hd stack"
    and m: "eq_ignore_ascii_case (take (length p) (concat (map fst ps))) p"
  obtains tok ps' where "ps = (tok, False) # ps'" "length p \<le> length tok"
proof -
  have "prefix ''<'' (concat (map fst ps))" using raw_head [OF m p] by auto
  from html_run_starts [OF assms(1) this] obtain tok ps' where ps: "ps = (tok, False) # ps'" .
  from assms(1) [unfolded ps] obtain stack' is_text where
    tok: "tok \<noteq> []" "html_token (tok @ concat (map fst ps')) stack = Ok (length tok, False, stack', is_text)"
    by (auto elim: html_run_ConsE)
  have m': "eq_ignore_ascii_case (take (length p) (tok @ concat (map fst ps'))) p" using m by (simp add: ps)
  have "prefix ''<'' (tok @ concat (map fst ps'))" using raw_head [OF m' p] by auto
  with tok(2) html_find_0 [OF m' p] assms(2) raw p
  have "markup_token (tok @ concat (map fst ps')) stack = Ok (length tok, False, stack', is_text)"
    by (simp add: html_token_def raw_text_end_def)
  from end_tag_long [OF raw p m' tok(1) this] that ps show ?thesis by blast
qed

lemma raw_text_local:
  assumes "stack \<noteq> []" "hd stack \<in> set HTML_RAW_TEXT_TAGS" "p = ''</'' @ hd stack"
    and find: "html_find_case_insensitive (tok @ concat (map fst ps)) p = Some (length tok)"
    and run: "html_run stack n ps" and qs: "list_all2 retexted ps qs"
  shows "html_find_case_insensitive (tok @ concat (map fst qs)) p = Some (length tok)"
proof -
  have "eq_ignore_ascii_case (take (length p) (concat (map fst ps))) p"
    using html_find_match [OF find] by simp
  from raw_next [OF run assms(1-3) this] obtain tok2 ps2 where
    ps: "ps = (tok2, False) # ps2" "length p \<le> length tok2" .
  with qs obtain q qs2 where q: "qs = q # qs2" "fst q = tok2"
    by (auto simp: list_all2_Cons1 retexted_def)
  show ?thesis
    by (rule html_find_local [OF find]) (use ps q in simp_all)
qed

lemma html_token_retext:
  assumes tok: "tok \<noteq> []" "html_token (tok @ concat (map fst ps)) stack = Ok (length tok, tr, stack', is_text)"
    and run: "html_run stack' n ps" and qs: "list_all2 retexted ps qs"
    and u: "retexted (tok, tr) (u, ur)"
  shows "html_token (u @ concat (map fst qs)) stack = Ok (length u, ur, stack', is_text)"
proof -
  let ?r = "concat (map fst ps)" and ?r' = "concat (map fst qs)"
  have markup: "markup_token (u @ ?r') stack = Ok (length u, ur, stack', is_text) \<and> u = tok"
    if "markup_token (tok @ ?r) stack = Ok (length tok, tr, stack', is_text)"
    using markup_token_local [OF that tok(1), of ?r'] u by (auto simp: retexted_def)
  have starts: "prefix ''<'' (tok @ s) \<longleftrightarrow> prefix ''<'' tok" for s using tok(1) by (cases tok) auto
  show ?thesis
  proof (cases "stack \<noteq> [] \<and> hd stack \<in> set HTML_RAW_TEXT_TAGS")
    case True
    let ?p = "''</'' @ hd stack"
    from tok(2) True obtain close where close: "html_find_case_insensitive (tok @ ?r) ?p = Some close"
      by (cases "html_find_case_insensitive (tok @ ?r) ?p") (simp_all add: html_token_def raw_text_end_def)
    show ?thesis
    proof (cases "close = 0")
      case False
      with tok(2) True close have e: "close = length tok" "\<not> tr" "stack' = stack" "\<not> is_text"
        by (simp_all add: html_token_def raw_text_end_def)
      have "html_find_case_insensitive (tok @ ?r') ?p = Some (length tok)"
        using raw_text_local [OF _ _ refl close [unfolded e(1)] run [unfolded e(3)] qs] True by blast
      with True e u tok(1) show ?thesis by (simp add: html_token_def raw_text_end_def retexted_def)
    next
      case 0: True
      have m: "eq_ignore_ascii_case (take (length ?p) (tok @ ?r)) ?p"
        using html_find_match [OF close] 0 by simp
      from raw_head [OF m refl] obtain s' where "tok @ ?r = CHR ''<'' # CHR ''/'' # s'" by blast
      then have "prefix ''<'' (tok @ ?r)" by (simp only: prefix_Cons) simp
      then have lt: "prefix ''<'' tok" by (simp only: starts)
      with tok(2) True close 0 have mk: "markup_token (tok @ ?r) stack = Ok (length tok, tr, stack', is_text)"
        by (simp add: html_token_def raw_text_end_def starts)
      have "length ?p \<le> length tok" using end_tag_long [OF _ refl m tok(1) mk] True by blast
      then have "html_find_case_insensitive (tok @ ?r') ?p = Some 0"
        using m by (intro html_find_0) simp_all
      moreover from markup [OF mk] have "markup_token (tok @ ?r') stack = Ok (length u, ur, stack', is_text)"
        "u = tok" by auto
      ultimately show ?thesis using True lt by (simp add: html_token_def raw_text_end_def starts)
    qed
  next
    case False
    then have raw: "raw_text_end s stack = Ok 0" for s by (auto simp: raw_text_end_def)
    show ?thesis
    proof (cases "prefix ''<'' tok")
      case True
      with tok(2) have "markup_token (tok @ ?r) stack = Ok (length tok, tr, stack', is_text)"
        by (simp add: html_token_def raw starts)
      from markup [OF this] have "markup_token (tok @ ?r') stack = Ok (length u, ur, stack', is_text)"
        "u = tok" by auto
      with True show ?thesis by (simp add: html_token_def raw starts)
    next
      case nomark: False
      with tok(2) have tx: "text_token (tok @ ?r) stack = (length tok, tr, stack', is_text)"
        by (simp add: html_token_def raw starts)
      from text_token_run [OF tx] have plain: "CHR ''<'' \<notin> set tok" "?r = [] \<or> prefix ''<'' ?r" by auto
      have plain_u: "CHR ''<'' \<notin> set u" "u \<noteq> []" using plain(1) u tok(1) by (auto simp: retexted_def split: if_splits)
      have "?r' = [] \<or> prefix ''<'' ?r'"
      proof (cases "ps = []")
        case False
        with run have "?r \<noteq> []" by (cases rule: html_run.cases) auto
        with plain(2) retexted_starts [OF run qs] show ?thesis by blast
      qed (use qs in simp)
      note n = str_find_lt [OF plain_u(1) this]
      have "\<not> prefix ''<'' (u @ ?r')" using plain_u by (cases u) auto
      moreover have "text_token (u @ ?r') stack = (length u, ur, stack', is_text)"
        using tx u n by (auto simp: text_token_def Let_def retexted_def split: if_splits)
      ultimately show ?thesis by (simp add: html_token_def raw)
    qed
  qed
qed

lemma html_run_retext: "html_run stack n ps \<Longrightarrow> list_all2 retexted ps qs \<Longrightarrow> html_run stack n qs"
proof (induction arbitrary: qs rule: html_run.induct)
  case (run_end n)
  then show ?case by (auto intro: html_run.run_end)
next
  case (run_token tok ps stack tr stack' is_text n)
  then obtain u ur qs' where qs: "qs = (u, ur) # qs'" "retexted (tok, tr) (u, ur)" "list_all2 retexted ps qs'"
    by (auto simp: list_all2_Cons1)
  moreover have "u \<noteq> []" using qs(2) run_token.hyps(1) by (auto simp: retexted_def split: if_splits)
  ultimately show ?case
    using html_token_retext [OF run_token.hyps(1,2,4) qs(3,2)] run_token.IH run_token.hyps(3)
    by (auto intro!: html_run.run_token)
qed

text \<open>
  Replacing the translatable segments of a document by texts without an opening angle bracket
  leaves the segmentation and every other segment as they were.
\<close>

lemma html_segments_retext:
  assumes "html_segments src = Ok ss"
    and "list_all2 (\<lambda>s out. if seg_kind s = Prose then out \<noteq> [] \<and> CHR ''<'' \<notin> set out
           else out = seg_source s) ss outs"
  obtains ss' where "html_segments (concat outs) = Ok ss'" "map seg_source ss' = outs"
    "length ss' = length ss" "\<forall>i < length ss. seg_kind (ss ! i) = Verbatim \<longrightarrow> seg_kind (ss' ! i) = Verbatim"
proof -
  from assms(1) obtain ts where src: "src \<noteq> []" and ts: "html_loop src 0 [] 0 = Ok ts"
    and ss: "ss = map (\<lambda>(i, t). html_segment src i t) (enumerate 0 ts)"
    by (auto simp: html_segments_def parse_html_tokens_def and_then_Inr split: if_splits)
  define ps where "ps = map (\<lambda>t. (token_text src t, translatable t)) ts"
  define qs where "qs = map2 (\<lambda>t out. (out, translatable t \<and> list_ex (\<lambda>c. \<not> is_whitespace c) (chars out))) ts outs"
  from html_loop_run [OF ts] have run: "html_run [] 0 ps" and cat: "concat (map fst ps) = src"
    by (simp_all add: ps_def comp_def)
  have len: "length outs = length ts" using list_all2_lengthD [OF assms(2)] by (simp add: ss)
  have "list_all2 retexted ps qs"
    using assms(2) len
    by (auto simp: list_all2_conv_all_nth ps_def qs_def ss retexted_def html_segment_def token_text_def
        enumerate_eq_zip)
  from html_run_retext [OF run this] have run': "html_run [] 0 qs" .
  have outs: "map fst qs = outs" using len by (auto simp: qs_def intro!: nth_equalityI)
  from html_run_loop [OF run', of 0 "concat outs"] obtain ts' where
    ts': "html_loop (concat outs) 0 [] 0 = Ok ts'"
    "map (\<lambda>t. (token_text (concat outs) t, translatable t)) ts' = qs" by (auto simp: outs)
  have len': "length ts' = length ts" using arg_cong [OF ts'(2), of length] len by (simp add: qs_def)
  have "concat outs \<noteq> []"
  proof -
    from cat src have "ps \<noteq> []" by auto
    then have "qs \<noteq> []" using len by (auto simp: ps_def qs_def)
    with run' show ?thesis unfolding outs [symmetric] by (cases rule: html_run.cases) auto
  qed
  with ts'(1) have segs: "html_segments (concat outs) =
      Ok (map (\<lambda>(i, t). html_segment (concat outs) i t) (enumerate 0 ts'))"
    by (simp add: html_segments_def parse_html_tokens_def)
  have nth: "token_text (concat outs) (ts' ! i) = outs ! i" "translatable (ts' ! i) \<longrightarrow> translatable (ts ! i)"
    if "i < length ts" for i
    using arg_cong [OF ts'(2), of "\<lambda>xs. xs ! i"] that len len' by (auto simp: qs_def)
  show ?thesis
    by (rule that [OF segs])
      (use nth len len' in \<open>auto simp: ss html_segment_def token_text_def enumerate_eq_zip intro!: nth_equalityI\<close>)
qed

end
