(* ===== verification/Csv_Document.thy ===== *)
theory Csv_Document
  imports Document_Base
begin

text \<open>
  The table part of \<open>crates/linguamesh-document/src/lib.rs\<close>: the choice of the delimiter, the
  record scanner that keeps every field as it is written, decoding and encoding of fields, the
  choice of the columns to translate and the segmentation.
\<close>

section \<open>The delimiter\<close>

definition CSV_DELIMITER_CANDIDATES :: "char list" where
  "CSV_DELIMITER_CANDIDATES = [CHR '','', CHR '';'', CHR 0x09, CHR ''|'']"

definition MAX_CSV_RECORDS :: nat where "MAX_CSV_RECORDS = 10000"
definition MAX_CSV_FIELDS :: nat where "MAX_CSV_FIELDS = 1024"
definition MAX_CSV_SEGMENTS :: nat where "MAX_CSV_SEGMENTS = 10000"

text \<open>The counters of the candidates over the first record, outside quotes.\<close>

definition count_delimiter :: "char \<Rightarrow> nat list \<Rightarrow> nat list" where
  "count_delimiter b counts = map2 (\<lambda>c n. if c = b then n + 1 else n) CSV_DELIMITER_CANDIDATES counts"

function delimiter_counts :: "bool \<Rightarrow> nat list \<Rightarrow> string \<Rightarrow> nat list" where
  "delimiter_counts in_quotes counts [] = counts"
| "delimiter_counts in_quotes counts (b # bs) =
     (if b = quote \<and> in_quotes \<and> prefix [quote] bs then delimiter_counts in_quotes counts (drop 1 bs)
      else if b = quote then delimiter_counts (\<not> in_quotes) counts bs
      else if (b = cr \<or> b = lf) \<and> \<not> in_quotes then counts
      else if \<not> in_quotes then delimiter_counts in_quotes (count_delimiter b counts) bs
      else delimiter_counts in_quotes counts bs)"
  by pat_completeness auto
termination
  by (relation "measure (\<lambda>(_, _, s). length s)") auto

text \<open>
  \<open>max_by_key(|(position, count)| (count, usize::MAX - position))\<close>: a largest counter, the first
  one of several.
\<close>

definition first_max :: "nat list \<Rightarrow> nat" where
  "first_max counts = hd (filter (\<lambda>i. list_all (\<lambda>n. n \<le> counts ! i) counts) [0..<length counts])"

definition detect_csv_delimiter :: "string \<Rightarrow> char" where
  "detect_csv_delimiter src =
     CSV_DELIMITER_CANDIDATES ! first_max (delimiter_counts False [0, 0, 0, 0] src)"

section \<open>Records\<close>

record CsvRecord =
  csv_row :: "string list"
  csv_ending :: string

definition csv_limits_exceeded :: "string list \<Rightarrow> CsvRecord list \<Rightarrow> bool" where
  "csv_limits_exceeded row recs \<longleftrightarrow> length row > MAX_CSV_FIELDS \<or> length recs \<ge> MAX_CSV_RECORDS"

text \<open>\<open>cur\<close> is \<open>text[field_start..index]\<close>, so \<open>index == field_start\<close> says that it is empty.\<close>

function csv_records_loop ::
  "char \<Rightarrow> string \<Rightarrow> CsvRecord list \<Rightarrow> string list \<Rightarrow> string \<Rightarrow> bool \<Rightarrow> bool \<Rightarrow>
     DocumentError + CsvRecord list" where
  "csv_records_loop d [] recs row cur in_quotes after_quote =
     (if in_quotes then Err InvalidStructure
      else if row \<noteq> [] \<or> cur \<noteq> [] \<or> recs = [] then
        (if csv_limits_exceeded (row @ [cur]) recs then Err InvalidStructure
         else Ok (recs @ [\<lparr>csv_row = row @ [cur], csv_ending = []\<rparr>]))
      else Ok recs)"
| "csv_records_loop d (b # bs) recs row cur in_quotes after_quote =
     (if b = quote \<and> in_quotes \<and> prefix [quote] bs
      then csv_records_loop d (drop 1 bs) recs row (cur @ [b, quote]) in_quotes after_quote
      else if b = quote \<and> in_quotes then csv_records_loop d bs recs row (cur @ [b]) False True
      else if b = quote \<and> cur = [] then csv_records_loop d bs recs row (cur @ [b]) True after_quote
      else if b = quote then Err InvalidStructure
      else if b = d \<and> \<not> in_quotes then csv_records_loop d bs recs (row @ [cur]) [] in_quotes False
      else if (b = cr \<or> b = lf) \<and> \<not> in_quotes then
        (if csv_limits_exceeded (row @ [cur]) recs then Err InvalidStructure
         else if b = cr \<and> prefix [lf] bs
         then csv_records_loop d (drop 1 bs)
                (recs @ [\<lparr>csv_row = row @ [cur], csv_ending = [cr, lf]\<rparr>]) [] [] in_quotes False
         else csv_records_loop d bs
                (recs @ [\<lparr>csv_row = row @ [cur], csv_ending = [b]\<rparr>]) [] [] in_quotes False)
      else if after_quote then Err InvalidStructure
      else csv_records_loop d bs recs row (cur @ [b]) in_quotes after_quote)"
  by pat_completeness auto
termination
  by (relation "measure (\<lambda>(_, s, _). length s)") auto

definition document_csv_records :: "string \<Rightarrow> char \<Rightarrow> DocumentError + CsvRecord list" where
  "document_csv_records src d =
     (if src = [] then Err InvalidStructure else csv_records_loop d src [] [] [] False False)"

section \<open>Fields\<close>

fun unescape_quotes :: "string \<Rightarrow> DocumentError + string" where
  "unescape_quotes [] = Ok []"
| "unescape_quotes (b # bs) =
     (if b = quote then
        (case bs of c # cs \<Rightarrow>
           if c = quote then and_then (unescape_quotes cs) (\<lambda>s. Ok (quote # s)) else Err InvalidStructure
         | [] \<Rightarrow> Err InvalidStructure)
      else and_then (unescape_quotes bs) (\<lambda>s. Ok (b # s)))"

definition decode_csv_field :: "string \<Rightarrow> char \<Rightarrow> DocumentError + string" where
  "decode_csv_field raw d =
     (if prefix [quote] raw then
        (if \<not> suffix [quote] raw \<or> length raw < 2 then Err InvalidStructure
         else unescape_quotes (butlast (tl raw)))
      else if quote \<in> set raw \<or> d \<in> set raw then Err InvalidStructure
      else Ok raw)"

definition encode_csv_field :: "string \<Rightarrow> string \<Rightarrow> char \<Rightarrow> string" where
  "encode_csv_field raw translated d =
     (if prefix [quote] raw \<or> d \<in> set translated \<or> quote \<in> set translated \<or>
         cr \<in> set translated \<or> lf \<in> set translated
      then [quote] @ replace_char quote [quote, quote] translated @ [quote]
      else translated)"

section \<open>Columns\<close>

definition looks_like_identifier_header :: "string \<Rightarrow> bool" where
  "looks_like_identifier_header header =
     (let normalized = to_ascii_lowercase (trim header) in
      normalized \<in> {''id'', ''key'', ''code'', ''uuid'', ''identifier'', ''number'', ''no''} \<or>
      suffix ''_id'' normalized \<or> suffix ''-id'' normalized \<or>
      suffix ''_key'' normalized \<or> suffix ''-key'' normalized)"

text \<open>
  \<open>parse::<f64>().is_ok()\<close>: an optional sign, then a special value in any case, or digits with at
  most one point and at least one digit, and an optional exponent.
\<close>

definition strip_sign :: "string \<Rightarrow> string" where
  "strip_sign s = (case s of b # bs \<Rightarrow> if b = CHR ''+'' \<or> b = CHR ''-'' then bs else s | [] \<Rightarrow> [])"

definition decimal_mantissa :: "string \<Rightarrow> bool" where
  "decimal_mantissa m = (case split_char (CHR ''.'') m of
       [a] \<Rightarrow> a \<noteq> [] \<and> list_all is_ascii_digit a
     | [a, b] \<Rightarrow> a @ b \<noteq> [] \<and> list_all is_ascii_digit (a @ b)
     | _ \<Rightarrow> False)"

definition parses_as_f64 :: "string \<Rightarrow> bool" where
  "parses_as_f64 s =
     (let v = strip_sign s;
          m = takeWhile (\<lambda>b. b \<noteq> CHR ''e'' \<and> b \<noteq> CHR ''E'') v;
          e = drop (length m) v in
      to_ascii_lowercase v \<in> {''inf'', ''infinity'', ''nan''} \<or>
      decimal_mantissa m \<and>
        (e = [] \<or> strip_sign (drop 1 e) \<noteq> [] \<and> list_all is_ascii_digit (strip_sign (drop 1 e))))"

definition max_columns :: "CsvRecord list \<Rightarrow> nat" where
  "max_columns recs = fold (\<lambda>r n. max (length (csv_row r)) n) recs 0"

definition decoded_cell :: "char \<Rightarrow> nat \<Rightarrow> CsvRecord \<Rightarrow> string option" where
  "decoded_cell d column r =
     (if column < length (csv_row r)
      then Some (case decode_csv_field (csv_row r ! column) d of Ok v \<Rightarrow> v | Err _ \<Rightarrow> [])
      else None)"

text \<open>The values of a column below the header, blank ones and missing ones left out.\<close>

definition column_values :: "char \<Rightarrow> CsvRecord list \<Rightarrow> nat \<Rightarrow> string list" where
  "column_values d recs column =
     filter (\<lambda>v. \<not> is_blank v) (List.map_filter (decoded_cell d column) (drop 1 recs))"

definition default_csv_columns :: "CsvRecord list \<Rightarrow> char \<Rightarrow> nat list" where
  "default_csv_columns recs d =
     filter (\<lambda>column.
       let header = (case recs of [] \<Rightarrow> [] | r # _ \<Rightarrow> (case decoded_cell d column r of None \<Rightarrow> [] | Some v \<Rightarrow> v));
           values = column_values d recs column in
       \<not> looks_like_identifier_header header \<and>
       (values = [] \<or> \<not> list_all (\<lambda>v. parses_as_f64 (trim v)) values))
       [0..<max_columns recs]"

definition csv_selection ::
  "CsvRecord list \<Rightarrow> char \<Rightarrow> nat list option \<Rightarrow> DocumentError + nat list" where
  "csv_selection recs d selected = (case selected of
       None \<Rightarrow> Ok (default_csv_columns recs d)
     | Some columns \<Rightarrow>
        (if \<not> distinct columns \<or> list_ex (\<lambda>c. c \<ge> max_columns recs) columns
         then Err InvalidStructure else Ok (sort columns)))"

section \<open>Segments\<close>

text \<open>
  The segments of one record, from index \<open>i\<close> on: a segment for each field, one for each delimiter
  between two fields, and the line ending at the last one.
\<close>

fun record_segments ::
  "nat list \<Rightarrow> char \<Rightarrow> nat \<Rightarrow> nat \<Rightarrow> string list \<Rightarrow> string \<Rightarrow> DocumentSegment list" where
  "record_segments sel d column i [] ending = []"
| "record_segments sel d column i [f] ending =
     [new_segment i (if column \<in> set sel then Prose else Verbatim) f ending]"
| "record_segments sel d column i (f # g # fs) ending =
     new_segment i (if column \<in> set sel then Prose else Verbatim) f [] #
     new_segment (i + 1) Verbatim [d] [] #
     record_segments sel d (column + 1) (i + 2) (g # fs) ending"

fun csv_segments_loop ::
  "nat list \<Rightarrow> char \<Rightarrow> DocumentSegment list \<Rightarrow> CsvRecord list \<Rightarrow> DocumentError + DocumentSegment list" where
  "csv_segments_loop sel d ss [] = Ok ss"
| "csv_segments_loop sel d ss (r # recs) =
     (let ss' = ss @ record_segments sel d 0 (length ss) (csv_row r) (csv_ending r) in
      if length ss' > MAX_CSV_SEGMENTS then Err InvalidStructure
      else csv_segments_loop sel d ss' recs)"

definition csv_segments :: "nat list option \<Rightarrow> string \<Rightarrow> DocumentError + DocumentSegment list" where
  "csv_segments selected src =
     (let d = detect_csv_delimiter src in
      and_then (document_csv_records src d) (\<lambda>recs.
      and_then (csv_selection recs d selected) (\<lambda>sel.
      csv_segments_loop sel d [] recs)))"

section \<open>Nothing is lost\<close>

fun row_text :: "char \<Rightarrow> string list \<Rightarrow> string" where
  "row_text d [] = []"
| "row_text d [f] = f"
| "row_text d (f # g # fs) = f @ [d] @ row_text d (g # fs)"

definition records_text :: "char \<Rightarrow> CsvRecord list \<Rightarrow> string" where
  "records_text d recs = concat (map (\<lambda>r. row_text d (csv_row r) @ csv_ending r) recs)"

lemma records_text_append [simp]: "records_text d (xs @ ys) = records_text d xs @ records_text d ys"
  "records_text d [] = []" "records_text d (r # xs) = row_text d (csv_row r) @ csv_ending r @ records_text d xs"
  by (simp_all add: records_text_def)

lemma row_text_snoc: "row \<noteq> [] \<Longrightarrow> row_text d (row @ [f]) = row_text d row @ [d] @ f"
  by (induction d row rule: row_text.induct) auto

lemma row_text_grow [simp]:
  "row_text d (row @ [cur @ x]) = row_text d (row @ [cur]) @ x"
  by (cases "row = []") (simp_all add: row_text_snoc)

lemma row_text_next [simp]: "row_text d (row @ [cur, []]) = row_text d (row @ [cur]) @ [d]"
  using row_text_snoc [of "row @ [cur]" d "[]"] by simp

lemma prefix_singleton_drop: "prefix [b] bs \<Longrightarrow> b # drop 1 bs = bs"
  by (cases bs) auto

text \<open>One byte of the scanner, when the scan succeeds.\<close>

lemma csv_loop_stepE:
  assumes "csv_records_loop d (b # bs) recs row cur q a = Ok out"
  obtains
    (escaped) bs' where "b = quote" "q" "bs = quote # bs'"
      "csv_records_loop d bs' recs row (cur @ [quote, quote]) True a = Ok out"
  | (closing) "b = quote" "q" "\<not> prefix [quote] bs"
      "csv_records_loop d bs recs row (cur @ [quote]) False True = Ok out"
  | (open_quote) "b = quote" "\<not> q" "cur = []" "csv_records_loop d bs recs row [quote] True a = Ok out"
  | (delimiter) "b \<noteq> quote" "b = d" "\<not> q" "csv_records_loop d bs recs (row @ [cur]) [] False False = Ok out"
  | (line) e bs' where "b \<noteq> quote" "b \<noteq> d" "\<not> q" "\<not> csv_limits_exceeded (row @ [cur]) recs"
      "b # bs = e @ bs'" "e \<in> {[cr, lf], [cr], [lf]}" "e = [cr] \<longrightarrow> \<not> prefix [lf] bs'"
      "csv_records_loop d bs' (recs @ [\<lparr>csv_row = row @ [cur], csv_ending = e\<rparr>]) [] [] False False = Ok out"
  | (plain) "b \<noteq> quote" "\<not> a" "q \<or> b \<noteq> d \<and> b \<noteq> cr \<and> b \<noteq> lf"
      "csv_records_loop d bs recs row (cur @ [b]) q a = Ok out"
proof -
  note eq = assms [unfolded csv_records_loop.simps(2)]
  show ?thesis
  proof (cases "b = quote")
    case True
    with eq show ?thesis
      by (cases bs; cases q; cases "prefix [quote] bs"; cases "cur = []")
        (auto intro: escaped closing open_quote)
  next
    case nq: False
    show ?thesis
    proof (cases "(b = d \<or> b = cr \<or> b = lf) \<and> \<not> q")
      case False
      with eq nq show ?thesis by (intro plain) (auto split: if_split_asm)
    next
      case sep: True
      show ?thesis
      proof (cases "b = d")
        case True
        with eq nq sep show ?thesis by (intro delimiter) simp_all
      next
        case False
        with sep have lim: "\<not> csv_limits_exceeded (row @ [cur]) recs"
          using eq nq by (auto split: if_split_asm)
        show ?thesis
        proof (cases "b = cr \<and> prefix [lf] bs")
          case True
          then obtain bs' where "bs = lf # bs'" by (cases bs) auto
          with eq nq sep False lim True show ?thesis by (intro line [of "[cr, lf]" bs']) simp_all
        next
          case nocrlf: False
          with eq nq sep False lim show ?thesis by (intro line [of "[b]" bs]) auto
        qed
      qed
    qed
  qed
qed

lemma csv_records_loop_text:
  "csv_records_loop d s recs row cur q a = Ok out \<Longrightarrow>
     records_text d out = records_text d recs @ row_text d (row @ [cur]) @ s"
proof (induction s arbitrary: recs row cur q a rule: length_induct)
  case (1 s)
  show ?case
  proof (cases s)
    case Nil
    with "1.prems" show ?thesis by (auto split: if_splits)
  next
    case (Cons b bs)
    have IH: "records_text d out = records_text d recs' @ row_text d (row' @ [cur']) @ s'"
      if "csv_records_loop d s' recs' row' cur' q' a' = Ok out" "length s' \<le> length bs"
      for s' recs' row' cur' q' a'
    proof -
      have "length s' < length s" using that Cons by simp
      with "1.IH" that(1) show ?thesis by blast
    qed
    from "1.prems" [unfolded Cons] show ?thesis
    proof (cases rule: csv_loop_stepE)
      case (line e bs')
      then have "length bs' \<le> length bs" by auto
      from IH [OF line(8) this] line(5) Cons show ?thesis by simp
    next
      case open_quote
      with IH [OF open_quote(4)] row_text_grow [of d row "[]" "[quote]"] Cons show ?thesis by simp
    qed (use IH Cons in force)+
  qed
qed

lemma record_segments_facts:
  "segments_text (record_segments sel d c i row e) = row_text d row @ (if row = [] then [] else e)"
  "map seg_index (record_segments sel d c i row e) =
     [i..<i + length (record_segments sel d c i row e)]"
  "\<forall>s \<in> set (record_segments sel d c i row e). seg_translated s = None"
proof (induction sel d c i row e rule: record_segments.induct)
  case (3 sel d column i f g fs ending)
  { case 1 show ?case using 3 by (simp add: segments_text_def) }
  { case 2 show ?case using 3 by (simp add: upt_conv_Cons del: upt_Suc) }
  { case 3 show ?case using "3.IH"(3) by simp }
qed (simp_all add: segments_text_def)

lemma csv_segments_loop_facts:
  "csv_segments_loop sel d ss recs = Ok out \<Longrightarrow> map seg_index ss = [0..<length ss] \<Longrightarrow>
     \<forall>s \<in> set ss. seg_translated s = None \<Longrightarrow> \<forall>r \<in> set recs. csv_row r \<noteq> [] \<Longrightarrow>
     segments_text out = segments_text ss @ records_text d recs \<and>
     map seg_index out = [0..<length out] \<and> (\<forall>s \<in> set out. seg_translated s = None)"
proof (induction sel d ss recs arbitrary: out rule: csv_segments_loop.induct)
  case (2 sel d ss r recs)
  define ss' where "ss' = ss @ record_segments sel d 0 (length ss) (csv_row r) (csv_ending r)"
  from "2.prems"(1) have lim: "\<not> MAX_CSV_SEGMENTS < length ss'" "csv_segments_loop sel d ss' recs = Ok out"
    by (auto simp: ss'_def Let_def split: if_splits)
  note f = record_segments_facts [of sel d 0 "length ss" "csv_row r" "csv_ending r"]
  have "map seg_index ss' = [0..<length ss']"
    using "2.prems"(2) f(2) upt_add_eq_append [of 0 "length ss"] by (simp add: ss'_def)
  moreover have "\<forall>s \<in> set ss'. seg_translated s = None" using "2.prems"(3) f(3) by (auto simp: ss'_def)
  moreover have "segments_text ss' = segments_text ss @ row_text d (csv_row r) @ csv_ending r"
    using f(1) "2.prems"(4) by (simp add: ss'_def segments_text_def)
  ultimately show ?case using "2.IH" [OF ss'_def lim] "2.prems"(4) by simp
qed simp

section \<open>Well-formed tables\<close>

abbreviation escaped :: "string \<Rightarrow> string" where
  "escaped t \<equiv> replace_char quote [quote, quote] t"

definition quoted_field :: "string \<Rightarrow> string" where
  "quoted_field t = [quote] @ escaped t @ [quote]"

definition plain_field :: "char \<Rightarrow> string \<Rightarrow> bool" where
  "plain_field d f \<longleftrightarrow> quote \<notin> set f \<and> d \<notin> set f \<and> cr \<notin> set f \<and> lf \<notin> set f"

definition field_ok :: "char \<Rightarrow> string \<Rightarrow> bool" where
  "field_ok d f \<longleftrightarrow> plain_field d f \<or> (\<exists>t. f = quoted_field t)"

definition row_ok :: "char \<Rightarrow> string list \<Rightarrow> bool" where
  "row_ok d row \<longleftrightarrow> row \<noteq> [] \<and> length row \<le> MAX_CSV_FIELDS \<and> (\<forall>f \<in> set row. field_ok d f)"

text \<open>
  The record lists that the scanner produces: a record without a line ending is the last one and
  is not a lone empty field after others, and a line feed never follows a lone carriage return.
\<close>

fun table_ok :: "char \<Rightarrow> bool \<Rightarrow> CsvRecord list \<Rightarrow> bool" where
  "table_ok d first [] \<longleftrightarrow> \<not> first"
| "table_ok d first (r # rs) \<longleftrightarrow> row_ok d (csv_row r) \<and>
     (if csv_ending r = [] then rs = [] \<and> (first \<or> csv_row r \<noteq> [[]])
      else csv_ending r \<in> {[cr, lf], [cr], [lf]} \<and>
        (csv_ending r = [cr] \<longrightarrow> \<not> prefix [lf] (records_text d rs)) \<and> table_ok d False rs)"

definition cur_ok :: "char \<Rightarrow> string \<Rightarrow> bool \<Rightarrow> bool \<Rightarrow> bool" where
  "cur_ok d cur in_quotes after_quote \<longleftrightarrow>
     (if in_quotes then \<not> after_quote \<and> (\<exists>t. cur = [quote] @ escaped t)
      else if after_quote then \<exists>t. cur = quoted_field t
      else plain_field d cur)"

lemma escaped_simps [simp]: "escaped (s @ t) = escaped s @ escaped t" "escaped [] = []"
  "escaped (b # t) = (if b = quote then [quote, quote] else [b]) @ escaped t"
  by (simp_all add: replace_char_def)

lemma cur_ok_field: "cur_ok d cur False a \<Longrightarrow> field_ok d cur"
  by (auto simp: cur_ok_def field_ok_def split: if_splits)

lemma cur_ok_start [simp]: "cur_ok d [] False False"
  by (simp add: cur_ok_def plain_field_def)

lemma cur_ok_escape: "cur_ok d cur True a \<Longrightarrow> cur_ok d (cur @ [quote, quote]) True a"
  unfolding cur_ok_def
proof (auto, goal_cases)
  case (1 t)
  have "escaped t @ [quote, quote] = escaped (t @ [quote])" by simp
  then show ?case by metis
qed

lemma cur_ok_plain:
  "cur_ok d cur q a \<Longrightarrow> \<not> a \<Longrightarrow> b \<noteq> quote \<Longrightarrow> q \<or> b \<noteq> d \<and> b \<noteq> cr \<and> b \<noteq> lf \<Longrightarrow> cur_ok d (cur @ [b]) q a"
proof -
  assume h: "cur_ok d cur q a" "\<not> a" "b \<noteq> quote" "q \<or> b \<noteq> d \<and> b \<noteq> cr \<and> b \<noteq> lf"
  show ?thesis
  proof (cases q)
    case True
    with h obtain t where "cur = [quote] @ escaped t" by (auto simp: cur_ok_def)
    then have "cur @ [b] = [quote] @ escaped (t @ [b])" using h(3) by simp
    then have "\<exists>t. cur @ [b] = [quote] @ escaped t" by blast
    with True h(2) show ?thesis by (simp only: cur_ok_def if_True simp_thms)
  next
    case False
    with h show ?thesis by (auto simp: cur_ok_def plain_field_def)
  qed
qed

lemma cur_ok_close: "cur_ok d cur True a \<Longrightarrow> cur_ok d (cur @ [quote]) False True"
  by (auto simp: cur_ok_def quoted_field_def)

lemma csv_records_loop_shape:
  "csv_records_loop d s recs row cur q a = Ok out \<Longrightarrow> cur_ok d cur q a \<Longrightarrow>
     \<forall>f \<in> set row. field_ok d f \<Longrightarrow>
     \<exists>more. out = recs @ more \<and> table_ok d (recs = []) more \<and> (length recs \<le> MAX_CSV_RECORDS \<longrightarrow> length out \<le> MAX_CSV_RECORDS)"
proof (induction s arbitrary: recs row cur q a rule: length_induct)
  case (1 s)
  let ?goal = "\<lambda>recs. \<exists>more. out = recs @ more \<and> table_ok d (recs = []) more \<and>
    (length recs \<le> MAX_CSV_RECORDS \<longrightarrow> length out \<le> MAX_CSV_RECORDS)"
  show ?case
  proof (cases s)
    case Nil
    with "1.prems" cur_ok_field [of d cur a] show ?thesis
      by (auto simp: row_ok_def csv_limits_exceeded_def split: if_splits)
  next
    case (Cons b bs)
    have IH: "?goal recs'"
      if "csv_records_loop d s' recs' row' cur' q' a' = Ok out" "length s' \<le> length bs"
        "cur_ok d cur' q' a'" "\<forall>f \<in> set row'. field_ok d f" for s' recs' row' cur' q' a'
    proof -
      have "length s' < length s" using that Cons by simp
      with "1.IH" that(1,3,4) show ?thesis by blast
    qed
    from "1.prems"(1) [unfolded Cons] show ?thesis
    proof (cases rule: csv_loop_stepE)
      case (escaped bs')
      with IH [OF escaped(4)] cur_ok_escape "1.prems"(2,3) show ?thesis by simp
    next
      case closing
      with IH [OF closing(4)] cur_ok_close "1.prems"(2,3) show ?thesis by simp
    next
      case open_quote
      with "1.prems"(2) have "\<not> a" by (auto simp: cur_ok_def quoted_field_def)
      then have "cur_ok d [quote] True a" by (auto simp: cur_ok_def intro: exI [of _ "[]"])
      with IH [OF open_quote(4)] "1.prems"(3) show ?thesis by simp
    next
      case delimiter
      with IH [OF delimiter(4)] "1.prems"(2,3) cur_ok_field [of d cur a] show ?thesis by auto
    next
      case (line e bs')
      let ?r = "\<lparr>csv_row = row @ [cur], csv_ending = e\<rparr>"
      have len: "length bs' \<le> length bs" using line(5,6) by auto
      from IH [OF line(8) len] obtain more where
        more: "out = (recs @ [?r]) @ more" "table_ok d False more"
          "length (recs @ [?r]) \<le> MAX_CSV_RECORDS \<longrightarrow> length out \<le> MAX_CSV_RECORDS" by auto
      have rest: "records_text d more = bs'"
        using csv_records_loop_text [OF line(8)] more(1) by simp
      have "row_ok d (row @ [cur])" "length recs < MAX_CSV_RECORDS"
        using line(3,4) "1.prems"(2,3) cur_ok_field [of d cur a]
        by (auto simp: row_ok_def csv_limits_exceeded_def)
      with more line(6,7) rest show ?thesis by (intro exI [of _ "?r # more"]) auto
    next
      case plain
      with IH [OF plain(4)] cur_ok_plain "1.prems"(2,3) show ?thesis by simp
    qed
  qed
qed

lemma table_ok_rows: "table_ok d first rs \<Longrightarrow> \<forall>r \<in> set rs. csv_row r \<noteq> []"
  by (induction d first rs rule: table_ok.induct) (auto simp: row_ok_def split: if_splits)

lemma table_ok_fields: "table_ok d first rs \<Longrightarrow> \<forall>r \<in> set rs. \<forall>f \<in> set (csv_row r). field_ok d f"
  by (induction d first rs rule: table_ok.induct) (auto simp: row_ok_def split: if_splits)

lemma csv_records_loop_rows:
  assumes "csv_records_loop d s [] [] [] False False = Ok recs"
  shows "table_ok d True recs" "length recs \<le> MAX_CSV_RECORDS" "\<forall>r \<in> set recs. csv_row r \<noteq> []"
proof -
  from csv_records_loop_shape [OF assms] show t: "table_ok d True recs" "length recs \<le> MAX_CSV_RECORDS"
    by auto
  from t(1) show "\<forall>r \<in> set recs. csv_row r \<noteq> []" by (rule table_ok_rows)
qed

interpretation csv: segmenter "csv_segments selected"
proof
  fix src ss
  assume "csv_segments selected src = Ok ss"
  then obtain recs sel where
    recs: "csv_records_loop (detect_csv_delimiter src) src [] [] [] False False = Ok recs"
    and ss: "csv_segments_loop sel (detect_csv_delimiter src) [] recs = Ok ss"
    by (auto simp: csv_segments_def document_csv_records_def Let_def and_then_Inr split: if_splits)
  have rows: "\<forall>r \<in> set recs. csv_row r \<noteq> []" using csv_records_loop_rows(3) [OF recs] .
  note f = csv_segments_loop_facts [OF ss _ _ rows]
  show "segments_text ss = src"
    using f csv_records_loop_text [OF recs] by (simp add: segments_text_def)
  show "map seg_index ss = [0..<length ss]" using f by simp
  show "seg_translated s = None" if "s \<in> set ss" for s using f that by simp
qed

section \<open>Scanning a written table\<close>

definition usable_delimiter :: "char \<Rightarrow> bool" where
  "usable_delimiter d \<longleftrightarrow> d \<noteq> quote \<and> d \<noteq> cr \<and> d \<noteq> lf"

lemma scan_plain:
  "plain_field d f \<Longrightarrow> csv_records_loop d (f @ rest) recs row cur False False =
     csv_records_loop d rest recs row (cur @ f) False False"
proof (induction f arbitrary: cur)
  case (Cons b f)
  then have "b \<noteq> quote" "b \<noteq> d" "b \<noteq> cr" "b \<noteq> lf" "plain_field d f" by (auto simp: plain_field_def)
  with Cons.IH [of "cur @ [b]"] show ?case by simp
qed simp

lemma scan_escaped:
  "\<not> prefix [quote] rest \<Longrightarrow> csv_records_loop d (escaped t @ quote # rest) recs row cur True False =
     csv_records_loop d rest recs row (cur @ escaped t @ [quote]) False True"
  by (induction t arbitrary: cur) simp_all

lemma scan_field:
  assumes "field_ok d f" "usable_delimiter d" "rest = [] \<or> hd rest \<in> {d, cr, lf}"
  shows "csv_records_loop d (f @ rest) recs row [] False False =
    csv_records_loop d rest recs row f False (prefix [quote] f)"
proof (cases "plain_field d f")
  case True
  then have "\<not> prefix [quote] f" by (cases f) (auto simp: plain_field_def)
  with scan_plain [OF True, of rest recs row "[]"] show ?thesis by simp
next
  case False
  with assms(1) obtain t where f: "f = quoted_field t" by (auto simp: field_ok_def)
  have "\<not> prefix [quote] rest" using assms(2,3) by (cases rest) (auto simp: usable_delimiter_def)
  from scan_escaped [OF this, of d t recs row "[quote]"] f show ?thesis by (simp add: quoted_field_def)
qed

lemma scan_row:
  assumes "usable_delimiter d" "rest = [] \<or> hd rest \<in> {cr, lf}"
  shows "row \<noteq> [] \<Longrightarrow> \<forall>f \<in> set row. field_ok d f \<Longrightarrow>
    csv_records_loop d (row_text d row @ rest) recs done_row [] False False =
    csv_records_loop d rest recs (done_row @ butlast row) (last row) False (prefix [quote] (last row))"
proof (induction row arbitrary: done_row)
  case (Cons f row)
  show ?case
  proof (cases row)
    case Nil
    have "rest = [] \<or> hd rest \<in> {d, cr, lf}" using assms(2) by blast
    with Nil show ?thesis using Cons.prems assms(1) scan_field [of d f rest recs done_row] by simp
  next
    case (Cons g gs)
    have "csv_records_loop d (f @ d # row_text d row @ rest) recs done_row [] False False =
        csv_records_loop d (d # row_text d row @ rest) recs done_row f False (prefix [quote] f)"
      using Cons.prems assms(1) by (intro scan_field) simp_all
    also have "\<dots> = csv_records_loop d (row_text d row @ rest) recs (done_row @ [f]) [] False False"
      using assms(1) by (simp add: usable_delimiter_def)
    finally show ?thesis using Cons.IH [of "done_row @ [f]"] Cons.prems Cons by simp
  qed
qed simp

text \<open>Scanning is the inverse of writing the records.\<close>

lemma scan_table:
  assumes "usable_delimiter d"
  shows "table_ok d (recs = []) rest \<Longrightarrow> length recs + length rest \<le> MAX_CSV_RECORDS \<Longrightarrow>
    csv_records_loop d (records_text d rest) recs [] [] False False = Ok (recs @ rest)"
proof (induction rest arbitrary: recs)
  case Nil
  then show ?case by simp
next
  case (Cons r rest)
  have r: "csv_row r \<noteq> []" "\<forall>f \<in> set (csv_row r). field_ok d f" "length (csv_row r) \<le> MAX_CSV_FIELDS"
    using Cons.prems by (auto simp: row_ok_def)
  have row: "butlast (csv_row r) @ [last (csv_row r)] = csv_row r" using r(1) by simp
  have lim: "\<not> csv_limits_exceeded (csv_row r) recs"
    using r(3) Cons.prems(2) by (simp add: csv_limits_exceeded_def)
  show ?case
  proof (cases "csv_ending r = []")
    case True
    with Cons.prems have "rest = []" "recs = [] \<or> csv_row r \<noteq> [[]]" by auto
    moreover from this(2) row have "butlast (csv_row r) \<noteq> [] \<or> last (csv_row r) \<noteq> [] \<or> recs = []" by auto
    moreover have "\<lparr>csv_row = csv_row r, csv_ending = []\<rparr> = r" using True by simp
    ultimately show ?thesis
      using scan_row [OF assms, of "[]" "csv_row r" recs "[]"] r lim row True by simp
  next
    case False
    with Cons.prems have e: "csv_ending r \<in> {[cr, lf], [cr], [lf]}"
      "csv_ending r = [cr] \<longrightarrow> \<not> prefix [lf] (records_text d rest)" "table_ok d False rest" by auto
    have stop: "hd (csv_ending r @ records_text d rest) \<in> {cr, lf}" using e(1) by auto
    have next_row: "csv_records_loop d (csv_ending r @ records_text d rest) recs (butlast (csv_row r))
        (last (csv_row r)) False a = csv_records_loop d (records_text d rest) (recs @ [r]) [] [] False False" for a
    proof -
      obtain fs x where r: "r = \<lparr>csv_row = fs, csv_ending = x\<rparr>" by (cases r)
      show ?thesis using e assms lim row by (auto simp: r usable_delimiter_def)
    qed
    have "csv_records_loop d (records_text d rest) (recs @ [r]) [] [] False False = Ok ((recs @ [r]) @ rest)"
      using e(3) Cons.prems(2) by (intro Cons.IH) simp_all
    with scan_row [OF assms, of "csv_ending r @ records_text d rest" "csv_row r" recs "[]"] stop r next_row
    show ?thesis by simp
  qed
qed

section \<open>Replacing cells\<close>

text \<open>A new cell is well-formed, and only an empty cell may become an empty text.\<close>

definition recell :: "char \<Rightarrow> string \<Rightarrow> string \<Rightarrow> bool" where
  "recell d f g \<longleftrightarrow> field_ok d g \<and> (g = [] \<longrightarrow> f = [])"

definition rerecord :: "char \<Rightarrow> CsvRecord \<Rightarrow> CsvRecord \<Rightarrow> bool" where
  "rerecord d r r' \<longleftrightarrow> csv_ending r' = csv_ending r \<and> list_all2 (recell d) (csv_row r) (csv_row r')"

lemma field_ok_not_lf: "field_ok d f \<Longrightarrow> \<not> prefix [lf] (f @ s) \<or> f = []"
  by (cases f) (auto simp: field_ok_def plain_field_def quoted_field_def)

lemma row_text_starts_lf:
  assumes "row_ok d row" "d \<noteq> lf" "prefix [lf] (row_text d row @ s)"
  shows "row = [[]]"
  using assms field_ok_not_lf
  by (cases "(d, row)" rule: row_text.cases) (fastforce simp: row_ok_def)+

lemma rerecord_row:
  "rerecord d r r' \<Longrightarrow> row_ok d (csv_row r) \<Longrightarrow> row_ok d (csv_row r') \<and> (csv_row r' = [[]] \<longrightarrow> csv_row r = [[]])"
  by (auto simp: rerecord_def row_ok_def recell_def list_all2_conv_all_nth in_set_conv_nth
      length_Suc_conv split: list.splits)

lemma table_ok_retext:
  "usable_delimiter d \<Longrightarrow> table_ok d first rs \<Longrightarrow> list_all2 (rerecord d) rs rs' \<Longrightarrow> table_ok d first rs'"
proof (induction d first rs arbitrary: rs' rule: table_ok.induct)
  case (2 d first r rs)
  from "2.prems"(3) obtain r' rest' where rs': "rs' = r' # rest'" "rerecord d r r'" "list_all2 (rerecord d) rs rest'"
    by (auto simp: list_all2_Cons1)
  note row = rerecord_row [OF rs'(2)]
  have e: "csv_ending r' = csv_ending r" using rs'(2) by (simp add: rerecord_def)
  have cr_ok: "\<not> prefix [lf] (records_text d rest')"
    if "\<not> prefix [lf] (records_text d rs)" "table_ok d False rs"
  proof
    assume lf: "prefix [lf] (records_text d rest')"
    then obtain a as where a: "rest' = a # as" by (cases rest') auto
    with rs'(3) obtain b bs where b: "rs = b # bs" "rerecord d b a" by (auto simp: list_all2_Cons2)
    have "row_ok d (csv_row b)" using that(2) b by simp
    from rerecord_row [OF b(2) this] have ok: "row_ok d (csv_row a)" "csv_row a = [[]] \<longrightarrow> csv_row b = [[]]" by auto
    have "csv_row a = [[]]"
      using row_text_starts_lf [OF ok(1)] lf a "2.prems"(1) by (simp add: usable_delimiter_def)
    with ok(2) lf a b that show False by (auto simp: rerecord_def split: if_splits)
  qed
  show ?case
  proof (cases "csv_ending r = []")
    case True
    with "2.prems"(2) rs' row e show ?thesis by auto
  next
    case False
    with "2.prems"(2) have rest: "table_ok d False rs" "row_ok d (csv_row r)" by auto
    from "2.IH" [OF False "2.prems"(1) rest(1) rs'(3)] "2.prems"(2) False rest cr_ok row e rs'(1)
    show ?thesis by auto
  qed
qed simp

text \<open>The same on the level of segments.\<close>

definition recell_segment :: "char \<Rightarrow> DocumentSegment \<Rightarrow> string \<Rightarrow> bool" where
  "recell_segment d s out \<longleftrightarrow>
     (if seg_kind s = Prose then recell d (seg_source s) out else out = seg_source s)"

lemma recell_new [simp]:
  "recell_segment d (new_segment i k f e) g \<longleftrightarrow> (if k = Prose then recell d f g else g = f)"
  by (simp add: recell_segment_def)

lemma recell_refl: "field_ok d f \<Longrightarrow> recell d f f"
  by (simp add: recell_def)

lemma record_segments_retext:
  "list_all2 (recell_segment d) (record_segments sel d c i row e) outs \<Longrightarrow> \<forall>f \<in> set row. field_ok d f \<Longrightarrow>
     \<exists>row'. list_all2 (recell d) row row' \<and>
       map seg_source (record_segments sel d c j row' e) = outs \<and>
       map seg_kind (record_segments sel d c j row' e) = map seg_kind (record_segments sel d c i row e) \<and>
       map seg_ending (record_segments sel d c j row' e) = map seg_ending (record_segments sel d c i row e)"
proof (induction sel d c i row e arbitrary: outs j rule: record_segments.induct)
  case (1 sel d c i e)
  then show ?case by simp
next
  case (2 sel d c i f e)
  then obtain g where "outs = [g]" "recell d f g"
    by (auto simp: list_all2_Cons1 recell_refl split: if_splits)
  then show ?case by (intro exI [of _ "[g]"]) simp
next
  case (3 sel d c i f f2 fs e)
  from "3.prems" obtain g outs' where outs: "outs = g # [d] # outs'" "recell d f g"
    "list_all2 (recell_segment d) (record_segments sel d (c + 1) (i + 2) (f2 # fs) e) outs'"
    by (auto simp: list_all2_Cons1 recell_refl split: if_splits)
  with "3.IH" [of outs' "j + 2"] "3.prems"(2) obtain row' where
    row': "list_all2 (recell d) (f2 # fs) row'"
    "map seg_source (record_segments sel d (c + 1) (j + 2) row' e) = outs'"
    "map seg_kind (record_segments sel d (c + 1) (j + 2) row' e) =
       map seg_kind (record_segments sel d (c + 1) (i + 2) (f2 # fs) e)"
    "map seg_ending (record_segments sel d (c + 1) (j + 2) row' e) =
       map seg_ending (record_segments sel d (c + 1) (i + 2) (f2 # fs) e)" by auto
  then obtain g2 gs where "row' = g2 # gs" by (auto simp: list_all2_Cons1)
  with row' outs show ?case by (intro exI [of _ "g # row'"]) simp
qed

lemma csv_segments_loop_append:
  "csv_segments_loop sel d ss recs = Ok out \<Longrightarrow> \<exists>new. out = ss @ new"
  by (induction sel d ss recs arbitrary: out rule: csv_segments_loop.induct)
    (auto simp: Let_def split: if_splits)

lemma csv_segments_loop_retext:
  "csv_segments_loop sel d ss recs = Ok (ss @ new) \<Longrightarrow> list_all2 (recell_segment d) new outs \<Longrightarrow>
     \<forall>r \<in> set recs. \<forall>f \<in> set (csv_row r). field_ok d f \<Longrightarrow> length ss0 = length ss \<Longrightarrow>
     \<exists>recs' new'. list_all2 (rerecord d) recs recs' \<and> csv_segments_loop sel d ss0 recs' = Ok (ss0 @ new') \<and>
       map seg_source new' = outs \<and> map seg_kind new' = map seg_kind new \<and>
       map seg_ending new' = map seg_ending new"
proof (induction sel d ss recs arbitrary: new outs ss0 rule: csv_segments_loop.induct)
  case (1 sel d ss)
  then show ?case by simp
next
  case (2 sel d ss r recs)
  let ?own = "record_segments sel d 0 (length ss) (csv_row r) (csv_ending r)"
  from "2.prems"(1) have lim: "\<not> MAX_CSV_SEGMENTS < length (ss @ ?own)"
    and loop: "csv_segments_loop sel d (ss @ ?own) recs = Ok (ss @ new)"
    by (auto simp: Let_def split: if_splits)
  from csv_segments_loop_append [OF loop] obtain new2 where new: "new = ?own @ new2" by auto
  with "2.prems"(2) obtain outs1 outs2 where outs: "outs = outs1 @ outs2"
    "list_all2 (recell_segment d) ?own outs1" "list_all2 (recell_segment d) new2 outs2"
    by (auto simp: list_all2_append1)
  from record_segments_retext [OF outs(2), of "length ss0"] "2.prems"(3) obtain row' where
    row': "list_all2 (recell d) (csv_row r) row'"
    "map seg_source (record_segments sel d 0 (length ss0) row' (csv_ending r)) = outs1"
    "map seg_kind (record_segments sel d 0 (length ss0) row' (csv_ending r)) = map seg_kind ?own"
    "map seg_ending (record_segments sel d 0 (length ss0) row' (csv_ending r)) = map seg_ending ?own" by auto
  let ?own' = "record_segments sel d 0 (length ss0) row' (csv_ending r)"
  let ?r' = "\<lparr>csv_row = row', csv_ending = csv_ending r\<rparr>"
  have len: "length ?own' = length ?own" using arg_cong [OF row'(3), of length] by simp
  have "csv_segments_loop sel d (ss @ ?own) recs = Ok ((ss @ ?own) @ new2)" using loop new by simp
  from "2.IH" [OF refl lim this outs(3), of "ss0 @ ?own'"] "2.prems"(3,4) len obtain recs' new2' where
    rest: "list_all2 (rerecord d) recs recs'"
    "csv_segments_loop sel d (ss0 @ ?own') recs' = Ok ((ss0 @ ?own') @ new2')"
    "map seg_source new2' = outs2" "map seg_kind new2' = map seg_kind new2"
    "map seg_ending new2' = map seg_ending new2" by auto
  have "csv_segments_loop sel d ss0 (?r' # recs') = Ok (ss0 @ ?own' @ new2')"
    using rest(2) lim len "2.prems"(4) by (simp add: Let_def)
  moreover have "rerecord d r ?r'" using row'(1) by (simp add: rerecord_def)
  ultimately show ?case
    using rest(1,3-5) row'(2-4) outs(1) new
    by (intro exI [of _ "?r' # recs'"] exI [of _ "?own' @ new2'"]) simp
qed

section \<open>Cells and their texts\<close>

lemma unescape_escaped [simp]: "unescape_quotes (escaped t) = Ok t"
  by (induction t) simp_all

lemma decode_quoted [simp]: "decode_csv_field (quoted_field t) d = Ok t"
  by (simp add: decode_csv_field_def quoted_field_def suffix_def)

lemma encode_csv_field_cases:
  "encode_csv_field raw t d = quoted_field t \<or>
   \<not> prefix [quote] raw \<and> plain_field d t \<and> encode_csv_field raw t d = t"
  by (auto simp: encode_csv_field_def quoted_field_def plain_field_def)

lemma plain_not_quoted: "plain_field d t \<Longrightarrow> \<not> prefix [quote] t"
  by (cases t) (auto simp: plain_field_def)

lemma decode_encode: "decode_csv_field (encode_csv_field raw t d) d = Ok t"
  using encode_csv_field_cases [of raw t d]
proof
  assume "encode_csv_field raw t d = quoted_field t"
  then show ?thesis by simp
next
  assume p: "\<not> prefix [quote] raw \<and> plain_field d t \<and> encode_csv_field raw t d = t"
  then have "\<not> prefix [quote] t" using plain_not_quoted by blast
  with p show ?thesis by (simp add: decode_csv_field_def plain_field_def)
qed

lemma encode_field_ok: "field_ok d (encode_csv_field raw t d)"
  using encode_csv_field_cases [of raw t d] unfolding field_ok_def by auto

lemma encode_decode: "field_ok d raw \<Longrightarrow> \<exists>t. decode_csv_field raw d = Ok t \<and> encode_csv_field raw t d = raw"
proof (cases "plain_field d raw")
  case True
  then show ?thesis using plain_not_quoted [OF True]
    by (auto simp: decode_csv_field_def encode_csv_field_def plain_field_def)
next
  case False
  assume "field_ok d raw"
  with False obtain t where "raw = quoted_field t" by (auto simp: field_ok_def)
  moreover have "encode_csv_field (quoted_field t) t d = quoted_field t"
    by (simp add: encode_csv_field_def quoted_field_def)
  ultimately show ?thesis by (intro exI [of _ t]) simp
qed

lemma first_max_less:
  assumes "counts \<noteq> []"
  shows "first_max counts < length counts"
proof -
  obtain i where "i < length counts" "counts ! i = Max (set counts)"
    using Max_in [of "set counts"] assms by (auto simp: in_set_conv_nth)
  then have "i \<in> set (filter (\<lambda>i. list_all (\<lambda>n. n \<le> counts ! i) counts) [0..<length counts])"
    by (simp add: list_all_iff)
  then have "filter (\<lambda>i. list_all (\<lambda>n. n \<le> counts ! i) counts) [0..<length counts] \<noteq> []"
    by (metis list.distinct(1) list.set_cases)
  from hd_in_set [OF this] show ?thesis by (simp add: first_max_def)
qed

lemma length_delimiter_counts: "length counts = 4 \<Longrightarrow> length (delimiter_counts q counts s) = 4"
  by (induction q counts s rule: delimiter_counts.induct)
    (auto simp: count_delimiter_def CSV_DELIMITER_CANDIDATES_def)

lemma detected_usable: "usable_delimiter (detect_csv_delimiter src)"
proof -
  have "length (delimiter_counts False [0, 0, 0, 0] src) = 4" by (rule length_delimiter_counts) simp
  then have "first_max (delimiter_counts False [0, 0, 0, 0] src) < 4"
    using first_max_less [of "delimiter_counts False [0, 0, 0, 0] src"] by fastforce
  then have "detect_csv_delimiter src \<in> set CSV_DELIMITER_CANDIDATES"
    unfolding detect_csv_delimiter_def by (intro nth_mem) (simp add: CSV_DELIMITER_CANDIDATES_def)
  then show ?thesis by (auto simp: CSV_DELIMITER_CANDIDATES_def usable_delimiter_def)
qed

text \<open>
  Replacing the selected cells of a table by encoded texts leaves the table as it was: the same
  records, line endings and cells, each replaced cell holding the new text.
\<close>

lemma row_text_empty: "row \<noteq> [] \<Longrightarrow> row_text d row = [] \<Longrightarrow> row = [[]]"
  by (cases "(d, row)" rule: row_text.cases) auto

lemma retext_nonempty:
  assumes "table_ok d True recs" "list_all2 (rerecord d) recs recs'" "records_text d recs \<noteq> []"
    "usable_delimiter d"
  shows "records_text d recs' \<noteq> []"
proof
  assume empty: "records_text d recs' = []"
  have ok: "table_ok d True recs'" using table_ok_retext [OF assms(4,1,2)] .
  from assms(1) obtain r rs where recs: "recs = r # rs" by (cases recs) auto
  with assms(2) obtain r' rs' where recs': "recs' = r' # rs'" "rerecord d r r'"
    "list_all2 (rerecord d) rs rs'" by (auto simp: list_all2_Cons1)
  from empty recs' have e: "row_text d (csv_row r') = []" "csv_ending r' = []" by auto
  moreover have "csv_row r' \<noteq> []" using ok recs'(1) by (simp add: row_ok_def)
  ultimately have "csv_row r' = [[]]" by (intro row_text_empty) simp_all
  then have "csv_row r = [[]]" using rerecord_row [OF recs'(2)] assms(1) recs by simp
  moreover have "csv_ending r = []" using e(2) recs'(2) by (simp add: rerecord_def)
  moreover from this have "rs = []" using assms(1) recs by simp
  ultimately show False using assms(3) recs by simp
qed

lemma retext_endings:
  assumes "map seg_ending ss' = map seg_ending ss"
  shows "map2 (\<lambda>s t. t @ seg_ending s) ss (map seg_source ss') = map (\<lambda>s. seg_source s @ seg_ending s) ss'"
proof (rule nth_equalityI)
  have len: "length ss' = length ss" using assms by (rule map_eq_imp_length_eq)
  then show "length (map2 (\<lambda>s t. t @ seg_ending s) ss (map seg_source ss')) =
    length (map (\<lambda>s. seg_source s @ seg_ending s) ss')" by simp
  fix i assume "i < length (map2 (\<lambda>s t. t @ seg_ending s) ss (map seg_source ss'))"
  then have i: "i < length ss" by simp
  then have "seg_ending (ss' ! i) = seg_ending (ss ! i)" using assms len by (metis nth_map)
  then show "map2 (\<lambda>s t. t @ seg_ending s) ss (map seg_source ss') ! i =
    map (\<lambda>s. seg_source s @ seg_ending s) ss' ! i" using i len by simp
qed

lemma csv_segments_retext:
  assumes ss: "csv_segments selected src = Ok ss" and d: "d = detect_csv_delimiter src"
    and outs: "list_all2 (recell_segment d) ss outs"
  obtains recs recs' sel ss' where "document_csv_records src d = Ok recs" "csv_selection recs d selected = Ok sel"
    "document_csv_records (concat (map2 (\<lambda>s t. t @ seg_ending s) ss outs)) d = Ok recs'"
    "csv_segments_loop sel d [] recs' = Ok ss'" "map seg_source ss' = outs"
    "map seg_kind ss' = map seg_kind ss" "map seg_ending ss' = map seg_ending ss"
proof -
  from ss obtain recs sel where src: "src \<noteq> []"
    and recs: "csv_records_loop d src [] [] [] False False = Ok recs"
    and sel: "csv_selection recs d selected = Ok sel" "csv_segments_loop sel d [] recs = Ok ([] @ ss)"
    by (auto simp: csv_segments_def document_csv_records_def Let_def and_then_Inr d split: if_splits)
  note shape = csv_records_loop_rows [OF recs]
  have usable: "usable_delimiter d" unfolding d by (rule detected_usable)
  from csv_segments_loop_retext [OF sel(2) outs table_ok_fields [OF shape(1)], of "[]"] obtain recs' ss' where
    r: "list_all2 (rerecord d) recs recs'" "csv_segments_loop sel d [] recs' = Ok ss'"
    "map seg_source ss' = outs" "map seg_kind ss' = map seg_kind ss" "map seg_ending ss' = map seg_ending ss"
    by auto
  have ok': "table_ok d True recs'" using table_ok_retext [OF usable shape(1) r(1)] .
  note rows' = table_ok_rows [OF ok']
  have "concat (map2 (\<lambda>s t. t @ seg_ending s) ss outs) = segments_text ss'"
    unfolding segments_text_def r(3) [symmetric] using retext_endings [OF r(5)] by simp
  also have "\<dots> = records_text d recs'"
    using csv_segments_loop_facts [OF r(2) _ _ rows'] by (simp add: segments_text_def)
  finally have out: "concat (map2 (\<lambda>s t. t @ seg_ending s) ss outs) = records_text d recs'" .
  have "records_text d recs = src" using csv_records_loop_text [OF recs] by simp
  with retext_nonempty [OF shape(1) r(1) _ usable] src have "records_text d recs' \<noteq> []" by simp
  moreover have "length recs' \<le> MAX_CSV_RECORDS" using shape(2) list_all2_lengthD [OF r(1)] by simp
  ultimately have new: "document_csv_records (concat (map2 (\<lambda>s t. t @ seg_ending s) ss outs)) d = Ok recs'"
    using scan_table [OF usable, of "[]" recs'] ok' by (simp add: document_csv_records_def out)
  have "document_csv_records src d = Ok recs" using recs src by (simp add: document_csv_records_def)
  from that [OF this sel(1) new r(2-5)] show ?thesis .
qed

end
