(* ===== verification/Json_Document.thy ===== *)
theory Json_Document
  imports Document_Base
begin

text \<open>
  The JSON part of \<open>crates/linguamesh-document/src/lib.rs\<close>: the recursive string tokenizer, JSON
  Pointers, path selection and the segmentation. \<open>serde_json\<close> is not part of the repository: what the
  tokenizer asks of it is the record \<open>serde_json\<close>, an argument of every operation that calls it.
  The source keeps an offset into \<open>bytes\<close>; the parser here also keeps \<open>bytes[index..]\<close>.

  The recursion of \<open>parse_value\<close> has no depth bound in the source. The model bounds
  the depth with fuel, and \<open>parse_json_tokens\<close> starts with an amount that never runs out
  (\<open>json_parser_returns\<close>).
\<close>

section \<open>What is asked of serde\_json\<close>

record serde_json =
  from_str_string :: "string \<Rightarrow> string option"
  from_str_value_ok :: "string \<Rightarrow> bool"
  to_string :: "string \<Rightarrow> string option"

section \<open>The tokenizer\<close>

definition MAX_JSON_TOKENS :: nat where "MAX_JSON_TOKENS = 5000"
definition MAX_JSON_SEGMENTS :: nat where "MAX_JSON_SEGMENTS = 10000"

datatype JsonPathSegment = Key string | Index nat

record JsonStringToken =
  json_start :: nat
  json_end :: nat
  json_path :: "JsonPathSegment list"
  json_is_key :: bool

record JsonParser =
  json_rest :: string
  json_index :: nat
  json_tokens :: "JsonStringToken list"

datatype JsonFailure = OutOfFuel | Failed DocumentError

definition JsonParser_new :: "string \<Rightarrow> JsonParser" where
  "JsonParser_new text = \<lparr>json_rest = text, json_index = 0, json_tokens = []\<rparr>"

definition advance :: "nat \<Rightarrow> JsonParser \<Rightarrow> JsonParser" where
  "advance k p = p\<lparr>json_rest := drop k (json_rest p), json_index := json_index p + k\<rparr>"

definition json_space :: "char \<Rightarrow> bool" where
  "json_space b \<longleftrightarrow> b = CHR '' '' \<or> b = lf \<or> b = cr \<or> b = CHR 0x09"

definition skip_whitespace :: "JsonParser \<Rightarrow> JsonParser" where
  "skip_whitespace p = advance (length (takeWhile json_space (json_rest p))) p"

definition consume_byte :: "char \<Rightarrow> JsonParser \<Rightarrow> JsonParser option" where
  "consume_byte expected p =
     (if json_rest p \<noteq> [] \<and> hd (json_rest p) = expected then Some (advance 1 p) else None)"

definition expect_byte :: "char \<Rightarrow> JsonParser \<Rightarrow> DocumentError + JsonParser" where
  "expect_byte expected p = ok_or InvalidStructure (consume_byte expected p)"

text \<open>The loop of \<open>parse_string\<close>: the number of bytes up to and with the closing quote.\<close>

fun string_scan :: "string \<Rightarrow> nat option" where
  "string_scan [] = None"
| "string_scan (b # bs) =
     (if b = quote then Some 1
      else if b = CHR 0x5C then (case bs of [] \<Rightarrow> None | _ # bs' \<Rightarrow> map_option (\<lambda>n. n + 2) (string_scan bs'))
      else if byte b < 0x20 then None
      else map_option Suc (string_scan bs))"

text \<open>Returns the raw literal \<open>text[start..end]\<close>, which is all the callers use of the offsets.\<close>

definition parse_string ::
  "serde_json \<Rightarrow> JsonPathSegment list \<Rightarrow> bool \<Rightarrow> JsonParser \<Rightarrow> DocumentError + (string \<times> JsonParser)" where
  "parse_string sj path is_key p =
     and_then (expect_byte quote p) (\<lambda>q.
       case string_scan (json_rest q) of
         None \<Rightarrow> Err InvalidStructure
       | Some n \<Rightarrow>
           if length (json_tokens q) \<ge> MAX_JSON_TOKENS then Err InvalidStructure
           else
             let raw = take (n + 1) (json_rest p) in
             if from_str_string sj raw = None then Err InvalidStructure
             else
               let r = advance n q in
               Ok (raw, r\<lparr>json_tokens := json_tokens r @
                 [\<lparr>json_start = json_index p, json_end = json_index r, json_path = path,
                   json_is_key = is_key\<rparr>]\<rparr>))"

definition primitive_end :: "char \<Rightarrow> bool" where
  "primitive_end b \<longleftrightarrow> b = comma \<or> b = CHR '']'' \<or> b = CHR ''}'' \<or> json_space b"

definition parse_primitive :: "serde_json \<Rightarrow> JsonParser \<Rightarrow> DocumentError + JsonParser" where
  "parse_primitive sj p =
     (let raw = takeWhile (\<lambda>b. \<not> primitive_end b) (json_rest p) in
      if raw = [] \<or> \<not> from_str_value_ok sj raw then Err InvalidStructure
      else Ok (advance (length raw) p))"

definition primitive_start :: "char \<Rightarrow> bool" where
  "primitive_start b \<longleftrightarrow> b \<in> {CHR ''t'', CHR ''f'', CHR ''n'', CHR ''-''} \<or> is_ascii_digit b"

text \<open>
  \<open>parse_members\<close> and \<open>parse_items\<close> are the loops of \<open>parse_object\<close> and \<open>parse_array\<close>, \<open>parse_value\<close>
  the recursive call; a loop gets one unit of fuel for each byte that is left. The item counter's
  \<open>checked_add\<close> cannot overflow: there are at most as many items as bytes.
\<close>

type_synonym json_parse_fn = "JsonPathSegment list \<Rightarrow> JsonParser \<Rightarrow> JsonFailure + JsonParser"

primrec parse_members :: "serde_json \<Rightarrow> json_parse_fn \<Rightarrow> JsonPathSegment list \<Rightarrow> nat \<Rightarrow>
  JsonParser \<Rightarrow> JsonFailure + JsonParser" where
  "parse_members sj nested path 0 p = Err OutOfFuel"
| "parse_members sj nested path (Suc k) p =
     (let p = skip_whitespace p in
      if json_rest p = [] \<or> hd (json_rest p) \<noteq> quote then Err (Failed InvalidStructure)
      else
        and_then (map_err Failed (parse_string sj path True p)) (\<lambda>(raw, q).
        and_then (map_err Failed (ok_or InvalidStructure (from_str_string sj raw))) (\<lambda>key.
        and_then (map_err Failed (expect_byte (CHR '':'') (skip_whitespace q))) (\<lambda>q.
        and_then (nested (path @ [Key key]) q) (\<lambda>q.
          let q = skip_whitespace q in
          case consume_byte (CHR ''}'') q of
            Some r \<Rightarrow> Ok r
          | None \<Rightarrow>
              and_then (map_err Failed (expect_byte comma q)) (parse_members sj nested path k))))))"

definition parse_object :: "serde_json \<Rightarrow> json_parse_fn \<Rightarrow> json_parse_fn" where
  "parse_object sj nested path p =
     and_then (map_err Failed (expect_byte (CHR ''{'') p)) (\<lambda>p.
       case consume_byte (CHR ''}'') (skip_whitespace p) of
         Some q \<Rightarrow> Ok q
       | None \<Rightarrow> parse_members sj nested path (Suc (length (json_rest p))) (skip_whitespace p))"

primrec parse_items :: "json_parse_fn \<Rightarrow> JsonPathSegment list \<Rightarrow> nat \<Rightarrow> nat \<Rightarrow>
  JsonParser \<Rightarrow> JsonFailure + JsonParser" where
  "parse_items nested path 0 i p = Err OutOfFuel"
| "parse_items nested path (Suc k) i p =
     and_then (nested (path @ [Index i]) p) (\<lambda>q.
       let q = skip_whitespace q in
       case consume_byte (CHR '']'') q of
         Some r \<Rightarrow> Ok r
       | None \<Rightarrow>
           and_then (map_err Failed (expect_byte comma q)) (parse_items nested path k (i + 1)))"

definition parse_array :: "json_parse_fn \<Rightarrow> json_parse_fn" where
  "parse_array nested path p =
     and_then (map_err Failed (expect_byte (CHR ''['') p)) (\<lambda>p.
       case consume_byte (CHR '']'') (skip_whitespace p) of
         Some q \<Rightarrow> Ok q
       | None \<Rightarrow> parse_items nested path (Suc (length (json_rest p))) 0 (skip_whitespace p))"

primrec parse_value :: "serde_json \<Rightarrow> nat \<Rightarrow> json_parse_fn" where
  "parse_value sj 0 = (\<lambda>path p. Err OutOfFuel)"
| "parse_value sj (Suc n) = (\<lambda>path p.
     let p = skip_whitespace p in
     if json_rest p = [] then Err (Failed InvalidStructure)
     else if hd (json_rest p) = CHR ''{'' then parse_object sj (parse_value sj n) path p
     else if hd (json_rest p) = CHR ''['' then parse_array (parse_value sj n) path p
     else if hd (json_rest p) = quote then
       and_then (map_err Failed (parse_string sj path False p)) (\<lambda>(_, q). Ok q)
     else if primitive_start (hd (json_rest p)) then map_err Failed (parse_primitive sj p)
     else Err (Failed InvalidStructure))"

definition json_fuel :: "string \<Rightarrow> nat" where "json_fuel text = Suc (length text)"

definition json_parse :: "serde_json \<Rightarrow> nat \<Rightarrow> JsonParser \<Rightarrow> JsonFailure + JsonStringToken list" where
  "json_parse sj fuel p =
     and_then (parse_value sj fuel [] (skip_whitespace p)) (\<lambda>q.
       let q = skip_whitespace q in
       if json_rest q \<noteq> [] then Err (Failed InvalidStructure) else Ok (json_tokens q))"

fun json_error :: "JsonFailure \<Rightarrow> DocumentError" where
  "json_error (Failed e) = e"
| "json_error OutOfFuel = InvalidStructure"

definition parse_json_tokens :: "serde_json \<Rightarrow> string \<Rightarrow> DocumentError + JsonStringToken list" where
  "parse_json_tokens sj text = map_err json_error (json_parse sj (json_fuel text) (JsonParser_new text))"

section \<open>Pointers and segments\<close>

definition json_key_escape :: "string \<Rightarrow> string" where
  "json_key_escape key = replace_char (CHR ''/'') ''~1'' (replace_char (CHR ''~'') ''~0'' key)"

fun pointer_segment :: "JsonPathSegment \<Rightarrow> string" where
  "pointer_segment (Key key) = CHR ''/'' # json_key_escape key"
| "pointer_segment (Index i) = CHR ''/'' # nat_to_string i"

definition json_pointer :: "JsonPathSegment list \<Rightarrow> string" where
  "json_pointer path = concat (map pointer_segment path)"

definition json_path_selected ::
  "string list option \<Rightarrow> string list option \<Rightarrow> JsonPathSegment list \<Rightarrow> bool" where
  "json_path_selected inc exc path =
     (let pointer = json_pointer path in
      if (case exc of None \<Rightarrow> False | Some paths \<Rightarrow> pointer \<in> set paths) then False
      else (case inc of None \<Rightarrow> True | Some paths \<Rightarrow> pointer \<in> set paths))"

definition decode_json_string :: "serde_json \<Rightarrow> string \<Rightarrow> DocumentError + string" where
  "decode_json_string sj raw = ok_or InvalidStructure (from_str_string sj raw)"

definition encode_json_string :: "serde_json \<Rightarrow> string \<Rightarrow> string" where
  "encode_json_string sj translated = (case to_string sj translated of None \<Rightarrow> [quote, quote] | Some s \<Rightarrow> s)"

definition json_kind :: "string list option \<Rightarrow> string list option \<Rightarrow> JsonPathSegment list \<Rightarrow> bool \<Rightarrow> DocumentSegmentKind" where
  "json_kind inc exc path is_key =
     (if \<not> is_key \<and> json_path_selected inc exc path then Prose else Verbatim)"

definition push_segment :: "DocumentSegment list \<Rightarrow> DocumentSegmentKind \<Rightarrow> string \<Rightarrow> DocumentSegment list" where
  "push_segment ss kind text = ss @ [new_segment (length ss) kind text []]"

fun json_segments_loop :: "string list option \<Rightarrow> string list option \<Rightarrow> string \<Rightarrow> DocumentSegment list \<Rightarrow> nat \<Rightarrow>
  JsonStringToken list \<Rightarrow> DocumentError + DocumentSegment list" where
  "json_segments_loop inc exc text ss cursor [] =
     Ok (if cursor < length text then push_segment ss Verbatim (drop cursor text) else ss)"
| "json_segments_loop inc exc text ss cursor (t # ts) =
     (let ss = (if cursor < json_start t
                then push_segment ss Verbatim (take (json_start t - cursor) (drop cursor text)) else ss);
          ss = push_segment ss (json_kind inc exc (json_path t) (json_is_key t))
                 (take (json_end t - json_start t) (drop (json_start t) text)) in
      if length ss > MAX_JSON_SEGMENTS then Err InvalidStructure
      else json_segments_loop inc exc text ss (json_end t) ts)"

definition json_segments :: "serde_json \<Rightarrow> string list option \<Rightarrow> string list option \<Rightarrow> string \<Rightarrow>
  DocumentError + DocumentSegment list" where
  "json_segments sj inc exc text =
     and_then (parse_json_tokens sj text) (\<lambda>tokens. json_segments_loop inc exc text [] 0 tokens)"

section \<open>A grammar of the texts the tokenizer accepts\<close>

text \<open>
  A text cut into pieces: string literals with the path they stand at, and what is between them.
\<close>

datatype json_piece = Gap string | Lit "JsonPathSegment list" bool string

fun piece_text :: "json_piece \<Rightarrow> string" where
  "piece_text (Gap g) = g"
| "piece_text (Lit path is_key s) = s"

abbreviation flat :: "json_piece list \<Rightarrow> string" where "flat ps \<equiv> concat (map piece_text ps)"

fun piece_tokens :: "nat \<Rightarrow> json_piece list \<Rightarrow> JsonStringToken list" where
  "piece_tokens i [] = []"
| "piece_tokens i (Gap g # ps) = piece_tokens (i + length g) ps"
| "piece_tokens i (Lit path is_key s # ps) =
     \<lparr>json_start = i, json_end = i + length s, json_path = path, json_is_key = is_key\<rparr> #
     piece_tokens (i + length s) ps"

abbreviation spaces :: "string \<Rightarrow> bool" where "spaces w \<equiv> list_all json_space w"

definition string_literal :: "serde_json \<Rightarrow> string \<Rightarrow> bool" where
  "string_literal sj s \<longleftrightarrow> s \<noteq> [] \<and> hd s = quote \<and> string_scan (tl s) = Some (length (tl s)) \<and>
     from_str_string sj s \<noteq> None"

definition primitive_literal :: "serde_json \<Rightarrow> string \<Rightarrow> bool" where
  "primitive_literal sj s \<longleftrightarrow> s \<noteq> [] \<and> primitive_start (hd s) \<and> list_all (\<lambda>b. \<not> primitive_end b) s \<and>
     from_str_value_ok sj s"

inductive json_value :: "serde_json \<Rightarrow> JsonPathSegment list \<Rightarrow> json_piece list \<Rightarrow> bool"
  and json_members :: "serde_json \<Rightarrow> JsonPathSegment list \<Rightarrow> json_piece list \<Rightarrow> bool"
  and json_items :: "serde_json \<Rightarrow> JsonPathSegment list \<Rightarrow> nat \<Rightarrow> json_piece list \<Rightarrow> bool"
  for sj :: serde_json
where
  value_primitive: "spaces w \<Longrightarrow> primitive_literal sj s \<Longrightarrow> json_value sj path [Gap w, Gap s]"
| value_string: "spaces w \<Longrightarrow> string_literal sj s \<Longrightarrow> json_value sj path [Gap w, Lit path False s]"
| value_no_members: "spaces w \<Longrightarrow> spaces v \<Longrightarrow> json_value sj path [Gap w, Gap ''{'', Gap v, Gap ''}'']"
| value_members: "spaces w \<Longrightarrow> spaces v \<Longrightarrow> json_members sj path ps \<Longrightarrow>
    json_value sj path (Gap w # Gap ''{'' # Gap v # ps)"
| value_no_items: "spaces w \<Longrightarrow> spaces v \<Longrightarrow> json_value sj path [Gap w, Gap ''['', Gap v, Gap '']'']"
| value_items: "spaces w \<Longrightarrow> spaces v \<Longrightarrow> json_items sj path 0 ps \<Longrightarrow>
    json_value sj path (Gap w # Gap ''['' # Gap v # ps)"
| members_last: "spaces w \<Longrightarrow> spaces v \<Longrightarrow> spaces u \<Longrightarrow> string_literal sj s \<Longrightarrow>
    from_str_string sj s = Some key \<Longrightarrow> json_value sj (path @ [Key key]) vs \<Longrightarrow>
    json_members sj path ([Gap w, Lit path True s, Gap v, Gap '':''] @ vs @ [Gap u, Gap ''}''])"
| members_more: "spaces w \<Longrightarrow> spaces v \<Longrightarrow> spaces u \<Longrightarrow> string_literal sj s \<Longrightarrow>
    from_str_string sj s = Some key \<Longrightarrow> json_value sj (path @ [Key key]) vs \<Longrightarrow> json_members sj path ms \<Longrightarrow>
    json_members sj path ([Gap w, Lit path True s, Gap v, Gap '':''] @ vs @ [Gap u, Gap [comma]] @ ms)"
| items_last: "spaces u \<Longrightarrow> json_value sj (path @ [Index i]) vs \<Longrightarrow>
    json_items sj path i (vs @ [Gap u, Gap '']''])"
| items_more: "spaces u \<Longrightarrow> json_value sj (path @ [Index i]) vs \<Longrightarrow> json_items sj path (i + 1) ms \<Longrightarrow>
    json_items sj path i (vs @ [Gap u, Gap [comma]] @ ms)"

definition json_document :: "serde_json \<Rightarrow> json_piece list \<Rightarrow> bool" where
  "json_document sj ps \<longleftrightarrow> (\<exists>vs w. ps = vs @ [Gap w] \<and> spaces w \<and> json_value sj [] vs)"

section \<open>What the tokenizer accepts is in the grammar\<close>

text \<open>The parser after it has read some pieces and has \<open>k\<close> left.\<close>

definition after :: "json_piece list \<Rightarrow> string \<Rightarrow> JsonParser \<Rightarrow> JsonParser" where
  "after ps k p = \<lparr>json_rest = k, json_index = json_index p + length (flat ps),
     json_tokens = json_tokens p @ piece_tokens (json_index p) ps\<rparr>"

definition stepped :: "JsonParser \<Rightarrow> json_piece list \<Rightarrow> JsonParser \<Rightarrow> bool" where
  "stepped p ps q \<longleftrightarrow> json_rest p = flat ps @ json_rest q \<and> q = after ps (json_rest q) p \<and>
     (length (json_tokens p) \<le> MAX_JSON_TOKENS \<longrightarrow> length (json_tokens q) \<le> MAX_JSON_TOKENS)"

lemma piece_tokens_append [simp]:
  "piece_tokens i (ps @ qs) = piece_tokens i ps @ piece_tokens (i + length (flat ps)) qs"
  by (induction i ps rule: piece_tokens.induct) (simp_all add: add.assoc)

lemma after_sel [simp]:
  "json_rest (after ps k p) = k" "json_index (after ps k p) = json_index p + length (flat ps)"
  "json_tokens (after ps k p) = json_tokens p @ piece_tokens (json_index p) ps"
  by (simp_all add: after_def)

lemma after_after [simp]: "after qs k (after ps j p) = after (ps @ qs) k p"
  by (simp add: after_def)

lemma stepped_trans: "stepped p ps q \<Longrightarrow> stepped q qs r \<Longrightarrow> stepped p (ps @ qs) r"
  unfolding stepped_def by (metis after_after append.assoc concat_append map_append)

lemma stepped_length: "stepped p ps q \<Longrightarrow> length (json_rest p) = length (flat ps) + length (json_rest q)"
  by (simp add: stepped_def)

lemma stepped_Gap: "stepped p [Gap g] q \<longleftrightarrow>
    json_rest p = g @ json_rest q \<and> json_index q = json_index p + length g \<and> json_tokens q = json_tokens p"
  by (cases q) (auto simp: stepped_def after_def)

lemma advance_after:
  "n \<le> length (json_rest p) \<Longrightarrow> advance n p = after [Gap (take n (json_rest p))] (drop n (json_rest p)) p"
  by (simp add: advance_def after_def)

lemma advance_stepped: "n \<le> length (json_rest p) \<Longrightarrow> stepped p [Gap (take n (json_rest p))] (advance n p)"
  unfolding advance_after by (simp add: stepped_def)

lemma skip_stepped:
  "stepped p [Gap (takeWhile json_space (json_rest p))] (skip_whitespace p)"
  "spaces (takeWhile json_space (json_rest p))"
proof -
  show "stepped p [Gap (takeWhile json_space (json_rest p))] (skip_whitespace p)"
    using advance_stepped [of "length (takeWhile json_space (json_rest p))" p]
    by (simp add: length_takeWhile_le skip_whitespace_def takeWhile_eq_take [symmetric])
  show "spaces (takeWhile json_space (json_rest p))" by (auto simp: list_all_iff dest: set_takeWhileD)
qed

lemma consume_stepped: "consume_byte b p = Some q \<Longrightarrow> stepped p [Gap [b]] q"
  using advance_stepped [of 1 p]
  by (cases "json_rest p") (auto simp: consume_byte_def split: if_splits)

lemma expect_stepped: "expect_byte b p = Ok q \<Longrightarrow> stepped p [Gap [b]] q"
  by (auto simp: expect_byte_def ok_or_Inr intro: consume_stepped)

lemma string_scan_le: "string_scan s = Some n \<Longrightarrow> 0 < n \<and> n \<le> length s \<and> string_scan (take n s) = Some n"
  by (induction s arbitrary: n rule: string_scan.induct) (auto split: if_splits list.splits)

lemma parse_string_stepped:
  assumes "parse_string sj path k p = Ok (raw, q)"
  shows "string_literal sj raw" "stepped p [Lit path k raw] q"
proof -
  from assms obtain r where r: "expect_byte quote p = Ok r" by (auto simp: parse_string_def and_then_Inr)
  with assms obtain n where n: "string_scan (json_rest r) = Some n"
    by (cases "string_scan (json_rest r)") (auto simp: parse_string_def)
  from assms r n have lim: "length (json_tokens r) < MAX_JSON_TOKENS"
    by (auto simp: parse_string_def split: if_splits)
  with assms r n have raw: "raw = take (n + 1) (json_rest p)" "from_str_string sj raw \<noteq> None"
    by (auto simp: parse_string_def Let_def split: if_splits)
  with assms r n lim have q: "q = (advance n r)\<lparr>json_tokens := json_tokens r @ [\<lparr>json_start = json_index p,
      json_end = json_index r + n, json_path = path, json_is_key = k\<rparr>]\<rparr>"
    by (auto simp: parse_string_def Let_def advance_def split: if_splits)
  from expect_stepped [OF r] have p: "json_rest p = quote # json_rest r" "json_index r = json_index p + 1"
    "json_tokens r = json_tokens p"
    by (simp_all add: stepped_Gap)
  note scan = string_scan_le [OF n]
  have raw': "raw = quote # take n (json_rest r)" using raw p by simp
  with scan raw(2) show "string_literal sj raw" by (simp add: string_literal_def min_def)
  show "stepped p [Lit path k raw] q"
    using scan lim p unfolding q raw' by (simp add: stepped_def after_def advance_def min_def)
qed

lemma parse_primitive_stepped:
  assumes "parse_primitive sj p = Ok q" "json_rest p \<noteq> []" "primitive_start (hd (json_rest p))"
  obtains s where "primitive_literal sj s" "stepped p [Gap s] q"
proof
  let ?s = "takeWhile (\<lambda>b. \<not> primitive_end b) (json_rest p)"
  from assms(1) have s: "?s \<noteq> []" "from_str_value_ok sj ?s" "q = advance (length ?s) p"
    by (auto simp: parse_primitive_def Let_def split: if_splits)
  have "hd ?s = hd (json_rest p)" using s(1) by (cases "json_rest p") (auto split: if_splits)
  with s assms(3) show "primitive_literal sj ?s"
    by (auto simp: primitive_literal_def list_all_iff dest: set_takeWhileD)
  show "stepped p [Gap ?s] q"
    using advance_stepped [of "length ?s" p]
    by (simp add: length_takeWhile_le s(3) takeWhile_eq_take [symmetric])
qed

lemma parse_members_Ok:
  assumes "parse_members sj nested path (Suc k) p = Ok q"
  obtains raw a key b c where "parse_string sj path True (skip_whitespace p) = Ok (raw, a)"
    "from_str_string sj raw = Some key" "expect_byte (CHR '':'') (skip_whitespace a) = Ok b"
    "nested (path @ [Key key]) b = Ok c"
    "consume_byte (CHR ''}'') (skip_whitespace c) = Some q \<or>
     (\<exists>d. expect_byte comma (skip_whitespace c) = Ok d \<and> parse_members sj nested path k d = Ok q)"
proof -
  from assms obtain raw a where a: "parse_string sj path True (skip_whitespace p) = Ok (raw, a)"
    by (auto simp: Let_def result_iff split: if_splits)
  with assms obtain key where key: "from_str_string sj raw = Some key"
    by (auto simp: Let_def result_iff split: if_splits)
  with assms a obtain b where b: "expect_byte (CHR '':'') (skip_whitespace a) = Ok b"
    by (auto simp: Let_def result_iff split: if_splits)
  with assms a key obtain c where c: "nested (path @ [Key key]) b = Ok c"
    by (auto simp: Let_def result_iff split: if_splits)
  have "consume_byte (CHR ''}'') (skip_whitespace c) = Some q \<or>
     (\<exists>d. expect_byte comma (skip_whitespace c) = Ok d \<and> parse_members sj nested path k d = Ok q)"
    using assms a key b c
    by (cases "consume_byte (CHR ''}'') (skip_whitespace c)") (auto simp: Let_def result_iff split: if_splits)
  with that [OF a key b c] show thesis .
qed

lemma parse_items_Ok:
  assumes "parse_items nested path (Suc k) i p = Ok q"
  obtains c where "nested (path @ [Index i]) p = Ok c"
    "consume_byte (CHR '']'') (skip_whitespace c) = Some q \<or>
     (\<exists>d. expect_byte comma (skip_whitespace c) = Ok d \<and> parse_items nested path k (i + 1) d = Ok q)"
proof -
  from assms obtain c where c: "nested (path @ [Index i]) p = Ok c" by (auto simp: and_then_Inr)
  have "consume_byte (CHR '']'') (skip_whitespace c) = Some q \<or>
     (\<exists>d. expect_byte comma (skip_whitespace c) = Ok d \<and> parse_items nested path k (i + 1) d = Ok q)"
    using assms c
    by (cases "consume_byte (CHR '']'') (skip_whitespace c)") (auto simp: Let_def result_iff split: if_splits)
  with that [OF c] show thesis .
qed

definition value_sound :: "serde_json \<Rightarrow> json_parse_fn \<Rightarrow> bool" where
  "value_sound sj nested \<longleftrightarrow>
     (\<forall>path p q. nested path p = Ok q \<longrightarrow> (\<exists>ps. json_value sj path ps \<and> stepped p ps q))"

lemma value_soundE:
  assumes "value_sound sj nested" "nested path p = Ok q"
  obtains ps where "json_value sj path ps" "stepped p ps q"
  using assms unfolding value_sound_def by blast

lemma parse_members_sound:
  assumes nested: "value_sound sj nested"
  shows "parse_members sj nested path k p = Ok q \<Longrightarrow> \<exists>ps. json_members sj path ps \<and> stepped p ps q"
proof (induction k arbitrary: p)
  case (Suc k)
  from Suc.prems obtain raw a key b c where
    a: "parse_string sj path True (skip_whitespace p) = Ok (raw, a)" and key: "from_str_string sj raw = Some key"
    and b: "expect_byte (CHR '':'') (skip_whitespace a) = Ok b" and c: "nested (path @ [Key key]) b = Ok c"
    and rest: "consume_byte (CHR ''}'') (skip_whitespace c) = Some q \<or>
      (\<exists>d. expect_byte comma (skip_whitespace c) = Ok d \<and> parse_members sj nested path k d = Ok q)"
    by (rule parse_members_Ok)
  from value_soundE [OF nested c] obtain vs where vs: "json_value sj (path @ [Key key]) vs" "stepped b vs c" .
  obtain w v u where w: "spaces w" "spaces v" "spaces u" "stepped p [Gap w] (skip_whitespace p)"
    "stepped a [Gap v] (skip_whitespace a)" "stepped c [Gap u] (skip_whitespace c)"
    using skip_stepped by metis
  note lit = parse_string_stepped [OF a]
  have upto: "stepped p ([Gap w, Lit path True raw, Gap v, Gap '':''] @ vs @ [Gap u]) (skip_whitespace c)"
    using stepped_trans [OF w(4) stepped_trans [OF lit(2) stepped_trans [OF w(5)
      stepped_trans [OF expect_stepped [OF b] stepped_trans [OF vs(2) w(6)]]]]] by simp
  from rest show ?case
  proof (elim disjE exE conjE)
    assume "consume_byte (CHR ''}'') (skip_whitespace c) = Some q"
    from stepped_trans [OF upto consume_stepped [OF this]]
    have "stepped p ([Gap w, Lit path True raw, Gap v, Gap '':''] @ vs @ [Gap u, Gap ''}'']) q" by simp
    with members_last [OF w(1-3) lit(1) key vs(1)] show ?thesis by blast
  next
    fix d assume d: "expect_byte comma (skip_whitespace c) = Ok d" "parse_members sj nested path k d = Ok q"
    from Suc.IH [OF d(2)] obtain ms where ms: "json_members sj path ms" "stepped d ms q" by blast
    from stepped_trans [OF stepped_trans [OF upto expect_stepped [OF d(1)]] ms(2)]
    have "stepped p ([Gap w, Lit path True raw, Gap v, Gap '':''] @ vs @ [Gap u, Gap [comma]] @ ms) q" by simp
    with members_more [OF w(1-3) lit(1) key vs(1) ms(1)] show ?thesis by blast
  qed
qed simp

lemma parse_items_sound:
  assumes nested: "value_sound sj nested"
  shows "parse_items nested path k i p = Ok q \<Longrightarrow> \<exists>ps. json_items sj path i ps \<and> stepped p ps q"
proof (induction k arbitrary: p i)
  case (Suc k)
  from Suc.prems obtain c where c: "nested (path @ [Index i]) p = Ok c"
    and rest: "consume_byte (CHR '']'') (skip_whitespace c) = Some q \<or>
      (\<exists>d. expect_byte comma (skip_whitespace c) = Ok d \<and> parse_items nested path k (i + 1) d = Ok q)"
    by (rule parse_items_Ok)
  from value_soundE [OF nested c] obtain vs where vs: "json_value sj (path @ [Index i]) vs" "stepped p vs c" .
  obtain u where u: "spaces u" "stepped c [Gap u] (skip_whitespace c)" using skip_stepped by metis
  note upto = stepped_trans [OF vs(2) u(2)]
  from rest show ?case
  proof (elim disjE exE conjE)
    assume "consume_byte (CHR '']'') (skip_whitespace c) = Some q"
    from stepped_trans [OF upto consume_stepped [OF this]]
    have "stepped p (vs @ [Gap u, Gap '']'']) q" by simp
    with items_last [OF u(1) vs(1)] show ?thesis by blast
  next
    fix d assume d: "expect_byte comma (skip_whitespace c) = Ok d" "parse_items nested path k (i + 1) d = Ok q"
    from Suc.IH [OF d(2)] obtain ms where ms: "json_items sj path (i + 1) ms" "stepped d ms q" by blast
    from stepped_trans [OF stepped_trans [OF upto expect_stepped [OF d(1)]] ms(2)]
    have "stepped p (vs @ [Gap u, Gap [comma]] @ ms) q" by simp
    with items_more [OF u(1) vs(1) ms(1)] show ?thesis by blast
  qed
qed simp

lemma parse_object_sound:
  assumes nested: "value_sound sj nested" and ok: "parse_object sj nested path (skip_whitespace p) = Ok q"
  shows "\<exists>ps. json_value sj path ps \<and> stepped p ps q"
proof -
  obtain w where w: "spaces w" "stepped p [Gap w] (skip_whitespace p)" using skip_stepped by metis
  from ok obtain a where a: "expect_byte (CHR ''{'') (skip_whitespace p) = Ok a"
    by (auto simp: parse_object_def result_iff)
  obtain v where v: "spaces v" "stepped a [Gap v] (skip_whitespace a)" using skip_stepped by metis
  have upto: "stepped p [Gap w, Gap ''{'', Gap v] (skip_whitespace a)"
    using stepped_trans [OF w(2) stepped_trans [OF expect_stepped [OF a] v(2)]] by simp
  show ?thesis
  proof (cases "consume_byte (CHR ''}'') (skip_whitespace a)")
    case None
    with ok a have "parse_members sj nested path (Suc (length (json_rest a))) (skip_whitespace a) = Ok q"
      by (simp add: parse_object_def del: parse_members.simps)
    from parse_members_sound [OF nested this] obtain ms where "json_members sj path ms" "stepped (skip_whitespace a) ms q"
      by blast
    with value_members [OF w(1) v(1)] stepped_trans [OF upto] show ?thesis by fastforce
  next
    case (Some r)
    with ok a have "r = q" by (simp add: parse_object_def)
    with stepped_trans [OF upto consume_stepped [OF Some]] value_no_members [OF w(1) v(1)] show ?thesis by fastforce
  qed
qed

lemma parse_array_sound:
  assumes nested: "value_sound sj nested" and ok: "parse_array nested path (skip_whitespace p) = Ok q"
  shows "\<exists>ps. json_value sj path ps \<and> stepped p ps q"
proof -
  obtain w where w: "spaces w" "stepped p [Gap w] (skip_whitespace p)" using skip_stepped by metis
  from ok obtain a where a: "expect_byte (CHR ''['') (skip_whitespace p) = Ok a"
    by (auto simp: parse_array_def result_iff)
  obtain v where v: "spaces v" "stepped a [Gap v] (skip_whitespace a)" using skip_stepped by metis
  have upto: "stepped p [Gap w, Gap ''['', Gap v] (skip_whitespace a)"
    using stepped_trans [OF w(2) stepped_trans [OF expect_stepped [OF a] v(2)]] by simp
  show ?thesis
  proof (cases "consume_byte (CHR '']'') (skip_whitespace a)")
    case None
    with ok a have "parse_items nested path (Suc (length (json_rest a))) 0 (skip_whitespace a) = Ok q"
      by (simp add: parse_array_def del: parse_items.simps)
    from parse_items_sound [OF nested this] obtain ms where "json_items sj path 0 ms" "stepped (skip_whitespace a) ms q"
      by blast
    with value_items [OF w(1) v(1)] stepped_trans [OF upto] show ?thesis by fastforce
  next
    case (Some r)
    with ok a have "r = q" by (simp add: parse_array_def)
    with stepped_trans [OF upto consume_stepped [OF Some]] value_no_items [OF w(1) v(1)] show ?thesis by fastforce
  qed
qed

lemma parse_value_Ok:
  assumes "parse_value sj (Suc n) path p = Ok q"
  obtains "parse_object sj (parse_value sj n) path (skip_whitespace p) = Ok q"
  | "parse_array (parse_value sj n) path (skip_whitespace p) = Ok q"
  | raw where "parse_string sj path False (skip_whitespace p) = Ok (raw, q)"
  | "json_rest (skip_whitespace p) \<noteq> []" "primitive_start (hd (json_rest (skip_whitespace p)))"
    "parse_primitive sj (skip_whitespace p) = Ok q"
  using assms by (auto simp: Let_def result_iff split: if_splits)

lemma parse_value_sound: "value_sound sj (parse_value sj n)"
proof (induction n)
  case (Suc n)
  show ?case unfolding value_sound_def
  proof (intro allI impI)
    fix path p q
    assume ok: "parse_value sj (Suc n) path p = Ok q"
    obtain w where w: "spaces w" "stepped p [Gap w] (skip_whitespace p)" using skip_stepped by metis
    from ok show "\<exists>ps. json_value sj path ps \<and> stepped p ps q"
    proof (cases rule: parse_value_Ok)
      case 1
      then show ?thesis by (rule parse_object_sound [OF Suc.IH])
    next
      case 2
      then show ?thesis by (rule parse_array_sound [OF Suc.IH])
    next
      case (3 raw)
      note lit = parse_string_stepped [OF this]
      from value_string [OF w(1) lit(1)] stepped_trans [OF w(2) lit(2)] show ?thesis by fastforce
    next
      case 4
      from parse_primitive_stepped [OF 4(3,1,2)] obtain s where "primitive_literal sj s"
        "stepped (skip_whitespace p) [Gap s] q" .
      with value_primitive [OF w(1)] stepped_trans [OF w(2)] show ?thesis by fastforce
    qed
  qed
qed (simp add: value_sound_def)

section \<open>Every text of the grammar is accepted\<close>

fun lits :: "json_piece list \<Rightarrow> nat" where
  "lits [] = 0"
| "lits (Gap g # ps) = lits ps"
| "lits (Lit path is_key s # ps) = Suc (lits ps)"

lemma lits_append [simp]: "lits (ps @ qs) = lits ps + lits qs"
  by (induction ps rule: lits.induct) simp_all

lemma length_piece_tokens [simp]: "length (piece_tokens i ps) = lits ps"
  by (induction i ps rule: piece_tokens.induct) simp_all

abbreviation delimited :: "string \<Rightarrow> bool" where "delimited k \<equiv> k = [] \<or> primitive_end (hd k)"

lemma skip_eq:
  "json_rest p = w @ r \<Longrightarrow> spaces w \<Longrightarrow> r = [] \<or> \<not> json_space (hd r) \<Longrightarrow> skip_whitespace p = after [Gap w] r p"
proof -
  assume p: "json_rest p = w @ r" "spaces w" "r = [] \<or> \<not> json_space (hd r)"
  then have "takeWhile json_space (json_rest p) = w"
    by (cases r) (auto simp: list_all_iff takeWhile_append2 takeWhile_eq_all_conv)
  with p(1) show ?thesis by (simp add: skip_whitespace_def advance_def after_def)
qed

lemma skip_after: "json_rest p = w @ r \<Longrightarrow> spaces w \<Longrightarrow> skip_whitespace (after [Gap w] r p) = skip_whitespace p"
  by (auto simp: skip_whitespace_def advance_def after_def list_all_iff takeWhile_append2)

lemma skip_skip [simp]: "skip_whitespace (skip_whitespace p) = skip_whitespace p"
  using skip_after [of p "takeWhile json_space (json_rest p)" "dropWhile json_space (json_rest p)"]
    skip_stepped [of p] skip_eq [of p "takeWhile json_space (json_rest p)" "dropWhile json_space (json_rest p)"]
  by (metis hd_dropWhile takeWhile_dropWhile_id)

lemma parse_value_skip [simp]: "parse_value sj n path (skip_whitespace p) = parse_value sj n path p"
  by (cases n) simp_all

lemma parse_members_skip:
  "parse_members sj nested path (Suc j) (skip_whitespace p) = parse_members sj nested path (Suc j) p"
  by simp

lemma parse_items_skip: "parse_items (parse_value sj n) path (Suc j) i (skip_whitespace p) =
    parse_items (parse_value sj n) path (Suc j) i p"
  by simp

lemma consume_eq: "json_rest p = b # r \<Longrightarrow> consume_byte b p = Some (after [Gap [b]] r p)"
  by (simp add: consume_byte_def advance_def after_def)

lemma consume_None: "json_rest p = c # r \<Longrightarrow> b \<noteq> c \<Longrightarrow> consume_byte b p = None"
  by (simp add: consume_byte_def)

lemma expect_eq: "json_rest p = b # r \<Longrightarrow> expect_byte b p = Ok (after [Gap [b]] r p)"
  by (simp add: expect_byte_def consume_eq)

lemma string_scan_append: "string_scan s = Some n \<Longrightarrow> string_scan (s @ k) = Some n"
  by (induction s arbitrary: n rule: string_scan.induct) (auto split: if_splits list.splits)

lemma parse_string_eq:
  assumes "json_rest p = s @ k" "string_literal sj s" "length (json_tokens p) < MAX_JSON_TOKENS"
  shows "parse_string sj path key p = Ok (s, after [Lit path key s] k p)"
proof -
  from assms(2) obtain body where s: "s = quote # body" "string_scan body = Some (length body)"
    "from_str_string sj s \<noteq> None" by (cases s) (auto simp: string_literal_def)
  note string_scan_append [OF s(2), of k]
  with s assms(1,3) show ?thesis
    by (auto simp: parse_string_def expect_eq advance_def after_def Let_def)
qed

lemma parse_primitive_eq:
  assumes "json_rest p = s @ k" "primitive_literal sj s" "delimited k"
  shows "parse_primitive sj p = Ok (after [Gap s] k p)"
proof -
  have "takeWhile (\<lambda>b. \<not> primitive_end b) (s @ k) = s"
    using assms(2,3) by (cases k) (auto simp: primitive_literal_def list_all_iff takeWhile_append2)
  with assms(1,2) show ?thesis by (simp add: parse_primitive_def advance_def after_def primitive_literal_def)
qed

lemma primitive_start_props: "primitive_start c \<Longrightarrow> \<not> json_space c \<and> c \<noteq> CHR '']'' \<and> c \<noteq> CHR ''}'' \<and>
    c \<noteq> CHR ''{'' \<and> c \<noteq> CHR ''['' \<and> c \<noteq> quote"
  by (auto simp: primitive_start_def json_space_def is_ascii_digit_def)

lemma string_literalE:
  assumes "string_literal sj s"
  obtains body where "s = quote # body" "string_scan body = Some (length body)"
  using assms by (cases s) (auto simp: string_literal_def)

lemma value_head:
  assumes "json_value sj path ps"
  obtains w c r where "flat ps = w @ c # r" "spaces w" "\<not> json_space c" "c \<noteq> CHR '']''" "c \<noteq> CHR ''}''"
  using assms
proof (cases rule: json_value.cases)
  case (value_primitive w s)
  then have "flat ps = w @ hd s # tl s" "primitive_start (hd s)" by (simp_all add: primitive_literal_def)
  with value_primitive primitive_start_props that show ?thesis by blast
next
  case (value_string w s)
  from this(3) obtain body where "s = quote # body" by (rule string_literalE)
  with value_string that [of w quote body] show ?thesis by (simp add: json_space_def)
qed (use that in \<open>fastforce simp: json_space_def\<close>)+

lemma members_head:
  assumes "json_members sj path ps"
  obtains w r where "flat ps = w @ quote # r" "spaces w"
proof -
  from assms obtain w s more where "flat ps = w @ s @ more" "spaces w" "string_literal sj s"
    by (cases rule: json_members.cases) auto
  moreover from this(3) obtain body where "s = quote # body" by (rule string_literalE)
  ultimately show ?thesis using that [of w "body @ more"] by simp
qed

definition reads_value :: "serde_json \<Rightarrow> JsonPathSegment list \<Rightarrow> json_piece list \<Rightarrow> bool" where
  "reads_value sj path ps \<longleftrightarrow> (\<forall>n p k. json_rest p = flat ps @ k \<longrightarrow> delimited k \<longrightarrow>
     length (json_tokens p) + lits ps \<le> MAX_JSON_TOKENS \<longrightarrow> length (flat ps) \<le> n \<longrightarrow>
     parse_value sj n path p = Ok (after ps k p))"

definition reads_members :: "serde_json \<Rightarrow> JsonPathSegment list \<Rightarrow> json_piece list \<Rightarrow> bool" where
  "reads_members sj path ps \<longleftrightarrow> (\<forall>n j p k. json_rest p = flat ps @ k \<longrightarrow>
     length (json_tokens p) + lits ps \<le> MAX_JSON_TOKENS \<longrightarrow> length (flat ps) \<le> n \<longrightarrow> length (flat ps) \<le> j \<longrightarrow>
     parse_members sj (parse_value sj n) path j p = Ok (after ps k p))"

definition reads_items :: "serde_json \<Rightarrow> JsonPathSegment list \<Rightarrow> nat \<Rightarrow> json_piece list \<Rightarrow> bool" where
  "reads_items sj path i ps \<longleftrightarrow> (\<forall>n j p k. json_rest p = flat ps @ k \<longrightarrow>
     length (json_tokens p) + lits ps \<le> MAX_JSON_TOKENS \<longrightarrow> length (flat ps) \<le> n \<longrightarrow> length (flat ps) \<le> j \<longrightarrow>
     parse_items (parse_value sj n) path j i p = Ok (after ps k p))"

lemma delimited_spaces: "spaces u \<Longrightarrow> primitive_end c \<Longrightarrow> delimited (u @ c # k)"
  by (cases u) (auto simp: primitive_end_def)

lemma primitive_end_chars [simp]: "primitive_end (CHR ''}'')" "primitive_end (CHR '']'')" "primitive_end comma"
  "\<not> json_space (CHR ''}'')" "\<not> json_space (CHR '']'')" "\<not> json_space comma" "\<not> json_space (CHR '':'')"
  "\<not> json_space quote" "\<not> json_space (CHR ''{'')" "\<not> json_space (CHR ''['')"
  by (simp_all add: primitive_end_def json_space_def)

text \<open>One round of the loops, up to the byte \<open>c\<close> that ends the member or item.\<close>

lemma parse_members_round:
  assumes "reads_value sj (path @ [Key key]) vs" "spaces w" "spaces v" "spaces u" "string_literal sj s"
    "from_str_string sj s = Some key" "primitive_end c" "\<not> json_space c"
    and ps: "ps = [Gap w, Lit path True s, Gap v, Gap '':''] @ vs @ [Gap u]"
    and p: "json_rest p = flat ps @ c # k" "length (json_tokens p) + lits ps \<le> MAX_JSON_TOKENS"
      "length (flat vs) \<le> n"
  shows "parse_members sj (parse_value sj n) path (Suc j) p =
    (let q = after ps (c # k) p in
     case consume_byte (CHR ''}'') q of
       Some r \<Rightarrow> Ok r
     | None \<Rightarrow> and_then (map_err Failed (expect_byte comma q)) (parse_members sj (parse_value sj n) path j))"
proof -
  let ?k1 = "s @ v @ CHR '':'' # flat vs @ u @ c # k"
  from assms(5) obtain body where s: "s = quote # body" by (rule string_literalE)
  have 1: "skip_whitespace p = after [Gap w] ?k1 p" by (rule skip_eq) (simp_all add: p ps assms s)
  have 2: "parse_string sj path True (after [Gap w] ?k1 p) =
      Ok (s, after [Gap w, Lit path True s] (v @ CHR '':'' # flat vs @ u @ c # k) p)"
    using parse_string_eq [OF _ assms(5), of "after [Gap w] ?k1 p" "v @ CHR '':'' # flat vs @ u @ c # k" path True] p(2)
    by (simp add: ps)
  have 3: "skip_whitespace (after [Gap w, Lit path True s] (v @ CHR '':'' # flat vs @ u @ c # k) p) =
      after [Gap w, Lit path True s, Gap v] (CHR '':'' # flat vs @ u @ c # k) p"
    using skip_eq [of _ v "CHR '':'' # flat vs @ u @ c # k"] by (simp add: assms)
  let ?p4 = "after [Gap w, Lit path True s, Gap v, Gap '':''] (flat vs @ u @ c # k) p"
  have 4: "expect_byte (CHR '':'') (after [Gap w, Lit path True s, Gap v] (CHR '':'' # flat vs @ u @ c # k) p) = Ok ?p4"
    by (simp add: expect_eq)
  have 5: "parse_value sj n (path @ [Key key]) ?p4 =
      Ok (after (Gap w # Lit path True s # Gap v # Gap '':'' # vs) (u @ c # k) p)"
    using assms(1) delimited_spaces [OF assms(4,7)] p(2,3) unfolding reads_value_def by (simp add: ps)
  have 6: "skip_whitespace (after (Gap w # Lit path True s # Gap v # Gap '':'' # vs) (u @ c # k) p) = after ps (c # k) p"
    using skip_eq [of _ u "c # k"] by (simp add: assms)
  have "s \<noteq> []" "hd s = quote" by (simp_all add: s)
  then show ?thesis by (simp add: 1 2 3 4 5 6 assms(6))
qed

lemma parse_items_round:
  assumes "reads_value sj (path @ [Index i]) vs" "spaces u" "primitive_end c" "\<not> json_space c"
    and p: "json_rest p = flat vs @ u @ c # k" "length (json_tokens p) + lits vs \<le> MAX_JSON_TOKENS"
      "length (flat vs) \<le> n"
  shows "parse_items (parse_value sj n) path (Suc j) i p =
    (let q = after (vs @ [Gap u]) (c # k) p in
     case consume_byte (CHR '']'') q of
       Some r \<Rightarrow> Ok r
     | None \<Rightarrow> and_then (map_err Failed (expect_byte comma q)) (parse_items (parse_value sj n) path j (i + 1)))"
proof -
  have 1: "parse_value sj n (path @ [Index i]) p = Ok (after vs (u @ c # k) p)"
    using assms(1) delimited_spaces [OF assms(2,3)] p unfolding reads_value_def by simp
  have 2: "skip_whitespace (after vs (u @ c # k) p) = after (vs @ [Gap u]) (c # k) p"
    using skip_eq [of _ u "c # k"] by (simp add: assms)
  show ?thesis by (simp add: 1 2)
qed

lemma reads_members_last:
  assumes "reads_value sj (path @ [Key key]) vs" "spaces w" "spaces v" "spaces u" "string_literal sj s"
    "from_str_string sj s = Some key"
  shows "reads_members sj path ([Gap w, Lit path True s, Gap v, Gap '':''] @ vs @ [Gap u, Gap ''}''])"
  unfolding reads_members_def
proof (intro allI impI)
  fix n j :: nat and p :: JsonParser and k :: string
  assume p: "json_rest p = flat ([Gap w, Lit path True s, Gap v, Gap '':''] @ vs @ [Gap u, Gap ''}'']) @ k"
    "length (json_tokens p) + lits ([Gap w, Lit path True s, Gap v, Gap '':''] @ vs @ [Gap u, Gap ''}'']) \<le> MAX_JSON_TOKENS"
    "length (flat ([Gap w, Lit path True s, Gap v, Gap '':''] @ vs @ [Gap u, Gap ''}''])) \<le> n"
    "length (flat ([Gap w, Lit path True s, Gap v, Gap '':''] @ vs @ [Gap u, Gap ''}''])) \<le> j"
  then obtain j' where j: "j = Suc j'" by (cases j) auto
  show "parse_members sj (parse_value sj n) path j p =
      Ok (after ([Gap w, Lit path True s, Gap v, Gap '':''] @ vs @ [Gap u, Gap ''}'']) k p)"
    unfolding j by (subst parse_members_round [OF assms(1-6) _ _ refl, of "CHR ''}''" p k])
      (use p in \<open>simp_all add: consume_eq\<close>)
qed

lemma reads_members_more:
  assumes "reads_value sj (path @ [Key key]) vs" "spaces w" "spaces v" "spaces u" "string_literal sj s"
    "from_str_string sj s = Some key" "reads_members sj path ms"
  shows "reads_members sj path ([Gap w, Lit path True s, Gap v, Gap '':''] @ vs @ [Gap u, Gap [comma]] @ ms)"
  unfolding reads_members_def
proof (intro allI impI)
  fix n j :: nat and p :: JsonParser and k :: string
  let ?ps = "[Gap w, Lit path True s, Gap v, Gap '':''] @ vs @ [Gap u, Gap [comma]] @ ms"
  assume p: "json_rest p = flat ?ps @ k" "length (json_tokens p) + lits ?ps \<le> MAX_JSON_TOKENS"
    "length (flat ?ps) \<le> n" "length (flat ?ps) \<le> j"
  then obtain j' where j: "j = Suc j'" by (cases j) auto
  have "parse_members sj (parse_value sj n) path j'
      (after ([Gap w, Lit path True s, Gap v, Gap '':''] @ vs @ [Gap u, Gap [comma]]) (flat ms @ k) p) = Ok (after ?ps k p)"
    using assms(7) p unfolding reads_members_def j by simp
  then show "parse_members sj (parse_value sj n) path j p = Ok (after ?ps k p)"
    unfolding j by (subst parse_members_round [OF assms(1-6) _ _ refl, of comma p "flat ms @ k"])
      (use p in \<open>simp_all add: consume_None [of _ comma] expect_eq\<close>)
qed

lemma reads_items_last:
  assumes "reads_value sj (path @ [Index i]) vs" "spaces u"
  shows "reads_items sj path i (vs @ [Gap u, Gap '']''])"
  unfolding reads_items_def
proof (intro allI impI)
  fix n j :: nat and p :: JsonParser and k :: string
  let ?ps = "vs @ [Gap u, Gap '']'']"
  assume p: "json_rest p = flat ?ps @ k" "length (json_tokens p) + lits ?ps \<le> MAX_JSON_TOKENS"
    "length (flat ?ps) \<le> n" "length (flat ?ps) \<le> j"
  then obtain j' where j: "j = Suc j'" by (cases j) auto
  show "parse_items (parse_value sj n) path j i p = Ok (after ?ps k p)"
    unfolding j by (subst parse_items_round [OF assms, of "CHR '']''" p k]) (use p in \<open>simp_all add: consume_eq\<close>)
qed

lemma reads_items_more:
  assumes "reads_value sj (path @ [Index i]) vs" "spaces u" "reads_items sj path (i + 1) ms"
  shows "reads_items sj path i (vs @ [Gap u, Gap [comma]] @ ms)"
  unfolding reads_items_def
proof (intro allI impI)
  fix n j :: nat and p :: JsonParser and k :: string
  let ?ps = "vs @ [Gap u, Gap [comma]] @ ms"
  assume p: "json_rest p = flat ?ps @ k" "length (json_tokens p) + lits ?ps \<le> MAX_JSON_TOKENS"
    "length (flat ?ps) \<le> n" "length (flat ?ps) \<le> j"
  then obtain j' where j: "j = Suc j'" by (cases j) auto
  have "parse_items (parse_value sj n) path j' (i + 1) (after (vs @ [Gap u, Gap [comma]]) (flat ms @ k) p) =
      Ok (after ?ps k p)"
    using assms(3) p unfolding reads_items_def j by simp
  then show "parse_items (parse_value sj n) path j i p = Ok (after ?ps k p)"
    unfolding j by (subst parse_items_round [OF assms(1,2), of comma p "flat ms @ k"])
      (use p in \<open>simp_all add: consume_None [of _ comma] expect_eq\<close>)
qed

text \<open>The opening byte of a value, after its leading whitespace.\<close>

lemma parse_value_at:
  assumes "json_rest p = w @ c # r" "spaces w" "\<not> json_space c"
  shows "parse_value sj (Suc n) path p =
    (let q = after [Gap w] (c # r) p in
     if c = CHR ''{'' then parse_object sj (parse_value sj n) path q
     else if c = CHR ''['' then parse_array (parse_value sj n) path q
     else if c = quote then and_then (map_err Failed (parse_string sj path False q)) (\<lambda>(_, q). Ok q)
     else if primitive_start c then map_err Failed (parse_primitive sj q)
     else Err (Failed InvalidStructure))"
  using skip_eq [of p w "c # r"] assms by (simp add: Let_def)

lemma reads_container:
  assumes "spaces w" "\<not> json_space c" "flat ps = w @ c # r"
    and "\<And>n p k. json_rest p = flat ps @ k \<Longrightarrow> delimited k \<Longrightarrow> length (json_tokens p) + lits ps \<le> MAX_JSON_TOKENS \<Longrightarrow>
      length r \<le> n \<Longrightarrow> parse_value sj (Suc n) path p = Ok (after ps k p)"
  shows "reads_value sj path ps"
  unfolding reads_value_def
proof (intro allI impI)
  fix n :: nat and p :: JsonParser and k :: string
  assume p: "json_rest p = flat ps @ k" "delimited k" "length (json_tokens p) + lits ps \<le> MAX_JSON_TOKENS"
    "length (flat ps) \<le> n"
  then obtain m where "n = Suc m" "length r \<le> m" by (cases n) (auto simp: assms(3))
  with assms(4) p show "parse_value sj n path p = Ok (after ps k p)" by blast
qed

lemma reads_primitive: "spaces w \<Longrightarrow> primitive_literal sj s \<Longrightarrow> reads_value sj path [Gap w, Gap s]"
proof -
  assume w: "spaces w" and s: "primitive_literal sj s"
  then obtain c r where c: "s = c # r" "primitive_start c" by (cases s) (auto simp: primitive_literal_def)
  note props = primitive_start_props [OF c(2)]
  show ?thesis
  proof (rule reads_container [of w c _ r])
    fix n :: nat and p :: JsonParser and k :: string
    assume p: "json_rest p = flat [Gap w, Gap s] @ k" "delimited k"
    then have "parse_primitive sj (after [Gap w] (s @ k) p) = Ok (after [Gap w, Gap s] k p)"
      using parse_primitive_eq [of "after [Gap w] (s @ k) p" s k] s by simp
    with p w c props show "parse_value sj (Suc n) path p = Ok (after [Gap w, Gap s] k p)"
      by (subst parse_value_at [of p w c "r @ k"]) (simp_all add: Let_def)
  qed (use w c props in simp_all)
qed

lemma reads_string: "spaces w \<Longrightarrow> string_literal sj s \<Longrightarrow> reads_value sj path [Gap w, Lit path False s]"
proof -
  assume w: "spaces w" and s: "string_literal sj s"
  from s obtain r where r: "s = quote # r" by (rule string_literalE)
  show ?thesis
  proof (rule reads_container [of w quote _ r])
    fix n :: nat and p :: JsonParser and k :: string
    assume p: "json_rest p = flat [Gap w, Lit path False s] @ k"
      "length (json_tokens p) + lits [Gap w, Lit path False s] \<le> MAX_JSON_TOKENS"
    then have "parse_string sj path False (after [Gap w] (s @ k) p) = Ok (s, after [Gap w, Lit path False s] k p)"
      using parse_string_eq [of "after [Gap w] (s @ k) p" s k] s by simp
    with p w r show "parse_value sj (Suc n) path p = Ok (after [Gap w, Lit path False s] k p)"
      by (subst parse_value_at [of p w quote "r @ k"]) (simp_all add: Let_def)
  qed (use w r in simp_all)
qed

text \<open>The state after the opening byte and its whitespace, when \<open>c\<close> follows.\<close>

lemma skip_opening:
  assumes "spaces v" "\<not> json_space c" "spaces w'"
  shows "skip_whitespace (after ps (v @ w' @ c # r) p) = after (ps @ [Gap (v @ w')]) (c # r) p"
    and "skip_whitespace (after (ps @ [Gap v]) (w' @ c # r) p) = after (ps @ [Gap (v @ w')]) (c # r) p"
  using skip_eq [of "after ps (v @ w' @ c # r) p" "v @ w'" "c # r"]
    skip_eq [of "after (ps @ [Gap v]) (w' @ c # r) p" w' "c # r"] assms
  by (simp_all add: after_def)

lemma reads_no_members: "spaces w \<Longrightarrow> spaces v \<Longrightarrow> reads_value sj path [Gap w, Gap ''{'', Gap v, Gap ''}'']"
proof (rule reads_container [of w "CHR ''{''" _ "v @ ''}''"])
  fix n :: nat and p :: JsonParser and k :: string
  assume w: "spaces w" and v: "spaces v" and p: "json_rest p = flat [Gap w, Gap ''{'', Gap v, Gap ''}''] @ k"
  then show "parse_value sj (Suc n) path p = Ok (after [Gap w, Gap ''{'', Gap v, Gap ''}''] k p)"
    using skip_opening(1) [of v "CHR ''}''" "[]" "[Gap w, Gap ''{'']" k p]
    by (subst parse_value_at [of p w "CHR ''{''" "v @ CHR ''}'' # k"])
      (simp_all add: parse_object_def expect_eq consume_eq)
qed simp_all

lemma reads_no_items: "spaces w \<Longrightarrow> spaces v \<Longrightarrow> reads_value sj path [Gap w, Gap ''['', Gap v, Gap '']'']"
proof (rule reads_container [of w "CHR ''[''" _ "v @ '']''"])
  fix n :: nat and p :: JsonParser and k :: string
  assume w: "spaces w" and v: "spaces v" and p: "json_rest p = flat [Gap w, Gap ''['', Gap v, Gap '']''] @ k"
  then show "parse_value sj (Suc n) path p = Ok (after [Gap w, Gap ''['', Gap v, Gap '']''] k p)"
    using skip_opening(1) [of v "CHR '']''" "[]" "[Gap w, Gap ''['']" k p]
    by (subst parse_value_at [of p w "CHR ''[''" "v @ CHR '']'' # k"])
      (simp_all add: parse_array_def expect_eq consume_eq)
qed simp_all

lemma reads_members_value:
  assumes w: "spaces w" and v: "spaces v" and ms: "json_members sj path ms" "reads_members sj path ms"
  shows "reads_value sj path (Gap w # Gap ''{'' # Gap v # ms)"
proof (rule reads_container [of w "CHR ''{''" _ "v @ flat ms"])
  fix n :: nat and p :: JsonParser and k :: string
  assume p: "json_rest p = flat (Gap w # Gap ''{'' # Gap v # ms) @ k"
    "length (json_tokens p) + lits (Gap w # Gap ''{'' # Gap v # ms) \<le> MAX_JSON_TOKENS" "length (v @ flat ms) \<le> n"
  obtain w' r where r: "flat ms = w' @ quote # r" "spaces w'" using members_head [OF ms(1)] .
  let ?a = "after [Gap w, Gap ''{''] (v @ flat ms @ k) p"
  note skip = skip_opening [OF v _ r(2), of quote "[Gap w, Gap ''{'']" "r @ k" p]
  have skips: "skip_whitespace ?a = skip_whitespace (after [Gap w, Gap ''{'', Gap v] (flat ms @ k) p)"
    using skip by (simp add: r)
  have "parse_members sj (parse_value sj n) path (Suc (length (v @ flat ms @ k)))
      (after [Gap w, Gap ''{'', Gap v] (flat ms @ k) p) = Ok (after (Gap w # Gap ''{'' # Gap v # ms) k p)"
    using ms(2) p unfolding reads_members_def by (simp del: parse_members.simps)
  then have "parse_members sj (parse_value sj n) path (Suc (length (v @ flat ms @ k))) (skip_whitespace ?a) =
      Ok (after (Gap w # Gap ''{'' # Gap v # ms) k p)"
    unfolding skips parse_members_skip .
  moreover have "consume_byte (CHR ''}'') (skip_whitespace ?a) = None"
    using skip(1) by (simp add: r consume_None)
  ultimately show "parse_value sj (Suc n) path p = Ok (after (Gap w # Gap ''{'' # Gap v # ms) k p)"
    using p w by (subst parse_value_at [of p w "CHR ''{''" "v @ flat ms @ k"])
      (simp_all add: parse_object_def expect_eq del: parse_members.simps)
qed (use w in simp_all)

lemma reads_items_value:
  assumes w: "spaces w" and v: "spaces v" and ms: "json_items sj path 0 ms" "reads_items sj path 0 ms"
  shows "reads_value sj path (Gap w # Gap ''['' # Gap v # ms)"
proof (rule reads_container [of w "CHR ''[''" _ "v @ flat ms"])
  fix n :: nat and p :: JsonParser and k :: string
  assume p: "json_rest p = flat (Gap w # Gap ''['' # Gap v # ms) @ k"
    "length (json_tokens p) + lits (Gap w # Gap ''['' # Gap v # ms) \<le> MAX_JSON_TOKENS" "length (v @ flat ms) \<le> n"
  obtain w' c r where r: "flat ms = w' @ c # r" "spaces w'" "\<not> json_space c" "c \<noteq> CHR '']''"
    using ms(1) by (cases rule: json_items.cases) (auto elim!: value_head)
  let ?a = "after [Gap w, Gap ''[''] (v @ flat ms @ k) p"
  note skip = skip_opening [OF v r(3,2), of "[Gap w, Gap ''['']" "r @ k" p]
  have skips: "skip_whitespace ?a = skip_whitespace (after [Gap w, Gap ''['', Gap v] (flat ms @ k) p)"
    using skip by (simp add: r)
  have "parse_items (parse_value sj n) path (Suc (length (v @ flat ms @ k))) 0
      (after [Gap w, Gap ''['', Gap v] (flat ms @ k) p) = Ok (after (Gap w # Gap ''['' # Gap v # ms) k p)"
    using ms(2) p unfolding reads_items_def by (simp del: parse_items.simps)
  then have "parse_items (parse_value sj n) path (Suc (length (v @ flat ms @ k))) 0 (skip_whitespace ?a) =
      Ok (after (Gap w # Gap ''['' # Gap v # ms) k p)"
    unfolding skips parse_items_skip .
  moreover have "consume_byte (CHR '']'') (skip_whitespace ?a) = None"
    using skip(1) r(4) by (simp add: r(1) consume_None)
  ultimately show "parse_value sj (Suc n) path p = Ok (after (Gap w # Gap ''['' # Gap v # ms) k p)"
    using p w by (subst parse_value_at [of p w "CHR ''[''" "v @ flat ms @ k"])
      (simp_all add: parse_array_def expect_eq del: parse_items.simps)
qed (use w in simp_all)

lemma grammar_read:
  "json_value sj path ps \<Longrightarrow> reads_value sj path ps"
  "json_members sj path ps \<Longrightarrow> reads_members sj path ps"
  "json_items sj path i ps \<Longrightarrow> reads_items sj path i ps"
  by (induction rule: json_value_json_members_json_items.inducts)
    (blast intro: reads_primitive reads_string reads_no_members reads_no_items reads_members_value
      reads_items_value reads_members_last reads_members_more reads_items_last reads_items_more)+

section \<open>The fuel is enough\<close>

lemma and_then_Inl: "and_then r f = Inl e \<longleftrightarrow> r = Inl e \<or> (\<exists>a. r = Inr a \<and> f a = Inl e)"
  by (cases r) auto

lemma map_err_Failed [simp]: "map_err Failed r \<noteq> Inl OutOfFuel"
  by (cases r) auto

lemma skip_le: "length (json_rest (skip_whitespace p)) \<le> length (json_rest p)"
  using stepped_length [OF skip_stepped(1), of p] by simp

lemma expect_less: "expect_byte b p = Ok q \<Longrightarrow> length (json_rest q) < length (json_rest p)"
  using stepped_length [OF expect_stepped] by fastforce

lemma parse_string_less: "parse_string sj path k p = Ok (raw, q) \<Longrightarrow> length (json_rest q) < length (json_rest p)"
  using stepped_length [OF parse_string_stepped(2)] parse_string_stepped(1)
  by (fastforce simp: string_literal_def)

lemma value_sound_le: "value_sound sj nested \<Longrightarrow> nested path p = Ok q \<Longrightarrow> length (json_rest q) \<le> length (json_rest p)"
  using stepped_length by (fastforce elim: value_soundE)

lemma parse_members_returns:
  assumes sound: "value_sound sj nested"
    and returns: "\<And>path q. length (json_rest q) < n \<Longrightarrow> nested path q \<noteq> Err OutOfFuel"
  shows "length (json_rest p) < j \<Longrightarrow> length (json_rest p) \<le> n \<Longrightarrow> parse_members sj nested path j p \<noteq> Err OutOfFuel"
proof (induction j arbitrary: p)
  case (Suc j)
  show ?case
  proof
    assume "parse_members sj nested path (Suc j) p = Err OutOfFuel"
    then obtain raw a key b where a: "parse_string sj path True (skip_whitespace p) = Ok (raw, a)"
      and b: "expect_byte (CHR '':'') (skip_whitespace a) = Ok b"
      and bad: "nested (path @ [Key key]) b = Err OutOfFuel \<or> (\<exists>c d. nested (path @ [Key key]) b = Ok c \<and>
        expect_byte comma (skip_whitespace c) = Ok d \<and> parse_members sj nested path j d = Err OutOfFuel)"
      by (fastforce simp: Let_def and_then_Inl result_iff split: if_splits option.splits)
    have less: "length (json_rest b) < length (json_rest p)"
      using skip_le [of p] parse_string_less [OF a] skip_le [of a] expect_less [OF b] by linarith
    from bad show False
    proof (elim disjE exE conjE)
      assume "nested (path @ [Key key]) b = Err OutOfFuel"
      with returns [of b] less Suc.prems show False by simp
    next
      fix c d
      assume c: "nested (path @ [Key key]) b = Ok c" and d: "expect_byte comma (skip_whitespace c) = Ok d"
        and bad: "parse_members sj nested path j d = Err OutOfFuel"
      have "length (json_rest d) < length (json_rest p)"
        using less value_sound_le [OF sound c] skip_le [of c] expect_less [OF d] by linarith
      with Suc.IH [of d] Suc.prems bad show False by simp
    qed
  qed
qed simp

lemma parse_items_returns:
  assumes sound: "value_sound sj nested"
    and returns: "\<And>path q. length (json_rest q) < n \<Longrightarrow> nested path q \<noteq> Err OutOfFuel"
  shows "length (json_rest p) < j \<Longrightarrow> length (json_rest p) < n \<Longrightarrow> parse_items nested path j i p \<noteq> Err OutOfFuel"
proof (induction j arbitrary: p i)
  case (Suc j)
  show ?case
  proof
    assume "parse_items nested path (Suc j) i p = Err OutOfFuel"
    with returns [OF Suc.prems(2)] obtain c d where c: "nested (path @ [Index i]) p = Ok c"
      and d: "expect_byte comma (skip_whitespace c) = Ok d"
      and bad: "parse_items nested path j (i + 1) d = Err OutOfFuel"
      by (fastforce simp: Let_def and_then_Inl result_iff split: if_splits option.splits)
    have "length (json_rest d) < length (json_rest p)"
      using value_sound_le [OF sound c] skip_le [of c] expect_less [OF d] by linarith
    with Suc.IH [of d "i + 1"] Suc.prems bad show False by simp
  qed
qed simp

lemma parse_value_returns: "length (json_rest p) < n \<Longrightarrow> parse_value sj n path p \<noteq> Err OutOfFuel"
proof (induction n arbitrary: path p)
  case (Suc n)
  show ?case
  proof
    assume "parse_value sj (Suc n) path p = Err OutOfFuel"
    then consider "parse_object sj (parse_value sj n) path (skip_whitespace p) = Err OutOfFuel"
      | "parse_array (parse_value sj n) path (skip_whitespace p) = Err OutOfFuel"
      by (auto simp: Let_def and_then_Inl split: if_splits)
    then show False
    proof cases
      case 1
      then obtain a where a: "expect_byte (CHR ''{'') (skip_whitespace p) = Ok a"
        and bad: "parse_members sj (parse_value sj n) path (Suc (length (json_rest a))) (skip_whitespace a) = Err OutOfFuel"
        by (auto simp: parse_object_def and_then_Inl result_iff split: option.splits simp del: parse_members.simps)
      have "length (json_rest a) < Suc n" using expect_less [OF a] skip_le [of p] Suc.prems by linarith
      with parse_members_returns [OF parse_value_sound Suc.IH, where p = "skip_whitespace a" and j = "Suc (length (json_rest a))"]
        skip_le [of a] bad show False by (simp del: parse_members.simps)
    next
      case 2
      then obtain a where a: "expect_byte (CHR ''['') (skip_whitespace p) = Ok a"
        and bad: "parse_items (parse_value sj n) path (Suc (length (json_rest a))) 0 (skip_whitespace a) = Err OutOfFuel"
        by (auto simp: parse_array_def and_then_Inl result_iff split: option.splits simp del: parse_items.simps)
      have "length (json_rest a) < n" using expect_less [OF a] skip_le [of p] Suc.prems by linarith
      with parse_items_returns [OF parse_value_sound Suc.IH, where p = "skip_whitespace a" and j = "Suc (length (json_rest a))"]
        skip_le [of a] bad show False by (simp del: parse_items.simps)
    qed
  qed
qed simp

lemma json_parser_returns: "json_parse sj (json_fuel text) (JsonParser_new text) \<noteq> Err OutOfFuel"
proof
  assume "json_parse sj (json_fuel text) (JsonParser_new text) = Err OutOfFuel"
  then have "parse_value sj (json_fuel text) [] (JsonParser_new text) = Err OutOfFuel"
    by (auto simp: json_parse_def and_then_Inl Let_def split: if_splits)
  moreover have "length (json_rest (JsonParser_new text)) < json_fuel text"
    by (simp add: JsonParser_new_def json_fuel_def)
  ultimately show False using parse_value_returns by blast
qed

section \<open>The tokenizer and the grammar agree\<close>

lemma json_tokens_grammar:
  "parse_json_tokens sj src = Ok ts \<longleftrightarrow>
     (\<exists>ps. json_document sj ps \<and> flat ps = src \<and> ts = piece_tokens 0 ps \<and> length ts \<le> MAX_JSON_TOKENS)"
proof
  assume "parse_json_tokens sj src = Ok ts"
  then obtain q where q: "parse_value sj (json_fuel src) [] (JsonParser_new src) = Ok q"
    and rest: "json_rest (skip_whitespace q) = []" and ts: "ts = json_tokens (skip_whitespace q)"
    by (auto simp: parse_json_tokens_def json_parse_def result_iff Let_def split: if_splits)
  from value_soundE [OF parse_value_sound q] obtain vs where vs: "json_value sj [] vs"
    "stepped (JsonParser_new src) vs q" .
  obtain w where w: "spaces w" "stepped q [Gap w] (skip_whitespace q)" using skip_stepped by metis
  from stepped_trans [OF vs(2) w(2)] rest
  have "flat (vs @ [Gap w]) = src \<and> ts = piece_tokens 0 (vs @ [Gap w]) \<and> length ts \<le> MAX_JSON_TOKENS"
    unfolding stepped_def ts by (metis (no_types, lifting) JsonParser.select_convs JsonParser_new_def
        after_sel(3) append_Nil append_Nil2 list.size(3) zero_le)
  with w(1) vs(1) show "\<exists>ps. json_document sj ps \<and> flat ps = src \<and> ts = piece_tokens 0 ps \<and>
      length ts \<le> MAX_JSON_TOKENS"
    unfolding json_document_def by blast
next
  assume "\<exists>ps. json_document sj ps \<and> flat ps = src \<and> ts = piece_tokens 0 ps \<and> length ts \<le> MAX_JSON_TOKENS"
  then obtain vs w where vs: "json_value sj [] vs" and w: "spaces w" and src: "flat vs @ w = src"
    and ts: "ts = piece_tokens 0 vs" "lits vs \<le> MAX_JSON_TOKENS"
    by (auto simp: json_document_def)
  have "delimited w" using w by (cases w) (auto simp: primitive_end_def)
  moreover have "length (flat vs) \<le> json_fuel src" by (simp add: json_fuel_def src [symmetric])
  ultimately have "parse_value sj (json_fuel src) [] (JsonParser_new src) = Ok (after vs w (JsonParser_new src))"
    using grammar_read(1) [OF vs, unfolded reads_value_def, rule_format, of "JsonParser_new src" w "json_fuel src"]
      ts(2) src by (simp add: JsonParser_new_def)
  moreover have "skip_whitespace (after vs w (JsonParser_new src)) = after (vs @ [Gap w]) [] (JsonParser_new src)"
    using skip_eq [of "after vs w (JsonParser_new src)" w "[]"] w by simp
  ultimately show "parse_json_tokens sj src = Ok ts"
    by (simp add: parse_json_tokens_def json_parse_def Let_def JsonParser_new_def ts(1))
qed

text \<open>
  C9: The tokenizer accepts exactly the texts of the grammar that have at most 5000 strings, and
  finds their string literals, keys and values alike, each at its offsets and with its path. It
  never runs out of the recursion depth the model allows.
\<close>

theorem json_tokenizer_accepts_grammar:
  "(parse_json_tokens sj src = Ok ts \<longleftrightarrow>
     (\<exists>ps. json_document sj ps \<and> flat ps = src \<and> ts = piece_tokens 0 ps \<and> length ts \<le> MAX_JSON_TOKENS)) \<and>
   json_parse sj (json_fuel src) (JsonParser_new src) \<noteq> Err OutOfFuel"
  using json_tokens_grammar json_parser_returns by blast

section \<open>Segments\<close>

text \<open>The kinds and texts of the segments a text in pieces gives; \<open>g\<close> is the gap before the pieces.\<close>

abbreviation gap_segment :: "string \<Rightarrow> (DocumentSegmentKind \<times> string) list" where
  "gap_segment g \<equiv> if g = [] then [] else [(Verbatim, g)]"

fun piece_segments :: "string list option \<Rightarrow> string list option \<Rightarrow> string \<Rightarrow> json_piece list \<Rightarrow>
  (DocumentSegmentKind \<times> string) list" where
  "piece_segments inc exc g [] = gap_segment g"
| "piece_segments inc exc g (Gap h # ps) = piece_segments inc exc (g @ h) ps"
| "piece_segments inc exc g (Lit path is_key s # ps) =
     gap_segment g @ (json_kind inc exc path is_key, s) # piece_segments inc exc [] ps"

definition number_segments :: "nat \<Rightarrow> (DocumentSegmentKind \<times> string) list \<Rightarrow> DocumentSegment list" where
  "number_segments n xs = map (\<lambda>(i, k, s). new_segment i k s []) (enumerate n xs)"

lemma number_segments_simps [simp]:
  "number_segments n [] = []" "length (number_segments n xs) = length xs"
  "number_segments n ((k, s) # xs) = new_segment n k s [] # number_segments (Suc n) xs"
  "number_segments n (xs @ ys) = number_segments n xs @ number_segments (n + length xs) ys"
  by (simp_all add: number_segments_def enumerate_append_eq)

lemma number_segments_fields:
  "map seg_index (number_segments n xs) = [n..<n + length xs]"
  "map seg_kind (number_segments n xs) = map fst xs" "map seg_source (number_segments n xs) = map snd xs"
  by (induction xs arbitrary: n) (auto simp: upt_conv_Cons simp del: upt_Suc)

lemma number_segments_fresh: "s \<in> set (number_segments n xs) \<Longrightarrow> seg_ending s = [] \<and> seg_translated s = None"
  by (auto simp: number_segments_def)

lemma number_segments_text: "segments_text (number_segments n xs) = concat (map snd xs)"
  unfolding segments_text_def number_segments_fields(3) [of n, symmetric]
  using number_segments_fresh by (intro arg_cong [of _ _ concat] map_cong) auto

lemma push_number: "push_segment ss k s = ss @ number_segments (length ss) [(k, s)]"
  by (simp add: push_segment_def)

lemma json_segments_loop_pieces:
  "src = pre @ g @ flat ps \<Longrightarrow> length ss + 2 * lits ps \<le> MAX_JSON_SEGMENTS \<Longrightarrow>
   json_segments_loop inc exc src ss (length pre) (piece_tokens (length pre + length g) ps) =
     Ok (ss @ number_segments (length ss) (piece_segments inc exc g ps))"
proof (induction inc exc g ps arbitrary: pre ss rule: piece_segments.induct)
  case (1 inc exc g)
  then show ?case by (simp add: push_number)
next
  case (2 inc exc g h ps)
  from 2(1) [of pre ss] 2(2,3) show ?case by (simp add: add.assoc)
next
  case (3 inc exc g path is_key s ps)
  let ?ss = "ss @ number_segments (length ss) (gap_segment g @ [(json_kind inc exc path is_key, s)])"
  have "length ?ss + 2 * lits ps \<le> MAX_JSON_SEGMENTS" using 3(3) by simp
  from 3(1) [of "pre @ g @ s" ?ss] 3(2) this
  have "json_segments_loop inc exc src ?ss (length (pre @ g @ s)) (piece_tokens (length (pre @ g @ s)) ps) =
      Ok (?ss @ number_segments (length ?ss) (piece_segments inc exc [] ps))" by simp
  then show ?case using 3(2,3) by (cases "g = []") (simp_all add: push_number add.assoc)
qed

lemma piece_segments_text: "concat (map snd (piece_segments inc exc g ps)) = g @ flat ps"
  by (induction inc exc g ps rule: piece_segments.induct) auto

lemma json_segments_grammar:
  "json_segments sj inc exc src = Ok ss \<longleftrightarrow>
     (\<exists>ps. json_document sj ps \<and> flat ps = src \<and> lits ps \<le> MAX_JSON_TOKENS \<and>
       ss = number_segments 0 (piece_segments inc exc [] ps))"
proof -
  have loop: "json_segments_loop inc exc (flat ps) [] 0 (piece_tokens 0 ps) =
      Ok (number_segments 0 (piece_segments inc exc [] ps))" if "lits ps \<le> MAX_JSON_TOKENS" for ps
    using json_segments_loop_pieces [of "flat ps" "[]" "[]" ps "[]"] that
    by (simp add: MAX_JSON_TOKENS_def MAX_JSON_SEGMENTS_def)
  show ?thesis
    unfolding json_segments_def and_then_Inr json_tokens_grammar using loop by fastforce
qed

interpretation json: segmenter "json_segments sj inc exc"
proof
  fix src ss
  assume "json_segments sj inc exc src = Ok ss"
  then obtain ps where src: "flat ps = src" and ss: "ss = number_segments 0 (piece_segments inc exc [] ps)"
    by (auto simp: json_segments_grammar)
  show "segments_text ss = src" using piece_segments_text [of inc exc "[]" ps] src by (simp add: ss number_segments_text)
  show "map seg_index ss = [0..<length ss]" by (simp add: ss number_segments_fields)
  show "seg_translated s = None" if "s \<in> set ss" for s using number_segments_fresh that by (simp add: ss)
qed

section \<open>Replacing the values\<close>

fun repiece :: "serde_json \<Rightarrow> json_piece \<Rightarrow> json_piece \<Rightarrow> bool" where
  "repiece sj (Lit path False s) p \<longleftrightarrow> (\<exists>s'. p = Lit path False s' \<and> string_literal sj s')"
| "repiece sj p p' \<longleftrightarrow> p' = p"

lemma grammar_retext:
  "json_value sj path ps \<Longrightarrow> list_all2 (repiece sj) ps ps' \<Longrightarrow> json_value sj path ps'"
  "json_members sj path ps \<Longrightarrow> list_all2 (repiece sj) ps ps' \<Longrightarrow> json_members sj path ps'"
  "json_items sj path i ps \<Longrightarrow> list_all2 (repiece sj) ps ps' \<Longrightarrow> json_items sj path i ps'"
proof (induction arbitrary: ps' and ps' and ps' rule: json_value_json_members_json_items.inducts)
  case (members_last w v u s key path vs)
  then show ?case
    using json_value_json_members_json_items.members_last [of w v u sj s key path]
    by (auto simp: list_all2_Cons1 list_all2_append1)
next
  case (members_more w v u s key path vs ms)
  then show ?case
    using json_value_json_members_json_items.members_more [of w v u sj s key path]
    by (auto simp: list_all2_Cons1 list_all2_append1)
next
  case (items_more u path i vs ms)
  then show ?case
    using json_value_json_members_json_items.items_more [of u sj path i]
    by (auto simp: list_all2_Cons1 list_all2_append1)
qed (auto simp: list_all2_Cons1 list_all2_append1 intro: json_value_json_members_json_items.intros)

lemma repiece_lits: "list_all2 (repiece sj) ps ps' \<Longrightarrow> lits ps' = lits ps"
proof (induction rule: list_all2_induct)
  case (Cons p ps p' ps')
  then show ?case by (cases "(sj, p, p')" rule: repiece.cases) (auto; cases p; simp)+
qed simp

definition revalue :: "serde_json \<Rightarrow> DocumentSegmentKind \<times> string \<Rightarrow> string \<Rightarrow> bool" where
  "revalue sj x out \<longleftrightarrow> (if fst x = Prose then string_literal sj out else out = snd x)"

lemma piece_segments_retext:
  "list_all2 (revalue sj) (piece_segments inc exc g ps) outs \<Longrightarrow>
   \<exists>ps'. list_all2 (repiece sj) ps ps' \<and>
     piece_segments inc exc g ps' = zip (map fst (piece_segments inc exc g ps)) outs"
  if "\<forall>path s. Lit path False s \<in> set ps \<longrightarrow> string_literal sj s"
  using that
proof (induction inc exc g ps arbitrary: outs rule: piece_segments.induct)
  case (1 inc exc g)
  then show ?case by (auto simp: list_all2_Cons1 revalue_def split: if_splits)
next
  case (2 inc exc g h ps)
  have "list_all2 (revalue sj) (piece_segments inc exc (g @ h) ps) outs" using 2(2) by simp
  from 2(1) [OF this] 2(3) obtain ps' where "list_all2 (repiece sj) ps ps'"
    "piece_segments inc exc (g @ h) ps' = zip (map fst (piece_segments inc exc (g @ h) ps)) outs" by auto
  then show ?case by (intro exI [of _ "Gap h # ps'"]) simp
next
  case (3 inc exc g path is_key s ps)
  have gap: "revalue sj (Verbatim, g) out \<longleftrightarrow> out = g" for out by (simp add: revalue_def)
  from 3(2) obtain s' outs' where outs: "outs = map snd (gap_segment g) @ s' # outs'"
    and s': "revalue sj (json_kind inc exc path is_key, s) s'"
    and rest: "list_all2 (revalue sj) (piece_segments inc exc [] ps) outs'"
    by (auto simp: list_all2_Cons1 gap split: if_splits)
  from 3(1) [OF rest] 3(3) obtain ps' where ps': "list_all2 (repiece sj) ps ps'"
    "piece_segments inc exc [] ps' = zip (map fst (piece_segments inc exc [] ps)) outs'" by auto
  have "repiece sj (Lit path is_key s) (Lit path is_key s')"
    using s' 3(3) by (cases is_key) (auto simp: json_kind_def revalue_def split: if_splits)
  with ps' show ?case
    by (intro exI [of _ "Lit path is_key s' # ps'"]) (simp add: outs)
qed

lemma grammar_literals:
  "json_value sj path ps \<Longrightarrow> \<forall>p b s. Lit p b s \<in> set ps \<longrightarrow> string_literal sj s"
  "json_members sj path ps \<Longrightarrow> \<forall>p b s. Lit p b s \<in> set ps \<longrightarrow> string_literal sj s"
  "json_items sj path i ps \<Longrightarrow> \<forall>p b s. Lit p b s \<in> set ps \<longrightarrow> string_literal sj s"
  by (induction rule: json_value_json_members_json_items.inducts) auto

lemma json_segments_retext:
  assumes "json_segments sj inc exc src = Ok ss"
    and "list_all2 (\<lambda>s out. if seg_kind s = Prose then string_literal sj out else out = seg_source s) ss outs"
  obtains ss' where "json_segments sj inc exc (concat outs) = Ok ss'" "map seg_source ss' = outs"
    "map seg_kind ss' = map seg_kind ss"
proof -
  from assms(1) obtain ps where ps: "json_document sj ps" "lits ps \<le> MAX_JSON_TOKENS"
    and ss: "ss = number_segments 0 (piece_segments inc exc [] ps)"
    by (auto simp: json_segments_grammar)
  note fields = number_segments_fields [of 0 "piece_segments inc exc [] ps"]
  have re: "list_all2 (revalue sj) (piece_segments inc exc [] ps) outs"
    using assms(2) unfolding ss list_all2_conv_all_nth revalue_def
    by (metis fields(2,3) length_map nth_map number_segments_simps(2))
  from ps(1) obtain vs w where vs: "ps = vs @ [Gap w]" "spaces w" "json_value sj [] vs"
    by (auto simp: json_document_def)
  from piece_segments_retext [OF _ re] grammar_literals(1) [OF vs(3)] vs(1) obtain ps' where
    ps': "list_all2 (repiece sj) ps ps'"
    "piece_segments inc exc [] ps' = zip (map fst (piece_segments inc exc [] ps)) outs" by auto
  from ps'(1) vs(1) obtain vs' where "ps' = vs' @ [Gap w]" "list_all2 (repiece sj) vs vs'"
    by (auto simp: list_all2_append1 list_all2_Cons1)
  with grammar_retext(1) [OF vs(3)] vs(2) have doc: "json_document sj ps'" by (auto simp: json_document_def)
  have len: "length outs = length (piece_segments inc exc [] ps)" using list_all2_lengthD [OF re] by simp
  have "concat outs = flat ps'"
    using piece_segments_text [of inc exc "[]" ps'] len by (simp add: ps'(2))
  with doc ps(2) repiece_lits [OF ps'(1)] have
    "json_segments sj inc exc (concat outs) = Ok (number_segments 0 (piece_segments inc exc [] ps'))"
    by (auto simp: json_segments_grammar)
  moreover have "map seg_source (number_segments 0 (piece_segments inc exc [] ps')) = outs"
    "map seg_kind (number_segments 0 (piece_segments inc exc [] ps')) = map seg_kind ss"
    using len by (simp_all add: number_segments_fields ps'(2) ss)
  ultimately show ?thesis by (rule that)
qed

end
