(* ===== verification/Document_Job.thy ===== *)
theory Document_Job
  imports Subtitle Html_Document Csv_Document Json_Document
begin

text \<open>
  \<open>DocumentJob\<close> of \<open>crates/linguamesh-document/src/lib.rs\<close>: import of a document, the text offered for
  translation, applying a translation, warnings and reconstruction, over the segmenters of the
  formats. The package formats (\<open>docx.rs\<close>, \<open>epub.rs\<close>, \<open>pdf.rs\<close>) are not modelled: a job reaches them
  through the record \<open>package_ops\<close>, an argument of the operations that dispatch to them.
\<close>

section \<open>Package formats\<close>

record package_ops =
  docx_inspect :: "string \<Rightarrow> DocumentError + DocumentSegment list"
  pptx_inspect :: "string \<Rightarrow> DocumentError + DocumentSegment list"
  xlsx_inspect :: "string \<Rightarrow> DocumentError + DocumentSegment list"
  xlsx_inspect_with_selection :: "string \<Rightarrow> XlsxSelection \<Rightarrow> DocumentError + DocumentSegment list"
  epub_inspect :: "string \<Rightarrow> DocumentError + DocumentSegment list"
  pdf_inspect :: "string \<Rightarrow> DocumentError + DocumentSegment list"
  docx_reconstruct :: "DocumentJob \<Rightarrow> string \<Rightarrow> DocumentError + string"
  pptx_reconstruct :: "DocumentJob \<Rightarrow> string \<Rightarrow> DocumentError + string"
  xlsx_reconstruct :: "DocumentJob \<Rightarrow> string \<Rightarrow> DocumentError + string"
  epub_reconstruct :: "DocumentJob \<Rightarrow> string \<Rightarrow> string option \<Rightarrow> DocumentError + string"
  pdf_reconstruct :: "DocumentJob \<Rightarrow> string \<Rightarrow> DocumentError + string"
  pdf_warnings :: "string \<Rightarrow> DocumentError + DocumentWarning list"
  pdf_alternative_html :: "DocumentJob \<Rightarrow> string \<Rightarrow> DocumentError + string"

definition package_format :: "DocumentFormat \<Rightarrow> bool" where
  "package_format f \<longleftrightarrow> f = Docx \<or> f = Pptx \<or> f = Xlsx \<or> f = Epub \<or> f = Pdf"

definition make_job :: "DocumentFormat \<Rightarrow> string \<Rightarrow> DocumentSegment list \<Rightarrow> DocumentJob" where
  "make_job f name ss = \<lparr>job_format = f, job_source_name = name, segments = ss, package = None\<rparr>"

section \<open>Structure\<close>

definition validate_structure_with_delimiter ::
  "serde_json \<Rightarrow> DocumentFormat \<Rightarrow> string \<Rightarrow> char option \<Rightarrow> DocumentError + unit" where
  "validate_structure_with_delimiter sj f text delimiter =
     (if f = Html then and_then (parse_html_tokens text) (\<lambda>_. Ok ())
      else if f = JsonFormat then and_then (parse_json_tokens sj text) (\<lambda>_. Ok ())
      else if f = Csv then
        and_then (document_csv_records text
          (case delimiter of None \<Rightarrow> detect_csv_delimiter text | Some d \<Rightarrow> d)) (\<lambda>_. Ok ())
      else if f \<noteq> Srt \<and> f \<noteq> WebVtt then Ok ()
      else validate_subtitle f text)"

definition validate_structure :: "serde_json \<Rightarrow> DocumentFormat \<Rightarrow> string \<Rightarrow> DocumentError + unit" where
  "validate_structure sj f text = validate_structure_with_delimiter sj f text None"

section \<open>Import\<close>

definition is_fence :: "DocumentFormat \<Rightarrow> string \<Rightarrow> bool" where
  "is_fence f line \<longleftrightarrow> f = Markdown \<and>
     (starts_with (trim_start line) ''```'' \<or> starts_with (trim_start line) ''~~~'')"

definition line_kind :: "DocumentFormat \<Rightarrow> bool list \<Rightarrow> nat \<Rightarrow> bool \<Rightarrow> string \<Rightarrow> DocumentSegmentKind" where
  "line_kind f kinds index in_fenced_code line =
     (if (index < length kinds \<and> kinds ! index) \<or>
         (f = Markdown \<and> (in_fenced_code \<or> is_fence f line \<or> trim line = []))
      then Verbatim else Prose)"

fun line_segments_loop :: "DocumentFormat \<Rightarrow> bool list \<Rightarrow> nat \<Rightarrow> bool \<Rightarrow> (string \<times> string) list \<Rightarrow>
  DocumentSegment list" where
  "line_segments_loop f kinds index in_fenced_code [] = []"
| "line_segments_loop f kinds index in_fenced_code ((line, ending) # ls) =
     new_segment index (line_kind f kinds index in_fenced_code line) line ending #
     line_segments_loop f kinds (index + 1)
       (if is_fence f line then \<not> in_fenced_code else in_fenced_code) ls"

definition line_segments :: "DocumentFormat \<Rightarrow> string \<Rightarrow> DocumentSegment list" where
  "line_segments f text = line_segments_loop f (subtitle_line_kinds f text) 0 False (split_lines text)"

definition text_segments :: "serde_json \<Rightarrow> DocumentFormat \<Rightarrow> string \<Rightarrow> DocumentSegment list" where
  "text_segments sj f text =
     (case (if f = Csv then csv_segments None text
            else if f = JsonFormat then json_segments sj None None text
            else if f = Html then html_segments text
            else Ok (line_segments f text)) of
        Inr ss \<Rightarrow> ss
      | Inl _ \<Rightarrow> line_segments f text)"

definition from_text :: "serde_json \<Rightarrow> string \<Rightarrow> DocumentFormat \<Rightarrow> string \<Rightarrow> DocumentJob" where
  "from_text sj name f text = make_job f name (text_segments sj f text)"

text \<open>The checks both UTF-8 constructors start with; the result is the format and the text.\<close>

definition decode_document :: "serde_json \<Rightarrow> string \<Rightarrow> string \<Rightarrow> DocumentError + (DocumentFormat \<times> string)" where
  "decode_document sj name contents =
     (if length contents > MAX_DOCUMENT_BYTES then Err DocumentTooLarge
      else
        and_then (DocumentFormat_from_name name) (\<lambda>f.
        and_then (ok_or InvalidUtf8 (from_utf8 (strip_bom contents))) (\<lambda>text.
        and_then (validate_structure sj f text) (\<lambda>_. Ok (f, text)))))"

definition from_utf8_with_csv_columns ::
  "serde_json \<Rightarrow> string \<Rightarrow> string \<Rightarrow> nat list option \<Rightarrow> DocumentError + DocumentJob" where
  "from_utf8_with_csv_columns sj name contents selected =
     and_then (decode_document sj name contents) (\<lambda>(f, text).
       if f = Csv then and_then (csv_segments selected text) (\<lambda>ss. Ok (make_job Csv name ss))
       else Ok (from_text sj name f text))"

definition from_utf8_with_json_paths ::
  "serde_json \<Rightarrow> string \<Rightarrow> string \<Rightarrow> string list option \<Rightarrow> string list option \<Rightarrow> DocumentError + DocumentJob" where
  "from_utf8_with_json_paths sj name contents inc exc =
     and_then (decode_document sj name contents) (\<lambda>(f, text).
       if f = JsonFormat then
         and_then (json_segments sj inc exc text) (\<lambda>ss. Ok (make_job JsonFormat name ss))
       else if f = Csv then and_then (csv_segments None text) (\<lambda>ss. Ok (make_job Csv name ss))
       else Ok (from_text sj name f text))"

definition package_job :: "DocumentFormat \<Rightarrow> string \<Rightarrow> string \<Rightarrow> DocumentError + DocumentSegment list \<Rightarrow>
  DocumentError + DocumentJob" where
  "package_job f name contents ss =
     and_then ss (\<lambda>ss. Ok \<lparr>job_format = f, job_source_name = name, segments = ss, package = Some contents\<rparr>)"

definition from_epub_bytes :: "package_ops \<Rightarrow> string \<Rightarrow> string \<Rightarrow> DocumentError + DocumentJob" where
  "from_epub_bytes po name contents =
     and_then (DocumentFormat_from_name name) (\<lambda>f.
       if f \<noteq> Epub then Err UnsupportedFormat
       else if length contents > MAX_DOCUMENT_BYTES then Err DocumentTooLarge
       else package_job Epub name contents (epub_inspect po contents))"

definition from_pdf_bytes :: "package_ops \<Rightarrow> string \<Rightarrow> string \<Rightarrow> DocumentError + DocumentJob" where
  "from_pdf_bytes po name contents =
     and_then (DocumentFormat_from_name name) (\<lambda>f.
       if f \<noteq> Pdf then Err UnsupportedFormat
       else if length contents > MAX_DOCUMENT_BYTES then Err DocumentTooLarge
       else package_job Pdf name contents (pdf_inspect po contents))"

definition from_ooxml_bytes :: "package_ops \<Rightarrow> string \<Rightarrow> string \<Rightarrow> DocumentError + DocumentJob" where
  "from_ooxml_bytes po name contents =
     (if length contents > MAX_DOCUMENT_BYTES then Err DocumentTooLarge
      else and_then (DocumentFormat_from_name name) (\<lambda>f.
        if f \<notin> {Docx, Pptx, Xlsx} then Err UnsupportedFormat
        else package_job f name contents
          (case f of Docx \<Rightarrow> docx_inspect po contents
           | Pptx \<Rightarrow> pptx_inspect po contents
           | Xlsx \<Rightarrow> xlsx_inspect po contents
           | _ \<Rightarrow> Err UnsupportedFormat)))"

definition DocumentJob_from_utf8 ::
  "serde_json \<Rightarrow> package_ops \<Rightarrow> string \<Rightarrow> string \<Rightarrow> DocumentError + DocumentJob" where
  "DocumentJob_from_utf8 sj po name contents =
     and_then (DocumentFormat_from_name name) (\<lambda>f.
       if package_format f then
         (if f = Epub then from_epub_bytes po name contents
          else if f = Pdf then from_pdf_bytes po name contents
          else from_ooxml_bytes po name contents)
       else from_utf8_with_json_paths sj name contents None None)"

definition select_xlsx_range :: "package_ops \<Rightarrow> DocumentJob \<Rightarrow> string \<Rightarrow> string \<Rightarrow> DocumentError + DocumentJob" where
  "select_xlsx_range po job sheet cells =
     (if job_format job \<noteq> Xlsx \<or> list_ex (\<lambda>s. seg_translated s \<noteq> None) (segments job)
      then Err InvalidXlsxSelection
      else
        and_then (XlsxSelection_new sheet cells) (\<lambda>selection.
        and_then (ok_or InvalidXlsxSelection (package job)) (\<lambda>package.
        and_then (xlsx_inspect_with_selection po package selection) (\<lambda>selected.
          if length selected \<noteq> length (segments job) \<or>
             list_ex (\<lambda>(s, current). seg_source s \<noteq> seg_source current) (zip selected (segments job))
          then Err InvalidXlsxSelection
          else Ok (job\<lparr>segments := map2 (\<lambda>current s. current\<lparr>seg_kind := seg_kind s\<rparr>) (segments job) selected\<rparr>)))))"

definition from_xlsx_bytes_with_selection ::
  "package_ops \<Rightarrow> string \<Rightarrow> string \<Rightarrow> XlsxSelection \<Rightarrow> DocumentError + DocumentJob" where
  "from_xlsx_bytes_with_selection po name contents selection =
     and_then (from_ooxml_bytes po name contents) (\<lambda>job.
       select_xlsx_range po job (sheet_name selection) (cell_range selection))"

section \<open>Translation\<close>

definition translation_source_text :: "serde_json \<Rightarrow> DocumentJob \<Rightarrow> nat \<Rightarrow> DocumentError + string" where
  "translation_source_text sj job index =
     (if index \<ge> length (segments job) then Err (UnknownSegment index)
      else
        let s = segments job ! index in
        if seg_kind s \<noteq> Prose then Ok (seg_source s)
        else case job_format job of
            Csv \<Rightarrow> decode_csv_field (seg_source s) (detect_csv_delimiter (document_source_text job))
          | JsonFormat \<Rightarrow> decode_json_string sj (seg_source s)
          | _ \<Rightarrow> Ok (seg_source s))"

definition encode_translation :: "serde_json \<Rightarrow> DocumentJob \<Rightarrow> string \<Rightarrow> string \<Rightarrow> string" where
  "encode_translation sj job source translated =
     (if job_format job = Csv then
        encode_csv_field source translated (detect_csv_delimiter (document_source_text job))
      else if job_format job = JsonFormat then encode_json_string sj translated
      else if job_format job = Html then encode_html_text translated
      else translated)"

definition apply_translation ::
  "serde_json \<Rightarrow> DocumentJob \<Rightarrow> nat \<Rightarrow> string \<Rightarrow> DocumentError + DocumentJob" where
  "apply_translation sj job index translated =
     (if index \<ge> length (segments job) then Err (UnknownSegment index)
      else
        let s = segments job ! index in
        if seg_kind s \<noteq> Prose then Err (VerbatimSegment index)
        else Ok (job\<lparr>segments := (segments job)[index :=
          s\<lparr>seg_translated := Some (encode_translation sj job (seg_source s) translated)\<rparr>]\<rparr>))"

definition warnings_with_subtitle_limits ::
  "serde_json \<Rightarrow> package_ops \<Rightarrow> DocumentJob \<Rightarrow> nat \<Rightarrow> nat \<Rightarrow> DocumentError + DocumentWarning list" where
  "warnings_with_subtitle_limits sj po job max_line max_speed =
     (if job_format job = Pdf then and_then (ok_or InvalidStructure (package job)) (pdf_warnings po)
      else if job_format job = Srt \<or> job_format job = WebVtt then
        (let source = document_source_text job in
         and_then (validate_structure sj (job_format job) source) (\<lambda>_.
           subtitle_warnings (job_format job) source max_line max_speed))
      else Ok [])"

definition document_warnings :: "serde_json \<Rightarrow> package_ops \<Rightarrow> DocumentJob \<Rightarrow> DocumentError + DocumentWarning list" where
  "document_warnings sj po job = warnings_with_subtitle_limits sj po job
     DEFAULT_SUBTITLE_MAX_LINE_CHARS DEFAULT_SUBTITLE_MAX_READING_SPEED"

section \<open>Reconstruction\<close>

fun output_loop :: "string \<Rightarrow> DocumentSegment list \<Rightarrow> DocumentError + string" where
  "output_loop out [] = Ok out"
| "output_loop out (s # ss) = and_then (output_text s) (\<lambda>t. output_loop (out @ t @ seg_ending s) ss)"

definition preview :: "DocumentJob \<Rightarrow> DocumentError + string" where
  "preview job = and_then (output_loop [] (segments job)) (\<lambda>out.
     if length out > MAX_DOCUMENT_BYTES then Err OutputTooLarge else Ok out)"

definition package_reconstruct :: "package_ops \<Rightarrow> DocumentJob \<Rightarrow> string option \<Rightarrow> DocumentError + string" where
  "package_reconstruct po job target_locale =
     and_then (ok_or InvalidStructure (package job)) (\<lambda>package.
       case job_format job of
         Docx \<Rightarrow> docx_reconstruct po job package
       | Pptx \<Rightarrow> pptx_reconstruct po job package
       | Xlsx \<Rightarrow> xlsx_reconstruct po job package
       | Epub \<Rightarrow> epub_reconstruct po job package target_locale
       | _ \<Rightarrow> pdf_reconstruct po job package)"

definition reconstruct :: "serde_json \<Rightarrow> package_ops \<Rightarrow> DocumentJob \<Rightarrow> DocumentError + string" where
  "reconstruct sj po job =
     (if package_format (job_format job) then
        and_then (package_reconstruct po job None) (\<lambda>_. preview job)
      else
        and_then (output_loop [] (segments job)) (\<lambda>out.
          if length out > MAX_DOCUMENT_BYTES then Err OutputTooLarge
          else
            and_then (validate_structure_with_delimiter sj (job_format job) out
              (if job_format job = Csv then Some (detect_csv_delimiter (document_source_text job)) else None))
            (\<lambda>_. Ok out)))"

definition reconstruct_bytes_with_target_locale ::
  "serde_json \<Rightarrow> package_ops \<Rightarrow> DocumentJob \<Rightarrow> string option \<Rightarrow> DocumentError + string" where
  "reconstruct_bytes_with_target_locale sj po job target_locale =
     (if package_format (job_format job) then package_reconstruct po job target_locale
      else reconstruct sj po job)"

definition reconstruct_bytes :: "serde_json \<Rightarrow> package_ops \<Rightarrow> DocumentJob \<Rightarrow> DocumentError + string" where
  "reconstruct_bytes sj po job = reconstruct_bytes_with_target_locale sj po job None"

definition reconstruct_alternative_html :: "package_ops \<Rightarrow> DocumentJob \<Rightarrow> DocumentError + string" where
  "reconstruct_alternative_html po job =
     (if job_format job \<noteq> Pdf then Err UnsupportedFormat
      else and_then (ok_or InvalidStructure (package job)) (pdf_alternative_html po job))"

section \<open>The line formats as a segmenter\<close>

lemma line_segments_loop_facts:
  "map (\<lambda>s. (seg_source s, seg_ending s)) (line_segments_loop f kinds i b ls) = ls"
  "map seg_index (line_segments_loop f kinds i b ls) = [i..<i + length ls]"
  "s \<in> set (line_segments_loop f kinds i b ls) \<Longrightarrow> seg_translated s = None"
  by (induction f kinds i b ls rule: line_segments_loop.induct) (auto simp: upt_conv_Cons simp del: upt_Suc)

lemma length_line_segments: "length (line_segments f src) = length (split_lines src)"
  unfolding line_segments_def
  using arg_cong [OF line_segments_loop_facts(2), of length f "subtitle_line_kinds f src" 0 False "split_lines src"] by simp

interpretation lines: segmenter "\<lambda>src. Ok (line_segments f src)"
proof
  fix src ss
  assume "(Ok (line_segments f src) :: DocumentError + _) = Ok ss"
  then have ss: "ss = line_segments_loop f (subtitle_line_kinds f src) 0 False (split_lines src)"
    by (simp add: line_segments_def)
  have "segments_text ss = concat (map (\<lambda>(l, e). l @ e) (map (\<lambda>s. (seg_source s, seg_ending s)) ss))"
    by (simp add: segments_text_def comp_def)
  also have "\<dots> = src" unfolding ss line_segments_loop_facts(1) by (rule split_lines_text)
  finally show "segments_text ss = src" .
  show "map seg_index ss = [0..<length ss]"
    using length_line_segments [of f src] by (simp add: ss line_segments_loop_facts(2) line_segments_def)
  show "seg_translated s = None" if "s \<in> set ss" for s
    using that line_segments_loop_facts(3) unfolding ss by blast
qed

interpretation any_text: segmenter "\<lambda>src. Ok (text_segments sj f src)"
proof
  fix src ss
  assume "(Ok (text_segments sj f src) :: DocumentError + _) = Ok ss"
  then have "fresh_segments src ss"
    using lines.fresh [of f src] csv.fresh [of None src] json.fresh [of sj None None src] html.fresh [of src]
    by (auto simp: text_segments_def split: sum.splits if_splits)
  then show "segments_text ss = src" "map seg_index ss = [0..<length ss]" "\<And>s. s \<in> set ss \<Longrightarrow> seg_translated s = None"
    by (auto simp: fresh_segments_def)
qed

section \<open>Imported jobs\<close>

text \<open>A job that one of the constructors of a text document returned.\<close>

definition imported_job :: "serde_json \<Rightarrow> package_ops \<Rightarrow> string \<Rightarrow> string \<Rightarrow> DocumentJob \<Rightarrow> bool" where
  "imported_job sj po name contents job \<longleftrightarrow> package job = None \<and>
     (DocumentJob_from_utf8 sj po name contents = Ok job \<or>
      (\<exists>columns. from_utf8_with_csv_columns sj name contents columns = Ok job) \<or>
      (\<exists>inc exc. from_utf8_with_json_paths sj name contents inc exc = Ok job))"

lemma package_job_has_package: "package job = None \<Longrightarrow> package_job f name contents ss \<noteq> Ok job"
  by (auto simp: package_job_def and_then_Inr)

lemma package_constructors:
  assumes "package job = None"
  shows "from_epub_bytes po name contents \<noteq> Ok job" "from_pdf_bytes po name contents \<noteq> Ok job"
    "from_ooxml_bytes po name contents \<noteq> Ok job"
  using package_job_has_package [OF assms]
  by (auto simp: from_epub_bytes_def from_pdf_bytes_def from_ooxml_bytes_def and_then_Inr split: if_splits)

lemma imported_cases:
  assumes "imported_job sj po name contents job"
  obtains columns where "from_utf8_with_csv_columns sj name contents columns = Ok job"
  | inc exc where "from_utf8_with_json_paths sj name contents inc exc = Ok job"
proof -
  from assms have none: "package job = None" by (simp add: imported_job_def)
  from assms package_constructors [OF none] show thesis
    by (auto simp: imported_job_def DocumentJob_from_utf8_def and_then_Inr split: if_splits intro: that)
qed

lemma decoded_parts:
  assumes "decode_document sj name contents = Ok (f, src)"
  shows "length contents \<le> MAX_DOCUMENT_BYTES" "src = strip_bom contents" "validate_structure sj f src = Ok ()"
    "DocumentFormat_from_name name = Ok f"
  using assms by (auto simp: decode_document_def result_iff from_utf8_def split: if_splits)

text \<open>The fallback to lines in \<open>from_text\<close> is not taken for a text that passed the structure check.\<close>

lemma json_structure_segments:
  assumes "validate_structure sj JsonFormat src = Ok ()"
  shows "json_segments sj None None src = Ok (text_segments sj JsonFormat src)"
proof -
  from assms obtain ts where "parse_json_tokens sj src = Ok ts"
    by (auto simp: validate_structure_def validate_structure_with_delimiter_def and_then_Inr)
  then obtain ps where "json_document sj ps" "flat ps = src" "lits ps \<le> MAX_JSON_TOKENS"
    by (auto simp: json_tokens_grammar)
  then obtain ss where "json_segments sj None None src = Ok ss" using json_segments_grammar by blast
  then show ?thesis by (simp add: text_segments_def)
qed

lemma html_structure_segments:
  assumes "validate_structure sj Html src = Ok ()"
  shows "html_segments src = Ok (text_segments sj Html src)"
  using assms
  by (auto simp: validate_structure_def validate_structure_with_delimiter_def and_then_Inr text_segments_def html_segments_def)

text \<open>What an import determines, with the segmenter that the format selects.\<close>

lemma imported_parts:
  assumes "imported_job sj po name contents job"
  obtains f src ss columns inc exc where "decode_document sj name contents = Ok (f, src)" "job = make_job f name ss"
    "fresh_segments src ss" "f = Csv \<Longrightarrow> csv_segments columns src = Ok ss"
    "f = JsonFormat \<Longrightarrow> json_segments sj inc exc src = Ok ss"
    "f \<notin> {Csv, JsonFormat} \<Longrightarrow> ss = text_segments sj f src"
  using assms
proof (cases rule: imported_cases)
  case (1 columns)
  then obtain f src where dec: "decode_document sj name contents = Ok (f, src)"
    by (auto simp: from_utf8_with_csv_columns_def and_then_Inr)
  show ?thesis
  proof (cases "f = Csv")
    case True
    with 1 dec obtain ss where "csv_segments columns src = Ok ss" "job = make_job f name ss"
      by (auto simp: from_utf8_with_csv_columns_def and_then_Inr)
    with dec True csv.fresh [of columns src ss] that show ?thesis by blast
  next
    case False
    with 1 dec have "job = make_job f name (text_segments sj f src)"
      by (auto simp: from_utf8_with_csv_columns_def from_text_def)
    moreover have "f = JsonFormat \<Longrightarrow> json_segments sj None None src = Ok (text_segments sj f src)"
      using json_structure_segments decoded_parts(3) [OF dec] by blast
    ultimately show ?thesis using dec False any_text.fresh [of sj f src] that by blast
  qed
next
  case (2 inc exc)
  then obtain f src where dec: "decode_document sj name contents = Ok (f, src)"
    by (auto simp: from_utf8_with_json_paths_def and_then_Inr)
  consider "f = Csv" | "f = JsonFormat" | "f \<notin> {Csv, JsonFormat}" by auto
  then show ?thesis
  proof cases
    case 1
    with 2 dec obtain ss where "csv_segments None src = Ok ss" "job = make_job f name ss"
      by (auto simp: from_utf8_with_json_paths_def and_then_Inr)
    with dec 1 csv.fresh [of None src ss] that show ?thesis by blast
  next
    case 2
    with \<open>from_utf8_with_json_paths sj name contents inc exc = Ok job\<close> dec
    obtain ss where "json_segments sj inc exc src = Ok ss" "job = make_job f name ss"
      by (auto simp: from_utf8_with_json_paths_def and_then_Inr)
    with dec 2 json.fresh [of sj inc exc src ss] that show ?thesis by blast
  next
    case 3
    with 2 dec have "job = make_job f name (text_segments sj f src)"
      by (auto simp: from_utf8_with_json_paths_def from_text_def)
    with dec 3 any_text.fresh [of sj f src] that show ?thesis by blast
  qed
qed

section \<open>Applying translations\<close>

text \<open>A sequence of \<open>apply_translation\<close> calls, up to the first error.\<close>

fun apply_all :: "serde_json \<Rightarrow> DocumentJob \<Rightarrow> (nat \<times> string) list \<Rightarrow> DocumentError + DocumentJob" where
  "apply_all sj job [] = Ok job"
| "apply_all sj job ((i, t) # us) = and_then (apply_translation sj job i t) (\<lambda>job'. apply_all sj job' us)"

definition untranslatable :: "DocumentJob \<Rightarrow> nat \<Rightarrow> bool" where
  "untranslatable job i \<longleftrightarrow> i \<ge> length (segments job) \<or> seg_kind (segments job ! i) \<noteq> Prose"

definition translation_error :: "DocumentJob \<Rightarrow> nat \<Rightarrow> DocumentError" where
  "translation_error job i = (if i \<ge> length (segments job) then UnknownSegment i else VerbatimSegment i)"

text \<open>The job in which every segment has the last translation that was given for it.\<close>

definition retranslate :: "serde_json \<Rightarrow> DocumentJob \<Rightarrow> (nat \<times> string) list \<Rightarrow> DocumentJob" where
  "retranslate sj job us = job\<lparr>segments := map (\<lambda>i. let s = segments job ! i in
     case map_of (rev us) i of
       None \<Rightarrow> s
     | Some t \<Rightarrow> s\<lparr>seg_translated := Some (encode_translation sj job (seg_source s) t)\<rparr>)
     [0..<length (segments job)]\<rparr>"

lemma apply_translation_eq:
  "apply_translation sj job i t = (if untranslatable job i then Err (translation_error job i) else Ok (retranslate sj job [(i, t)]))"
proof (cases "untranslatable job i")
  case False
  then have i: "i < length (segments job)" "seg_kind (segments job ! i) = Prose" by (auto simp: untranslatable_def)
  have "(segments job)[i := s] = map (\<lambda>j. if j = i then s else segments job ! j) [0..<length (segments job)]" for s
    by (rule nth_equalityI) (auto simp: nth_list_update)
  with False i show ?thesis
    by (auto simp: apply_translation_def retranslate_def Let_def fun_upd_def intro!: arg_cong [of _ _ "\<lambda>ss. job\<lparr>segments := ss\<rparr>"])
qed (auto simp: apply_translation_def untranslatable_def translation_error_def Let_def)

lemma length_retranslate [simp]: "length (segments (retranslate sj job us)) = length (segments job)"
  by (simp add: retranslate_def)

lemma retranslate_nth:
  "i < length (segments job) \<Longrightarrow> segments (retranslate sj job us) ! i = (case map_of (rev us) i of None \<Rightarrow> segments job ! i
     | Some t \<Rightarrow> (segments job ! i)\<lparr>seg_translated := Some (encode_translation sj job (seg_source (segments job ! i)) t)\<rparr>)"
  by (simp add: retranslate_def Let_def split: option.splits)

lemma retranslate_frame:
  "map seg_kind (segments (retranslate sj job us)) = map seg_kind (segments job)"
  "map seg_source (segments (retranslate sj job us)) = map seg_source (segments job)"
  "map seg_ending (segments (retranslate sj job us)) = map seg_ending (segments job)"
  "map seg_index (segments (retranslate sj job us)) = map seg_index (segments job)"
  "job_format (retranslate sj job us) = job_format job" "package (retranslate sj job us) = package job"
  "job_source_name (retranslate sj job us) = job_source_name job"
  by (auto simp: retranslate_nth intro!: nth_equalityI split: option.splits) (simp_all add: retranslate_def)

lemma source_text_zip: "document_source_text job =
    concat (map2 (@) (map seg_source (segments job)) (map seg_ending (segments job)))"
  by (simp add: document_source_text_def segments_text_def map2_map_map)

lemma retranslate_source_text [simp]: "document_source_text (retranslate sj job us) = document_source_text job"
  by (simp only: source_text_zip retranslate_frame)

lemma retranslate_encode [simp]: "encode_translation sj (retranslate sj job us) = encode_translation sj job"
  by (intro ext) (simp add: encode_translation_def retranslate_frame)

lemma retranslate_untranslatable [simp]:
  "untranslatable (retranslate sj job us) i = untranslatable job i"
  "translation_error (retranslate sj job us) i = translation_error job i"
proof -
  have "seg_kind (segments (retranslate sj job us) ! i) = seg_kind (segments job ! i)" if "i < length (segments job)"
    using arg_cong [OF retranslate_frame(1), of "\<lambda>ks. ks ! i" sj job us] that by simp
  then show "untranslatable (retranslate sj job us) i = untranslatable job i"
    "translation_error (retranslate sj job us) i = translation_error job i"
    by (auto simp: untranslatable_def translation_error_def)
qed

lemma retranslate_retranslate: "retranslate sj (retranslate sj job us) vs = retranslate sj job (us @ vs)"
proof -
  have "segments (retranslate sj (retranslate sj job us) vs) = segments (retranslate sj job (us @ vs))"
    by (rule nth_equalityI) (auto simp: retranslate_nth map_add_Some_iff split: option.splits)
  then show ?thesis by (simp add: retranslate_def)
qed

lemma apply_all_eq:
  "apply_all sj job us = (case find (\<lambda>(i, t). untranslatable job i) us of
     None \<Rightarrow> Ok (retranslate sj job us)
   | Some (i, t) \<Rightarrow> Err (translation_error job i))"
proof (induction us arbitrary: job rule: list.induct)
  case Nil
  have "map (\<lambda>i. segments job ! i) [0..<length (segments job)] = segments job" by (rule map_nth)
  then show ?case by (simp add: retranslate_def)
next
  case (Cons u us)
  obtain i t where u: "u = (i, t)" by (cases u)
  show ?case
    by (cases "untranslatable job i")
      (auto simp: u apply_translation_eq Cons.IH retranslate_retranslate split: option.splits)
qed

section \<open>The output of a finished job\<close>

lemma output_loop_Ok: "output_loop out ss = Ok r \<longleftrightarrow>
    (\<exists>ts. try_map output_text ss = Ok ts \<and> r = out @ concat (map2 (\<lambda>s t. t @ seg_ending s) ss ts))"
  by (induction out ss rule: output_loop.induct) (auto simp: and_then_Inr)

text \<open>The outputs of the segments once every segment that may be translated is.\<close>

definition translated_as :: "serde_json \<Rightarrow> DocumentJob \<Rightarrow> (nat \<times> string) list \<Rightarrow> string list \<Rightarrow> bool" where
  "translated_as sj job us outs \<longleftrightarrow> length outs = length (segments job) \<and>
     (\<forall>i < length (segments job). let s = segments job ! i in
        if seg_kind s = Prose then \<exists>t. map_of (rev us) i = Some t \<and> outs ! i = encode_translation sj job (seg_source s) t
        else outs ! i = seg_source s)"

lemma translated_as_at:
  assumes "translated_as sj job us outs" "i < length (segments job)"
  shows "seg_kind (segments job ! i) = Prose \<Longrightarrow> \<exists>t. (i, t) \<in> set us \<and> map_of (rev us) i = Some t \<and>
      outs ! i = encode_translation sj job (seg_source (segments job ! i)) t"
    and "seg_kind (segments job ! i) \<noteq> Prose \<Longrightarrow> outs ! i = seg_source (segments job ! i)"
  using assms map_of_SomeD [of "rev us" i] by (fastforce simp: translated_as_def Let_def)+

lemma finished_output:
  assumes fresh: "\<forall>s \<in> set (segments job). seg_translated s = None"
    and finished: "pending_count (retranslate sj job us) = 0"
  obtains outs where "translated_as sj job us outs"
    "output_loop [] (segments (retranslate sj job us)) = Ok (concat (map2 (\<lambda>s t. t @ seg_ending s) (segments job) outs))"
proof -
  let ?ss = "segments job" and ?ss' = "segments (retranslate sj job us)"
  define outs where "outs = map (\<lambda>s. if seg_kind s = Prose then the (seg_translated s) else seg_source s) ?ss'"
  have done_at: "\<exists>t. map_of (rev us) i = Some t \<and> seg_translated (?ss' ! i) = Some (encode_translation sj job (seg_source (?ss ! i)) t)"
    if i: "i < length ?ss" "seg_kind (?ss ! i) = Prose" for i
  proof -
    have "seg_kind (?ss' ! i) = Prose" using i retranslate_nth [OF i(1), of sj us] by (auto split: option.splits)
    moreover have "?ss' ! i \<in> set ?ss'" using i by simp
    ultimately have "seg_translated (?ss' ! i) \<noteq> None"
      using finished by (auto simp: pending_count_def filter_empty_conv)
    with i(1) fresh retranslate_nth [OF i(1), of sj us] show ?thesis by (auto split: option.splits)
  qed
  have kind: "seg_kind (?ss' ! i) = seg_kind (?ss ! i)" "seg_source (?ss' ! i) = seg_source (?ss ! i)"
    "seg_ending (?ss' ! i) = seg_ending (?ss ! i)" if "i < length ?ss" for i
    using retranslate_nth [OF that, of sj us] by (auto split: option.splits)
  have "try_map output_text ?ss' = Ok outs"
  proof (subst try_map_Inr, intro conjI allI impI)
    show "length outs = length ?ss'" by (simp add: outs_def)
    fix i assume "i < length ?ss'"
    then have i: "i < length ?ss" by simp
    with done_at [OF i] kind [OF i] show "output_text (?ss' ! i) = Ok (outs ! i)"
      by (cases "seg_kind (?ss ! i)") (auto simp: output_text_def outs_def)
  qed
  moreover have "map2 (\<lambda>s t. t @ seg_ending s) ?ss' outs = map2 (\<lambda>s t. t @ seg_ending s) ?ss outs"
    by (rule nth_equalityI) (auto simp: kind outs_def)
  ultimately have "output_loop [] ?ss' = Ok (concat (map2 (\<lambda>s t. t @ seg_ending s) ?ss outs))"
    by (simp add: output_loop_Ok)
  moreover have "translated_as sj job us outs"
    unfolding translated_as_def using done_at kind by (force simp: outs_def Let_def)
  ultimately show thesis using that by blast
qed

end
