(* ===== verification/Document_Roundtrip.thy ===== *)
theory Document_Roundtrip
  imports Document_Job
begin

text \<open>
  What a document job guarantees from import to reconstruction, format by format: the source is
  kept, translations land where they were applied, and the translated document is read back with the
  same structure.
\<close>

section \<open>Facts the round trips share\<close>

lemma length_strip_bom: "length (strip_bom s) \<le> length s"
  by (simp add: strip_bom_def)

lemma make_job_sel [simp]: "job_format (make_job f n ss) = f" "job_source_name (make_job f n ss) = n"
  "segments (make_job f n ss) = ss" "package (make_job f n ss) = None" "document_source_text (make_job f n ss) = segments_text ss"
  by (simp_all add: make_job_def document_source_text_def)

lemma apply_all_Ok: "apply_all sj job us = Ok job' \<Longrightarrow> job' = retranslate sj job us \<and> (\<forall>(i, t) \<in> set us. \<not> untranslatable job i)"
  by (auto simp: apply_all_eq find_None_iff split: option.splits)

lemma fresh_untranslated: "fresh_segments src ss \<Longrightarrow> \<forall>s \<in> set ss. seg_translated s = None"
  by (simp add: fresh_segments_def)

lemma reconstruct_text:
  assumes "\<not> package_format (job_format job)" "output_loop [] (segments job) = Ok out"
    "length out \<le> MAX_DOCUMENT_BYTES"
    "validate_structure_with_delimiter sj (job_format job) out
       (if job_format job = Csv then Some (detect_csv_delimiter (document_source_text job)) else None) = Ok ()"
  shows "reconstruct sj po job = Ok out"
  using assms by (simp add: reconstruct_def)

lemma reconstruct_size:
  assumes "\<not> package_format (job_format job)" "output_loop [] (segments job) = Ok out"
    "reconstruct sj po job \<noteq> Err OutputTooLarge"
  shows "length out \<le> MAX_DOCUMENT_BYTES"
  using assms by (simp add: reconstruct_def split: if_splits)

text \<open>The fields of a CSV document that are offered for translation are fields the scanner produced.\<close>

lemma record_segments_fields:
  "s \<in> set (record_segments sel d c i row e) \<Longrightarrow> seg_kind s = Prose \<Longrightarrow> seg_source s \<in> set row"
  by (induction sel d c i row e rule: record_segments.induct) (auto split: if_splits)

lemma csv_segments_loop_fields:
  "csv_segments_loop sel d ss recs = Ok out \<Longrightarrow> s \<in> set out \<Longrightarrow> seg_kind s = Prose \<Longrightarrow>
     s \<in> set ss \<or> (\<exists>r \<in> set recs. seg_source s \<in> set (csv_row r))"
proof (induction sel d ss recs rule: csv_segments_loop.induct)
  case (2 sel d ss r recs)
  then show ?case
    by (fastforce simp: Let_def dest: record_segments_fields split: if_splits)
qed simp

lemma csv_prose_field_ok:
  assumes "csv_segments columns src = Ok ss" "s \<in> set ss" "seg_kind s = Prose"
  shows "field_ok (detect_csv_delimiter src) (seg_source s)"
proof -
  let ?d = "detect_csv_delimiter src"
  from assms(1) obtain recs sel where recs: "csv_records_loop ?d src [] [] [] False False = Ok recs"
    and ss: "csv_segments_loop sel ?d [] recs = Ok ss"
    by (auto simp: csv_segments_def document_csv_records_def Let_def and_then_Inr split: if_splits)
  from csv_segments_loop_fields [OF ss assms(2,3)] obtain r where "r \<in> set recs" "seg_source s \<in> set (csv_row r)" by auto
  with table_ok_fields [OF csv_records_loop_rows(1) [OF recs]] show ?thesis by blast
qed

section \<open>Examples\<close>

definition demo_serde :: serde_json where
  "demo_serde = \<lparr>from_str_string = (\<lambda>raw. if length raw \<ge> 2 then Some (butlast (tl raw)) else None),
     from_str_value_ok = (\<lambda>raw. raw = ''1''), to_string = (\<lambda>t. Some (quote # t @ [quote]))\<rparr>"

definition demo_packages :: package_ops where
  "demo_packages = \<lparr>docx_inspect = (\<lambda>_. Err InvalidStructure), pptx_inspect = (\<lambda>_. Err InvalidStructure),
     xlsx_inspect = (\<lambda>_. Err InvalidStructure), xlsx_inspect_with_selection = (\<lambda>_ _. Err InvalidStructure),
     epub_inspect = (\<lambda>_. Err InvalidStructure), pdf_inspect = (\<lambda>_. Err InvalidStructure),
     docx_reconstruct = (\<lambda>_ _. Err InvalidStructure), pptx_reconstruct = (\<lambda>_ _. Err InvalidStructure),
     xlsx_reconstruct = (\<lambda>_ _. Err InvalidStructure), epub_reconstruct = (\<lambda>_ _ _. Err InvalidStructure),
     pdf_reconstruct = (\<lambda>_ _. Err InvalidStructure), pdf_warnings = (\<lambda>_. Err InvalidStructure),
     pdf_alternative_html = (\<lambda>_ _. Err InvalidStructure)\<rparr>"

abbreviation the_job :: "DocumentError + DocumentJob \<Rightarrow> DocumentJob" where
  "the_job r \<equiv> case r of Inr job \<Rightarrow> job | Inl _ \<Rightarrow> make_job Txt [] []"

definition demo_md :: string where "demo_md = BOM @ ''A\<newline>```''"

definition demo_md_job :: DocumentJob where
  "demo_md_job = the_job (DocumentJob_from_utf8 demo_serde demo_packages ''a.md'' demo_md)"

definition demo_csv_job :: DocumentJob where
  "demo_csv_job = the_job (from_utf8_with_csv_columns demo_serde ''a.csv'' ''a,b\<newline>c,d'' (Some [1]))"

definition demo_json_job :: DocumentJob where
  "demo_json_job = the_job (from_utf8_with_json_paths demo_serde ''a.json'' ''{\"a\":[\"b\"]}'' None None)"

definition demo_html_job :: DocumentJob where
  "demo_html_job = the_job (DocumentJob_from_utf8 demo_serde demo_packages ''a.htm'' ''<p>a&amp;b</p>'')"

definition demo_apply :: "DocumentJob \<Rightarrow> (nat \<times> string) list \<Rightarrow> DocumentJob" where
  "demo_apply job us = the_job (apply_all demo_serde job us)"

lemma demo_md_job_value [code]: "demo_md_job = make_job Markdown ''a.md'' [new_segment 0 Prose ''A'' [lf], new_segment 1 Verbatim ''```'' []]"
  by code_simp

lemma demo_csv_job_value [code]: "demo_csv_job = make_job Csv ''a.csv'' [new_segment 0 Verbatim ''a'' [], new_segment 1 Verbatim '','' [],
    new_segment 2 Prose ''b'' [lf], new_segment 3 Verbatim ''c'' [], new_segment 4 Verbatim '','' [], new_segment 5 Prose ''d'' []]"
  by code_simp

lemma demo_json_job_value [code]: "demo_json_job = make_job JsonFormat ''a.json'' [new_segment 0 Verbatim ''{'' [], new_segment 1 Verbatim ''\"a\"'' [],
    new_segment 2 Verbatim '':['' [], new_segment 3 Prose ''\"b\"'' [], new_segment 4 Verbatim '']}'' []]"
  by code_simp

lemma demo_html_job_value [code]: "demo_html_job = make_job Html ''a.htm'' [new_segment 0 Verbatim ''<p>'' [], new_segment 1 Prose ''a&amp;b'' [],
    new_segment 2 Verbatim ''</p>'' []]"
  by code_simp

lemma demo_md_import: "DocumentJob_from_utf8 demo_serde demo_packages ''a.md'' demo_md = Ok demo_md_job"
  by code_simp

lemma demo_csv_import: "from_utf8_with_csv_columns demo_serde ''a.csv'' ''a,b\<newline>c,d'' (Some [1]) = Ok demo_csv_job"
  by code_simp

lemma demo_json_import: "from_utf8_with_json_paths demo_serde ''a.json'' ''{\"a\":[\"b\"]}'' None None = Ok demo_json_job"
  by code_simp

lemma demo_html_import: "DocumentJob_from_utf8 demo_serde demo_packages ''a.htm'' ''<p>a&amp;b</p>'' = Ok demo_html_job"
  by code_simp

section \<open>Import and translation\<close>

text \<open>
  Importing a text document, in whichever format, keeps its source: the segments in order, with
  their line endings, are the file without its byte order mark; they are numbered by position, the
  size limit holds, and what is pending is exactly what may be translated.
\<close>

lemma import_keeps_source:
  assumes "imported_job sj po name contents job"
  shows "document_source_text job = strip_bom contents \<and>
    map seg_index (segments job) = [0..<length (segments job)] \<and>
    length (document_source_text job) \<le> MAX_DOCUMENT_BYTES \<and>
    pending_count job = length (filter (\<lambda>s. seg_kind s = Prose) (segments job))"
proof -
  from assms obtain f src ss where dec: "decode_document sj name contents = Ok (f, src)"
    and job: "job = make_job f name ss" and fresh: "fresh_segments src ss"
    by (rule imported_parts) blast
  note d = decoded_parts [OF dec]
  have "pending_count job = length (filter (\<lambda>s. seg_kind s = Prose) (segments job))"
    using fresh unfolding pending_count_def job
    by (auto simp: fresh_segments_def intro!: arg_cong [of _ _ length] filter_cong)
  then show ?thesis
    using fresh d(1) length_strip_bom [of contents] by (auto simp: job fresh_segments_def d(2))
qed

lemma import_keeps_source_witness:
  "document_source_text demo_md_job = ''A\<newline>```'' \<and> map seg_index (segments demo_md_job) = [0, 1] \<and>
   pending_count demo_md_job = 1"
proof -
  have "package demo_md_job = None" by code_simp
  with demo_md_import have "imported_job demo_serde demo_packages ''a.md'' demo_md demo_md_job"
    by (simp add: imported_job_def)
  note kept = import_keeps_source [OF this]
  have "strip_bom demo_md = ''A\<newline>```''" "length (segments demo_md_job) = 2"
    "length (filter (\<lambda>s. seg_kind s = Prose) (segments demo_md_job)) = 1" by code_simp+
  with kept show ?thesis by (simp add: upt_rec)
qed

text \<open>
  C14: A sequence of translations either fails at its first entry that names no segment or a
  structural one, with that error, or leaves a job in which every segment has the last translation
  given for it, encoded for the format, and in which nothing else has changed.
\<close>

theorem translations_land_exactly:
  "apply_all sj job us = (case find (\<lambda>(i, t). untranslatable job i) us of
     None \<Rightarrow> Ok (retranslate sj job us)
   | Some (i, t) \<Rightarrow> Err (translation_error job i))"
  by (rule apply_all_eq)

section \<open>Identity\<close>

lemma identity_encoding:
  assumes fmt: "f \<in> {Txt, Markdown, Srt, WebVtt, Csv}" and job: "job = make_job f name ss" "segments_text ss = src"
    and csv: "f = Csv \<Longrightarrow> csv_segments columns src = Ok ss"
    and i: "i < length ss" "seg_kind (ss ! i) = Prose" and t: "translation_source_text sj job i = Ok t"
  shows "encode_translation sj job (seg_source (ss ! i)) t = seg_source (ss ! i)"
proof (cases "f = Csv")
  case True
  let ?d = "detect_csv_delimiter src"
  from t i have "decode_csv_field (seg_source (ss ! i)) ?d = Ok t"
    by (simp add: translation_source_text_def job True)
  moreover have "field_ok ?d (seg_source (ss ! i))" using csv_prose_field_ok [OF csv [OF True]] i by simp
  ultimately have "encode_csv_field (seg_source (ss ! i)) t ?d = seg_source (ss ! i)" using encode_decode by fastforce
  then show ?thesis by (simp add: encode_translation_def job True)
next
  case False
  with fmt t i show ?thesis by (auto simp: translation_source_text_def encode_translation_def job)
qed



section \<open>Translated documents\<close>

text \<open>The output of a finished job, with what the segmenters need to read it back.\<close>

lemma finished_job:
  assumes fresh: "fresh_segments src ss" and job: "job = make_job f name ss"
    and app: "apply_all sj job us = Ok job'" and fin: "pending_count job' = 0" and fmt: "\<not> package_format f"
    and size: "reconstruct sj po job' \<noteq> Err OutputTooLarge"
  obtains outs out where "out = concat (map2 (\<lambda>s t. t @ seg_ending s) ss outs)" "translated_as sj job us outs"
    "length outs = length ss"
    "validate_structure_with_delimiter sj f out (if f = Csv then Some (detect_csv_delimiter src) else None) = Ok () \<longrightarrow>
       reconstruct sj po job' = Ok out"
proof -
  note job' = conjunct1 [OF apply_all_Ok [OF app]]
  have whole: "segments_text ss = src" using fresh by (simp add: fresh_segments_def)
  obtain outs where tr: "translated_as sj job us outs"
    and out: "output_loop [] (segments job') = Ok (concat (map2 (\<lambda>s t. t @ seg_ending s) ss outs))"
    using finished_output [of job sj us] fresh_untranslated [OF fresh] fin unfolding job' by (auto simp: job)
  have frame: "job_format job' = f" "document_source_text job' = src"
    by (simp_all add: job' retranslate_frame whole job)
  then have pf: "\<not> package_format (job_format job')" using fmt by simp
  have "length outs = length ss" using tr by (simp add: translated_as_def job)
  with that [OF refl tr] reconstruct_text [OF pf out reconstruct_size [OF pf out size], unfolded frame]
  show thesis by blast
qed

definition serde_prints :: "serde_json \<Rightarrow> string \<Rightarrow> bool" where
  "serde_prints sj t \<longleftrightarrow> string_literal sj (encode_json_string sj t) \<and>
     from_str_string sj (encode_json_string sj t) = Some t"

lemma no_endings:
  assumes "segments_text ss = concat (map seg_source ss)" "length outs = length ss"
  shows "concat (map2 (\<lambda>s t. t @ seg_ending s) ss outs) = concat outs"
proof -
  have "\<forall>s \<in> set ss. seg_ending s = []"
  proof
    fix s assume s: "s \<in> set ss"
    have "length (segments_text ss) = length (concat (map seg_source ss)) + sum_list (map (length \<circ> seg_ending) ss)"
      unfolding segments_text_def by (induction ss) simp_all
    with assms(1) have "sum_list (map (length \<circ> seg_ending) ss) = 0" by simp
    with s show "seg_ending s = []" by (auto simp: sum_list_eq_0_iff)
  qed
  with assms(2) show ?thesis
    by (intro arg_cong [of _ _ concat] nth_equalityI) auto
qed

text \<open>
  C10: A JSON document whose selected values are all translated reconstructs, unless it becomes too
  large, to a JSON document with the same structure: reading it with the same path selection gives
  the same kinds of segments, every key, every value that was not selected and everything between
  the strings is unchanged, and every selected value decodes to its last translation. What is
  asked of \<open>serde_json\<close> is that it prints a translation as a string literal that it reads back.
\<close>

theorem json_translation_roundtrip:
  assumes imp: "from_utf8_with_json_paths sj name contents inc exc = Ok job" and fmt: "job_format job = JsonFormat"
    and app: "apply_all sj job us = Ok job'" and fin: "pending_count job' = 0"
    and prints: "\<forall>(i, t) \<in> set us. serde_prints sj t"
    and size: "reconstruct sj po job' \<noteq> Err OutputTooLarge"
  shows "\<exists>out ss. reconstruct sj po job' = Ok out \<and> json_segments sj inc exc out = Ok ss \<and>
    map seg_kind ss = map seg_kind (segments job) \<and>
    (\<forall>i < length ss. if seg_kind (ss ! i) = Prose
       then \<exists>t. map_of (rev us) i = Some t \<and> translation_source_text sj (make_job JsonFormat name ss) i = Ok t
       else seg_source (ss ! i) = seg_source (segments job ! i))"
proof -
  from imp fmt obtain src ss where seg: "json_segments sj inc exc src = Ok ss" and job: "job = make_job JsonFormat name ss"
    by (auto simp: from_utf8_with_json_paths_def from_text_def and_then_Inr split: if_splits)
  have fresh: "fresh_segments src ss" using json.fresh [OF seg] .
  obtain outs out where out: "out = concat (map2 (\<lambda>s t. t @ seg_ending s) ss outs)"
    and tr: "translated_as sj job us outs" and len: "length outs = length ss"
    and recon: "validate_structure_with_delimiter sj JsonFormat out None = Ok () \<longrightarrow> reconstruct sj po job' = Ok out"
    by (rule finished_job [OF fresh job app fin _ size]) (auto simp: package_format_def)
  have verbatim: "outs ! i = seg_source (ss ! i)" if "i < length ss" "seg_kind (ss ! i) \<noteq> Prose" for i
    using translated_as_at(2) [OF tr, of i] that by (simp add: job)
  have enc: "\<exists>t. map_of (rev us) i = Some t \<and> outs ! i = encode_json_string sj t \<and> serde_prints sj t"
    if "i < length ss" "seg_kind (ss ! i) = Prose" for i
    using translated_as_at(1) [OF tr, of i] that prints by (auto simp: encode_translation_def job)
  have "list_all2 (\<lambda>s out. if seg_kind s = Prose then string_literal sj out else out = seg_source s) ss outs"
    using len enc verbatim by (fastforce simp: list_all2_conv_all_nth serde_prints_def)
  from json_segments_retext [OF seg this] obtain ss' where ss': "json_segments sj inc exc (concat outs) = Ok ss'"
    "map seg_source ss' = outs" "map seg_kind ss' = map seg_kind ss" .
  have "out = concat outs" unfolding out using seg len
    by (intro no_endings) (auto simp: json_segments_grammar number_segments_text number_segments_fields)
  with ss'(1) have out': "json_segments sj inc exc out = Ok ss'" by simp
  then have rec: "reconstruct sj po job' = Ok out"
    by (intro recon [rule_format]) (auto simp: validate_structure_with_delimiter_def json_segments_def and_then_Inr)
  have len': "length ss' = length ss" using arg_cong [OF ss'(3), of length] by simp
  have at: "seg_source (ss' ! i) = outs ! i" "seg_kind (ss' ! i) = seg_kind (ss ! i)" if "i < length ss" for i
    using arg_cong [OF ss'(2), of "\<lambda>xs. xs ! i"] arg_cong [OF ss'(3), of "\<lambda>xs. xs ! i"] that len' by simp_all
  have "if seg_kind (ss' ! i) = Prose
      then \<exists>t. map_of (rev us) i = Some t \<and> translation_source_text sj (make_job JsonFormat name ss') i = Ok t
      else seg_source (ss' ! i) = seg_source (ss ! i)" if i: "i < length ss'" for i
    using enc [of i] verbatim [of i] at [of i] i len'
    by (auto simp: translation_source_text_def decode_json_string_def serde_prints_def)
  with rec out' ss'(3) show ?thesis by (auto simp: job)
qed

theorem json_translation_roundtrip_witness:
  "\<exists>ss. reconstruct demo_serde demo_packages (demo_apply demo_json_job [(3, ''cd'')]) = Ok ''{\"a\":[\"cd\"]}'' \<and>
     json_segments demo_serde None None ''{\"a\":[\"cd\"]}'' = Ok ss \<and>
     map seg_kind ss = [Verbatim, Verbatim, Verbatim, Prose, Verbatim]"
proof -
  have rec: "reconstruct demo_serde demo_packages (demo_apply demo_json_job [(3, ''cd'')]) = Ok ''{\"a\":[\"cd\"]}''"
    and app: "apply_all demo_serde demo_json_job [(3, ''cd'')] = Ok (demo_apply demo_json_job [(3, ''cd'')])"
    and fin: "pending_count (demo_apply demo_json_job [(3, ''cd'')]) = 0"
    and fmt: "job_format demo_json_job = JsonFormat"
    and prints: "serde_prints demo_serde ''cd''"
    and kinds: "map seg_kind (segments demo_json_job) = [Verbatim, Verbatim, Verbatim, Prose, Verbatim]" by code_simp+
  show ?thesis
    using json_translation_roundtrip [OF demo_json_import fmt app fin, of demo_packages] prints rec kinds by auto
qed

text \<open>
  C11: A CSV document whose selected cells are all translated, with texts that are not empty,
  reconstructs, unless it becomes too large, to a table of the same shape: read with the delimiter
  and the columns of the source it has the same segments and line endings, every cell that was not
  selected is unchanged, and every selected cell decodes to its last translation.
\<close>

theorem csv_translation_keeps_table:
  assumes imp: "from_utf8_with_csv_columns sj name contents columns = Ok job" and fmt: "job_format job = Csv"
    and d: "d = detect_csv_delimiter (document_source_text job)"
    and app: "apply_all sj job us = Ok job'" and fin: "pending_count job' = 0"
    and nonempty: "\<forall>(i, t) \<in> set us. t \<noteq> []"
    and size: "reconstruct sj po job' \<noteq> Err OutputTooLarge"
  shows "\<exists>out recs recs' sel ss. reconstruct sj po job' = Ok out \<and>
    document_csv_records (document_source_text job) d = Ok recs \<and> csv_selection recs d columns = Ok sel \<and>
    document_csv_records out d = Ok recs' \<and> csv_segments_loop sel d [] recs' = Ok ss \<and>
    map seg_kind ss = map seg_kind (segments job) \<and> map seg_ending ss = map seg_ending (segments job) \<and>
    (\<forall>i < length ss. if seg_kind (ss ! i) = Prose
       then \<exists>t. map_of (rev us) i = Some t \<and> decode_csv_field (seg_source (ss ! i)) d = Ok t
       else seg_source (ss ! i) = seg_source (segments job ! i))"
proof -
  from imp fmt obtain src ss where seg: "csv_segments columns src = Ok ss" and job: "job = make_job Csv name ss"
    by (auto simp: from_utf8_with_csv_columns_def from_text_def and_then_Inr split: if_splits)
  have fresh: "fresh_segments src ss" using csv.fresh [OF seg] .
  then have whole: "segments_text ss = src" by (simp add: fresh_segments_def)
  then have d': "d = detect_csv_delimiter src" by (simp add: d job)
  obtain outs out where out: "out = concat (map2 (\<lambda>s t. t @ seg_ending s) ss outs)"
    and tr: "translated_as sj job us outs" and len: "length outs = length ss"
    and recon: "validate_structure_with_delimiter sj Csv out (Some d) = Ok () \<longrightarrow> reconstruct sj po job' = Ok out"
    by (rule finished_job [OF fresh job app fin _ size]) (auto simp: package_format_def d')
  have verbatim: "outs ! i = seg_source (ss ! i)" if "i < length ss" "seg_kind (ss ! i) \<noteq> Prose" for i
    using translated_as_at(2) [OF tr, of i] that by (simp add: job)
  have enc: "\<exists>t. map_of (rev us) i = Some t \<and> t \<noteq> [] \<and> outs ! i = encode_csv_field (seg_source (ss ! i)) t d"
    if "i < length ss" "seg_kind (ss ! i) = Prose" for i
    using translated_as_at(1) [OF tr, of i] that nonempty by (auto simp: encode_translation_def d' whole job)
  have "recell_segment d (ss ! i) (outs ! i)" if "i < length ss" for i
    using enc [OF that] verbatim [OF that] encode_field_ok
    by (fastforce simp: recell_segment_def recell_def encode_csv_field_def split: if_splits)
  then have "list_all2 (recell_segment d) ss outs" using len by (simp add: list_all2_conv_all_nth)
  from csv_segments_retext [OF seg d' this] obtain recs recs' sel ss' where
    r: "document_csv_records src d = Ok recs" "csv_selection recs d columns = Ok sel"
    "document_csv_records out d = Ok recs'" "csv_segments_loop sel d [] recs' = Ok ss'" "map seg_source ss' = outs"
    "map seg_kind ss' = map seg_kind ss" "map seg_ending ss' = map seg_ending ss" unfolding out .
  have rec: "reconstruct sj po job' = Ok out"
    using r(3) by (intro recon [rule_format]) (auto simp: validate_structure_with_delimiter_def)
  have len': "length ss' = length ss" using arg_cong [OF r(6), of length] by simp
  have at: "seg_source (ss' ! i) = outs ! i" "seg_kind (ss' ! i) = seg_kind (ss ! i)" if "i < length ss" for i
    using arg_cong [OF r(5), of "\<lambda>xs. xs ! i"] arg_cong [OF r(6), of "\<lambda>xs. xs ! i"] that len' by simp_all
  have "if seg_kind (ss' ! i) = Prose
      then \<exists>t. map_of (rev us) i = Some t \<and> decode_csv_field (seg_source (ss' ! i)) d = Ok t
      else seg_source (ss' ! i) = seg_source (ss ! i)" if i: "i < length ss'" for i
    using enc [of i] verbatim [of i] at [of i] i len' by (auto simp: decode_encode)
  with rec r show ?thesis by (auto simp: job whole)
qed

theorem csv_translation_keeps_table_witness:
  "\<exists>recs. reconstruct demo_serde demo_packages (demo_apply demo_csv_job [(5, ''x,y''), (2, ''z'')]) =
       Ok ''a,z\<newline>c,\"x,y\"'' \<and> document_csv_records ''a,z\<newline>c,\"x,y\"'' (CHR '','') = Ok recs"
proof -
  let ?us = "[(5, ''x,y''), (2, ''z'')]"
  have rec: "reconstruct demo_serde demo_packages (demo_apply demo_csv_job ?us) = Ok ''a,z\<newline>c,\"x,y\"''"
    and app: "apply_all demo_serde demo_csv_job ?us = Ok (demo_apply demo_csv_job ?us)"
    and fin: "pending_count (demo_apply demo_csv_job ?us) = 0"
    and fmt: "job_format demo_csv_job = Csv"
    and d: "CHR '','' = detect_csv_delimiter (document_source_text demo_csv_job)" by code_simp+
  show ?thesis
    using csv_translation_keeps_table [OF demo_csv_import fmt d app fin, of demo_packages] rec by auto
qed

lemma encode_html_safe: "CHR ''<'' \<notin> set (encode_html_text t)" "t \<noteq> [] \<Longrightarrow> encode_html_text t \<noteq> []"
proof -
  have set: "set (replace_char c r s) \<subseteq> set r \<union> (set s - {c})" for c r s
    by (auto simp: replace_char_def split: if_splits)
  show "CHR ''<'' \<notin> set (encode_html_text t)"
    unfolding encode_html_text_def
    using set [of "CHR ''>''" "''&gt;''" "replace_char (CHR ''<'') ''&lt;'' (replace_char (CHR ''&'') ''&amp;'' t)"]
      set [of "CHR ''<''" "''&lt;''" "replace_char (CHR ''&'') ''&amp;'' t"] by auto
  have "length t \<le> length (encode_html_text t)"
    unfolding encode_html_text_def by (rule order_trans [OF length_replace_char order_trans [OF length_replace_char length_replace_char]])
  then show "t \<noteq> [] \<Longrightarrow> encode_html_text t \<noteq> []" by auto
qed

text \<open>
  C12: An HTML document whose texts are all translated, with texts that are not empty, reconstructs,
  unless it becomes too large, to a document that is cut into as many segments at the same places:
  all markup, comments, scripts and styles are unchanged and stay verbatim, and every text is the
  escaped form of its last translation, so a translation cannot add or remove markup.
\<close>

theorem html_translation_keeps_markup:
  assumes imp: "imported_job sj po name contents job" and fmt: "job_format job = Html"
    and app: "apply_all sj job us = Ok job'" and fin: "pending_count job' = 0"
    and nonempty: "\<forall>(i, t) \<in> set us. t \<noteq> []"
    and size: "reconstruct sj po job' \<noteq> Err OutputTooLarge"
  shows "\<exists>out ss. reconstruct sj po job' = Ok out \<and> html_segments out = Ok ss \<and> length ss = length (segments job) \<and>
    (\<forall>i < length ss. if seg_kind (segments job ! i) = Prose
       then \<exists>t. map_of (rev us) i = Some t \<and> seg_source (ss ! i) = encode_html_text t
       else seg_source (ss ! i) = seg_source (segments job ! i) \<and> seg_kind (ss ! i) = Verbatim)"
proof -
  from imp obtain f src ss where dec: "decode_document sj name contents = Ok (f, src)"
    and job: "job = make_job f name ss" and fresh: "fresh_segments src ss"
    and ss: "f \<notin> {Csv, JsonFormat} \<Longrightarrow> ss = text_segments sj f src"
    by (rule imported_parts) blast
  have f: "f = Html" using fmt by (simp add: job)
  have seg: "html_segments src = Ok ss" using html_structure_segments decoded_parts(3) [OF dec] ss by (simp add: f)
  obtain outs out where out: "out = concat (map2 (\<lambda>s t. t @ seg_ending s) ss outs)"
    and tr: "translated_as sj job us outs" and len: "length outs = length ss"
    and recon: "validate_structure_with_delimiter sj Html out None = Ok () \<longrightarrow> reconstruct sj po job' = Ok out"
    by (rule finished_job [OF fresh job app fin _ size]) (auto simp: package_format_def f)
  have verbatim: "outs ! i = seg_source (ss ! i)" if "i < length ss" "seg_kind (ss ! i) \<noteq> Prose" for i
    using translated_as_at(2) [OF tr, of i] that by (simp add: job)
  have enc: "\<exists>t. map_of (rev us) i = Some t \<and> t \<noteq> [] \<and> outs ! i = encode_html_text t"
    if "i < length ss" "seg_kind (ss ! i) = Prose" for i
    using translated_as_at(1) [OF tr, of i] that nonempty by (auto simp: encode_translation_def job f)
  have "list_all2 (\<lambda>s out. if seg_kind s = Prose then out \<noteq> [] \<and> CHR ''<'' \<notin> set out else out = seg_source s) ss outs"
    using len enc verbatim encode_html_safe by (fastforce simp: list_all2_conv_all_nth)
  from html_segments_retext [OF seg this] obtain ss' where ss': "html_segments (concat outs) = Ok ss'"
    "map seg_source ss' = outs" "length ss' = length ss"
    "\<forall>i < length ss. seg_kind (ss ! i) = Verbatim \<longrightarrow> seg_kind (ss' ! i) = Verbatim" .
  have "out = concat outs" unfolding out using seg len
    by (intro no_endings) (auto simp: html_segments_def and_then_Inr segments_text_def html_segment_def comp_def
        case_prod_unfold)
  with ss'(1) have out': "html_segments out = Ok ss'" by simp
  then have rec: "reconstruct sj po job' = Ok out"
    by (intro recon [rule_format]) (auto simp: validate_structure_with_delimiter_def html_segments_def and_then_Inr)
  have at: "seg_source (ss' ! i) = outs ! i" if "i < length ss" for i
    using arg_cong [OF ss'(2), of "\<lambda>xs. xs ! i"] that ss'(3) by simp
  have "if seg_kind (ss ! i) = Prose
      then \<exists>t. map_of (rev us) i = Some t \<and> seg_source (ss' ! i) = encode_html_text t
      else seg_source (ss' ! i) = seg_source (ss ! i) \<and> seg_kind (ss' ! i) = Verbatim" if i: "i < length ss'" for i
    using enc [of i] verbatim [of i] at [of i] i ss'(3,4) by (cases "seg_kind (ss ! i)") auto
  with rec out' ss'(3) show ?thesis by (auto simp: job)
qed

theorem html_translation_keeps_markup_witness:
  "\<exists>ss. reconstruct demo_serde demo_packages (demo_apply demo_html_job [(1, ''<b>'')]) = Ok ''<p>&lt;b&gt;</p>'' \<and>
     html_segments ''<p>&lt;b&gt;</p>'' = Ok ss \<and> length ss = 3"
proof -
  have "package demo_html_job = None" by code_simp
  with demo_html_import have imp: "imported_job demo_serde demo_packages ''a.htm'' ''<p>a&amp;b</p>'' demo_html_job"
    unfolding imported_job_def by blast
  have rec: "reconstruct demo_serde demo_packages (demo_apply demo_html_job [(1, ''<b>'')]) = Ok ''<p>&lt;b&gt;</p>''"
    and app: "apply_all demo_serde demo_html_job [(1, ''<b>'')] = Ok (demo_apply demo_html_job [(1, ''<b>'')])"
    and fin: "pending_count (demo_apply demo_html_job [(1, ''<b>'')]) = 0"
    and fmt: "job_format demo_html_job = Html" and len: "length (segments demo_html_job) = 3" by code_simp+
  show ?thesis
    using html_translation_keeps_markup [OF imp fmt app fin] rec len by auto
qed

text \<open>
  HTML texts are offered for translation as they stand in the file, entities included, but the
  translation is escaped on the way back: translating a text with itself turns its \<open>&amp;\<close> into
  \<open>&amp;amp;\<close>, so an identity translation does not reproduce the document.
\<close>

lemma html_identity_escapes_twice:
  "translation_source_text demo_serde demo_html_job 1 = Ok ''a&amp;b'' \<and>
   reconstruct demo_serde demo_packages (demo_apply demo_html_job [(1, ''a&amp;b'')]) = Ok ''<p>a&amp;amp;b</p>''"
proof
  show "translation_source_text demo_serde demo_html_job 1 = Ok ''a&amp;b''" by code_simp
  show "reconstruct demo_serde demo_packages (demo_apply demo_html_job [(1, ''a&amp;b'')]) = Ok ''<p>a&amp;amp;b</p>''"
    by code_simp
qed

text \<open>
  Why the translations of a table must not be empty: the only cell of the last record
  becomes nothing at all, and the table has a record less.
\<close>

lemma empty_translation_drops_record:
  "case from_utf8_with_csv_columns demo_serde ''a.csv'' ''x\<newline>y'' None of Err _ \<Rightarrow> False | Ok job \<Rightarrow>
     (case apply_all demo_serde job [(0, ''p''), (1, [])] of Err _ \<Rightarrow> False | Ok job' \<Rightarrow>
        pending_count job' = 0 \<and> reconstruct demo_serde demo_packages job' = Ok ''p\<newline>'')"
  by code_simp

end
