(* ===== verification/Secret_Broker.thy ===== *)
theory Secret_Broker
  imports Profile
begin

text \<open>
  The secret broker of \<open>crates/linguamesh-application/src/lib.rs\<close>: operations of the core ask the host
  for a secret over a bounded channel, the host answers each request at most once through its lease,
  and a cancelled operation stops waiting. Every interleaving of the operations and the host is a
  run of the step relation \<open>broker_step\<close>. A request is named by a number for its unpredictable
  \<open>HostRequestId\<close>. The \<open>oneshot\<close> channel of a request is \<open>task_response\<close> with \<open>task_lease\<close>, the owner of its sending
  half; its receiving half is open until the operation returns.
\<close>

section \<open>Requests and leases\<close>

definition DEFAULT_SECRET_REQUEST_CAPACITY :: nat where "DEFAULT_SECRET_REQUEST_CAPACITY = 8"

datatype SecretResolution = Provided string | Unavailable | StorageUnavailable

datatype oneshot = Waiting | Sent SecretResolution | SenderDropped

datatype lease_place = WithTask | Queued | WithHost | LeaseGone

datatype resolve_phase = Sending | Awaiting | Returned "TranslationError + string"

datatype HostResponseError = HostResponseError

record resolve_task =
  task_ref :: SecretRef
  task_cancelled :: bool
  task_phase :: resolve_phase
  task_response :: oneshot
  task_lease :: lease_place

definition new_task :: "SecretRef \<Rightarrow> resolve_task" where
  "new_task sref = \<lparr>task_ref = sref, task_cancelled = False, task_phase = Sending,
     task_response = Waiting, task_lease = WithTask\<rparr>"

fun returned :: "resolve_phase \<Rightarrow> bool" where
  "returned (Returned _) = True"
| "returned _ = False"

text \<open>\<open>is_active\<close>: the sender is still there and its receiver is not closed.\<close>

definition lease_is_active :: "resolve_task \<Rightarrow> bool" where
  "lease_is_active t \<longleftrightarrow> task_lease t \<noteq> LeaseGone \<and> \<not> returned (task_phase t)"

definition respond :: "SecretResolution \<Rightarrow> resolve_task \<Rightarrow> (HostResponseError + unit) \<times> resolve_task" where
  "respond resolution t =
     (if task_lease t = LeaseGone then (Err HostResponseError, t)
      else if returned (task_phase t) then (Err HostResponseError, t\<lparr>task_lease := LeaseGone\<rparr>)
      else (Ok (), t\<lparr>task_response := Sent resolution, task_lease := LeaseGone\<rparr>))"

definition drop_lease :: "resolve_task \<Rightarrow> resolve_task" where
  "drop_lease t = t\<lparr>task_response := (if task_response t = Waiting then SenderDropped else task_response t),
     task_lease := LeaseGone\<rparr>"

text \<open>What a finished wait for the answer returns.\<close>

fun response_result :: "oneshot \<Rightarrow> (TranslationError + string) option" where
  "response_result Waiting = None"
| "response_result (Sent (Provided secret)) = Some (Ok secret)"
| "response_result (Sent Unavailable) = Some (Err (TranslationError_new SecretUnavailable
     ''The provider credential is unavailable.''))"
| "response_result (Sent StorageUnavailable) = Some (Err (TranslationError_new SecureStorageUnavailable
     ''Secure credential storage is unavailable.''))"
| "response_result SenderDropped = Some (Err (TranslationError_new SecretUnavailable
     ''The host did not complete the secret request.''))"

section \<open>The channel\<close>

record broker_state =
  tasks :: "nat \<Rightarrow> resolve_task option"
  requests :: "nat list"
  request_capacity :: nat
  host_listens :: bool

definition host_secret_channel :: "nat \<Rightarrow> TranslationError + broker_state" where
  "host_secret_channel capacity =
     (if capacity = 0 then Err (TranslationError_new InvalidConfiguration
        ''The host secret request capacity must be greater than zero.'')
      else Ok \<lparr>tasks = (\<lambda>_. None), requests = [], request_capacity = capacity, host_listens = True\<rparr>)"

definition set_task :: "broker_state \<Rightarrow> nat \<Rightarrow> resolve_task \<Rightarrow> broker_state" where
  "set_task s i t = s\<lparr>tasks := (tasks s)(i \<mapsto> t)\<rparr>"

text \<open>One poll of \<open>recv\<close>: a request that is no longer active is dropped and the loop goes on.\<close>

definition receive :: "resolve_task \<Rightarrow> resolve_task" where
  "receive t = (if lease_is_active t then t\<lparr>task_lease := WithHost\<rparr> else drop_lease t)"

inductive broker_step :: "broker_state \<Rightarrow> broker_state \<Rightarrow> bool" where
  resolve: "tasks s i = None \<Longrightarrow> broker_step s (set_task s i (new_task sref))"
| cancel: "tasks s i = Some t \<Longrightarrow> broker_step s (set_task s i (t\<lparr>task_cancelled := True\<rparr>))"
| stop_sending: "tasks s i = Some t \<Longrightarrow> task_cancelled t \<Longrightarrow> task_phase t = Sending \<Longrightarrow>
    broker_step s (set_task s i ((drop_lease t)\<lparr>task_phase := Returned (Err TranslationError_cancelled)\<rparr>))"
| stop_waiting: "tasks s i = Some t \<Longrightarrow> task_cancelled t \<Longrightarrow> task_phase t = Awaiting \<Longrightarrow>
    broker_step s (set_task s i (t\<lparr>task_phase := Returned (Err TranslationError_cancelled)\<rparr>))"
| send: "tasks s i = Some t \<Longrightarrow> \<not> task_cancelled t \<Longrightarrow> task_phase t = Sending \<Longrightarrow> host_listens s \<Longrightarrow>
    length (requests s) < request_capacity s \<Longrightarrow>
    broker_step s ((set_task s i (t\<lparr>task_phase := Awaiting, task_lease := Queued\<rparr>))\<lparr>requests := requests s @ [i]\<rparr>)"
| send_fails: "tasks s i = Some t \<Longrightarrow> \<not> task_cancelled t \<Longrightarrow> task_phase t = Sending \<Longrightarrow> \<not> host_listens s \<Longrightarrow>
    broker_step s (set_task s i ((drop_lease t)\<lparr>task_phase := Returned (Err (TranslationError_new SecretUnavailable
      ''The host secret service is unavailable.''))\<rparr>))"
| receive: "requests s = i # is \<Longrightarrow> tasks s i = Some t \<Longrightarrow> host_listens s \<Longrightarrow>
    broker_step s ((set_task s i (receive t))\<lparr>requests := is\<rparr>)"
| answer: "tasks s i = Some t \<Longrightarrow> task_lease t = WithHost \<Longrightarrow>
    broker_step s (set_task s i (snd (respond resolution t)))"
| give_up: "tasks s i = Some t \<Longrightarrow> task_lease t = WithHost \<Longrightarrow> broker_step s (set_task s i (drop_lease t))"
| leave: "host_listens s \<Longrightarrow> broker_step s (s\<lparr>host_listens := False, requests := [],
    tasks := (\<lambda>i. if i \<in> set (requests s) then map_option drop_lease (tasks s i) else tasks s i)\<rparr>)"
| complete: "tasks s i = Some t \<Longrightarrow> \<not> task_cancelled t \<Longrightarrow> task_phase t = Awaiting \<Longrightarrow>
    response_result (task_response t) = Some result \<Longrightarrow>
    broker_step s (set_task s i (t\<lparr>task_phase := Returned result\<rparr>))"

inductive_cases broker_stepE: "broker_step s s'"

abbreviation broker_run :: "broker_state \<Rightarrow> broker_state \<Rightarrow> bool" where "broker_run \<equiv> broker_step\<^sup>*\<^sup>*"

section \<open>Invariant\<close>

text \<open>What holds of one request, given whether it is in the queue.\<close>

definition task_ok :: "bool \<Rightarrow> resolve_task \<Rightarrow> bool" where
  "task_ok queued t \<longleftrightarrow>
     (task_lease t = Queued \<longleftrightarrow> queued) \<and>
     (task_lease t = WithTask \<longleftrightarrow> task_phase t = Sending) \<and>
     (task_lease t \<noteq> LeaseGone \<longrightarrow> task_response t = Waiting) \<and>
     (task_lease t = LeaseGone \<longrightarrow> returned (task_phase t) \<or> task_response t \<noteq> Waiting) \<and>
     (\<forall>v. task_phase t = Returned (Ok v) \<longrightarrow> task_response t = Sent (Provided v))"

definition broker_ok :: "broker_state \<Rightarrow> bool" where
  "broker_ok s \<longleftrightarrow> distinct (requests s) \<and> length (requests s) \<le> request_capacity s \<and>
     (\<not> host_listens s \<longrightarrow> requests s = []) \<and> (\<forall>i \<in> set (requests s). tasks s i \<noteq> None) \<and>
     (\<forall>i t. tasks s i = Some t \<longrightarrow> task_ok (i \<in> set (requests s)) t)"

lemma broker_ok_task: "broker_ok s \<Longrightarrow> tasks s i = Some t \<Longrightarrow> task_ok (i \<in> set (requests s)) t"
  by (simp add: broker_ok_def)

lemma broker_ok_set: "broker_ok s \<Longrightarrow> task_ok (i \<in> set (requests s)) t \<Longrightarrow> broker_ok (set_task s i t)"
  by (auto simp: broker_ok_def set_task_def)

lemma response_result_Ok: "response_result r = Some (Ok v) \<Longrightarrow> r = Sent (Provided v)"
  by (cases r rule: response_result.cases) auto

lemma broker_ok_step: "broker_step s s' \<Longrightarrow> broker_ok s \<Longrightarrow> broker_ok s'"
proof (induction rule: broker_step.induct)
  case (resolve s i sref)
  then have "i \<notin> set (requests s)" by (auto simp: broker_ok_def)
  then show ?case by (intro broker_ok_set [OF resolve(2)]) (simp add: task_ok_def new_task_def)
next
  case (cancel s i t)
  then show ?case using broker_ok_task [OF cancel(2,1)] by (intro broker_ok_set) (auto simp: task_ok_def)
next
  case (stop_sending s i t)
  then show ?case using broker_ok_task [OF stop_sending(4,1)]
    by (intro broker_ok_set) (auto simp: task_ok_def drop_lease_def)
next
  case (stop_waiting s i t)
  then show ?case using broker_ok_task [OF stop_waiting(4,1)] by (intro broker_ok_set) (auto simp: task_ok_def)
next
  case (send s i t)
  then have "i \<notin> set (requests s)" "task_response t = Waiting"
    using broker_ok_task [OF send(6,1)] by (auto simp: task_ok_def)
  with send show ?case by (auto simp: broker_ok_def set_task_def) (auto simp: task_ok_def)
next
  case (send_fails s i t)
  then show ?case using broker_ok_task [OF send_fails(5,1)]
    by (intro broker_ok_set) (auto simp: task_ok_def drop_lease_def)
next
  case (receive s i "is" t)
  then have t: "task_ok True t" "i \<notin> set is" using broker_ok_task [OF receive(4,2)] by (auto simp: broker_ok_def)
  then have "task_ok False (receive t)"
    by (auto simp: task_ok_def receive_def drop_lease_def lease_is_active_def)
  moreover have "task_ok (j \<in> set is) u" if "tasks s j = Some u" "j \<noteq> i" for j u
    using broker_ok_task [OF receive(4) that(1)] receive(1) that(2) by simp
  ultimately show ?case using receive t(2) by (auto simp: broker_ok_def set_task_def)
next
  case (answer s i t resolution)
  then show ?case using broker_ok_task [OF answer(3,1)]
    by (intro broker_ok_set) (auto simp: task_ok_def respond_def)
next
  case (give_up s i t)
  then show ?case using broker_ok_task [OF give_up(3,1)]
    by (intro broker_ok_set) (auto simp: task_ok_def drop_lease_def)
next
  case (leave s)
  have "task_ok False (drop_lease t)" if "task_ok True t" for t
    using that by (auto simp: task_ok_def drop_lease_def)
  moreover have queued: "i \<in> set (requests s) \<Longrightarrow> task_ok True t" "i \<notin> set (requests s) \<Longrightarrow> task_ok False t"
    if "tasks s i = Some t" for i t
    using broker_ok_task [OF leave(2) that] by simp_all
  ultimately have "task_ok False t'"
    if "(if i \<in> set (requests s) then map_option drop_lease (tasks s i) else tasks s i) = Some t'" for i t'
    using that by (auto split: if_splits)
  then show ?case by (simp add: broker_ok_def)
next
  case (complete s i t result)
  then show ?case using broker_ok_task [OF complete(5,1)]
    by (intro broker_ok_set) (auto simp: task_ok_def dest!: response_result_Ok)
qed

lemma broker_ok_run: "broker_run s s' \<Longrightarrow> broker_ok s \<Longrightarrow> broker_ok s'"
  by (induction rule: rtranclp_induct) (auto intro: broker_ok_step)

lemma broker_ok_init: "host_secret_channel c = Ok s \<Longrightarrow> broker_ok s"
  by (auto simp: host_secret_channel_def broker_ok_def split: if_splits)

lemmas broker_reachable = broker_ok_run [OF _ broker_ok_init]

section \<open>Cancellation\<close>

text \<open>A cancelled request stays cancelled, and what a request has returned does not change.\<close>

definition no_secret_later :: "resolve_task \<Rightarrow> bool" where
  "no_secret_later t \<longleftrightarrow> (if returned (task_phase t) then \<forall>v. task_phase t \<noteq> Returned (Ok v) else task_cancelled t)"

lemma no_secret_step:
  "broker_step s s' \<Longrightarrow> tasks s i = Some t \<Longrightarrow> no_secret_later t \<Longrightarrow> \<exists>t'. tasks s' i = Some t' \<and> no_secret_later t'"
  by (induction rule: broker_step.induct)
    (auto simp: no_secret_later_def set_task_def respond_def drop_lease_def receive_def split: if_splits)

lemma no_secret_run:
  "broker_run s s' \<Longrightarrow> tasks s i = Some t \<Longrightarrow> no_secret_later t \<Longrightarrow> \<exists>t'. tasks s' i = Some t' \<and> no_secret_later t'"
  by (induction arbitrary: rule: rtranclp_induct) (auto dest: no_secret_step)

section \<open>Properties\<close>

text \<open>
  C15: In every run of the broker the queue of secret requests is bounded and holds no request twice;
  a request that returned a secret returned the one the host provided for that very request through
  its lease; and from the moment a waiting request is cancelled, no later step of anyone makes it
  return a secret.
\<close>

theorem secrets_reach_only_live_requests:
  assumes start: "host_secret_channel capacity = Ok s0" and run: "broker_run s0 s" "broker_run s s'"
    and task: "tasks s i = Some t"
  shows "length (requests s) \<le> request_capacity s \<and> distinct (requests s) \<and>
    (\<forall>v. task_phase t = Returned (Ok v) \<longrightarrow> task_response t = Sent (Provided v) \<and> task_lease t = LeaseGone) \<and>
    (task_cancelled t \<and> \<not> returned (task_phase t) \<longrightarrow>
       (\<exists>t'. tasks s' i = Some t' \<and> (\<forall>v. task_phase t' \<noteq> Returned (Ok v))))"
proof -
  have ok: "broker_ok s" using broker_reachable [OF run(1) start] .
  note t = broker_ok_task [OF ok task]
  have "\<exists>t'. tasks s' i = Some t' \<and> (\<forall>v. task_phase t' \<noteq> Returned (Ok v))"
    if "task_cancelled t" "\<not> returned (task_phase t)"
    using no_secret_run [OF run(2) task] that by (fastforce simp: no_secret_later_def split: if_splits)
  with ok t show ?thesis by (auto simp: broker_ok_def task_ok_def)
qed

definition demo_s0 :: broker_state where
  "demo_s0 = \<lparr>tasks = (\<lambda>_. None), requests = [], request_capacity = 1, host_listens = True\<rparr>"

definition demo_cancelled :: broker_state where
  "demo_cancelled = set_task (set_task demo_s0 0 (new_task (SecretRef ''r''))) 0 ((new_task (SecretRef ''r''))\<lparr>task_cancelled := True\<rparr>)"

lemma demo_cancelled_run: "broker_run demo_s0 demo_cancelled"
proof -
  have "broker_step demo_s0 (set_task demo_s0 0 (new_task (SecretRef ''r'')))"
    by (rule broker_step.resolve) (simp add: demo_s0_def)
  moreover have "broker_step (set_task demo_s0 0 (new_task (SecretRef ''r''))) demo_cancelled"
    unfolding demo_cancelled_def by (rule broker_step.cancel) (simp add: set_task_def)
  ultimately show ?thesis by simp
qed

theorem secrets_reach_only_live_requests_witness:
  "\<exists>t'. tasks demo_cancelled 0 = Some t' \<and> (\<nexists>v. task_phase t' = Returned (Ok v))"
proof -
  have "host_secret_channel 1 = Ok demo_s0" by (simp add: host_secret_channel_def demo_s0_def)
  from secrets_reach_only_live_requests [OF this demo_cancelled_run rtranclp.rtrancl_refl,
      of 0 "(new_task (SecretRef ''r''))\<lparr>task_cancelled := True\<rparr>"]
  show ?thesis by (simp add: demo_cancelled_def set_task_def new_task_def)
qed

text \<open>
  C16: No request hangs. In every reachable state a request that has not returned can return in one
  step of its own, without the host, as soon as it is cancelled, its lease was answered or dropped,
  or the host has stopped listening and does not hold the lease; an uncancelled request then returns
  the host's answer or the error for a missing one.
\<close>

theorem released_requests_return:
  assumes start: "host_secret_channel capacity = Ok s0" and run: "broker_run s0 s"
    and task: "tasks s i = Some t" "\<not> returned (task_phase t)"
    and released: "task_cancelled t \<or> task_lease t = LeaseGone \<or> (\<not> host_listens s \<and> task_lease t \<noteq> WithHost)"
  shows "\<exists>result t'. broker_step s (set_task s i t') \<and> task_phase t' = Returned result \<and>
    (if task_cancelled t then result = Err TranslationError_cancelled
     else if task_phase t = Awaiting then response_result (task_response t) = Some result
     else result = Err (TranslationError_new SecretUnavailable ''The host secret service is unavailable.''))"
proof -
  have ok: "broker_ok s" using broker_reachable [OF run start] .
  note t = broker_ok_task [OF ok task(1)]
  consider (stop) "task_cancelled t" "task_phase t = Sending" | (stop') "task_cancelled t" "task_phase t = Awaiting"
    | (fail) "\<not> task_cancelled t" "task_phase t = Sending" | (wait) "\<not> task_cancelled t" "task_phase t = Awaiting"
    using task(2) by (cases "task_phase t") auto
  then show ?thesis
  proof cases
    case stop
    show ?thesis by (intro exI conjI, rule broker_step.stop_sending [OF task(1) stop]) (simp_all add: stop)
  next
    case stop'
    show ?thesis by (intro exI conjI, rule broker_step.stop_waiting [OF task(1) stop']) (simp_all add: stop')
  next
    case fail
    then have "\<not> host_listens s" using released t by (auto simp: task_ok_def)
    then show ?thesis by (intro exI conjI, rule broker_step.send_fails [OF task(1) fail]) (simp_all add: fail)
  next
    case wait
    have "requests s = []" if "\<not> host_listens s" using ok that by (simp add: broker_ok_def)
    then have "task_lease t = LeaseGone" using released t wait by (cases "task_lease t") (auto simp: task_ok_def)
    then have "task_response t \<noteq> Waiting" using t wait by (simp add: task_ok_def)
    then obtain result where r: "response_result (task_response t) = Some result"
      by (cases "task_response t" rule: response_result.cases) auto
    show ?thesis by (intro exI conjI, rule broker_step.complete [OF task(1) wait r]) (simp_all add: wait r)
  qed
qed

theorem released_requests_return_witness:
  "\<exists>result t'. broker_step demo_cancelled (set_task demo_cancelled 0 t') \<and> task_phase t' = Returned result"
proof -
  have "host_secret_channel 1 = Ok demo_s0" by (simp add: host_secret_channel_def demo_s0_def)
  from released_requests_return [OF this demo_cancelled_run,
      of 0 "(new_task (SecretRef ''r''))\<lparr>task_cancelled := True\<rparr>"]
  show ?thesis by (auto simp: demo_cancelled_def set_task_def new_task_def)
qed

end
