(* ===== verification/Provider_Manager.thy ===== *)
theory Provider_Manager
  imports Secret_Broker
begin

text \<open>
  \<open>ProviderManager\<close> of \<open>crates/linguamesh-application/src/lib.rs\<close>: connecting a provider profile, replacing the
  active session and closing the old one. The adapters (endpoint checks, construction, model
  discovery), the answers of the secret broker and the moments of cancellation are the record \<open>host\<close>,
  an argument of \<open>connect\<close>. The state also logs the secrets that were asked for and the sessions that were
  closed, which are the effects a client can observe.
\<close>

section \<open>Models and adapters\<close>

datatype ModelSource = Discovered | CatalogSource | Manual

record ModelDescriptor =
  model_id :: string
  model_display_name :: string
  model_source :: ModelSource

datatype adapter = OllamaChat | AnthropicMessages | GeminiGenerateContent | AzureOpenAiChat | OpenAiResponses
  | OpenAiChatCompletions

definition adapter_of :: "string \<Rightarrow> adapter option" where
  "adapter_of name =
     (if name = ''ollama_chat'' then Some OllamaChat
      else if name = ''anthropic_messages'' then Some AnthropicMessages
      else if name = ''gemini_generate_content'' then Some GeminiGenerateContent
      else if name = ''azure_openai_chat'' then Some AzureOpenAiChat
      else if name = ''openai_responses'' then Some OpenAiResponses
      else if name = ''openai_chat_completions'' then Some OpenAiChatCompletions
      else None)"

text \<open>The settings the builders of the adapters' configurations set; what a builder has no setter for is \<open>None\<close>.\<close>

record ProviderConfig =
  config_endpoint :: EndpointConfiguration
  config_model :: "string option"
  config_api_version :: "string option"
  config_credential :: "string option"
  config_organization :: "string option"
  config_project :: "string option"
  config_proxy_url :: "string option"
  config_proxy_authentication :: "string option"
  config_request_timeout :: u32
  config_connection_timeout :: u32
  config_streaming_idle_timeout :: u32
  config_trusted_certificates_pem :: "string option"
  config_client_certificate_identity :: "ClientCertificateIdentity option"
  config_custom_headers :: "string option"
  config_secret_custom_headers :: "string option"

datatype checkpoint = SecretsResolved | DuringDiscovery | AfterDiscovery

record 'p host =
  resolve_secret :: "SecretRef \<Rightarrow> TranslationError + string"
  validate_endpoint :: "adapter \<Rightarrow> EndpointConfiguration \<Rightarrow> TranslationError + unit"
  validate_azure_endpoint :: "EndpointConfiguration \<Rightarrow> string \<Rightarrow> string \<Rightarrow> TranslationError + unit"
  new_provider :: "adapter \<Rightarrow> ProviderConfig \<Rightarrow> TranslationError + 'p"
  list_models :: "'p \<Rightarrow> TranslationError + ModelDescriptor list"
  cancelled_at :: "checkpoint \<Rightarrow> bool"

section \<open>The manager\<close>

record 'p ActiveProvider =
  active_id :: ProviderProfileId
  active_provider :: 'p
  active_models :: "ModelDescriptor list"

record 'p manager =
  active :: "'p ActiveProvider option"
  asked :: "SecretRef list"
  closed_sessions :: "'p list"

definition ProviderManager_new :: "'p manager" where
  "ProviderManager_new = \<lparr>active = None, asked = [], closed_sessions = []\<rparr>"

definition AZURE_API_VERSION :: string where "AZURE_API_VERSION = ''2024-10-21''"

abbreviation config_error :: "ErrorKind \<Rightarrow> string \<Rightarrow> TranslationError + 'a" where
  "config_error kind msg \<equiv> Err (TranslationError_new kind msg)"

text \<open>The checks before any secret is asked for: the adapter and the model it needs to be told.\<close>

definition check_profile :: "'p host \<Rightarrow> ProviderProfile \<Rightarrow> TranslationError + (adapter \<times> string option)" where
  "check_profile h profile =
     (if \<not> profile_enabled profile then config_error InvalidConfiguration ''The provider profile is disabled.''
      else case adapter_of (adapter_type profile) of
        None \<Rightarrow> config_error UnsupportedCapability ''The provider adapter is not supported by this Core build.''
      | Some a \<Rightarrow>
          if a = AzureOpenAiChat then
            (case selected_model profile of
               None \<Rightarrow> config_error InvalidConfiguration ''Select an Azure OpenAI deployment before connecting.''
             | Some deployment \<Rightarrow>
                 and_then (validate_azure_endpoint h (base_endpoint profile) deployment AZURE_API_VERSION) (\<lambda>_.
                   Ok (a, Some deployment)))
          else
            and_then (validate_endpoint h a (base_endpoint profile)) (\<lambda>_.
              if a = AnthropicMessages then
                (case selected_model profile of
                   None \<Rightarrow> config_error InvalidConfiguration ''Select a manual Anthropic model before connecting.''
                 | Some model \<Rightarrow> Ok (a, Some model))
              else Ok (a, None)))"

record resolved_secrets =
  credential :: "string option"
  header_secret :: "string option"
  proxy_secret :: "string option"
  identity :: "ClientCertificateIdentity option"

text \<open>One optional secret: the answer, and the log of what was asked.\<close>

definition ask :: "'p host \<Rightarrow> SecretRef option \<Rightarrow> SecretRef list \<Rightarrow>
  (string option \<Rightarrow> SecretRef list \<Rightarrow> (TranslationError + 'b) \<times> SecretRef list) \<Rightarrow>
  (TranslationError + 'b) \<times> SecretRef list" where
  "ask h sref log next = (case sref of
       None \<Rightarrow> next None log
     | Some r \<Rightarrow> (case resolve_secret h r of
           Inl e \<Rightarrow> (Err e, log @ [r])
         | Inr secret \<Rightarrow> next (Some secret) (log @ [r])))"

definition parse_identity :: "string option \<Rightarrow> TranslationError + ClientCertificateIdentity option" where
  "parse_identity secret = (case secret of
       None \<Rightarrow> Ok None
     | Some raw \<Rightarrow> and_then (ClientCertificateIdentity_parse raw) (\<lambda>i. Ok (Some i)))"

definition resolve_secrets :: "'p host \<Rightarrow> ProviderProfile \<Rightarrow> SecretRef list \<Rightarrow>
  (TranslationError + resolved_secrets) \<times> SecretRef list" where
  "resolve_secrets h profile log =
     ask h (secret_ref profile) log (\<lambda>cred log.
     ask h (secret_custom_headers_ref profile) log (\<lambda>headers log.
     ask h (proxy_auth_ref profile) log (\<lambda>proxy log.
     ask h (client_certificate_identity_ref profile) log (\<lambda>ident log.
       (and_then (parse_identity ident) (\<lambda>ident.
          if cancelled_at h SecretsResolved then Err TranslationError_cancelled
          else Ok \<lparr>credential = cred, header_secret = headers, proxy_secret = proxy, identity = ident\<rparr>),
        log)))))"

definition provider_config :: "ProviderProfile \<Rightarrow> adapter \<Rightarrow> string option \<Rightarrow> resolved_secrets \<Rightarrow> ProviderConfig" where
  "provider_config profile a model secrets =
     \<lparr>config_endpoint = base_endpoint profile, config_model = model,
      config_api_version = (if a = AzureOpenAiChat then Some AZURE_API_VERSION else None),
      config_credential = credential secrets,
      config_organization = (if a \<in> {OpenAiResponses, OpenAiChatCompletions} then organization profile else None),
      config_project = (if a \<in> {OpenAiResponses, OpenAiChatCompletions} then project profile else None),
      config_proxy_url = proxy_url profile, config_proxy_authentication = proxy_secret secrets,
      config_request_timeout = request_timeout_secs profile,
      config_connection_timeout = connection_timeout_secs profile,
      config_streaming_idle_timeout = streaming_idle_timeout_secs profile,
      config_trusted_certificates_pem = trusted_certificates_pem profile,
      config_client_certificate_identity = identity secrets,
      config_custom_headers = (if a \<in> {AzureOpenAiChat, OpenAiResponses, OpenAiChatCompletions}
        then custom_headers profile else None),
      config_secret_custom_headers = (if a \<in> {AzureOpenAiChat, OpenAiResponses, OpenAiChatCompletions}
        then header_secret secrets else None)\<rparr>"

definition manual_model_descriptor :: "ProviderProfile \<Rightarrow> ModelDescriptor option" where
  "manual_model_descriptor profile = map_option (\<lambda>model.
     \<lparr>model_id = model, model_display_name = model, model_source = Manual\<rparr>) (selected_model profile)"

definition choose_models :: "ProviderProfile \<Rightarrow> TranslationError + ModelDescriptor list \<Rightarrow>
  TranslationError + ModelDescriptor list" where
  "choose_models profile discovered =
     (let manual = (case manual_model_descriptor profile of
            Some model \<Rightarrow> Ok [model]
          | None \<Rightarrow> config_error ModelUnavailable ''The provider returned no models.'') in
      case discovered of
        Inr models \<Rightarrow> (if models \<noteq> [] then Ok models else manual)
      | Inl e \<Rightarrow> (if error_kind e = ModelUnavailable then manual else Err e))"

definition discover :: "'p host \<Rightarrow> ProviderProfile \<Rightarrow> 'p \<Rightarrow> TranslationError + ModelDescriptor list" where
  "discover h profile provider =
     (if cancelled_at h DuringDiscovery \<or> cancelled_at h AfterDiscovery then Err TranslationError_cancelled
      else choose_models profile (list_models h provider))"

text \<open>Assigning \<open>active\<close> drops the old value, whose \<open>Drop\<close> closes its session.\<close>

definition replace_active :: "'p manager \<Rightarrow> 'p ActiveProvider option \<Rightarrow> 'p manager" where
  "replace_active m new = m\<lparr>active := new,
     closed_sessions := closed_sessions m @ (case active m of None \<Rightarrow> [] | Some a \<Rightarrow> [active_provider a])\<rparr>"

definition connect :: "'p host \<Rightarrow> ProviderProfile \<Rightarrow> 'p manager \<Rightarrow>
  (TranslationError + ModelDescriptor list) \<times> 'p manager" where
  "connect h profile m = (case check_profile h profile of
       Inl e \<Rightarrow> (Err e, m)
     | Inr (a, model) \<Rightarrow>
         (case resolve_secrets h profile (asked m) of
            (Inl e, log) \<Rightarrow> (Err e, m\<lparr>asked := log\<rparr>)
          | (Inr secrets, log) \<Rightarrow>
              (case and_then (new_provider h a (provider_config profile a model secrets)) (\<lambda>provider.
                      and_then (discover h profile provider) (\<lambda>models. Ok (provider, models))) of
                 Inl e \<Rightarrow> (Err e, m\<lparr>asked := log\<rparr>)
               | Inr (provider, models) \<Rightarrow>
                   (Ok models, replace_active (m\<lparr>asked := log\<rparr>) (Some \<lparr>active_id = profile_id profile,
                      active_provider = provider, active_models = models\<rparr>)))))"

definition disconnect :: "'p manager \<Rightarrow> 'p manager" where
  "disconnect m = replace_active m None"

definition active_profile_id :: "'p manager \<Rightarrow> ProviderProfileId option" where
  "active_profile_id m = map_option active_id (active m)"

definition manager_models :: "'p manager \<Rightarrow> ModelDescriptor list" where
  "manager_models m = (case active m of None \<Rightarrow> [] | Some a \<Rightarrow> active_models a)"

section \<open>What a connection asks for and leaves behind\<close>

abbreviation opt_list :: "'a option \<Rightarrow> 'a list" where "opt_list x \<equiv> case x of None \<Rightarrow> [] | Some a \<Rightarrow> [a]"

definition profile_secrets :: "ProviderProfile \<Rightarrow> SecretRef list" where
  "profile_secrets profile = opt_list (secret_ref profile) @ opt_list (secret_custom_headers_ref profile) @
     opt_list (proxy_auth_ref profile) @ opt_list (client_certificate_identity_ref profile)"

lemma resolve_secrets_log:
  assumes "resolve_secrets h profile log = (r, log')"
  shows "\<exists>done_refs. log' = log @ done_refs \<and> prefix done_refs (profile_secrets profile) \<and>
    (\<forall>s. r = Ok s \<longrightarrow> done_refs = profile_secrets profile)"
  using assms unfolding resolve_secrets_def profile_secrets_def ask_def
  by (auto split: option.splits sum.splits)

lemma choose_models_nonempty: "choose_models profile d = Ok models \<Longrightarrow> models \<noteq> []"
  by (auto simp: choose_models_def Let_def split: sum.splits option.splits if_splits)

lemma connect_cases:
  assumes "connect h profile m = (r, m')"
  obtains (rejected) e where "check_profile h profile = Err e" "r = Err e" "m' = m"
  | (failed) e refs where "r = Err e" "m' = m\<lparr>asked := asked m @ refs\<rparr>" "prefix refs (profile_secrets profile)"
  | (connected) a model secrets p models where "check_profile h profile = Ok (a, model)"
      "resolve_secrets h profile (asked m) = (Ok secrets, asked m @ profile_secrets profile)"
      "new_provider h a (provider_config profile a model secrets) = Ok p" "discover h profile p = Ok models" "r = Ok models"
      "m' = replace_active (m\<lparr>asked := asked m @ profile_secrets profile\<rparr>)
         (Some \<lparr>active_id = profile_id profile, active_provider = p, active_models = models\<rparr>)"
proof (cases "check_profile h profile")
  case (Inl e)
  with assms rejected show ?thesis by (auto simp: connect_def)
next
  case (Inr am)
  obtain a model where am: "am = (a, model)" by (cases am)
  obtain sr log where sr: "resolve_secrets h profile (asked m) = (sr, log)" by (cases "resolve_secrets h profile (asked m)")
  from resolve_secrets_log [OF sr] obtain refs where refs: "log = asked m @ refs" "prefix refs (profile_secrets profile)"
    and all: "\<forall>s. sr = Ok s \<longrightarrow> refs = profile_secrets profile" by blast
  show ?thesis
  proof (cases sr)
    case (Inl e)
    with assms Inr am sr have "r = Err e" "m' = m\<lparr>asked := log\<rparr>" by (auto simp: connect_def)
    with failed refs show ?thesis by blast
  next
    case (Inr secrets)
    with all have all': "refs = profile_secrets profile" by blast
    let ?built = "and_then (new_provider h a (provider_config profile a model secrets)) (\<lambda>provider.
      and_then (discover h profile provider) (\<lambda>models. Ok (provider, models)))"
    note step = assms [unfolded connect_def \<open>check_profile h profile = Inr am\<close> am sr Inr, simplified]
    show ?thesis
    proof (cases ?built)
      case (Inl e)
      with step have "r = Err e" "m' = m\<lparr>asked := log\<rparr>" by auto
      with failed refs show ?thesis by blast
    next
      case built: (Inr pm)
      then obtain p models where pm: "new_provider h a (provider_config profile a model secrets) = Ok p"
        "discover h profile p = Ok models" "pm = (p, models)" by (auto simp: and_then_Inr)
      show ?thesis
        by (rule connected [OF \<open>check_profile h profile = Inr am\<close> [unfolded am]
              sr [unfolded Inr refs(1) all'] pm(1,2)])
          (use step built pm(3) refs(1) all' in auto)
    qed
  qed
qed

text \<open>
  C17: Connecting a profile either succeeds or changes nothing the client can use. On an error the
  active session is the one before, still open; on success a cancellation was seen at no point, the
  models are not empty, and the active session is the new provider, built with the secrets that the
  host gave for this profile, while exactly the old session was closed. Secrets are asked for in
  order, only those the profile refers to, and none at all when the profile, its adapter, its endpoint
  or its missing model is rejected.
\<close>

theorem connect_is_all_or_nothing:
  assumes "connect h profile m = (r, m')"
  shows "(case r of
      Inl e \<Rightarrow> active m' = active m \<and> closed_sessions m' = closed_sessions m
    | Inr models \<Rightarrow> models \<noteq> [] \<and> \<not> cancelled_at h SecretsResolved \<and> \<not> cancelled_at h DuringDiscovery \<and>
        \<not> cancelled_at h AfterDiscovery \<and>
        (\<exists>a model secrets p. check_profile h profile = Ok (a, model) \<and>
          resolve_secrets h profile (asked m) = (Ok secrets, asked m') \<and>
          new_provider h a (provider_config profile a model secrets) = Ok p \<and>
          active m' = Some \<lparr>active_id = profile_id profile, active_provider = p, active_models = models\<rparr> \<and>
          closed_sessions m' = closed_sessions m @ opt_list (map_option active_provider (active m)))) \<and>
    (\<exists>refs. asked m' = asked m @ refs \<and> prefix refs (profile_secrets profile) \<and>
       (\<forall>e. check_profile h profile = Err e \<longrightarrow> refs = []))"
  using assms
proof (cases rule: connect_cases)
  case (rejected e)
  then show ?thesis by simp
next
  case (failed e refs)
  show ?thesis
  proof (cases "check_profile h profile")
    case (Inl e')
    with assms have "r = Err e'" "m' = m" by (auto simp: connect_def)
    then show ?thesis by simp
  qed (use failed in auto)
next
  case (connected a model secrets p models)
  have "\<not> cancelled_at h SecretsResolved"
    using connected(2) by (auto simp: resolve_secrets_def ask_def and_then_Inr split: option.splits sum.splits if_splits)
  moreover have "models \<noteq> []" "\<not> cancelled_at h DuringDiscovery" "\<not> cancelled_at h AfterDiscovery"
    using connected(4) choose_models_nonempty by (auto simp: discover_def split: if_splits)
  ultimately show ?thesis using connected by (auto simp: replace_active_def split: option.splits)
qed

definition demo_host :: "nat host" where
  "demo_host = \<lparr>resolve_secret = (\<lambda>_. Ok ''k''), validate_endpoint = (\<lambda>_ _. Ok ()),
     validate_azure_endpoint = (\<lambda>_ _ _. Ok ()), new_provider = (\<lambda>_ _. Ok 7), list_models = (\<lambda>_. Ok []),
     cancelled_at = (\<lambda>_. False)\<rparr>"

definition demo_profile :: ProviderProfile where
  "demo_profile = \<lparr>profile_id = ProviderProfileId ''p'', display_name = ''P'', profile_preset_id = ''c'',
     adapter_type = ''ollama_chat'', base_endpoint = EndpointConfiguration ''http://localhost/'',
     secret_ref = Some (SecretRef ''s''), secret_custom_headers_ref = None, user_notes = None, organization = None,
     project = None, region = None, account_identifier = None, custom_headers = None, proxy_url = None,
     proxy_auth_ref = None, request_timeout_secs = 60, connection_timeout_secs = 10,
     streaming_idle_timeout_secs = 30, trusted_certificates_pem = None, client_certificate_identity_ref = None,
     profile_enabled = True, selected_model = Some ''m'', last_successful_health_check = None,
     last_failure_category = None\<rparr>"

theorem connect_is_all_or_nothing_witness:
  "\<exists>p. active (snd (connect demo_host demo_profile ProviderManager_new)) = Some \<lparr>active_id = ProviderProfileId ''p'',
     active_provider = p, active_models = [\<lparr>model_id = ''m'', model_display_name = ''m'', model_source = Manual\<rparr>]\<rparr>"
proof -
  have "fst (connect demo_host demo_profile ProviderManager_new) =
      Ok [\<lparr>model_id = ''m'', model_display_name = ''m'', model_source = Manual\<rparr>]" by code_simp
  with connect_is_all_or_nothing [of demo_host demo_profile ProviderManager_new
      "fst (connect demo_host demo_profile ProviderManager_new)" "snd (connect demo_host demo_profile ProviderManager_new)"]
  show ?thesis by (auto simp: demo_profile_def)
qed

section \<open>Sessions\<close>

datatype 'p manager_op = Connect "'p host" ProviderProfile | Disconnect

fun manager_step :: "'p manager \<Rightarrow> 'p manager_op \<Rightarrow> 'p manager" where
  "manager_step m (Connect h profile) = snd (connect h profile m)"
| "manager_step m Disconnect = disconnect m"

text \<open>The sessions that a sequence of operations makes active, in order.\<close>

fun opened_sessions :: "'p manager \<Rightarrow> 'p manager_op list \<Rightarrow> 'p list" where
  "opened_sessions m [] = []"
| "opened_sessions m (op # ops) =
     (case op of
        Connect h profile \<Rightarrow> (case connect h profile m of
            (Inr _, m') \<Rightarrow> opt_list (map_option active_provider (active m'))
          | _ \<Rightarrow> [])
      | Disconnect \<Rightarrow> []) @ opened_sessions (manager_step m op) ops"

definition session_history :: "'p manager \<Rightarrow> 'p list" where
  "session_history m = closed_sessions m @ opt_list (map_option active_provider (active m))"

lemma session_history_step:
  "session_history (manager_step m op) = session_history m @ opened_sessions m [op]"
proof (cases op)
  case Disconnect
  then show ?thesis by (auto simp: session_history_def disconnect_def replace_active_def split: option.splits)
next
  case (Connect h profile)
  obtain r m' where c: "connect h profile m = (r, m')" by (cases "connect h profile m")
  from c show ?thesis
    by (cases rule: connect_cases)
      (auto simp: Connect c session_history_def replace_active_def split: option.splits)
qed

text \<open>
  C18: Over any sequence of connections, failed and successful, and disconnections, the sessions
  closed so far followed by the active one are exactly the sessions that were ever made active, in
  that order: every session is closed exactly once, when it is replaced or disconnected, and the
  active one has not been closed.
\<close>

theorem sessions_closed_exactly_once:
  "session_history (foldl manager_step m ops) = session_history m @ opened_sessions m ops"
  by (induction ops arbitrary: m) (simp_all add: session_history_step)

end
