(* ===== verification/Ffi_Handles.thy ===== *)
theory Ffi_Handles
  imports File_Lease Catalog Document_Job Secret_Broker "HOL-Library.AList"
begin

text \<open>
  The C interface (\<open>crates/linguamesh-ffi/src/lib.rs\<close>): the registry of engines with the state of their operations, the
  buffers an engine lends out and its file leases. A pointer to an engine or to bytes is a 64-bit number, 0 when it is null; an output
  pointer is an option with what it points to. A \<open>HashMap\<close> is an association list with distinct keys. Every function is one
  call; the allocator's answers (addresses, capacities, UUIDs) are arguments.
\<close>

section \<open>Result codes\<close>

datatype LmResultCode = LmOk | LmInvalidArgument | LmShutdown | LmPanic | LmProtocolIncompatible
  | LmMalformedMessage | LmBusy | LmUnsupportedMessage | LmInternal | LmResourceExhausted

fun result_code :: "LmResultCode \<Rightarrow> int" where
  "result_code LmOk = 0"
| "result_code LmInvalidArgument = 1"
| "result_code LmShutdown = 2"
| "result_code LmPanic = 3"
| "result_code LmProtocolIncompatible = 4"
| "result_code LmMalformedMessage = 5"
| "result_code LmBusy = 6"
| "result_code LmUnsupportedMessage = 7"
| "result_code LmInternal = 8"
| "result_code LmResourceExhausted = 9"

definition EVENT_QUEUE_CAPACITY :: nat where "EVENT_QUEUE_CAPACITY = 64"
definition MAX_OUTSTANDING_BUFFERS :: nat where "MAX_OUTSTANDING_BUFFERS = 64"
definition MAX_FILE_LEASES :: nat where "MAX_FILE_LEASES = 64"
definition MAX_FILE_LEASE_LOCATION_BYTES :: nat where "MAX_FILE_LEASE_LOCATION_BYTES = 4096"

section \<open>State\<close>

record LmBuffer =
  buf_data :: u64
  buf_len :: nat
  buf_capacity :: nat
  buf_id :: u64

definition empty_buffer :: LmBuffer where
  "empty_buffer = \<lparr>buf_data = 0, buf_len = 0, buf_capacity = 0, buf_id = 0\<rparr>"

record BufferAllocation =
  alloc_data :: u64
  alloc_bytes :: string
  alloc_capacity :: nat

record PendingHostRequest =
  pend_worker :: nat
  pend_operation_id :: string
  pend_correlation_id :: string

text \<open>
  A cancellation token belongs to a worker: the token of the wait for the secret, or the one of its translation. A worker is the
  task \<open>submit\<close> spawned, named by a number; \<open>Submitting\<close> is a call of \<open>submit\<close> between its two looks at the active operation.
\<close>

datatype cancel_token = ResolveToken nat | OperationToken nat

datatype op_phase = Submitting string string | Resolving string string | Resolved string string
  | Running string string bool | Clearing | FailClearing string | FailCleared string | SubmitAnswered LmResultCode | WorkerGone

text \<open>
  The request task of a worker receives the lease of its secret request and then enters it into the pending requests. It has
  its own copy of the two identifiers and does not look at its worker again.
\<close>

datatype request_task = Listening string string | HoldingLease string string

text \<open>The operations of an engine: its shutdown flag (\<open>op_stopped\<close>: a shutdown has returned), the active operation and the pending requests.\<close>

record op_state =
  op_shutdown :: bool
  op_stopped :: bool
  op_active :: "(string \<times> cancel_token) option"
  op_cancelled :: "cancel_token set"
  op_pending :: "(string \<times> PendingHostRequest) list"
  op_workers :: "nat \<Rightarrow> op_phase option"
  op_tasks :: "nat \<Rightarrow> resolve_task option"
  op_requests :: "nat \<Rightarrow> request_task option"

definition initial_ops :: op_state where
  "initial_ops = \<lparr>op_shutdown = False, op_stopped = False, op_active = None, op_cancelled = {}, op_pending = [],
     op_workers = (\<lambda>_. None), op_tasks = (\<lambda>_. None), op_requests = (\<lambda>_. None)\<rparr>"

definition cancel_current :: "op_state \<Rightarrow> op_state" where
  "cancel_current s = (case op_active s of
       None \<Rightarrow> s
     | Some (op, tok) \<Rightarrow> s\<lparr>op_cancelled := insert tok (op_cancelled s)\<rparr>)"

text \<open>\<open>lease_cells\<close> and \<open>next_cell\<close> stand for the atomic bytes of the leases, which Rust allocates.\<close>

record LmEngine =
  engine_ops :: op_state
  engine_events :: "string list"
  file_leases :: "(u64 \<times> FileLease) list"
  lease_cells :: cells
  next_cell :: nat
  buffer_allocations :: "(u64 \<times> BufferAllocation) list"
  buffer_slots :: nat
  next_buffer_allocation_id :: u64
  next_file_lease_id :: u64

abbreviation engine_shutdown :: "LmEngine \<Rightarrow> bool" where "engine_shutdown e \<equiv> op_shutdown (engine_ops e)"

record ffi_world =
  engine_registry :: "(u64 \<times> LmEngine) list"
  next_engine_handle :: u64

definition new_engine :: LmEngine where
  "new_engine = \<lparr>engine_ops = initial_ops, engine_events = [], file_leases = [],
     lease_cells = (\<lambda>_. ACTIVE), next_cell = 0, buffer_allocations = [], buffer_slots = MAX_OUTSTANDING_BUFFERS,
     next_buffer_allocation_id = 1, next_file_lease_id = 1\<rparr>"

section \<open>Identifiers\<close>

text \<open>
  The loop that draws an identifier: \<open>fetch_add\<close> on a 64-bit counter until the result is neither 0 nor in use. The fuel
  is two more than the identifiers in use, which is enough (lemma \<open>draw_id_found\<close>).
\<close>

fun draw_id_loop :: "nat \<Rightarrow> u64 list \<Rightarrow> u64 \<Rightarrow> (u64 \<times> u64) option" where
  "draw_id_loop 0 used n = None"
| "draw_id_loop (Suc fuel) used n =
     (if n = 0 \<or> n \<in> set used then draw_id_loop fuel used (n + 1) else Some (n, n + 1))"

definition draw_id :: "u64 list \<Rightarrow> u64 \<Rightarrow> (u64 \<times> u64) option" where
  "draw_id used n = draw_id_loop (length used + 2) used n"

text \<open>\<open>HashMap::remove\<close>: the value and the map without it.\<close>

definition hash_remove :: "'k \<Rightarrow> ('k \<times> 'v) list \<Rightarrow> ('v \<times> ('k \<times> 'v) list) option" where
  "hash_remove k al = (case map_of al k of None \<Rightarrow> None | Some v \<Rightarrow> Some (v, AList.delete k al))"

lemma hash_remove_Some [simp]: "map_of al k = Some v \<Longrightarrow> hash_remove k al = Some (v, AList.delete k al)"
  by (simp add: hash_remove_def)

section \<open>Engines\<close>

text \<open>The runtime is a thread pool; \<open>runtime_ok\<close> tells whether it could be built.\<close>

definition lm_engine_create :: "bool \<Rightarrow> bool \<Rightarrow> ffi_world \<Rightarrow> LmResultCode \<times> ffi_world \<times> u64" where
  "lm_engine_create output_is_null runtime_ok w =
     (if output_is_null then (LmInvalidArgument, w, 0)
      else if \<not> runtime_ok then (LmInternal, w, 0)
      else let n = next_engine_handle w; handle_id = (if n = 0 then 1 else n) in
        (LmOk, \<lparr>engine_registry = AList.update handle_id new_engine (engine_registry w),
           next_engine_handle = handle_id + 1\<rparr>, handle_id))"

definition engine_ref :: "ffi_world \<Rightarrow> u64 \<Rightarrow> LmEngine option" where
  "engine_ref w h = (if h = 0 then None else map_of (engine_registry w) h)"

definition with_engine :: "ffi_world \<Rightarrow> u64 \<Rightarrow> (LmEngine \<Rightarrow> LmResultCode \<times> LmEngine) \<Rightarrow> LmResultCode \<times> ffi_world" where
  "with_engine w h f = (case engine_ref w h of
       None \<Rightarrow> (LmInvalidArgument, w)
     | Some e \<Rightarrow> (let (code, e') = f e in (code, w\<lparr>engine_registry := AList.update h e' (engine_registry w)\<rparr>)))"

definition lm_engine_get_abi_version :: u32 where "lm_engine_get_abi_version = ABI_VERSION_MAJOR"
definition lm_engine_get_protocol_version :: u32 where "lm_engine_get_protocol_version = PROTOCOL_VERSION"
definition lm_engine_get_version :: u32 where "lm_engine_get_version = lm_engine_get_protocol_version"

definition cancel_active :: "LmEngine \<Rightarrow> LmEngine" where
  "cancel_active e = e\<lparr>engine_ops := cancel_current (engine_ops e)\<rparr>"

definition lm_engine_cancel :: "ffi_world \<Rightarrow> u64 \<Rightarrow> LmResultCode \<times> ffi_world" where
  "lm_engine_cancel w h = with_engine w h (\<lambda>e.
     if engine_shutdown e then (LmShutdown, e) else (LmOk, cancel_active e))"

definition lm_engine_shutdown :: "ffi_world \<Rightarrow> u64 \<Rightarrow> LmResultCode \<times> ffi_world" where
  "lm_engine_shutdown w h = with_engine w h (\<lambda>e.
     (LmOk, e\<lparr>engine_ops := (cancel_current ((engine_ops e)\<lparr>op_shutdown := True\<rparr>))\<lparr>op_stopped := True\<rparr>\<rparr>))"

definition lm_engine_destroy :: "ffi_world \<Rightarrow> u64 \<Rightarrow> LmResultCode \<times> ffi_world" where
  "lm_engine_destroy w h = (case engine_ref w h of
       None \<Rightarrow> (LmInvalidArgument, w)
     | Some e \<Rightarrow> (LmOk, w\<lparr>engine_registry := AList.delete h (engine_registry w)\<rparr>))"

section \<open>Buffers\<close>

definition reserve_buffer_slot :: "LmEngine \<Rightarrow> LmResultCode + LmEngine" where
  "reserve_buffer_slot e = (if buffer_slots e = 0 then Err LmResourceExhausted
     else Ok (e\<lparr>buffer_slots := buffer_slots e - 1\<rparr>))"

text \<open>Without bytes the reserved slot goes back when its permit is dropped. The last case does not happen.\<close>

definition write_output_buffer :: "u64 \<times> nat \<Rightarrow> LmEngine \<Rightarrow> string \<Rightarrow> LmResultCode \<times> LmEngine \<times> LmBuffer" where
  "write_output_buffer place e bytes =
     (if bytes = [] then (LmOk, e\<lparr>buffer_slots := buffer_slots e + 1\<rparr>, empty_buffer)
      else case draw_id (map fst (buffer_allocations e)) (next_buffer_allocation_id e) of
          Some (i, n) \<Rightarrow>
            (LmOk, e\<lparr>buffer_allocations := AList.update i
                 \<lparr>alloc_data = fst place, alloc_bytes = bytes, alloc_capacity = snd place\<rparr> (buffer_allocations e),
               next_buffer_allocation_id := n\<rparr>,
             \<lparr>buf_data = fst place, buf_len = length bytes, buf_capacity = snd place, buf_id = i\<rparr>)
        | None \<Rightarrow> (LmPanic, e, empty_buffer))"

text \<open>What both functions that fill a buffer have in common: an empty descriptor, a live engine and a free slot.\<close>

definition fill_buffer ::
  "ffi_world \<Rightarrow> u64 \<Rightarrow> LmBuffer option \<Rightarrow> u64 \<times> nat \<Rightarrow> (LmEngine \<Rightarrow> LmResultCode + string \<times> LmEngine) \<Rightarrow>
     LmResultCode \<times> ffi_world \<times> LmBuffer option" where
  "fill_buffer w h out place contents = (case out of
       None \<Rightarrow> (LmInvalidArgument, w, out)
     | Some b \<Rightarrow>
         if b \<noteq> empty_buffer then (LmInvalidArgument, w, out)
         else case engine_ref w h of
             None \<Rightarrow> (LmInvalidArgument, w, out)
           | Some e \<Rightarrow>
               if engine_shutdown e then (LmShutdown, w, out)
               else case reserve_buffer_slot e of
                   Inl code \<Rightarrow> (code, w, out)
                 | Inr reserved \<Rightarrow> (case contents reserved of
                       Inl code \<Rightarrow> (code, w, out)
                     | Inr (bytes, e') \<Rightarrow>
                         (let (code, e'', b') = write_output_buffer place e' bytes in
                          (code, w\<lparr>engine_registry := AList.update h e'' (engine_registry w)\<rparr>, Some b'))))"

text \<open>\<open>snapshot\<close>: the encoded compatibility envelope, when the bundled catalog is valid.\<close>

definition lm_engine_get_compatibility ::
  "(CoreCompatibility \<Rightarrow> string) \<Rightarrow> TranslationError + CoreCompatibility \<Rightarrow> ffi_world \<Rightarrow> u64 \<Rightarrow> LmBuffer option \<Rightarrow> u64 \<times> nat \<Rightarrow>
     LmResultCode \<times> ffi_world \<times> LmBuffer option" where
  "lm_engine_get_compatibility encode compatibility w h out place = fill_buffer w h out place (\<lambda>e.
     case compatibility of Inl _ \<Rightarrow> Err LmInternal | Inr c \<Rightarrow> Ok (encode c, e))"

text \<open>\<open>got\<close>: the receiver was free, and an event arrived before the timeout if the queue has one.\<close>

definition next_engine_event :: "bool \<Rightarrow> LmEngine \<Rightarrow> string \<times> LmEngine" where
  "next_engine_event got e = (case engine_events e of
       ev # evs \<Rightarrow> if got then (ev, e\<lparr>engine_events := evs\<rparr>) else ([], e)
     | [] \<Rightarrow> ([], e))"

definition lm_engine_poll_event ::
  "bool \<Rightarrow> ffi_world \<Rightarrow> u64 \<Rightarrow> LmBuffer option \<Rightarrow> u64 \<times> nat \<Rightarrow> LmResultCode \<times> ffi_world \<times> LmBuffer option" where
  "lm_engine_poll_event got w h out place = fill_buffer w h out place (\<lambda>e. Ok (next_engine_event got e))"

definition lm_engine_buffer_free :: "ffi_world \<Rightarrow> u64 \<Rightarrow> LmBuffer option \<Rightarrow> LmResultCode \<times> ffi_world \<times> LmBuffer option" where
  "lm_engine_buffer_free w h buffer = (case buffer of
       None \<Rightarrow> (LmInvalidArgument, w, buffer)
     | Some b \<Rightarrow> (case engine_ref w h of
           None \<Rightarrow> (LmInvalidArgument, w, buffer)
         | Some e \<Rightarrow>
             if buf_data b = 0 then
               ((if buf_len b = 0 \<and> buf_capacity b = 0 \<and> buf_id b = 0 then LmOk else LmInvalidArgument), w, buffer)
             else if buf_len b > buf_capacity b \<or> buf_id b = 0 then (LmInvalidArgument, w, buffer)
             else case map_of (buffer_allocations e) (buf_id b) of
                 None \<Rightarrow> (LmInvalidArgument, w, buffer)
               | Some a \<Rightarrow>
                   if alloc_data a \<noteq> buf_data b \<or> length (alloc_bytes a) \<noteq> buf_len b \<or> alloc_capacity a \<noteq> buf_capacity b
                   then (LmInvalidArgument, w, buffer)
                   else (case hash_remove (buf_id b) (buffer_allocations e) of
                       None \<Rightarrow> (LmPanic, w, buffer)
                     | Some (_, rest) \<Rightarrow> (LmOk, w\<lparr>engine_registry := AList.update h
                         (e\<lparr>buffer_allocations := rest, buffer_slots := buffer_slots e + 1\<rparr>) (engine_registry w)\<rparr>,
                         Some empty_buffer))))"

section \<open>File leases\<close>

text \<open>\<open>lease\<close> is what the constructor gave, with the atomic bytes after it; the slot must hold 0. The last case does not happen.\<close>

definition create_file_lease ::
  "u64 option \<Rightarrow> FileLeaseError + FileLease \<times> cells \<Rightarrow> LmEngine \<Rightarrow> LmResultCode \<times> LmEngine \<times> u64 option" where
  "create_file_lease out lease e = (case out of
       None \<Rightarrow> (LmInvalidArgument, e, out)
     | Some slot \<Rightarrow>
         if slot \<noteq> 0 then (LmInvalidArgument, e, out)
         else if engine_shutdown e then (LmShutdown, e, out)
         else case lease of
             Inl _ \<Rightarrow> (LmInvalidArgument, e, out)
           | Inr (l, cs) \<Rightarrow>
               if length (file_leases e) \<ge> MAX_FILE_LEASES then (LmResourceExhausted, e, out)
               else case draw_id (map fst (file_leases e)) (next_file_lease_id e) of
                   Some (i, n) \<Rightarrow> (LmOk, e\<lparr>file_leases := AList.update i l (file_leases e), lease_cells := cs,
                       next_cell := next_cell e + 1, next_file_lease_id := n\<rparr>, Some i)
                 | None \<Rightarrow> (LmPanic, e, out))"

definition with_new_lease ::
  "ffi_world \<Rightarrow> u64 \<Rightarrow> u64 option \<Rightarrow> (nat \<Rightarrow> cells \<Rightarrow> FileLeaseError + FileLease \<times> cells) \<Rightarrow> LmResultCode \<times> ffi_world \<times> u64 option" where
  "with_new_lease w h out construct = (case engine_ref w h of
       None \<Rightarrow> (LmInvalidArgument, w, out)
     | Some e \<Rightarrow> (let (code, e', out') = create_file_lease out (construct (next_cell e) (lease_cells e)) e in
         (code, w\<lparr>engine_registry := AList.update h e' (engine_registry w)\<rparr>, out')))"

text \<open>\<open>path\<close>: the bytes at the data pointer, none when it is null.\<close>

definition create_path_file_lease ::
  "(nat \<Rightarrow> string \<Rightarrow> cells \<Rightarrow> string \<Rightarrow> FileLeaseError + FileLease \<times> cells) \<Rightarrow> string \<Rightarrow> ffi_world \<Rightarrow> u64 \<Rightarrow> string option \<Rightarrow>
     u64 option \<Rightarrow> LmResultCode \<times> ffi_world \<times> u64 option" where
  "create_path_file_lease constructor uuid w h path out = (case path of
       None \<Rightarrow> (LmInvalidArgument, w, out)
     | Some bytes \<Rightarrow>
         if bytes = [] \<or> length bytes > MAX_FILE_LEASE_LOCATION_BYTES then (LmInvalidArgument, w, out)
         else case from_utf8 bytes of
             None \<Rightarrow> (LmInvalidArgument, w, out)
           | Some v \<Rightarrow> with_new_lease w h out (\<lambda>fresh cs. constructor fresh uuid cs v))"

definition lm_engine_file_lease_create_desktop_path ::
  "string \<Rightarrow> ffi_world \<Rightarrow> u64 \<Rightarrow> string option \<Rightarrow> u64 option \<Rightarrow> LmResultCode \<times> ffi_world \<times> u64 option" where
  "lm_engine_file_lease_create_desktop_path = create_path_file_lease desktop_path"

definition lm_engine_file_lease_create_temporary_path ::
  "string \<Rightarrow> ffi_world \<Rightarrow> u64 \<Rightarrow> string option \<Rightarrow> u64 option \<Rightarrow> LmResultCode \<times> ffi_world \<times> u64 option" where
  "lm_engine_file_lease_create_temporary_path = create_path_file_lease temporary_path"

definition lm_engine_file_lease_create_output_path ::
  "string \<Rightarrow> ffi_world \<Rightarrow> u64 \<Rightarrow> string option \<Rightarrow> u64 option \<Rightarrow> LmResultCode \<times> ffi_world \<times> u64 option" where
  "lm_engine_file_lease_create_output_path = create_path_file_lease output_path"

definition lm_engine_file_lease_create_posix_descriptor ::
  "string \<Rightarrow> ffi_world \<Rightarrow> u64 \<Rightarrow> int \<Rightarrow> u64 option \<Rightarrow> LmResultCode \<times> ffi_world \<times> u64 option" where
  "lm_engine_file_lease_create_posix_descriptor uuid w h fd out =
     with_new_lease w h out (\<lambda>fresh cs. posix_descriptor fresh uuid cs fd)"

definition lm_engine_file_lease_create_android_parcel_descriptor ::
  "string \<Rightarrow> ffi_world \<Rightarrow> u64 \<Rightarrow> int \<Rightarrow> u64 option \<Rightarrow> LmResultCode \<times> ffi_world \<times> u64 option" where
  "lm_engine_file_lease_create_android_parcel_descriptor uuid w h fd out =
     with_new_lease w h out (\<lambda>fresh cs. android_parcel_descriptor fresh uuid cs fd)"

definition lm_engine_file_lease_create_windows_handle ::
  "string \<Rightarrow> ffi_world \<Rightarrow> u64 \<Rightarrow> u64 \<Rightarrow> u64 option \<Rightarrow> LmResultCode \<times> ffi_world \<times> u64 option" where
  "lm_engine_file_lease_create_windows_handle uuid w h handle out =
     with_new_lease w h out (\<lambda>fresh cs. windows_handle fresh uuid cs handle)"

definition lm_engine_file_lease_is_active ::
  "ffi_world \<Rightarrow> u64 \<Rightarrow> u64 \<Rightarrow> u8 option \<Rightarrow> LmResultCode \<times> u8 option" where
  "lm_engine_file_lease_is_active w h i out =
     (if i = 0 \<or> out = None then (LmInvalidArgument, out)
      else case engine_ref w h of
          None \<Rightarrow> (LmInvalidArgument, out)
        | Some e \<Rightarrow> (case map_of (file_leases e) i of
              None \<Rightarrow> (LmInvalidArgument, out)
            | Some l \<Rightarrow> (LmOk, Some (if is_active (lease_cells e) l then 1 else 0))))"

definition update_file_lease_state :: "(cells \<Rightarrow> FileLease \<Rightarrow> cells) \<Rightarrow> ffi_world \<Rightarrow> u64 \<Rightarrow> u64 \<Rightarrow> LmResultCode \<times> ffi_world" where
  "update_file_lease_state upd w h i =
     (if i = 0 then (LmInvalidArgument, w)
      else with_engine w h (\<lambda>e. case map_of (file_leases e) i of
          None \<Rightarrow> (LmInvalidArgument, e)
        | Some l \<Rightarrow> (LmOk, e\<lparr>lease_cells := upd (lease_cells e) l\<rparr>)))"

definition lm_engine_file_lease_expire :: "ffi_world \<Rightarrow> u64 \<Rightarrow> u64 \<Rightarrow> LmResultCode \<times> ffi_world" where
  "lm_engine_file_lease_expire = update_file_lease_state expire"

definition lm_engine_file_lease_revoke :: "ffi_world \<Rightarrow> u64 \<Rightarrow> u64 \<Rightarrow> LmResultCode \<times> ffi_world" where
  "lm_engine_file_lease_revoke = update_file_lease_state revoke"

definition lm_engine_file_lease_destroy :: "ffi_world \<Rightarrow> u64 \<Rightarrow> u64 \<Rightarrow> LmResultCode \<times> ffi_world" where
  "lm_engine_file_lease_destroy w h i =
     (if i = 0 then (LmInvalidArgument, w)
      else with_engine w h (\<lambda>e. case map_of (file_leases e) i of
          None \<Rightarrow> (LmInvalidArgument, e)
        | Some l \<Rightarrow> (LmOk, e\<lparr>file_leases := AList.delete i (file_leases e), lease_cells := revoke (lease_cells e) l\<rparr>)))"

text \<open>\<open>consume_document_bytes\<close> without another thread in between; \<open>parses\<close> is whether \<open>DocumentJob::from_utf8\<close> accepts the document.\<close>

definition consume_document_bytes ::
  "(string \<Rightarrow> string \<Rightarrow> bool) \<Rightarrow> u64 \<Rightarrow> string \<Rightarrow> string \<Rightarrow> LmEngine \<Rightarrow> LmResultCode \<times> LmEngine" where
  "consume_document_bytes parses i source_name document e =
     (if CHR 0x00 \<in> set source_name then (LmInvalidArgument, e)
      else case map_of (file_leases e) i of
          None \<Rightarrow> (LmInvalidArgument, e)
        | Some l \<Rightarrow> (case acquire (lease_cells e) l of
              Inl _ \<Rightarrow> (LmInvalidArgument, e)
            | Inr _ \<Rightarrow>
                if \<not> parses source_name document then (LmMalformedMessage, e)
                else if \<not> is_active (lease_cells e) l then (LmInvalidArgument, e)
                else (LmOk, e\<lparr>lease_cells := revoke (lease_cells e) l, file_leases := AList.delete i (file_leases e)\<rparr>)))"

definition document_parses :: "serde_json \<Rightarrow> package_ops \<Rightarrow> string \<Rightarrow> string \<Rightarrow> bool" where
  "document_parses sj po source_name document =
     (case DocumentJob_from_utf8 sj po source_name document of Inl _ \<Rightarrow> False | Inr _ \<Rightarrow> True)"

definition lm_engine_file_lease_consume_document ::
  "serde_json \<Rightarrow> package_ops \<Rightarrow> ffi_world \<Rightarrow> u64 \<Rightarrow> u64 \<Rightarrow> string option \<Rightarrow> string option \<Rightarrow> LmResultCode \<times> ffi_world" where
  "lm_engine_file_lease_consume_document sj po w h i source_name document = (case (source_name, document) of
       (Some name, Some doc) \<Rightarrow>
         if i = 0 \<or> name = [] \<or> length name > MAX_FILE_LEASE_LOCATION_BYTES \<or> length doc > MAX_DOCUMENT_BYTES
         then (LmInvalidArgument, w)
         else with_engine w h (\<lambda>e.
           if engine_shutdown e then (LmShutdown, e)
           else case from_utf8 name of
               None \<Rightarrow> (LmInvalidArgument, e)
             | Some n \<Rightarrow> consume_document_bytes (document_parses sj po) i n doc e)
     | _ \<Rightarrow> (LmInvalidArgument, w))"

text \<open>\<open>read_file\<close>: what reading a copy of the descriptor gives, at most one byte more than the limit; None when it fails.\<close>

definition lm_engine_file_lease_consume_posix_document ::
  "serde_json \<Rightarrow> package_ops \<Rightarrow> (int \<Rightarrow> string option) \<Rightarrow> ffi_world \<Rightarrow> u64 \<Rightarrow> u64 \<Rightarrow> string option \<Rightarrow> LmResultCode \<times> ffi_world" where
  "lm_engine_file_lease_consume_posix_document sj po read_file w h i source_name = (case source_name of
       None \<Rightarrow> (LmInvalidArgument, w)
     | Some name \<Rightarrow>
         if i = 0 \<or> name = [] \<or> length name > MAX_FILE_LEASE_LOCATION_BYTES then (LmInvalidArgument, w)
         else with_engine w h (\<lambda>e.
           if engine_shutdown e then (LmShutdown, e)
           else case from_utf8 name of
               None \<Rightarrow> (LmInvalidArgument, e)
             | Some n \<Rightarrow> (case map_of (file_leases e) i of
                   None \<Rightarrow> (LmInvalidArgument, e)
                 | Some l \<Rightarrow> (case and_then (acquire (lease_cells e) l) (guard_resource (lease_cells e)) of
                       Inr (PosixDescriptor fd) \<Rightarrow>
                         if fd \<ge> 2 ^ 31 then (LmInvalidArgument, e)
                         else (case read_file fd of
                             None \<Rightarrow> (LmInvalidArgument, e)
                           | Some doc \<Rightarrow>
                               if length doc > MAX_DOCUMENT_BYTES then (LmInvalidArgument, e)
                               else consume_document_bytes (document_parses sj po) i n doc e)
                     | _ \<Rightarrow> (LmInvalidArgument, e)))))"

section \<open>Drawing an identifier always succeeds\<close>

lemma draw_id_loop_Some:
  "draw_id_loop fuel used n = Some (i, m) \<Longrightarrow> i \<noteq> 0 \<and> i \<notin> set used"
  by (induction fuel used n rule: draw_id_loop.induct) (auto split: if_splits)

lemma draw_id_loop_None:
  "draw_id_loop fuel used n = None \<Longrightarrow> k < fuel \<Longrightarrow> n + of_nat k \<in> insert 0 (set used)"
proof (induction fuel used n arbitrary: k rule: draw_id_loop.induct)
  case (2 fuel used n)
  then have n: "n = 0 \<or> n \<in> set used" "draw_id_loop fuel used (n + 1) = None" by (auto split: if_splits)
  show ?case
  proof (cases k)
    case 0
    with n show ?thesis by simp
  next
    case (Suc k')
    with "2.IH" [OF n(1), of k'] n(2) "2.prems"(2) show ?thesis by (simp add: ac_simps)
  qed
qed simp

lemma draw_id_found:
  assumes "length used + 2 < 2 ^ 64"
  shows "\<exists>i m. draw_id used n = Some (i, m) \<and> i \<noteq> 0 \<and> i \<notin> set used"
proof (cases "draw_id used n")
  case None
  let ?f = "\<lambda>k. n + (of_nat k :: u64)"
  have "?f ` {..<length used + 2} \<subseteq> insert 0 (set used)"
    using draw_id_loop_None [OF None [unfolded draw_id_def]] by blast
  moreover have "inj_on ?f {..<length used + 2}"
  proof
    fix j k
    have small: "unat (of_nat i :: u64) = i" if "i < 2 ^ 64" for i
      using that by (simp add: unsigned_of_nat take_bit_nat_eq_self)
    assume "j \<in> {..<length used + 2}" "k \<in> {..<length used + 2}" and same: "?f j = ?f k"
    then have "j < 2 ^ 64" "k < 2 ^ 64" using assms unfolding lessThan_iff by (metis less_trans)+
    with small [of j] small [of k] add_left_imp_eq [OF same] show "j = k" by metis
  qed
  ultimately have "length used + 2 \<le> card (insert 0 (set used))"
    by (metis card_image card_lessThan card_mono finite.insertI finite_set)
  also have "\<dots> \<le> Suc (card (set used))" by (simp add: card_insert_if)
  also have "\<dots> \<le> Suc (length used)" by (simp add: card_length)
  finally show ?thesis by simp
next
  case (Some x)
  obtain i m where x: "draw_id used n = Some (i, m)" using Some by (cases x) simp
  then show ?thesis using draw_id_loop_Some [of "length used + 2" used n i m] by (simp only: draw_id_def) blast
qed

end
