(* ===== verification/Ffi_Operations.thy ===== *)
theory Ffi_Operations
  imports Ffi_Handles Translation
begin

text \<open>
  Operations through the C interface (\<open>crates/linguamesh-ffi/src/lib.rs\<close>): the checks of a command and of a host response, the
  events that go to the host, and the life of an operation from \<open>submit\<close> to its end. An operation takes and releases the locks on
  the active operation and on the pending host requests several times, so its life is a step relation: one step for each critical
  section, in any interleaving with cancellation, shutdown and the host's answers. The protobuf decoder and the
  provider's constructor are arguments.
\<close>

section \<open>Messages\<close>

record TranslateTextCommand =
  cmd_endpoint :: string
  cmd_model_id :: string
  cmd_source_text :: string
  cmd_target_locale :: string
  cmd_secret_ref :: string
  cmd_organization :: string
  cmd_project :: string
  cmd_custom_headers_json :: string

record HostSecretResponse =
  resp_request_id :: string
  resp_resolution :: string
  resp_secret :: string

record prost =
  decode_envelope :: "string \<Rightarrow> Envelope option"
  decode_translate_text :: "string \<Rightarrow> TranslateTextCommand option"
  decode_host_response :: "string \<Rightarrow> HostSecretResponse option"

definition MAX_PROTOCOL_MESSAGE_BYTES :: nat where "MAX_PROTOCOL_MESSAGE_BYTES = 1024 * 1024"
definition MAX_HOST_SECRET_BYTES :: nat where "MAX_HOST_SECRET_BYTES = 64 * 1024"

definition decode_protocol_input :: "prost \<Rightarrow> LmEngine option \<Rightarrow> string option \<Rightarrow> LmResultCode + Envelope" where
  "decode_protocol_input p engine msg = (case engine of
       None \<Rightarrow> Err LmInvalidArgument
     | Some e \<Rightarrow>
         if engine_shutdown e then Err LmShutdown
         else case msg of
             None \<Rightarrow> Err LmInvalidArgument
           | Some bytes \<Rightarrow>
               if bytes = [] \<or> length bytes > MAX_PROTOCOL_MESSAGE_BYTES then Err LmInvalidArgument
               else and_then (ok_or LmMalformedMessage (decode_envelope p bytes)) (\<lambda>envelope.
                 and_then (map_err (\<lambda>_. LmProtocolIncompatible) (validate_version envelope)) (\<lambda>_.
                 if env_operation_id envelope = [] \<or> env_correlation_id envelope = [] \<or> message_type envelope = []
                 then Err LmMalformedMessage else Ok envelope)))"

record command_config =
  cfg_endpoint :: string
  cfg_credential :: "string option"
  cfg_organization :: "string option"
  cfg_project :: "string option"
  cfg_custom_headers :: "string option"

definition optional_non_secret_metadata :: "string \<Rightarrow> string \<Rightarrow> LmResultCode + string option" where
  "optional_non_secret_metadata value field =
     (if is_blank value then Ok None
      else and_then (map_err (\<lambda>_. LmInvalidArgument) (validate_non_secret_profile_field value field)) (\<lambda>v. Ok (Some v)))"

definition openai_config_for_command :: "TranslateTextCommand \<Rightarrow> string option \<Rightarrow> LmResultCode + command_config" where
  "openai_config_for_command command credential =
     and_then (optional_non_secret_metadata (cmd_organization command) ''organization'') (\<lambda>organization.
     and_then (optional_non_secret_metadata (cmd_project command) ''project'') (\<lambda>project.
     Ok \<lparr>cfg_endpoint = cmd_endpoint command, cfg_credential = credential, cfg_organization = organization,
         cfg_project = project,
         cfg_custom_headers = (if is_blank (cmd_custom_headers_json command) then None
           else Some (cmd_custom_headers_json command))\<rparr>))"

text \<open>What \<open>submit\<close> checks before it takes a lock.\<close>

definition check_command ::
  "prost \<Rightarrow> (string \<Rightarrow> bool) \<Rightarrow> bool \<Rightarrow> Envelope \<Rightarrow> LmResultCode + (TranslateTextCommand \<times> command_config \<times> SecretRef option)" where
  "check_command p is_random_uuid shutdown envelope =
     (if shutdown then Err LmShutdown
      else if message_type envelope \<noteq> ''translate_text'' then Err LmUnsupportedMessage
      else if env_sequence envelope \<noteq> 0 then Err LmMalformedMessage
      else and_then (ok_or LmMalformedMessage (decode_translate_text p (payload envelope))) (\<lambda>command.
        if cmd_endpoint command = [] \<or> cmd_model_id command = [] \<or> cmd_source_text command = [] \<or> cmd_target_locale command = []
        then Err LmMalformedMessage
        else and_then (map_err (\<lambda>_. LmInvalidArgument) (openai_config_for_command command None)) (\<lambda>config.
          if cmd_secret_ref command = [] then Ok (command, config, None)
          else and_then (map_err (\<lambda>_. LmMalformedMessage) (SecretRef_parse is_random_uuid (cmd_secret_ref command))) (\<lambda>secret_ref.
            Ok (command, config, Some secret_ref)))))"

section \<open>Events\<close>

fun error_kind_name :: "ErrorKind \<Rightarrow> string" where
  "error_kind_name CancelledKind = ''cancelled''"
| "error_kind_name InvalidEndpointKind = ''invalid_endpoint''"
| "error_kind_name Network = ''network''"
| "error_kind_name Timeout = ''timeout''"
| "error_kind_name Authentication = ''authentication''"
| "error_kind_name RateLimited = ''rate_limited''"
| "error_kind_name ModelUnavailable = ''model_unavailable''"
| "error_kind_name MalformedResponse = ''malformed_response''"
| "error_kind_name Persistence = ''persistence''"
| "error_kind_name ProtocolIncompatible = ''protocol_incompatible''"
| "error_kind_name InvalidConfiguration = ''invalid_configuration''"
| "error_kind_name UnsupportedCapability = ''unsupported_capability''"
| "error_kind_name SecretUnavailable = ''secret_unavailable''"
| "error_kind_name SecureStorageUnavailable = ''secure_storage_unavailable''"
| "error_kind_name Internal = ''internal''"

text \<open>\<open>encode_delta\<close> and \<open>encode_failure\<close> are the protobuf encoders of the two payloads.\<close>

fun event_kind_payload ::
  "(string \<Rightarrow> string) \<Rightarrow> (string \<Rightarrow> string \<Rightarrow> string) \<Rightarrow> TranslationEvent \<Rightarrow> string \<times> string" where
  "event_kind_payload encode_delta encode_failure (Started n) = (''started'', [])"
| "event_kind_payload encode_delta encode_failure (TextDelta n t) = (''text_delta'', encode_delta t)"
| "event_kind_payload encode_delta encode_failure (Completed n u) = (''completed'', [])"
| "event_kind_payload encode_delta encode_failure (Cancelled n) = (''cancelled'', [])"
| "event_kind_payload encode_delta encode_failure (TranslationEvent.Failed n e) =
     (''failed'', encode_failure (error_kind_name (error_kind e)) (message e))"

definition encode_event ::
  "(string \<Rightarrow> string) \<Rightarrow> (string \<Rightarrow> string \<Rightarrow> string) \<Rightarrow> string \<Rightarrow> string \<Rightarrow> TranslationEvent \<Rightarrow> Envelope" where
  "encode_event encode_delta encode_failure op corr event =
     (let (kind, body) = event_kind_payload encode_delta encode_failure event in
      \<lparr>protocol_version = PROTOCOL_VERSION, env_operation_id = op, env_correlation_id = corr,
       env_sequence = sequence event, message_type = kind, payload = body\<rparr>)"

section \<open>Host responses\<close>

definition response_resolution :: "HostSecretResponse \<Rightarrow> SecretResolution option" where
  "response_resolution r =
     (if resp_resolution r = ''provided'' then
        (if resp_secret r \<noteq> [] \<and> length (resp_secret r) \<le> MAX_HOST_SECRET_BYTES then Some (Provided (resp_secret r)) else None)
      else if resp_resolution r = ''unavailable'' then (if resp_secret r = [] then Some Unavailable else None)
      else if resp_resolution r = ''secure_storage_unavailable'' then (if resp_secret r = [] then Some StorageUnavailable else None)
      else None)"

text \<open>
  \<open>send_host_response\<close> looks at the active operation, lets go of its lock, and then answers under the lock of the pending requests.
\<close>

definition answer_pending :: "Envelope \<Rightarrow> string \<Rightarrow> SecretResolution \<Rightarrow> op_state \<Rightarrow> LmResultCode \<times> op_state" where
  "answer_pending envelope rid resolution s = (case map_of (op_pending s) rid of
       None \<Rightarrow> (LmInvalidArgument, s)
     | Some pend \<Rightarrow>
         if pend_operation_id pend \<noteq> env_operation_id envelope \<or> pend_correlation_id pend \<noteq> env_correlation_id envelope
         then (LmInvalidArgument, s)
         else (case hash_remove rid (op_pending s) of
             None \<Rightarrow> (LmPanic, s)
           | Some (removed, rest) \<Rightarrow> (case op_tasks s (pend_worker removed) of
               None \<Rightarrow> (LmInvalidArgument, s\<lparr>op_pending := rest\<rparr>)
             | Some t \<Rightarrow> ((case fst (respond resolution t) of Inl _ \<Rightarrow> LmInvalidArgument | Inr _ \<Rightarrow> LmOk),
                 s\<lparr>op_pending := rest, op_tasks := (op_tasks s)(pend_worker removed \<mapsto> snd (respond resolution t))\<rparr>))))"

definition check_response :: "prost \<Rightarrow> Envelope \<Rightarrow> LmResultCode + (string \<times> SecretResolution)" where
  "check_response p envelope =
     and_then (ok_or LmMalformedMessage (decode_host_response p (payload envelope))) (\<lambda>response.
       if resp_request_id response = [] \<or> length (resp_request_id response) > 128 then Err LmMalformedMessage
       else and_then (ok_or LmMalformedMessage (response_resolution response)) (\<lambda>resolution.
         Ok (resp_request_id response, resolution)))"

definition answers_active :: "Envelope \<Rightarrow> op_state \<Rightarrow> bool" where
  "answers_active envelope s \<longleftrightarrow> (case op_active s of
       None \<Rightarrow> False
     | Some (op, tok) \<Rightarrow> op = env_operation_id envelope \<and> env_correlation_id envelope \<noteq> [])"

definition send_host_response :: "prost \<Rightarrow> Envelope \<Rightarrow> op_state \<Rightarrow> LmResultCode \<times> op_state" where
  "send_host_response p envelope s =
     (if message_type envelope \<noteq> ''host_secret_response'' then (LmUnsupportedMessage, s)
      else if env_sequence envelope \<noteq> 0 then (LmMalformedMessage, s)
      else if \<not> answers_active envelope s then (LmInvalidArgument, s)
      else case check_response p envelope of
          Inl code \<Rightarrow> (code, s)
        | Inr (rid, resolution) \<Rightarrow> answer_pending envelope rid resolution s)"

section \<open>The life of an operation\<close>

definition set_worker :: "op_state \<Rightarrow> nat \<Rightarrow> op_phase \<Rightarrow> op_state" where
  "set_worker s j ph = s\<lparr>op_workers := (op_workers s)(j \<mapsto> ph)\<rparr>"

definition clear_active :: "string \<Rightarrow> op_state \<Rightarrow> op_state" where
  "clear_active op s = (case op_active s of
       Some (current, tok) \<Rightarrow> if current = op then s\<lparr>op_active := None\<rparr> else s
     | None \<Rightarrow> s)"

text \<open>\<open>pending.clear()\<close> drops the leases of all pending requests.\<close>

definition clear_pending :: "op_state \<Rightarrow> op_state" where
  "clear_pending s = s\<lparr>op_pending := [],
     op_tasks := (\<lambda>k. if k \<in> pend_worker ` snd ` set (op_pending s) then map_option drop_lease (op_tasks s k) else op_tasks s k)\<rparr>"

inductive op_step :: "prost \<Rightarrow> op_state \<Rightarrow> op_state \<Rightarrow> bool" for p where
  submit_plain: "op_workers s j = None \<Longrightarrow> \<not> op_shutdown s \<Longrightarrow> op_active s = None \<Longrightarrow>
    op_step p s ((set_worker s j (Running op corr False))\<lparr>op_active := Some (op, OperationToken j)\<rparr>)"
| submit_secret: "op_workers s j = None \<Longrightarrow> \<not> op_shutdown s \<Longrightarrow> op_active s = None \<Longrightarrow>
    op_step p s (set_worker s j (Submitting op corr))"
| secret_busy: "op_workers s j = Some (Submitting op corr) \<Longrightarrow> op_active s \<noteq> None \<Longrightarrow>
    op_step p s (set_worker s j (SubmitAnswered LmBusy))"
| secret_starts: "op_workers s j = Some (Submitting op corr) \<Longrightarrow> op_active s = None \<Longrightarrow>
    op_step p s ((set_worker s j (Resolving op corr))\<lparr>op_active := Some (op, ResolveToken j),
      op_tasks := (op_tasks s)(j \<mapsto> (new_task sref)\<lparr>task_lease := Queued, task_phase := Awaiting\<rparr>),
      op_requests := (op_requests s)(j \<mapsto> Listening op corr)\<rparr>)"
| takes_request: "op_requests s j = Some (Listening op corr) \<Longrightarrow> op_tasks s j = Some t \<Longrightarrow> task_lease t = Queued \<Longrightarrow>
    op_step p s (s\<lparr>op_tasks := (op_tasks s)(j \<mapsto> receive t),
      op_requests := (op_requests s)(j \<mapsto> if lease_is_active t then HoldingLease op corr else Listening op corr)\<rparr>)"
| asks_host: "op_requests s j = Some (HoldingLease op corr) \<Longrightarrow> map_of (op_pending s) rid = None \<Longrightarrow>
    op_step p s (s\<lparr>op_pending := (rid, \<lparr>pend_worker = j, pend_operation_id = op, pend_correlation_id = corr\<rparr>) # op_pending s,
      op_requests := (op_requests s)(j \<mapsto> Listening op corr)\<rparr>)"
| host_answers: "check_response p envelope = Ok (rid, resolution) \<Longrightarrow>
    op_step p s (snd (answer_pending envelope rid resolution s))"
| secret_resolves: "op_workers s j = Some (Resolving op corr) \<Longrightarrow> op_tasks s j = Some t \<Longrightarrow>
    ResolveToken j \<notin> op_cancelled s \<Longrightarrow> response_result (task_response t) = Some (Ok secret) \<Longrightarrow>
    op_step p s ((set_worker s j (Resolved op corr))\<lparr>op_tasks := (op_tasks s)(j \<mapsto> t\<lparr>task_phase := Returned (Ok secret)\<rparr>)\<rparr>)"
| secret_fails: "op_workers s j = Some (Resolving op corr) \<Longrightarrow> op_tasks s j = Some t \<Longrightarrow>
    (ResolveToken j \<in> op_cancelled s \<and> e = TranslationError_cancelled \<or> response_result (task_response t) = Some (Err e)) \<Longrightarrow>
    op_step p s ((set_worker s j (FailClearing op))\<lparr>op_tasks := (op_tasks s)(j \<mapsto> t\<lparr>task_phase := Returned (Err e)\<rparr>)\<rparr>)"
| rejected: "op_workers s j = Some (Resolved op corr) \<Longrightarrow> op_step p s (set_worker s j (FailClearing op))"
| fail_pending: "op_workers s j = Some (FailClearing op) \<Longrightarrow> op_step p s (set_worker (clear_pending s) j (FailCleared op))"
| fail_active: "op_workers s j = Some (FailCleared op) \<Longrightarrow> op_step p s (set_worker (clear_active op s) j WorkerGone)"
| translation_starts: "op_workers s j = Some (Resolved op corr) \<Longrightarrow>
    op_step p s ((set_worker s j (Running op corr True))\<lparr>op_active := (case op_active s of
      Some (current, tok) \<Rightarrow> if current = op then Some (op, OperationToken j) else op_active s | None \<Rightarrow> None)\<rparr>)"
| plain_ends: "op_workers s j = Some (Running op corr False) \<Longrightarrow> op_step p s (set_worker (clear_active op s) j WorkerGone)"
| secret_ends: "op_workers s j = Some (Running op corr True) \<Longrightarrow> op_step p s (set_worker (clear_active op s) j Clearing)"
| clears_pending: "op_workers s j = Some Clearing \<Longrightarrow> op_step p s (set_worker (clear_pending s) j WorkerGone)"
| cancel_call: "\<not> op_shutdown s \<Longrightarrow> op_step p s (cancel_current s)"
| shutdown_flag: "op_step p s (s\<lparr>op_shutdown := True\<rparr>)"
| shutdown_cancel: "op_shutdown s \<Longrightarrow> op_step p s ((cancel_current s)\<lparr>op_stopped := True\<rparr>)"

inductive_cases op_stepE: "op_step p s t"

abbreviation op_run :: "prost \<Rightarrow> op_state \<Rightarrow> op_state \<Rightarrow> bool" where "op_run p \<equiv> (op_step p)\<^sup>*\<^sup>*"

section \<open>The two calls of the host, alone\<close>

text \<open>
  \<open>provider_ok\<close> and \<open>endpoint_ok\<close>: whether \<open>OpenAiCompatibleProvider::new\<close> and \<open>validate_endpoint\<close> accept;
  \<open>j\<close> is the number of the task that is spawned. The second look at the active operation cannot differ from the first here.
\<close>

definition submit_with_host_secret ::
  "(command_config \<Rightarrow> bool) \<Rightarrow> (string \<Rightarrow> bool) \<Rightarrow> nat \<Rightarrow> Envelope \<Rightarrow> TranslateTextCommand \<Rightarrow> SecretRef \<Rightarrow> op_state \<Rightarrow>
     LmResultCode \<times> op_state" where
  "submit_with_host_secret provider_ok endpoint_ok j envelope command sref s =
     (if \<not> endpoint_ok (cmd_endpoint command)
        \<or> (case openai_config_for_command command None of Inl _ \<Rightarrow> True | Inr config \<Rightarrow> \<not> provider_ok config)
      then (LmInvalidArgument, s)
      else if op_active s \<noteq> None then (LmBusy, s)
      else (LmOk, (set_worker s j (Resolving (env_operation_id envelope) (env_correlation_id envelope)))
        \<lparr>op_active := Some (env_operation_id envelope, ResolveToken j),
         op_tasks := (op_tasks s)(j \<mapsto> (new_task sref)\<lparr>task_lease := Queued, task_phase := Awaiting\<rparr>),
         op_requests := (op_requests s)(j \<mapsto> Listening (env_operation_id envelope) (env_correlation_id envelope))\<rparr>))"

definition submit ::
  "prost \<Rightarrow> (string \<Rightarrow> bool) \<Rightarrow> (command_config \<Rightarrow> bool) \<Rightarrow> (string \<Rightarrow> bool) \<Rightarrow> nat \<Rightarrow> Envelope \<Rightarrow> op_state \<Rightarrow> LmResultCode \<times> op_state" where
  "submit p is_random_uuid provider_ok endpoint_ok j envelope s =
     (case check_command p is_random_uuid (op_shutdown s) envelope of
        Inl code \<Rightarrow> (code, s)
      | Inr (command, config, sref) \<Rightarrow>
          if op_shutdown s then (LmShutdown, s)
          else if op_active s \<noteq> None then (LmBusy, s)
          else case sref of
              Some r \<Rightarrow> submit_with_host_secret provider_ok endpoint_ok j envelope command r s
            | None \<Rightarrow>
                if \<not> provider_ok config then (LmInvalidArgument, s)
                else (LmOk, (set_worker s j (Running (env_operation_id envelope) (env_correlation_id envelope) False))
                  \<lparr>op_active := Some (env_operation_id envelope, OperationToken j)\<rparr>))"

definition lm_engine_submit ::
  "prost \<Rightarrow> (string \<Rightarrow> bool) \<Rightarrow> (command_config \<Rightarrow> bool) \<Rightarrow> (string \<Rightarrow> bool) \<Rightarrow> nat \<Rightarrow> ffi_world \<Rightarrow> u64 \<Rightarrow> string option \<Rightarrow>
     LmResultCode \<times> ffi_world" where
  "lm_engine_submit p is_random_uuid provider_ok endpoint_ok j w h msg =
     (case decode_protocol_input p (engine_ref w h) msg of
        Inl code \<Rightarrow> (code, w)
      | Inr envelope \<Rightarrow> with_engine w h (\<lambda>e.
          let (code, s) = submit p is_random_uuid provider_ok endpoint_ok j envelope (engine_ops e) in
          (code, e\<lparr>engine_ops := s\<rparr>)))"

definition lm_engine_send_host_response :: "prost \<Rightarrow> ffi_world \<Rightarrow> u64 \<Rightarrow> string option \<Rightarrow> LmResultCode \<times> ffi_world" where
  "lm_engine_send_host_response p w h msg =
     (case decode_protocol_input p (engine_ref w h) msg of
        Inl code \<Rightarrow> (code, w)
      | Inr envelope \<Rightarrow> with_engine w h (\<lambda>e.
          let (code, s) = send_host_response p envelope (engine_ops e) in (code, e\<lparr>engine_ops := s\<rparr>)))"

text \<open>Each call, when no other thread is in between, is a run of steps; one that is refused changes nothing.\<close>

lemma submit_alone:
  assumes free: "op_workers s j = None" and sub: "submit p is_random_uuid provider_ok endpoint_ok j envelope s = (code, t)"
  shows "op_run p s t" "code \<noteq> LmOk \<Longrightarrow> t = s"
proof -
  let ?op = "env_operation_id envelope" and ?corr = "env_correlation_id envelope"
  consider (same) "t = s" | (plain) "\<not> op_shutdown s" "op_active s = None"
      "t = (set_worker s j (Running ?op ?corr False))\<lparr>op_active := Some (?op, OperationToken j)\<rparr>" "code = LmOk"
    | (secret) r where "\<not> op_shutdown s" "op_active s = None" "code = LmOk"
      "t = (set_worker s j (Resolving ?op ?corr))\<lparr>op_active := Some (?op, ResolveToken j),
         op_tasks := (op_tasks s)(j \<mapsto> (new_task r)\<lparr>task_lease := Queued, task_phase := Awaiting\<rparr>),
         op_requests := (op_requests s)(j \<mapsto> Listening ?op ?corr)\<rparr>"
  proof (cases "check_command p is_random_uuid (op_shutdown s) envelope")
    case (Inl c)
    with sub same show ?thesis by (simp add: submit_def)
  next
    case (Inr checked)
    obtain command config sref where c: "checked = (command, config, sref)" by (cases checked)
    show ?thesis
    proof (cases "op_shutdown s \<or> op_active s \<noteq> None")
      case True
      with sub Inr c have "t = s" by (auto simp: submit_def split: if_split_asm)
      then show ?thesis by (rule same)
    next
      case False
      then have idle: "\<not> op_shutdown s" "op_active s = None" by blast+
      show ?thesis
      proof (cases sref)
        case None
        with sub Inr c idle same plain show ?thesis by (cases "provider_ok config") (simp_all add: submit_def)
      next
        case (Some r)
        with sub Inr c idle have "submit_with_host_secret provider_ok endpoint_ok j envelope command r s = (code, t)"
          by (simp add: submit_def)
        then have "t = s \<or> (code = LmOk \<and> t = (set_worker s j (Resolving ?op ?corr))\<lparr>op_active := Some (?op, ResolveToken j),
            op_tasks := (op_tasks s)(j \<mapsto> (new_task r)\<lparr>task_lease := Queued, task_phase := Awaiting\<rparr>),
            op_requests := (op_requests s)(j \<mapsto> Listening ?op ?corr)\<rparr>)"
          unfolding submit_with_host_secret_def by (simp only: split: if_split_asm) (simp_all only: prod.inject simp_thms)
        with idle same secret show ?thesis by blast
      qed
    qed
  qed
  then have "op_run p s t \<and> (code \<noteq> LmOk \<longrightarrow> t = s)"
  proof cases
    case plain
    with submit_plain [OF free plain(1,2)] show ?thesis by auto
  next
    case secret
    let ?u = "set_worker s j (Submitting ?op ?corr)"
    have "op_step p s ?u" by (rule submit_secret [OF free secret(1,2)])
    moreover have "op_step p ?u t"
      using secret_starts [of ?u j ?op ?corr p r] secret by (simp add: set_worker_def)
    ultimately show ?thesis using secret(3) by (meson rtranclp.simps)
  qed simp
  then show "op_run p s t" "code \<noteq> LmOk \<Longrightarrow> t = s" by blast+
qed

lemma answer_alone:
  assumes "send_host_response p envelope s = (code, t)"
  shows "op_run p s t"
proof (cases "t = s")
  case False
  with assms obtain rid resolution where
    "check_response p envelope = Ok (rid, resolution)" "t = snd (answer_pending envelope rid resolution s)"
    by (auto simp: send_host_response_def split: if_splits sum.splits prod.splits)
  then show ?thesis using host_answers [of p envelope rid resolution s] by (simp add: r_into_rtranclp)
qed simp

section \<open>The invariant\<close>

text \<open>The token of a worker that has begun and not yet cleared the active operation.\<close>

fun live_token :: "nat \<Rightarrow> op_phase \<Rightarrow> (string \<times> cancel_token) option" where
  "live_token j (Resolving op corr) = Some (op, ResolveToken j)"
| "live_token j (Resolved op corr) = Some (op, ResolveToken j)"
| "live_token j (FailClearing op) = Some (op, ResolveToken j)"
| "live_token j (FailCleared op) = Some (op, ResolveToken j)"
| "live_token j (Running op corr secret) = Some (op, OperationToken j)"
| "live_token j _ = None"

definition live :: "op_state \<Rightarrow> nat \<Rightarrow> (string \<times> cancel_token) option" where
  "live s j = (case op_workers s j of None \<Rightarrow> None | Some ph \<Rightarrow> live_token j ph)"

definition ops_ok :: "op_state \<Rightarrow> bool" where
  "ops_ok s \<longleftrightarrow>
     (\<forall>j x. live s j = Some x \<longrightarrow> op_active s = Some x) \<and>
     (\<forall>x. op_active s = Some x \<longrightarrow> (\<exists>j. live s j = Some x)) \<and>
     (op_stopped s \<longrightarrow> op_shutdown s) \<and>
     (\<forall>j op corr. op_stopped s \<longrightarrow> op_workers s j = Some (Running op corr False) \<longrightarrow> OperationToken j \<in> op_cancelled s)"

lemma ops_okI:
  "(\<And>j x. live s j = Some x \<Longrightarrow> op_active s = Some x) \<Longrightarrow> (\<And>x. op_active s = Some x \<Longrightarrow> \<exists>j. live s j = Some x) \<Longrightarrow>
   (op_stopped s \<Longrightarrow> op_shutdown s) \<Longrightarrow>
   (\<And>j op corr. op_stopped s \<Longrightarrow> op_workers s j = Some (Running op corr False) \<Longrightarrow> OperationToken j \<in> op_cancelled s) \<Longrightarrow> ops_ok s"
  by (simp add: ops_ok_def)

lemma ops_okD:
  "ops_ok s \<Longrightarrow> live s j = Some x \<Longrightarrow> op_active s = Some x" "ops_ok s \<Longrightarrow> op_active s = Some x \<Longrightarrow> \<exists>j. live s j = Some x"
  "ops_ok s \<Longrightarrow> op_stopped s \<Longrightarrow> op_shutdown s"
  "ops_ok s \<Longrightarrow> op_stopped s \<Longrightarrow> op_workers s j = Some (Running op corr False) \<Longrightarrow> OperationToken j \<in> op_cancelled s"
  unfolding ops_ok_def by blast+

lemma live_token_names: "live_token j ph = Some (op, tok) \<Longrightarrow> tok = ResolveToken j \<or> tok = OperationToken j"
  by (cases ph) auto

lemma live_unique:
  assumes "ops_ok s" "live s j = Some x" "live s k = Some y"
  shows "j = k"
proof -
  from assms have "x = y" unfolding ops_ok_def by (metis option.inject)
  with assms(2,3) show "j = k"
    by (cases x) (auto simp: live_def split: option.splits dest!: live_token_names)
qed

lemma live_set_worker [simp]: "live (set_worker s j ph) k = (if k = j then live_token j ph else live s k)"
  by (simp add: live_def set_worker_def)

lemma live_updates [simp]:
  "live (s\<lparr>op_active := a\<rparr>) j = live s j" "live (s\<lparr>op_tasks := ts\<rparr>) j = live s j" "live (s\<lparr>op_pending := ps\<rparr>) j = live s j"
  "live (s\<lparr>op_requests := rs\<rparr>) j = live s j" "live (s\<lparr>op_cancelled := c\<rparr>) j = live s j" "live (s\<lparr>op_stopped := b\<rparr>) j = live s j" "live (s\<lparr>op_shutdown := b\<rparr>) j = live s j"
  by (simp_all add: live_def)

lemma worker_fields [simp]:
  "op_active (set_worker s j ph) = op_active s" "op_cancelled (set_worker s j ph) = op_cancelled s"
  "op_stopped (set_worker s j ph) = op_stopped s" "op_shutdown (set_worker s j ph) = op_shutdown s"
  "op_workers (set_worker s j ph) = (op_workers s)(j \<mapsto> ph)"
  "op_pending (set_worker s j ph) = op_pending s" "op_tasks (set_worker s j ph) = op_tasks s"
  "op_requests (set_worker s j ph) = op_requests s"
  by (simp_all add: set_worker_def)

text \<open>What the invariant looks at.\<close>

lemma ops_ok_cong:
  "op_workers t = op_workers s \<Longrightarrow> op_active t = op_active s \<Longrightarrow> op_stopped t = op_stopped s \<Longrightarrow> op_shutdown t = op_shutdown s \<Longrightarrow>
     op_cancelled t = op_cancelled s \<Longrightarrow> ops_ok t = ops_ok s"
  by (simp add: ops_ok_def live_def)

lemma answer_pending_keeps:
  "ops_ok (snd (answer_pending envelope rid resolution s)) = ops_ok s"
  by (rule ops_ok_cong; simp add: answer_pending_def Let_def split: option.splits)+

lemma ops_ok_unseen [simp]: "ops_ok (s\<lparr>op_tasks := ts\<rparr>) = ops_ok s" "ops_ok (s\<lparr>op_pending := ps\<rparr>) = ops_ok s"
  "ops_ok (s\<lparr>op_requests := rs\<rparr>) = ops_ok s"
  by (rule ops_ok_cong; simp)+

lemma clear_pending_keeps: "ops_ok (clear_pending s) = ops_ok s"
  by (rule ops_ok_cong) (simp_all add: clear_pending_def)

text \<open>A worker goes on under the same token.\<close>

lemma ops_ok_phase:
  assumes "ops_ok s" "op_workers s j = Some ph" "live_token j ph' = live_token j ph" "\<And>op corr. ph' \<noteq> Running op corr False"
  shows "ops_ok (set_worker s j ph')"
proof -
  have "live (set_worker s j ph') k = live s k" for k using assms(2,3) by (simp add: live_def)
  with assms(1,4) show ?thesis by (auto simp: ops_ok_def)
qed

lemma ops_ok_idle:
  "ops_ok s \<Longrightarrow> op_workers s j = None \<Longrightarrow> live_token j ph = None \<Longrightarrow> (\<And>op corr. ph \<noteq> Running op corr False) \<Longrightarrow>
     ops_ok (set_worker s j ph)"
proof -
  assume a: "ops_ok s" "op_workers s j = None" "live_token j ph = None" "\<And>op corr. ph \<noteq> Running op corr False"
  then have "live (set_worker s j ph) k = live s k" for k by (simp add: live_def)
  with a show ?thesis by (auto simp: ops_ok_def)
qed

text \<open>A worker becomes the active one while there is none.\<close>

lemma ops_ok_begin:
  assumes "ops_ok s" "op_active s = None" "live_token j ph = Some x" "op_stopped s \<Longrightarrow> \<forall>op corr. ph \<noteq> Running op corr False"
  shows "ops_ok ((set_worker s j ph)\<lparr>op_active := Some x\<rparr>)"
proof -
  have "live s k = None" for k using assms(1,2) unfolding ops_ok_def by (metis option.distinct(1) option.exhaust)
  with assms show ?thesis by (auto simp: ops_ok_def)
qed

text \<open>The active worker steps down.\<close>

lemma ops_ok_end:
  assumes "ops_ok s" "op_workers s j = Some ph" "live_token j ph = Some (op, tok)" "live_token j ph' = None"
  shows "ops_ok (set_worker (clear_active op s) j ph')"
proof -
  have l: "live s j = Some (op, tok)" using assms(2,3) by (simp add: live_def)
  with assms(1) have act: "op_active s = Some (op, tok)" by (simp add: ops_ok_def)
  have others: "live s k = None" if "k \<noteq> j" for k using live_unique [OF assms(1) l, of k] that by (cases "live s k") auto
  let ?t = "set_worker (clear_active op s) j ph'"
  have c: "clear_active op s = s\<lparr>op_active := None\<rparr>" using act by (simp add: clear_active_def)
  have ph': "ph' \<noteq> Running op' corr' False" for op' corr' using assms(4) by (cases ph') auto
  show ?thesis
  proof (rule ops_okI)
    show "op_active ?t = Some x" if "live ?t k = Some x" for k x
      using that others assms(4) c by (cases "k = j") auto
    show "\<exists>k. live ?t k = Some x" if "op_active ?t = Some x" for x using that c by simp
    show "op_shutdown ?t" if "op_stopped ?t" using that c ops_okD(3) [OF assms(1)] by simp
    show "OperationToken k \<in> op_cancelled ?t" if "op_stopped ?t" "op_workers ?t k = Some (Running op' corr' False)" for k op' corr'
      using that c ph' ops_okD(4) [OF assms(1), of k op' corr'] by (cases "k = j") auto
  qed
qed

lemma cancel_fields [simp]:
  "op_active (cancel_current s) = op_active s" "op_workers (cancel_current s) = op_workers s"
  "op_stopped (cancel_current s) = op_stopped s" "op_shutdown (cancel_current s) = op_shutdown s" "live (cancel_current s) j = live s j"
  by (auto simp: cancel_current_def live_def split: option.splits)

lemma cancel_current_ok: "ops_ok s \<Longrightarrow> ops_ok (cancel_current s)"
  by (auto simp: ops_ok_def cancel_current_def split: option.splits)

lemma ops_ok_step: "op_step p s t \<Longrightarrow> ops_ok s \<Longrightarrow> ops_ok t"
proof (induction rule: op_step.induct)
  case (host_answers envelope rid resolution s)
  then show ?case by (simp add: answer_pending_keeps)
next
  case (translation_starts s j op corr)
  let ?t = "(set_worker s j (Running op corr True))\<lparr>op_active := Some (op, OperationToken j)\<rparr>"
  have l: "live s j = Some (op, ResolveToken j)" using translation_starts(1) by (simp add: live_def)
  then have act: "op_active s = Some (op, ResolveToken j)" using translation_starts(2) by (simp add: ops_ok_def)
  have others: "live s k = None" if "k \<noteq> j" for k
    using live_unique [OF translation_starts(2) l, of k] that by (cases "live s k") auto
  have "op_workers s k \<noteq> Some (Running op' corr' False)" if "k \<noteq> j" for k op' corr'
    using others [OF that] by (auto simp: live_def)
  with translation_starts(2) others have "ops_ok ?t"
    unfolding ops_ok_def by (intro conjI allI impI) (simp_all split: if_splits)
  with act show ?case by simp
next
  case (shutdown_cancel s)
  have "OperationToken j \<in> op_cancelled (cancel_current s)" if "op_workers s j = Some (Running op corr False)" for j op corr
  proof -
    have "live s j = Some (op, OperationToken j)" using that by (simp add: live_def)
    with shutdown_cancel(2) show ?thesis by (simp add: ops_ok_def cancel_current_def)
  qed
  then show ?case
    using shutdown_cancel(1) ops_okD(1,2) [OF shutdown_cancel(2)] by (intro ops_okI) simp_all
next
  case (shutdown_flag s)
  then show ?case by (auto simp: ops_ok_def)
next
  case (secret_busy s j op corr)
  then show ?case by (intro ops_ok_phase) auto
next
  case (fail_pending s j op)
  then show ?case using ops_ok_phase [of "clear_pending s" j "FailClearing op" "FailCleared op"]
    by (simp add: clear_pending_keeps) (simp add: clear_pending_def)
next
  case (clears_pending s j)
  then show ?case using ops_ok_phase [of "clear_pending s" j Clearing WorkerGone]
    by (simp add: clear_pending_keeps) (simp add: clear_pending_def)
next
  case (secret_starts s j op corr sref)
  then have "ops_ok ((set_worker s j (Resolving op corr))\<lparr>op_active := Some (op, ResolveToken j)\<rparr>)"
    by (intro ops_ok_begin) simp_all
  then show ?case by simp
next
  case (takes_request s j op corr t)
  then show ?case by simp
next
  case (asks_host s j op corr rid)
  then show ?case by simp
next
  case (secret_resolves s j op corr t secret)
  then show ?case using ops_ok_phase [of s j "Resolving op corr" "Resolved op corr"] by simp
next
  case (secret_fails s j op corr t e)
  then show ?case using ops_ok_phase [of s j "Resolving op corr" "FailClearing op"] by simp
next
  case (submit_plain s j op corr)
  then show ?case by (intro ops_ok_begin) (auto simp: ops_ok_def)
next
  case (rejected s j op corr)
  then show ?case by (intro ops_ok_phase) auto
next
  case (fail_active s j op)
  then show ?case by (intro ops_ok_end) auto
next
  case (plain_ends s j op corr)
  then show ?case by (intro ops_ok_end) auto
next
  case (secret_ends s j op corr)
  then show ?case by (intro ops_ok_end) auto
qed (auto intro: ops_ok_idle cancel_current_ok)

lemma ops_ok_run: "op_run p s t \<Longrightarrow> ops_ok s \<Longrightarrow> ops_ok t"
  by (induction rule: rtranclp_induct) (auto dest: ops_ok_step)

lemma initial_ops_ok: "ops_ok initial_ops"
  by (simp add: ops_ok_def initial_ops_def live_def)

section \<open>Properties\<close>

text \<open>
  C21: In every interleaving of submissions, host answers, cancellations and shutdowns an engine runs at most one operation, the one it
  records as active with the token that cancels it; and once a shutdown has returned, every operation
  without a host secret is cancelled.
\<close>

theorem one_operation_at_a_time:
  assumes "op_run p initial_ops s"
  shows "(\<forall>j k x y. live s j = Some x \<and> live s k = Some y \<longrightarrow> j = k \<and> op_active s = Some x) \<and>
    (op_active s = None \<longleftrightarrow> (\<forall>j. live s j = None)) \<and>
    (\<forall>j op corr. op_stopped s \<and> op_workers s j = Some (Running op corr False) \<longrightarrow> OperationToken j \<in> op_cancelled s)"
proof -
  have ok: "ops_ok s" by (rule ops_ok_run [OF assms initial_ops_ok])
  have "op_active s = None \<longleftrightarrow> (\<forall>j. live s j = None)"
    using ops_okD(1,2) [OF ok] by (metis not_None_eq)
  moreover have "j = k \<and> op_active s = Some x" if "live s j = Some x" "live s k = Some y" for j k x y
    using live_unique [OF ok that] ops_okD(1) [OF ok that(1)] by simp
  moreover have "OperationToken j \<in> op_cancelled s" if "op_stopped s" "op_workers s j = Some (Running op corr False)" for j op corr
    by (rule ops_okD(4) [OF ok that])
  ultimately show ?thesis by blast
qed

definition demo_prost :: prost where
  "demo_prost = \<lparr>decode_envelope = (\<lambda>_. None), decode_translate_text = (\<lambda>_. None),
     decode_host_response = (\<lambda>_. Some \<lparr>resp_request_id = ''r'', resp_resolution = ''provided'', resp_secret = ''s''\<rparr>)\<rparr>"

definition demo_response :: Envelope where
  "demo_response = \<lparr>protocol_version = 1, env_operation_id = ''o'', env_correlation_id = ''c'', env_sequence = 0,
     message_type = ''host_secret_response'', payload = []\<rparr>"

theorem one_operation_at_a_time_witness:
  "\<exists>s. op_run demo_prost initial_ops s \<and> op_active s = Some (''o'', OperationToken 0) \<and> \<not> (\<forall>j. live s j = None)"
proof -
  have "op_step demo_prost initial_ops ((set_worker initial_ops 0 (Running ''o'' ''c'' False))\<lparr>op_active := Some (''o'', OperationToken 0)\<rparr>)"
    by (rule submit_plain) (simp_all add: initial_ops_def)
  then have "op_run demo_prost initial_ops ((set_worker initial_ops 0 (Running ''o'' ''c'' False))\<lparr>op_active := Some (''o'', OperationToken 0)\<rparr>)"
    (is "op_run _ _ ?s") by (rule r_into_rtranclp)
  then have run: "op_run demo_prost initial_ops ?s" .
  have "op_active ?s = Some (''o'', OperationToken 0)" by simp
  with one_operation_at_a_time [OF run] run show ?thesis by (metis option.distinct(1))
qed

lemma check_response_error: "check_response p envelope = Inl code \<Longrightarrow> code = LmMalformedMessage"
  by (simp add: check_response_def and_then_def ok_or_def split: option.splits if_splits)

text \<open>
  C22: A host response that is accepted answers the request it names and nothing else: the request was pending for the active
  operation under the same correlation identifier, its waiter gets exactly the resolution, and the same response is refused afterwards.
\<close>

theorem host_response_answers_its_request:
  assumes "send_host_response p envelope s = (LmOk, s')"
  shows "\<exists>tok rid resolution pend t.
    op_active s = Some (env_operation_id envelope, tok) \<and> check_response p envelope = Ok (rid, resolution) \<and>
    map_of (op_pending s) rid = Some pend \<and>
    pend_operation_id pend = env_operation_id envelope \<and> pend_correlation_id pend = env_correlation_id envelope \<and>
    op_tasks s (pend_worker pend) = Some t \<and> \<not> returned (task_phase t) \<and>
    s' = s\<lparr>op_pending := AList.delete rid (op_pending s),
      op_tasks := (op_tasks s)(pend_worker pend \<mapsto> t\<lparr>task_response := Sent resolution, task_lease := LeaseGone\<rparr>)\<rparr> \<and>
    send_host_response p envelope s' = (LmInvalidArgument, s')"
proof -
  from assms obtain rid resolution where
    g: "message_type envelope = ''host_secret_response''" "env_sequence envelope = 0" "answers_active envelope s"
      "check_response p envelope = Ok (rid, resolution)" and ans: "answer_pending envelope rid resolution s = (LmOk, s')"
    by (cases "check_response p envelope") (auto simp: send_host_response_def dest: check_response_error split: if_splits prod.splits)
  from g(3) obtain tok where act: "op_active s = Some (env_operation_id envelope, tok)"
    by (auto simp: answers_active_def split: option.splits)
  from ans obtain pend t where
    pend: "map_of (op_pending s) rid = Some pend" "pend_operation_id pend = env_operation_id envelope"
      "pend_correlation_id pend = env_correlation_id envelope" "op_tasks s (pend_worker pend) = Some t" and
    r: "fst (respond resolution t) = Ok ()" and
    s': "s' = s\<lparr>op_pending := AList.delete rid (op_pending s),
      op_tasks := (op_tasks s)(pend_worker pend \<mapsto> snd (respond resolution t))\<rparr>"
    by (auto simp: answer_pending_def Let_def split: option.splits if_splits sum.splits)
  from r have t: "\<not> returned (task_phase t)"
    "snd (respond resolution t) = t\<lparr>task_response := Sent resolution, task_lease := LeaseGone\<rparr>"
    by (simp_all add: respond_def split: if_splits)
  have "answers_active envelope s'" "map_of (op_pending s') rid = None"
    using g(3) s' by (simp_all add: answers_active_def delete_conv')
  with g have "send_host_response p envelope s' = (LmInvalidArgument, s')"
    by (simp add: send_host_response_def answer_pending_def)
  with act g(4) pend t s' show ?thesis by auto
qed

definition demo_waiting :: op_state where
  "demo_waiting = initial_ops\<lparr>op_active := Some (''o'', ResolveToken 0),
     op_pending := [(''r'', \<lparr>pend_worker = 0, pend_operation_id = ''o'', pend_correlation_id = ''c''\<rparr>)],
     op_workers := (\<lambda>_. None)(0 \<mapsto> Resolving ''o'' ''c''),
     op_tasks := (\<lambda>_. None)(0 \<mapsto> (new_task (SecretRef ''x''))\<lparr>task_lease := WithHost, task_phase := Awaiting\<rparr>)\<rparr>"

definition demo_answered :: op_state where
  "demo_answered = demo_waiting\<lparr>op_pending := [],
     op_tasks := (\<lambda>_. None)(0 \<mapsto> (new_task (SecretRef ''x''))\<lparr>task_lease := LeaseGone, task_phase := Awaiting,
       task_response := Sent (Provided ''s'')\<rparr>)\<rparr>"

lemma demo_response_checks: "check_response demo_prost demo_response = Ok (''r'', Provided ''s'')"
  by (simp add: check_response_def demo_prost_def demo_response_def response_resolution_def MAX_HOST_SECRET_BYTES_def)

lemma demo_waiting_answered: "send_host_response demo_prost demo_response demo_waiting = (LmOk, demo_answered)"
  by (simp add: send_host_response_def demo_response_checks answers_active_def answer_pending_def)
    (simp add: demo_response_def demo_waiting_def demo_answered_def respond_def new_task_def)

theorem host_response_answers_its_request_witness:
  "\<exists>s'. send_host_response demo_prost demo_response demo_waiting = (LmOk, s') \<and>
     send_host_response demo_prost demo_response s' = (LmInvalidArgument, s')"
  using host_response_answers_its_request [OF demo_waiting_answered] demo_waiting_answered by blast

section \<open>Windows between the critical sections\<close>

lemmas op_then = rtranclp.rtrancl_into_rtrancl [where r = "op_step p" for p]

text \<open>A run of worker \<open>j\<close> on a quiet engine, up to the moment it waits for the secret.\<close>

definition quiet :: "op_state \<Rightarrow> bool" where
  "quiet s \<longleftrightarrow> op_active s = None \<and> op_pending s = [] \<and> \<not> op_shutdown s \<and> \<not> op_stopped s \<and> op_cancelled s = {}"

definition awaiting_task :: "lease_place \<Rightarrow> resolve_task" where
  "awaiting_task l = (new_task (SecretRef ''x''))\<lparr>task_lease := l, task_phase := Awaiting\<rparr>"

definition waits_for_secret :: "nat \<Rightarrow> string \<Rightarrow> op_state \<Rightarrow> op_state \<Rightarrow> bool" where
  "waits_for_secret j op s t \<longleftrightarrow> op_active t = Some (op, ResolveToken j) \<and>
     op_pending t = [(''r'', \<lparr>pend_worker = j, pend_operation_id = op, pend_correlation_id = ''c''\<rparr>)] \<and>
     \<not> op_shutdown t \<and> \<not> op_stopped t \<and> op_cancelled t = {} \<and>
     op_workers t = (op_workers s)(j \<mapsto> Resolving op ''c'') \<and> op_tasks t = (op_tasks s)(j \<mapsto> awaiting_task WithHost)"

lemma run_to_wait:
  assumes "quiet s" "op_workers s j = None"
  shows "\<exists>t. op_run p s t \<and> waits_for_secret j op s t"
proof -
  let ?a = "set_worker s j (Submitting op ''c'')"
  let ?b = "(set_worker ?a j (Resolving op ''c''))\<lparr>op_active := Some (op, ResolveToken j),
    op_tasks := (op_tasks ?a)(j \<mapsto> awaiting_task Queued), op_requests := (op_requests ?a)(j \<mapsto> Listening op ''c'')\<rparr>"
  let ?h = "?b\<lparr>op_tasks := (op_tasks ?b)(j \<mapsto> receive (awaiting_task Queued)),
    op_requests := (op_requests ?b)(j \<mapsto> if lease_is_active (awaiting_task Queued) then HoldingLease op ''c'' else Listening op ''c'')\<rparr>"
  let ?c = "?h\<lparr>op_pending := (''r'', \<lparr>pend_worker = j, pend_operation_id = op, pend_correlation_id = ''c''\<rparr>) # op_pending ?h,
    op_requests := (op_requests ?h)(j \<mapsto> Listening op ''c'')\<rparr>"
  have active: "lease_is_active (awaiting_task Queued)" by (simp add: lease_is_active_def awaiting_task_def)
  then have received: "receive (awaiting_task Queued) = awaiting_task WithHost" by (simp add: receive_def awaiting_task_def)
  have "op_step p s ?a" using assms by (intro submit_secret) (simp_all add: quiet_def)
  moreover have "op_step p ?a ?b"
    unfolding awaiting_task_def using assms by (intro secret_starts) (simp_all add: quiet_def)
  moreover have "op_step p ?b ?h"
    by (intro takes_request) (simp_all add: awaiting_task_def)
  moreover have "op_step p ?h ?c"
    using assms active by (intro asks_host) (simp_all add: quiet_def)
  ultimately have "op_run p s ?c" by (meson rtranclp.rtrancl_refl op_then)
  moreover have "waits_for_secret j op s ?c" using assms by (simp add: waits_for_secret_def quiet_def received)
  ultimately show ?thesis by blast
qed

lemma quiet_initial: "quiet initial_ops" by (simp add: quiet_def initial_ops_def)

text \<open>The host answers and the worker has the secret.\<close>

lemma run_to_secret:
  assumes "waits_for_secret j ''o'' s t"
  shows "\<exists>u. op_run demo_prost t u \<and> op_active u = Some (''o'', ResolveToken j) \<and> op_pending u = [] \<and> \<not> op_shutdown u \<and>
    \<not> op_stopped u \<and> op_cancelled u = {} \<and> op_workers u = (op_workers s)(j \<mapsto> Resolved ''o'' ''c'') \<and>
    (\<forall>k. k \<noteq> j \<longrightarrow> op_tasks u k = op_tasks s k)"
proof -
  let ?a = "snd (answer_pending demo_response ''r'' (Provided ''s'') t)"
  have a: "?a = t\<lparr>op_pending := [], op_tasks := (op_tasks t)(j \<mapsto>
      (awaiting_task WithHost)\<lparr>task_response := Sent (Provided ''s''), task_lease := LeaseGone\<rparr>)\<rparr>"
    using assms by (simp add: waits_for_secret_def answer_pending_def demo_response_def respond_def awaiting_task_def)
  let ?b = "(set_worker ?a j (Resolved ''o'' ''c''))\<lparr>op_tasks := (op_tasks ?a)(j \<mapsto>
      (awaiting_task WithHost)\<lparr>task_response := Sent (Provided ''s''), task_lease := LeaseGone, task_phase := Returned (Ok ''s'')\<rparr>)\<rparr>"
  have "op_step demo_prost t ?a" by (rule host_answers [OF demo_response_checks])
  moreover have "op_step demo_prost ?a ?b"
    using secret_resolves [of ?a j "''o''" "''c''" _ "''s''" demo_prost] assms
    by (simp add: a waits_for_secret_def)
  ultimately have "op_run demo_prost t ?b" by (meson rtranclp.rtrancl_refl op_then)
  moreover have "op_active ?b = Some (''o'', ResolveToken j) \<and> op_pending ?b = [] \<and> \<not> op_shutdown ?b \<and>
    \<not> op_stopped ?b \<and> op_cancelled ?b = {} \<and> op_workers ?b = (op_workers s)(j \<mapsto> Resolved ''o'' ''c'') \<and>
    (\<forall>k. k \<noteq> j \<longrightarrow> op_tasks ?b k = op_tasks s k)"
    using assms by (simp add: a waits_for_secret_def)
  ultimately show ?thesis by blast
qed

lemma cancellation_can_be_lost:
  "\<exists>s. op_run demo_prost initial_ops s \<and> op_cancelled s = {ResolveToken 0} \<and>
     op_active s = Some (''o'', OperationToken 0) \<and> op_workers s 0 = Some (Running ''o'' ''c'' True)"
proof -
  from run_to_wait [OF quiet_initial, of 0 demo_prost "''o''"] obtain t where
    t: "op_run demo_prost initial_ops t" "waits_for_secret 0 ''o'' initial_ops t" by (auto simp: initial_ops_def)
  from run_to_secret [OF t(2)] obtain u where
    u: "op_run demo_prost t u" "op_active u = Some (''o'', ResolveToken 0)" "\<not> op_shutdown u" "op_cancelled u = {}"
      "op_workers u = (op_workers initial_ops)(0 \<mapsto> Resolved ''o'' ''c'')" by blast
  let ?a = "cancel_current u"
  let ?b = "(set_worker ?a 0 (Running ''o'' ''c'' True))\<lparr>op_active := (case op_active ?a of
      Some (current, tok) \<Rightarrow> if current = ''o'' then Some (''o'', OperationToken 0) else op_active ?a | None \<Rightarrow> None)\<rparr>"
  have "op_step demo_prost u ?a" using u(3) by (rule cancel_call)
  moreover have "op_step demo_prost ?a ?b" using u(5) by (intro translation_starts) simp
  ultimately have "op_run demo_prost initial_ops ?b" using t(1) u(1) by (meson rtranclp_trans op_then)
  moreover have "op_cancelled ?b = {ResolveToken 0}" using u(2,4) by (simp add: cancel_current_def)
  moreover have "op_active ?b = Some (''o'', OperationToken 0) \<and> op_workers ?b 0 = Some (Running ''o'' ''c'' True)"
    using u(2) by simp
  ultimately show ?thesis by blast
qed

lemma submission_can_outlive_shutdown:
  "\<exists>s. op_run demo_prost initial_ops s \<and> op_stopped s \<and> op_cancelled s = {} \<and>
     op_active s = Some (''o'', ResolveToken 0) \<and> op_workers s 0 = Some (Resolving ''o'' ''c'')"
proof -
  let ?a = "set_worker initial_ops 0 (Submitting ''o'' ''c'')"
  let ?b = "?a\<lparr>op_shutdown := True\<rparr>"
  let ?c = "(cancel_current ?b)\<lparr>op_stopped := True\<rparr>"
  let ?d = "(set_worker ?c 0 (Resolving ''o'' ''c''))\<lparr>op_active := Some (''o'', ResolveToken 0),
    op_tasks := (op_tasks ?c)(0 \<mapsto> awaiting_task Queued), op_requests := (op_requests ?c)(0 \<mapsto> Listening ''o'' ''c'')\<rparr>"
  have "op_step demo_prost initial_ops ?a" by (intro submit_secret) (simp_all add: initial_ops_def)
  moreover have "op_step demo_prost ?a ?b" by (rule shutdown_flag)
  moreover have "op_step demo_prost ?b ?c" by (rule shutdown_cancel) simp
  moreover have "op_step demo_prost ?c ?d"
    unfolding awaiting_task_def by (intro secret_starts) (simp_all add: initial_ops_def)
  ultimately have "op_run demo_prost initial_ops ?d" by (meson rtranclp.rtrancl_refl op_then)
  moreover have "op_stopped ?d \<and> op_cancelled ?d = {} \<and> op_active ?d = Some (''o'', ResolveToken 0) \<and>
      op_workers ?d 0 = Some (Resolving ''o'' ''c'')"
    by (simp add: cancel_current_def initial_ops_def)
  ultimately show ?thesis by blast
qed

lemma request_can_be_dropped:
  "\<exists>s t. op_run demo_prost initial_ops s \<and> \<not> op_shutdown s \<and> op_cancelled s = {} \<and>
     op_active s = Some (''n'', ResolveToken 1) \<and> op_workers s 1 = Some (Resolving ''n'' ''c'') \<and>
     op_tasks s 1 = Some t \<and> task_response t = SenderDropped"
proof -
  from run_to_wait [OF quiet_initial, of 0 demo_prost "''o''"] obtain t where
    t: "op_run demo_prost initial_ops t" "waits_for_secret 0 ''o'' initial_ops t" by (auto simp: initial_ops_def)
  from run_to_secret [OF t(2)] obtain u where
    u: "op_run demo_prost t u" "op_active u = Some (''o'', ResolveToken 0)" "op_pending u = []" "\<not> op_shutdown u" "\<not> op_stopped u"
      "op_cancelled u = {}" "op_workers u = (op_workers initial_ops)(0 \<mapsto> Resolved ''o'' ''c'')" by blast
  let ?a = "(set_worker u 0 (Running ''o'' ''c'' True))\<lparr>op_active := (case op_active u of
      Some (current, tok) \<Rightarrow> if current = ''o'' then Some (''o'', OperationToken 0) else op_active u | None \<Rightarrow> None)\<rparr>"
  let ?b = "set_worker (clear_active ''o'' ?a) 0 Clearing"
  have "op_step demo_prost u ?a" using u(7) by (intro translation_starts) simp
  moreover have "op_step demo_prost ?a ?b" by (rule secret_ends) simp
  ultimately have b: "op_run demo_prost initial_ops ?b" using t(1) u(1) by (meson rtranclp_trans op_then)
  have quiet: "quiet ?b" "op_workers ?b 1 = None" "op_workers ?b 0 = Some Clearing"
    using u by (simp_all add: quiet_def clear_active_def initial_ops_def)
  from run_to_wait [OF quiet(1,2), of demo_prost "''n''"] obtain v where
    v: "op_run demo_prost ?b v" "waits_for_secret 1 ''n'' ?b v" by blast
  let ?c = "set_worker (clear_pending v) 0 WorkerGone"
  have v0: "op_workers v 0 = Some Clearing" using v(2) quiet(3) by (simp add: waits_for_secret_def)
  then have "op_step demo_prost v ?c" by (rule clears_pending)
  with b v(1) have "op_run demo_prost initial_ops ?c" by (meson rtranclp_trans op_then)
  moreover have "\<not> op_shutdown ?c \<and> op_cancelled ?c = {} \<and> op_active ?c = Some (''n'', ResolveToken 1) \<and>
      op_workers ?c 1 = Some (Resolving ''n'' ''c'') \<and> op_tasks ?c 1 = Some (drop_lease (awaiting_task WithHost)) \<and>
      task_response (drop_lease (awaiting_task WithHost)) = SenderDropped"
    using v(2) by (simp add: waits_for_secret_def clear_pending_def drop_lease_def awaiting_task_def new_task_def)
  ultimately show ?thesis by blast
qed

text \<open>
  C32: What is not promised. A cancellation that comes between the host's answer and the start of the translation is
  lost: only the token of the finished wait is cancelled, and the translation runs under another. A submission that looked at the
  shutdown flag before \<open>shutdown\<close> was called starts after it has returned. And an operation that has ended clears the pending
  requests after the next one could begin, so the next one's request is dropped and it fails although nobody cancelled it.
\<close>

theorem host_secret_races:
  "(\<exists>s. op_run demo_prost initial_ops s \<and> op_cancelled s = {ResolveToken 0} \<and>
     op_active s = Some (''o'', OperationToken 0) \<and> op_workers s 0 = Some (Running ''o'' ''c'' True)) \<and>
   (\<exists>s. op_run demo_prost initial_ops s \<and> op_stopped s \<and> op_cancelled s = {} \<and>
     op_active s = Some (''o'', ResolveToken 0) \<and> op_workers s 0 = Some (Resolving ''o'' ''c'')) \<and>
   (\<exists>s t. op_run demo_prost initial_ops s \<and> \<not> op_shutdown s \<and> op_cancelled s = {} \<and>
     op_active s = Some (''n'', ResolveToken 1) \<and> op_workers s 1 = Some (Resolving ''n'' ''c'') \<and>
     op_tasks s 1 = Some t \<and> task_response t = SenderDropped)"
  by (intro conjI cancellation_can_be_lost submission_can_outlive_shutdown request_can_be_dropped)

end
