(* ===== verification/Ffi_Safety.thy ===== *)
theory Ffi_Safety
  imports Ffi_Operations
begin

text \<open>
  What the C interface keeps whatever calls the host makes, in whatever order and with whatever arguments, forged
  and stale ones included: \<open>ffi_call\<close> is one call with its arguments, \<open>ffi_run\<close> a sequence of them. \<open>Emit\<close> and \<open>Work\<close> are not
  calls of the host: an event that a worker of an engine sends, and one critical section of a worker. \<open>LmPanic\<close> stands for the
  panics this crate could raise itself: the two \<open>expect\<close> (a removed buffer, a removed host request) and a loop that draws an
  identifier and does not end. The code behind the arguments (protobuf, the provider's constructor, the document
  parsers) is total here.
\<close>

section \<open>Calls\<close>

datatype ffi_call =
    Create bool bool
  | Cancel u64
  | Shutdown u64
  | Destroy u64
  | Compatibility string "TranslationError + CoreCompatibility" u64 "LmBuffer option" "u64 \<times> nat"
  | Poll bool u64 "LmBuffer option" "u64 \<times> nat"
  | BufferFree u64 "LmBuffer option"
  | LeaseDesktop string u64 "string option" "u64 option"
  | LeaseTemporary string u64 "string option" "u64 option"
  | LeaseOutput string u64 "string option" "u64 option"
  | LeasePosix string u64 int "u64 option"
  | LeaseAndroid string u64 int "u64 option"
  | LeaseWindows string u64 u64 "u64 option"
  | LeaseIsActive u64 u64 "u8 option"
  | LeaseExpire u64 u64
  | LeaseRevoke u64 u64
  | LeaseDestroy u64 u64
  | ConsumeDocument serde_json package_ops u64 u64 "string option" "string option"
  | ConsumePosix serde_json package_ops "int \<Rightarrow> string option" u64 u64 "string option"
  | Submit prost "string \<Rightarrow> bool" "command_config \<Rightarrow> bool" "string \<Rightarrow> bool" nat u64 "string option"
  | SendHostResponse prost u64 "string option"
  | Emit u64 string
  | Work prost u64 op_state

text \<open>A worker's \<open>sender.send\<close> waits while the queue is full.\<close>

definition emit_event :: "ffi_world \<Rightarrow> u64 \<Rightarrow> string \<Rightarrow> LmResultCode \<times> ffi_world" where
  "emit_event w h ev = with_engine w h (\<lambda>e.
     (LmOk, if length (engine_events e) < EVENT_QUEUE_CAPACITY then e\<lparr>engine_events := engine_events e @ [ev]\<rparr> else e))"

definition work :: "prost \<Rightarrow> ffi_world \<Rightarrow> u64 \<Rightarrow> op_state \<Rightarrow> LmResultCode \<times> ffi_world" where
  "work p w h s = with_engine w h (\<lambda>e. (LmOk, if op_step p (engine_ops e) s then e\<lparr>engine_ops := s\<rparr> else e))"

definition without_output :: "LmResultCode \<times> ffi_world \<times> 'a \<Rightarrow> LmResultCode \<times> ffi_world" where
  "without_output = (\<lambda>(code, w, out). (code, w))"

fun call :: "ffi_world \<Rightarrow> ffi_call \<Rightarrow> LmResultCode \<times> ffi_world" where
  "call w (Create null ok) = without_output (lm_engine_create null ok w)"
| "call w (Cancel h) = lm_engine_cancel w h"
| "call w (Shutdown h) = lm_engine_shutdown w h"
| "call w (Destroy h) = lm_engine_destroy w h"
| "call w (Compatibility bytes c h out place) = without_output (lm_engine_get_compatibility (\<lambda>_. bytes) c w h out place)"
| "call w (Poll got h out place) = without_output (lm_engine_poll_event got w h out place)"
| "call w (BufferFree h b) = without_output (lm_engine_buffer_free w h b)"
| "call w (LeaseDesktop uuid h path out) = without_output (lm_engine_file_lease_create_desktop_path uuid w h path out)"
| "call w (LeaseTemporary uuid h path out) = without_output (lm_engine_file_lease_create_temporary_path uuid w h path out)"
| "call w (LeaseOutput uuid h path out) = without_output (lm_engine_file_lease_create_output_path uuid w h path out)"
| "call w (LeasePosix uuid h fd out) = without_output (lm_engine_file_lease_create_posix_descriptor uuid w h fd out)"
| "call w (LeaseAndroid uuid h fd out) = without_output (lm_engine_file_lease_create_android_parcel_descriptor uuid w h fd out)"
| "call w (LeaseWindows uuid h v out) = without_output (lm_engine_file_lease_create_windows_handle uuid w h v out)"
| "call w (LeaseIsActive h i out) = (fst (lm_engine_file_lease_is_active w h i out), w)"
| "call w (LeaseExpire h i) = lm_engine_file_lease_expire w h i"
| "call w (LeaseRevoke h i) = lm_engine_file_lease_revoke w h i"
| "call w (LeaseDestroy h i) = lm_engine_file_lease_destroy w h i"
| "call w (ConsumeDocument sj po h i name doc) = lm_engine_file_lease_consume_document sj po w h i name doc"
| "call w (ConsumePosix sj po rd h i name) = lm_engine_file_lease_consume_posix_document sj po rd w h i name"
| "call w (Submit p is_random_uuid provider_ok endpoint_ok j h msg) =
     lm_engine_submit p is_random_uuid provider_ok endpoint_ok j w h msg"
| "call w (SendHostResponse p h msg) = lm_engine_send_host_response p w h msg"
| "call w (Emit h ev) = emit_event w h ev"
| "call w (Work p h s) = work p w h s"

definition ffi_run :: "ffi_world \<Rightarrow> ffi_call list \<Rightarrow> ffi_world" where
  "ffi_run = foldl (\<lambda>w c. snd (call w c))"

definition initial_world :: ffi_world where
  "initial_world = \<lparr>engine_registry = [], next_engine_handle = 1\<rparr>"

section \<open>The invariant\<close>

definition engine_ok :: "LmEngine \<Rightarrow> bool" where
  "engine_ok e \<longleftrightarrow>
     distinct (map fst (file_leases e)) \<and> 0 \<notin> fst ` set (file_leases e) \<and> length (file_leases e) \<le> MAX_FILE_LEASES \<and>
     distinct (map (lease_cell \<circ> snd) (file_leases e)) \<and> (\<forall>(i, l) \<in> set (file_leases e). lease_cell l < next_cell e) \<and>
     distinct (map fst (buffer_allocations e)) \<and> 0 \<notin> fst ` set (buffer_allocations e) \<and>
     length (buffer_allocations e) + buffer_slots e = MAX_OUTSTANDING_BUFFERS \<and>
     length (engine_events e) \<le> EVENT_QUEUE_CAPACITY"

definition world_ok :: "ffi_world \<Rightarrow> bool" where
  "world_ok w \<longleftrightarrow> distinct (map fst (engine_registry w)) \<and> (\<forall>(h, e) \<in> set (engine_registry w). h \<noteq> 0 \<and> engine_ok e)"

lemma new_engine_ok: "engine_ok new_engine"
  by (simp add: engine_ok_def new_engine_def)

lemma initial_world_ok: "world_ok initial_world"
  by (simp add: world_ok_def initial_world_def)

text \<open>Association lists with distinct keys.\<close>

lemma set_alist_update: "set (AList.update k v al) \<subseteq> insert (k, v) (set al)"
  by (induction al) auto

lemma alist_update_fresh: "k \<notin> fst ` set al \<Longrightarrow> AList.update k v al = al @ [(k, v)]"
  by (induction al) auto

lemma set_alist_delete: "set (AList.delete k al) \<subseteq> set al"
  by (auto simp: AList.delete_eq)

lemma distinct_map_delete: "distinct (map f al) \<Longrightarrow> distinct (map f (AList.delete k al))"
  by (simp add: AList.delete_eq distinct_map_filter)

lemma length_alist_delete: "distinct (map fst al) \<Longrightarrow> map_of al k = Some v \<Longrightarrow> Suc (length (AList.delete k al)) = length al"
  by (induction al) (auto split: if_splits)

lemma world_ok_update:
  "world_ok w \<Longrightarrow> h \<noteq> 0 \<Longrightarrow> engine_ok e \<Longrightarrow> world_ok (w\<lparr>engine_registry := AList.update h e (engine_registry w)\<rparr>)"
  using set_alist_update [of h e "engine_registry w"] by (auto simp: world_ok_def distinct_update)

lemma world_ok_engine: "world_ok w \<Longrightarrow> engine_ref w h = Some e \<Longrightarrow> h \<noteq> 0 \<and> engine_ok e"
  by (auto simp: world_ok_def engine_ref_def split: if_splits dest!: map_of_SomeD)

text \<open>A call keeps the invariant and does not panic.\<close>

definition good :: "LmResultCode \<times> ffi_world \<Rightarrow> bool" where
  "good r \<longleftrightarrow> fst r \<noteq> LmPanic \<and> world_ok (snd r)"

lemma with_engine_good:
  "world_ok w \<Longrightarrow> (\<And>e. engine_ok e \<Longrightarrow> fst (f e) \<noteq> LmPanic \<and> engine_ok (snd (f e))) \<Longrightarrow> good (with_engine w h f)"
  using world_ok_engine [of w h] world_ok_update [of w h]
  by (auto simp: with_engine_def good_def case_prod_unfold Let_def split: option.splits)

lemma engine_ok_simps [simp]:
  "engine_ok (e\<lparr>engine_ops := s\<rparr>) = engine_ok e"
  "engine_ok (e\<lparr>lease_cells := cs\<rparr>) = engine_ok e" "engine_ok (cancel_active e) = engine_ok e"
  by (simp_all add: engine_ok_def cancel_active_def)

lemma limits_small: "MAX_FILE_LEASES + 2 < 2 ^ 64" "MAX_OUTSTANDING_BUFFERS + 2 < 2 ^ 64"
  by (simp_all add: MAX_FILE_LEASES_def MAX_OUTSTANDING_BUFFERS_def)

lemma write_output_buffer_ok:
  assumes e: "engine_ok e" and r: "reserve_buffer_slot e = Ok r" and evs: "length evs \<le> length (engine_events e)"
    and wr: "write_output_buffer place (r\<lparr>engine_events := evs\<rparr>) bytes = (code, e', b)"
  shows "engine_ok e'" "code = LmOk"
proof -
  let ?used = "map fst (buffer_allocations e)"
  have len: "length (buffer_allocations e) + buffer_slots e = MAX_OUTSTANDING_BUFFERS" using e by (simp add: engine_ok_def)
  then have "length ?used + 2 \<le> MAX_OUTSTANDING_BUFFERS + 2" by simp
  then have "length ?used + 2 < 2 ^ 64" using limits_small(2) by (rule le_less_trans)
  from draw_id_found [OF this, of "next_buffer_allocation_id e"] obtain i m where
    i: "draw_id ?used (next_buffer_allocation_id e) = Some (i, m)" "i \<noteq> 0" "i \<notin> fst ` set (buffer_allocations e)" by auto
  from r have r: "r = e\<lparr>buffer_slots := buffer_slots e - 1\<rparr>" "buffer_slots e \<noteq> 0"
    by (auto simp: reserve_buffer_slot_def split: if_splits)
  from wr e r i evs len show "engine_ok e'" "code = LmOk"
    by (auto simp: write_output_buffer_def engine_ok_def alist_update_fresh split: if_splits)
qed

lemma fill_buffer_good:
  assumes "world_ok w"
    and quiet: "\<And>e bytes e'. contents e = Ok (bytes, e') \<Longrightarrow> \<exists>evs. e' = e\<lparr>engine_events := evs\<rparr> \<and> length evs \<le> length (engine_events e)"
    and codes: "\<And>e code. contents e = Err code \<Longrightarrow> code \<noteq> LmPanic"
  shows "good (without_output (fill_buffer w h out place contents))"
proof -
  have "good (without_output (code, w, out))" if "code \<noteq> LmPanic" for code
    using that assms(1) by (simp add: good_def without_output_def)
  moreover have "good (without_output (let (code, e'', b') = write_output_buffer place e' bytes in
      (code, w\<lparr>engine_registry := AList.update h e'' (engine_registry w)\<rparr>, Some b')))"
    if e: "engine_ref w h = Some e" and r: "reserve_buffer_slot e = Ok r" and c: "contents r = Ok (bytes, e')" for e r e' bytes
  proof -
    obtain code e'' b' where wr: "write_output_buffer place e' bytes = (code, e'', b')" by (cases "write_output_buffer place e' bytes")
    from quiet [OF c] r obtain evs where "e' = r\<lparr>engine_events := evs\<rparr>" "length evs \<le> length (engine_events e)"
      by (auto simp: reserve_buffer_slot_def split: if_splits)
    with write_output_buffer_ok [of e r evs place bytes] world_ok_engine [OF assms(1) e] r wr have "engine_ok e''" "code = LmOk" by auto
    with world_ok_update [OF assms(1)] world_ok_engine [OF assms(1) e] show ?thesis
      by (simp add: wr good_def without_output_def)
  qed
  ultimately show ?thesis
    unfolding fill_buffer_def
    by (auto simp: reserve_buffer_slot_def codes split: option.splits sum.splits if_splits)
qed

lemma create_file_lease_ok:
  assumes e: "engine_ok e" and l: "\<And>l cs. lease = Ok (l, cs) \<Longrightarrow> lease_cell l = next_cell e"
  shows "fst (create_file_lease out lease e) \<noteq> LmPanic \<and> engine_ok (fst (snd (create_file_lease out lease e)))"
proof (cases "\<exists>l cs. out = Some 0 \<and> \<not> engine_shutdown e \<and> lease = Ok (l, cs) \<and> length (file_leases e) < MAX_FILE_LEASES")
  case False
  then show ?thesis using e by (auto simp: create_file_lease_def split: option.splits sum.splits prod.splits)
next
  case True
  then obtain l' cs where c: "out = Some 0" "\<not> engine_shutdown e" "lease = Ok (l', cs)" "length (file_leases e) < MAX_FILE_LEASES" by blast
  let ?used = "map fst (file_leases e)"
  have "length ?used + 2 \<le> MAX_FILE_LEASES + 2" using c(4) by simp
  then have "length ?used + 2 < 2 ^ 64" using limits_small(1) by (rule le_less_trans)
  from draw_id_found [OF this, of "next_file_lease_id e"] obtain i m where
    i: "draw_id ?used (next_file_lease_id e) = Some (i, m)" "i \<noteq> 0" "i \<notin> fst ` set (file_leases e)" by auto
  have "next_cell e \<notin> (lease_cell \<circ> snd) ` set (file_leases e)" using e by (auto simp: engine_ok_def)
  with c i e l [OF c(3)] show ?thesis
    by (auto simp: create_file_lease_def engine_ok_def alist_update_fresh less_Suc_eq)
qed

lemma with_new_lease_good:
  assumes "world_ok w" "\<And>fresh cs l cs'. construct fresh cs = Ok (l, cs') \<Longrightarrow> lease_cell l = fresh"
  shows "good (without_output (with_new_lease w h out construct))"
proof (cases "engine_ref w h")
  case None
  with assms(1) show ?thesis by (simp add: with_new_lease_def good_def without_output_def)
next
  case (Some e)
  note e = world_ok_engine [OF assms(1) Some]
  obtain code e' out' where c: "create_file_lease out (construct (next_cell e) (lease_cells e)) e = (code, e', out')"
    by (cases "create_file_lease out (construct (next_cell e) (lease_cells e)) e")
  from create_file_lease_ok [of e "construct (next_cell e) (lease_cells e)" out] e assms(2) c
  have "code \<noteq> LmPanic" "engine_ok e'" by auto
  with world_ok_update [OF assms(1)] e show ?thesis by (simp add: with_new_lease_def Some c good_def without_output_def)
qed

lemma create_path_good:
  assumes "world_ok w" "\<And>fresh uuid cs v l cs'. constructor fresh uuid cs v = Ok (l, cs') \<Longrightarrow> lease_cell l = fresh"
  shows "good (without_output (create_path_file_lease constructor uuid w h path out))"
proof -
  have "good (without_output (with_new_lease w h out (\<lambda>fresh cs. constructor fresh uuid cs v)))" for v
    by (rule with_new_lease_good [OF assms(1)]) (rule assms(2))
  moreover have "good (without_output (LmInvalidArgument, w, out))"
    using assms(1) by (simp add: good_def without_output_def)
  ultimately show ?thesis by (auto simp: create_path_file_lease_def split: option.splits)
qed

text \<open>Every constructor puts the lease in the cell it is given.\<close>

lemmas lease_constructors = desktop_path_def temporary_path_def output_path_def posix_descriptor_def
  android_parcel_descriptor_def windows_handle_def FileLease_location_def FileLease_descriptor_def FileLease_new_def

lemma constructor_cell:
  "desktop_path fresh uuid cs v = Ok (l, cs') \<Longrightarrow> lease_cell l = fresh"
  "temporary_path fresh uuid cs v = Ok (l, cs') \<Longrightarrow> lease_cell l = fresh"
  "output_path fresh uuid cs v = Ok (l, cs') \<Longrightarrow> lease_cell l = fresh"
  "posix_descriptor fresh uuid cs fd = Ok (l, cs') \<Longrightarrow> lease_cell l = fresh"
  "android_parcel_descriptor fresh uuid cs fd = Ok (l, cs') \<Longrightarrow> lease_cell l = fresh"
  "windows_handle fresh uuid cs x = Ok (l, cs') \<Longrightarrow> lease_cell l = fresh"
  by (auto simp: lease_constructors split: if_splits)

lemma engine_ok_delete_lease: "engine_ok e \<Longrightarrow> engine_ok (e\<lparr>file_leases := AList.delete i (file_leases e)\<rparr>)"
  using length_delete_le [of i "file_leases e"]
  by (auto simp: engine_ok_def distinct_map_delete dest!: subsetD [OF set_alist_delete])

lemma consume_ok:
  "engine_ok e \<Longrightarrow> fst (consume_document_bytes parses i name doc e) \<noteq> LmPanic \<and>
     engine_ok (snd (consume_document_bytes parses i name doc e))"
  using engine_ok_delete_lease [of "e\<lparr>lease_cells := _\<rparr>" i]
  by (auto simp: consume_document_bytes_def split: option.splits sum.splits if_splits)

lemma create_good: "world_ok w \<Longrightarrow> good (without_output (lm_engine_create null ok w))"
  using world_ok_update [of w "if next_engine_handle w = 0 then 1 else next_engine_handle w" new_engine]
  by (auto simp: lm_engine_create_def good_def without_output_def Let_def new_engine_ok world_ok_def)

lemma destroy_good: "world_ok w \<Longrightarrow> good (lm_engine_destroy w h)"
  using set_alist_delete [of h "engine_registry w"]
  by (auto simp: lm_engine_destroy_def good_def world_ok_def distinct_map_delete split: option.splits)

lemma buffer_free_good:
  assumes "world_ok w"
  shows "good (without_output (lm_engine_buffer_free w h b))"
proof -
  have "engine_ok (e\<lparr>buffer_allocations := AList.delete i (buffer_allocations e), buffer_slots := buffer_slots e + 1\<rparr>)"
    if "engine_ok e" "map_of (buffer_allocations e) i = Some a" for e i a
    using that set_alist_delete [of i "buffer_allocations e"] length_alist_delete [of "buffer_allocations e" i a]
    by (auto simp: engine_ok_def distinct_map_delete)
  with assms world_ok_update [OF assms] world_ok_engine [OF assms, of h] show ?thesis
    by (auto simp: lm_engine_buffer_free_def good_def without_output_def split: option.splits)
qed

lemma next_engine_event_quiet:
  assumes "next_engine_event got e = (bytes, e')"
  shows "\<exists>evs. e' = e\<lparr>engine_events := evs\<rparr> \<and> length evs \<le> length (engine_events e)"
proof (cases "engine_events e")
  case Nil
  with assms show ?thesis by (intro exI [of _ "engine_events e"]) (simp add: next_engine_event_def)
next
  case (Cons ev evs)
  with assms show ?thesis
    by (intro exI [of _ "if got then evs else engine_events e"]) (auto simp: next_engine_event_def split: if_splits)
qed

lemma poll_good: "world_ok w \<Longrightarrow> good (without_output (lm_engine_poll_event got w h out place))"
  unfolding lm_engine_poll_event_def by (rule fill_buffer_good) (auto dest: next_engine_event_quiet)

lemma same_events: "\<exists>evs. e = e\<lparr>engine_events := evs\<rparr> \<and> length evs \<le> length (engine_events e)"
  by (intro exI [of _ "engine_events e"]) simp

lemma compatibility_good: "world_ok w \<Longrightarrow> good (without_output (lm_engine_get_compatibility enc c w h out place))"
  unfolding lm_engine_get_compatibility_def
  by (rule fill_buffer_good) (auto intro: same_events split: sum.splits)

lemma emit_good: "world_ok w \<Longrightarrow> good (emit_event w h ev)"
  unfolding emit_event_def by (rule with_engine_good) (auto simp: engine_ok_def)

lemma work_good: "world_ok w \<Longrightarrow> good (work p w h s)"
  unfolding work_def by (rule with_engine_good) simp_all

text \<open>The checks of a message answer with codes of their own, and the \<open>expect\<close> of a host response finds its entry.\<close>

lemma decode_no_panic: "decode_protocol_input p e msg = Inl code \<Longrightarrow> code \<noteq> LmPanic"
  by (auto simp: decode_protocol_input_def and_then_def ok_or_def map_err_def split: option.splits if_splits sum.splits)

lemma check_command_no_panic: "check_command p ru sd envelope = Inl code \<Longrightarrow> code \<noteq> LmPanic"
  by (auto simp: check_command_def and_then_def ok_or_def map_err_def split: option.splits if_splits sum.splits)

lemma submit_no_panic: "fst (submit p ru pok eok j envelope s) \<noteq> LmPanic"
  by (auto simp: submit_def submit_with_host_secret_def dest: check_command_no_panic split: sum.splits option.splits)

lemma answer_no_panic: "fst (answer_pending envelope rid resolution s) \<noteq> LmPanic"
  by (auto simp: answer_pending_def split: option.splits sum.splits)

lemma send_host_response_no_panic: "fst (send_host_response p envelope s) \<noteq> LmPanic"
  using answer_no_panic by (auto simp: send_host_response_def dest: check_response_error split: sum.splits)

lemma submit_good: "world_ok w \<Longrightarrow> good (lm_engine_submit p ru pok eok j w h msg)"
  using submit_no_panic [of p ru pok eok j]
  by (auto simp: lm_engine_submit_def good_def Let_def case_prod_unfold dest: decode_no_panic
    intro!: with_engine_good [unfolded good_def] split: sum.splits)

lemma send_good: "world_ok w \<Longrightarrow> good (lm_engine_send_host_response p w h msg)"
  using send_host_response_no_panic [of p]
  by (auto simp: lm_engine_send_host_response_def good_def Let_def case_prod_unfold dest: decode_no_panic
    intro!: with_engine_good [unfolded good_def] split: sum.splits)

lemma lease_state_good: "world_ok w \<Longrightarrow> good (update_file_lease_state upd w h i)"
  unfolding update_file_lease_state_def
  by (auto simp: good_def intro!: with_engine_good [unfolded good_def] split: option.splits)

lemma lease_destroy_good: "world_ok w \<Longrightarrow> good (lm_engine_file_lease_destroy w h i)"
  unfolding lm_engine_file_lease_destroy_def
  by (cases "i = 0") (auto simp: good_def intro!: with_engine_good [unfolded good_def] engine_ok_delete_lease split: option.splits)

lemma consume_document_good: "world_ok w \<Longrightarrow> good (lm_engine_file_lease_consume_document sj po w h i name doc)"
  unfolding lm_engine_file_lease_consume_document_def
  by (auto simp: good_def consume_ok intro!: with_engine_good [unfolded good_def] split: option.splits if_splits)

lemma consume_posix_good: "world_ok w \<Longrightarrow> good (lm_engine_file_lease_consume_posix_document sj po rd w h i name)"
  unfolding lm_engine_file_lease_consume_posix_document_def
  by (auto simp: good_def consume_ok intro!: with_engine_good [unfolded good_def]
    split: option.splits sum.splits FileLeaseResource.splits if_splits)

lemma call_good: "world_ok w \<Longrightarrow> good (call w c)"
  by (cases c)
    (auto simp: submit_good send_good work_good create_good destroy_good buffer_free_good poll_good compatibility_good emit_good lease_state_good
      lease_destroy_good consume_document_good consume_posix_good lm_engine_cancel_def lm_engine_shutdown_def
      lm_engine_file_lease_expire_def lm_engine_file_lease_revoke_def lm_engine_file_lease_create_desktop_path_def
      lm_engine_file_lease_create_temporary_path_def lm_engine_file_lease_create_output_path_def
      lm_engine_file_lease_create_posix_descriptor_def lm_engine_file_lease_create_android_parcel_descriptor_def
      lm_engine_file_lease_create_windows_handle_def good_def [of "(_, w)"]
      lm_engine_file_lease_is_active_def
      intro!: with_engine_good with_new_lease_good create_path_good dest: constructor_cell split: option.splits if_splits)

lemma ffi_run_Cons [simp]: "ffi_run w [] = w" "ffi_run w (c # cs) = ffi_run (snd (call w c)) cs"
  by (simp_all add: ffi_run_def)

lemma ffi_run_ok: "world_ok w \<Longrightarrow> world_ok (ffi_run w cs)"
  by (induction cs arbitrary: w) (use call_good in \<open>auto simp: good_def\<close>)

section \<open>Properties\<close>

text \<open>
  C19: Whatever sequence of calls the host makes, one after the other, with null, forged and stale arguments, and whatever
  steps the workers take and events they send in between, in every engine at most 64 file leases exist, at most 64 buffers
  are lent out and every one of them holds exactly one slot, at most 64 events wait, no identifier or handle is 0 or
  used twice, and no two leases share their state; and the next call does not panic in the interface itself: neither of its
  two \<open>expect\<close> fails, and the loops that draw identifiers end. Panics inside the code that is an argument here are not covered.
\<close>

theorem c_interface_invariant:
  shows "world_ok (ffi_run initial_world calls) \<and> fst (call (ffi_run initial_world calls) c) \<noteq> LmPanic"
  using call_good [OF ffi_run_ok [OF initial_world_ok]] ffi_run_ok [OF initial_world_ok] by (simp add: good_def)

text \<open>
  The calls that leave buffer \<open>i\<close> of engine \<open>h\<close> alone: they do not free it, do not destroy the engine, and do not
  create an engine under the same handle, which only happens after \<open>2 ^ 64\<close> creations.
\<close>

fun spares :: "u64 \<Rightarrow> u64 \<Rightarrow> ffi_world \<Rightarrow> ffi_call \<Rightarrow> bool" where
  "spares h i w (Create null ok) \<longleftrightarrow> h \<noteq> (if next_engine_handle w = 0 then 1 else next_engine_handle w)"
| "spares h i w (Destroy h') \<longleftrightarrow> h' \<noteq> h"
| "spares h i w (BufferFree h' (Some b)) \<longleftrightarrow> h' \<noteq> h \<or> buf_id b \<noteq> i"
| "spares h i w _ \<longleftrightarrow> True"

fun spared_run :: "u64 \<Rightarrow> u64 \<Rightarrow> ffi_world \<Rightarrow> ffi_call list \<Rightarrow> bool" where
  "spared_run h i w [] \<longleftrightarrow> True"
| "spared_run h i w (c # cs) \<longleftrightarrow> spares h i w c \<and> spared_run h i (snd (call w c)) cs"

definition lent :: "ffi_world \<Rightarrow> u64 \<Rightarrow> u64 \<Rightarrow> BufferAllocation \<Rightarrow> bool" where
  "lent w h i a \<longleftrightarrow> (case engine_ref w h of None \<Rightarrow> False | Some e \<Rightarrow> map_of (buffer_allocations e) i = Some a)"

lemma engine_ref_update:
  "h \<noteq> 0 \<Longrightarrow> engine_ref (w\<lparr>engine_registry := AList.update h e (engine_registry w)\<rparr>) h' = (if h' = h then Some e else engine_ref w h')"
  by (simp add: engine_ref_def update_conv')

lemma lent_update:
  "lent w h i a \<Longrightarrow> engine_ref w h' = Some e \<Longrightarrow> (map_of (buffer_allocations e) i = Some a \<Longrightarrow> map_of (buffer_allocations e') i = Some a) \<Longrightarrow>
     lent (w\<lparr>engine_registry := AList.update h' e' (engine_registry w)\<rparr>) h i a"
  by (cases "h' = 0") (auto simp: lent_def engine_ref_update, simp add: engine_ref_def)

lemma lent_with_engine:
  "lent w h i a \<Longrightarrow> (\<And>e. buffer_allocations (snd (f e)) = buffer_allocations e) \<Longrightarrow> lent (snd (with_engine w h' f)) h i a"
  by (auto simp: with_engine_def Let_def case_prod_unfold intro!: lent_update split: option.splits)

lemma draw_id_update:
  "draw_id (map fst al) n = Some (j, m) \<Longrightarrow> map_of al i = Some a \<Longrightarrow> map_of (AList.update j x al) i = Some a"
proof -
  assume d: "draw_id (map fst al) n = Some (j, m)" and a: "map_of al i = Some a"
  have "j \<notin> fst ` set al" using draw_id_loop_Some [OF d [unfolded draw_id_def]] by simp
  moreover have "i \<in> fst ` set al" using map_of_SomeD [OF a] by (auto intro: image_eqI [of _ fst "(i, a)"])
  ultimately show ?thesis using a by (auto simp: update_conv')
qed

lemma write_keeps:
  "write_output_buffer place e bytes = (code, e', b) \<Longrightarrow> map_of (buffer_allocations e) i = Some a \<Longrightarrow>
     map_of (buffer_allocations e') i = Some a"
  by (auto simp: write_output_buffer_def draw_id_update split: if_splits option.splits)

lemma lent_fill:
  assumes "lent w h i a" "\<And>e bytes e'. contents e = Ok (bytes, e') \<Longrightarrow> buffer_allocations e' = buffer_allocations e"
  shows "lent (snd (without_output (fill_buffer w h' out place contents))) h i a"
proof -
  have "lent (snd (without_output (let (code, e'', b') = write_output_buffer place e' bytes in
      (code, w\<lparr>engine_registry := AList.update h' e'' (engine_registry w)\<rparr>, Some b')))) h i a"
    if e: "engine_ref w h' = Some e" "reserve_buffer_slot e = Ok r" "contents r = Ok (bytes, e')" for e r bytes e'
  proof -
    obtain code e'' b' where wr: "write_output_buffer place e' bytes = (code, e'', b')" by (cases "write_output_buffer place e' bytes")
    have "buffer_allocations e' = buffer_allocations e"
      using assms(2) [OF e(3)] e(2) by (auto simp: reserve_buffer_slot_def split: if_splits)
    with write_keeps [OF wr] lent_update [OF assms(1) e(1)] show ?thesis by (simp add: wr without_output_def)
  qed
  with assms(1) show ?thesis
    by (auto simp: fill_buffer_def without_output_def split: option.splits sum.splits)
qed

lemma lent_new_lease: "lent w h i a \<Longrightarrow> lent (snd (without_output (with_new_lease w h' out construct))) h i a"
proof -
  have "buffer_allocations (fst (snd (create_file_lease out lease e))) = buffer_allocations e" for lease e
    by (auto simp: create_file_lease_def split: option.splits sum.splits prod.splits)
  then show "lent w h i a \<Longrightarrow> ?thesis"
    by (auto simp: with_new_lease_def without_output_def Let_def case_prod_unfold intro!: lent_update split: option.splits)
qed

lemma lent_path_lease: "lent w h i a \<Longrightarrow> lent (snd (without_output (create_path_file_lease con uuid w h' path out))) h i a"
  using lent_new_lease [of w h i a] by (auto simp: create_path_file_lease_def without_output_def split: option.splits)

lemma lent_free:
  assumes "lent w h i a" "h' \<noteq> h \<or> (\<forall>b'. b = Some b' \<longrightarrow> buf_id b' \<noteq> i)"
  shows "lent (snd (without_output (lm_engine_buffer_free w h' b))) h i a"
proof -
  have "lent (w\<lparr>engine_registry := AList.update h' (e\<lparr>buffer_allocations := AList.delete (buf_id b') (buffer_allocations e),
      buffer_slots := buffer_slots e + 1\<rparr>) (engine_registry w)\<rparr>) h i a" if "b = Some b'" "engine_ref w h' = Some e" for b' e
  proof (cases "h' = h")
    case True
    with that assms show ?thesis by (intro lent_update [OF assms(1) that(2)]) (auto simp: delete_conv')
  next
    case False
    moreover have "h' \<noteq> 0" using that(2) by (auto simp: engine_ref_def)
    ultimately show ?thesis using assms(1) by (simp add: lent_def engine_ref_update)
  qed
  with assms(1) show ?thesis
    by (auto simp: lm_engine_buffer_free_def without_output_def split: option.splits)
qed

lemma consume_keeps_buffers: "buffer_allocations (snd (consume_document_bytes parses i name doc e)) = buffer_allocations e"
  by (auto simp: consume_document_bytes_def split: option.splits sum.splits)

lemma next_event_keeps_buffers: "next_engine_event got e = (bytes, e') \<Longrightarrow> buffer_allocations e' = buffer_allocations e"
  by (auto simp: next_engine_event_def split: list.splits if_splits)

lemmas lease_entry_points = lm_engine_file_lease_create_desktop_path_def
      lm_engine_file_lease_create_temporary_path_def lm_engine_file_lease_create_output_path_def
      lm_engine_file_lease_create_posix_descriptor_def lm_engine_file_lease_create_android_parcel_descriptor_def
      lm_engine_file_lease_create_windows_handle_def lm_engine_file_lease_expire_def lm_engine_file_lease_revoke_def

lemma lent_create:
  "lent w h i a \<Longrightarrow> h \<noteq> (if next_engine_handle w = 0 then 1 else next_engine_handle w) \<Longrightarrow>
     lent (snd (without_output (lm_engine_create null ok w))) h i a"
  by (auto simp: lm_engine_create_def without_output_def lent_def engine_ref_def update_conv' Let_def split: if_splits)

lemma lent_destroy: "lent w h i a \<Longrightarrow> h' \<noteq> h \<Longrightarrow> lent (snd (lm_engine_destroy w h')) h i a"
  by (auto simp: lm_engine_destroy_def lent_def engine_ref_def delete_conv' split: option.splits if_splits)

lemma lent_call:
  assumes "lent w h i a" "spares h i w c"
  shows "lent (snd (call w c)) h i a"
proof (cases c)
  case (BufferFree h' b)
  with assms show ?thesis by (cases b) (auto intro!: lent_free)
next
  case (ConsumeDocument sj po h' k name doc)
  with assms(1) show ?thesis
    by (auto simp: lm_engine_file_lease_consume_document_def consume_keeps_buffers intro!: lent_with_engine split: option.splits)
next
  case (ConsumePosix sj po rd h' k name)
  with assms(1) show ?thesis
    by (auto simp: lm_engine_file_lease_consume_posix_document_def consume_keeps_buffers intro!: lent_with_engine
      split: option.splits sum.splits FileLeaseResource.splits)
next
  case (Poll got h' out place)
  with assms(1) show ?thesis
    by (auto simp: lm_engine_poll_event_def next_event_keeps_buffers intro!: lent_fill)
qed (use assms in \<open>auto simp: lm_engine_get_compatibility_def lease_entry_points lm_engine_cancel_def lm_engine_shutdown_def
      lm_engine_file_lease_destroy_def update_file_lease_state_def emit_event_def cancel_active_def work_def
      lm_engine_submit_def lm_engine_send_host_response_def Let_def case_prod_unfold
      intro!: lent_create lent_destroy lent_with_engine lent_fill lent_new_lease lent_path_lease split: option.splits sum.splits\<close>)

lemma lent_run: "lent w h i a \<Longrightarrow> spared_run h i w cs \<Longrightarrow> lent (ffi_run w cs) h i a"
  by (induction cs arbitrary: w) (auto dest: lent_call)

lemma fill_buffer_OkD:
  assumes "fill_buffer w h out place contents = (LmOk, w1, Some b)" "\<And>e. contents e \<noteq> Err LmOk" "b \<noteq> empty_buffer"
  obtains e r bytes e' e'' where "engine_ref w h = Some e" "contents r = Ok (bytes, e')"
    "write_output_buffer place e' bytes = (LmOk, e'', b)" "w1 = w\<lparr>engine_registry := AList.update h e'' (engine_registry w)\<rparr>"
proof -
  from assms(1,3) obtain e where out: "out = Some empty_buffer" and e: "engine_ref w h = Some e" "\<not> engine_shutdown e"
    by (auto simp: fill_buffer_def split: option.splits if_splits)
  have r: "reserve_buffer_slot e = Ok (e\<lparr>buffer_slots := buffer_slots e - 1\<rparr>)" (is "_ = Ok ?r")
    using assms(1,3) out e by (auto simp: fill_buffer_def reserve_buffer_slot_def split: if_splits)
  obtain bytes e' where c: "contents ?r = Ok (bytes, e')"
    using assms(1,2) out e r by (cases "contents ?r") (auto simp: fill_buffer_def)
  obtain code e'' b' where wr: "write_output_buffer place e' bytes = (code, e'', b')" by (cases "write_output_buffer place e' bytes")
  with assms(1) out e r c show thesis by (intro that [OF e(1) c]) (auto simp: fill_buffer_def)
qed

text \<open>What freeing a lent buffer does, and that nothing else can be freed.\<close>

definition describes :: "LmBuffer \<Rightarrow> BufferAllocation \<Rightarrow> bool" where
  "describes b a \<longleftrightarrow> buf_data b = alloc_data a \<and> buf_len b = length (alloc_bytes a) \<and> buf_capacity b = alloc_capacity a"

lemma forged_is_refused:
  "lent w h i a \<Longrightarrow> b \<noteq> empty_buffer \<Longrightarrow> \<not> (\<exists>a. lent w h (buf_id b) a \<and> describes b a) \<Longrightarrow>
     lm_engine_buffer_free w h (Some b) = (LmInvalidArgument, w, Some b)"
  by (cases b) (auto simp: lent_def describes_def empty_buffer_def lm_engine_buffer_free_def split: option.splits)

lemma free_lent:
  assumes "lent w h i a" "i \<noteq> 0" "alloc_data a \<noteq> 0" "length (alloc_bytes a) \<le> alloc_capacity a"
  defines "b \<equiv> \<lparr>buf_data = alloc_data a, buf_len = length (alloc_bytes a), buf_capacity = alloc_capacity a, buf_id = i\<rparr>"
  shows "\<exists>w'. lm_engine_buffer_free w h (Some b) = (LmOk, w', Some empty_buffer) \<and>
      lm_engine_buffer_free w' h (Some b) = (LmInvalidArgument, w', Some b)"
    and "b' \<noteq> b \<Longrightarrow> buf_id b' = i \<Longrightarrow> lm_engine_buffer_free w h (Some b') = (LmInvalidArgument, w, Some b')"
proof -
  from assms(1) obtain e where e: "engine_ref w h = Some e" "map_of (buffer_allocations e) i = Some a"
    by (auto simp: lent_def split: option.splits)
  then have "h \<noteq> 0" by (auto simp: engine_ref_def)
  with e assms(2-4) show "\<exists>w'. lm_engine_buffer_free w h (Some b) = (LmOk, w', Some empty_buffer) \<and>
      lm_engine_buffer_free w' h (Some b) = (LmInvalidArgument, w', Some b)"
    by (simp add: lm_engine_buffer_free_def b_def engine_ref_update delete_conv')
  show "lm_engine_buffer_free w h (Some b') = (LmInvalidArgument, w, Some b')" if "b' \<noteq> b" "buf_id b' = i"
    using that e assms(2) by (cases b') (auto simp: lm_engine_buffer_free_def b_def)
qed

text \<open>
  C20: A buffer that an event poll lends out stays valid under any sequence of calls and worker steps that do not free it, do
  not destroy its engine and do not create an engine under the same handle. It can then be freed, exactly once; a descriptor
  with its identifier that differs in any other field is refused without an effect, and so is every descriptor, whatever its
  identifier is, that is not empty and does not describe a buffer that this engine lends out at that time.
\<close>

theorem lent_buffer_is_freed_once:
  assumes "lm_engine_poll_event got w h out place = (LmOk, w1, Some b)" "b \<noteq> empty_buffer"
    and "fst place \<noteq> 0" "buf_len b \<le> snd place"
    and "spared_run h (buf_id b) w1 calls"
  shows "let w2 = ffi_run w1 calls in
    (\<exists>w3. lm_engine_buffer_free w2 h (Some b) = (LmOk, w3, Some empty_buffer) \<and>
      lm_engine_buffer_free w3 h (Some b) = (LmInvalidArgument, w3, Some b)) \<and>
    (\<forall>b'. b' \<noteq> b \<and> buf_id b' = buf_id b \<longrightarrow> lm_engine_buffer_free w2 h (Some b') = (LmInvalidArgument, w2, Some b')) \<and>
    (\<forall>b'. b' \<noteq> empty_buffer \<and> \<not> (\<exists>a. lent w2 h (buf_id b') a \<and> describes b' a) \<longrightarrow>
      lm_engine_buffer_free w2 h (Some b') = (LmInvalidArgument, w2, Some b'))"
proof -
  obtain e r bytes e' e'' where
    e: "engine_ref w h = Some e" "next_engine_event got r = (bytes, e')"
      "write_output_buffer place e' bytes = (LmOk, e'', b)" "w1 = w\<lparr>engine_registry := AList.update h e'' (engine_registry w)\<rparr>"
    by (rule fill_buffer_OkD [OF assms(1) [unfolded lm_engine_poll_event_def] _ assms(2)]) auto
  let ?a = "\<lparr>alloc_data = fst place, alloc_bytes = bytes, alloc_capacity = snd place\<rparr>"
  from e(3) assms(2) obtain i m where
    i: "draw_id (map fst (buffer_allocations e')) (next_buffer_allocation_id e') = Some (i, m)"
      "b = \<lparr>buf_data = fst place, buf_len = length bytes, buf_capacity = snd place, buf_id = i\<rparr>"
      "map_of (buffer_allocations e'') i = Some ?a"
    by (auto simp: write_output_buffer_def update_conv' split: if_splits option.splits)
  have "h \<noteq> 0" using e(1) by (auto simp: engine_ref_def)
  with e(4) i(3) have "lent w1 h i ?a" by (simp add: lent_def engine_ref_update)
  with assms(5) i(2) have lent: "lent (ffi_run w1 calls) h i ?a" by (simp add: lent_run)
  have "i \<noteq> 0" using draw_id_loop_Some [OF i(1) [unfolded draw_id_def]] by simp
  with free_lent [OF lent] forged_is_refused [OF lent] assms(3,4) i(2) show ?thesis by (auto simp: Let_def)
qed

definition demo_buffer_world :: ffi_world where
  "demo_buffer_world = \<lparr>engine_registry = [(1, new_engine\<lparr>engine_events := [''event'']\<rparr>)], next_engine_handle = 2\<rparr>"

theorem lent_buffer_is_freed_once_witness:
  "\<exists>w1 b w3. lm_engine_poll_event True demo_buffer_world 1 (Some empty_buffer) (64, 8) = (LmOk, w1, Some b) \<and>
     lm_engine_buffer_free (ffi_run w1 [Shutdown 1, LeaseExpire 1 7]) 1 (Some b) = (LmOk, w3, Some empty_buffer)"
proof -
  let ?b = "\<lparr>buf_data = 64, buf_len = 5, buf_capacity = 8, buf_id = 1\<rparr>"
  obtain w1 where w1: "lm_engine_poll_event True demo_buffer_world 1 (Some empty_buffer) (64, 8) = (LmOk, w1, Some ?b)"
    by (simp add: lm_engine_poll_event_def fill_buffer_def demo_buffer_world_def engine_ref_def reserve_buffer_slot_def
      new_engine_def initial_ops_def MAX_OUTSTANDING_BUFFERS_def next_engine_event_def write_output_buffer_def draw_id_def numeral_2_eq_2)
  from lent_buffer_is_freed_once [OF w1, of "[Shutdown 1, LeaseExpire 1 7]"] w1 show ?thesis
    by (simp add: empty_buffer_def Let_def) blast
qed

end
