(* ===== verification/Lease_Consumption.thy ===== *)
theory Lease_Consumption
  imports Ffi_Handles
begin

text \<open>
  \<open>consume_document_bytes\<close> (\<open>crates/linguamesh-ffi/src/lib.rs\<close>) when several threads of the host use one engine: it
  holds the lock on the leases only for the look-up and for the removal, and reads the document in between. Every interleaving of
  consumers with each other and with the calls that create, expire, revoke and destroy leases is a run of \<open>consume_step\<close>.
\<close>

datatype consumer_phase = Looking | Holding FileLease | Acquired FileLease | Checked FileLease | Removing | Answered LmResultCode

record consumer =
  con_lease :: u64
  con_phase :: consumer_phase

text \<open>\<open>ids_used\<close>: the identifiers drawn so far; a counter of 64 bits does not come back to one of them.\<close>

record lease_world =
  lw_leases :: "(u64 \<times> FileLease) list"
  lw_cells :: cells
  ids_used :: "u64 set"
  consumers :: "nat \<Rightarrow> consumer option"

definition set_phase :: "lease_world \<Rightarrow> nat \<Rightarrow> u64 \<Rightarrow> consumer_phase \<Rightarrow> lease_world" where
  "set_phase s j i ph = s\<lparr>consumers := (consumers s)(j \<mapsto> \<lparr>con_lease = i, con_phase = ph\<rparr>)\<rparr>"

definition phase_of :: "lease_world \<Rightarrow> nat \<Rightarrow> u64 \<Rightarrow> consumer_phase \<Rightarrow> bool" where
  "phase_of s j i ph \<longleftrightarrow> consumers s j = Some \<lparr>con_lease = i, con_phase = ph\<rparr>"

inductive consume_step :: "lease_world \<Rightarrow> lease_world \<Rightarrow> bool" where
  begin_call: "consumers s j = None \<Longrightarrow> consume_step s (set_phase s j i Looking)"
| unknown: "phase_of s j i Looking \<Longrightarrow> map_of (lw_leases s) i = None \<Longrightarrow>
    consume_step s (set_phase s j i (Answered LmInvalidArgument))"
| clone_lease: "phase_of s j i Looking \<Longrightarrow> map_of (lw_leases s) i = Some l \<Longrightarrow> consume_step s (set_phase s j i (Holding l))"
| acquire_fails: "phase_of s j i (Holding l) \<Longrightarrow> acquire (lw_cells s) l = Err e \<Longrightarrow>
    consume_step s (set_phase s j i (Answered LmInvalidArgument))"
| acquires: "phase_of s j i (Holding l) \<Longrightarrow> acquire (lw_cells s) l = Ok g \<Longrightarrow> consume_step s (set_phase s j i (Acquired l))"
| unreadable: "phase_of s j i (Acquired l) \<Longrightarrow> consume_step s (set_phase s j i (Answered LmMalformedMessage))"
| ended: "phase_of s j i (Acquired l) \<Longrightarrow> \<not> is_active (lw_cells s) l \<Longrightarrow>
    consume_step s (set_phase s j i (Answered LmInvalidArgument))"
| still_active: "phase_of s j i (Acquired l) \<Longrightarrow> is_active (lw_cells s) l \<Longrightarrow> consume_step s (set_phase s j i (Checked l))"
| revokes: "phase_of s j i (Checked l) \<Longrightarrow>
    consume_step s ((set_phase s j i Removing)\<lparr>lw_cells := revoke (lw_cells s) l\<rparr>)"
| removes: "phase_of s j i Removing \<Longrightarrow> map_of (lw_leases s) i = Some l \<Longrightarrow>
    consume_step s ((set_phase s j i (Answered LmOk))\<lparr>lw_leases := AList.delete i (lw_leases s)\<rparr>)"
| gone: "phase_of s j i Removing \<Longrightarrow> map_of (lw_leases s) i = None \<Longrightarrow>
    consume_step s (set_phase s j i (Answered LmInvalidArgument))"
| creates: "i \<notin> ids_used s \<Longrightarrow> i \<noteq> 0 \<Longrightarrow>
    consume_step s (s\<lparr>lw_leases := AList.update i l (lw_leases s), ids_used := insert i (ids_used s)\<rparr>)"
| expires: "map_of (lw_leases s) i = Some l \<Longrightarrow> consume_step s (s\<lparr>lw_cells := expire (lw_cells s) l\<rparr>)"
| revokes_call: "map_of (lw_leases s) i = Some l \<Longrightarrow> consume_step s (s\<lparr>lw_cells := revoke (lw_cells s) l\<rparr>)"
| destroys: "map_of (lw_leases s) i = Some l \<Longrightarrow>
    consume_step s (s\<lparr>lw_leases := AList.delete i (lw_leases s), lw_cells := revoke (lw_cells s) l\<rparr>)"

inductive_cases consume_stepE: "consume_step s t"

definition initial_leases :: lease_world where
  "initial_leases = \<lparr>lw_leases = [], lw_cells = (\<lambda>_. ACTIVE), ids_used = {}, consumers = (\<lambda>_. None)\<rparr>"

abbreviation consume_run :: "lease_world \<Rightarrow> lease_world \<Rightarrow> bool" where "consume_run \<equiv> consume_step\<^sup>*\<^sup>*"

section \<open>One consumer alone does what the sequential definition says\<close>

lemma phase_of_set [simp]: "phase_of (set_phase s j i ph) j i ph"
  by (simp add: phase_of_def set_phase_def)

lemma set_phase_simps [simp]:
  "lw_leases (set_phase s j i ph) = lw_leases s" "lw_cells (set_phase s j i ph) = lw_cells s"
  "ids_used (set_phase s j i ph) = ids_used s"
  "set_phase (set_phase s j i ph) j i ph' = set_phase s j i ph'"
  "set_phase (s\<lparr>lw_cells := cs\<rparr>) j i ph = (set_phase s j i ph)\<lparr>lw_cells := cs\<rparr>"
  by (simp_all add: set_phase_def)

lemma phase_of_update [simp]:
  "phase_of (s\<lparr>lw_cells := cs\<rparr>) j i ph = phase_of s j i ph" "phase_of (s\<lparr>lw_leases := ls\<rparr>) j i ph = phase_of s j i ph"
  by (simp_all add: phase_of_def)

lemma set_phase_same:
  "lw_cells s = cs \<Longrightarrow> lw_leases s = ls \<Longrightarrow> (set_phase s j i ph)\<lparr>lw_cells := cs, lw_leases := ls\<rparr> = set_phase s j i ph"
  by (cases s) (auto simp: set_phase_def)

lemma consume_alone:
  assumes "CHR 0x00 \<notin> set name" "consume_document_bytes parses i name doc e = (code, e')"
    and "lw_leases s = file_leases e" "lw_cells s = lease_cells e" "phase_of s j i Looking"
  shows "consume_run s ((set_phase s j i (Answered code))\<lparr>lw_cells := lease_cells e', lw_leases := file_leases e'\<rparr>)"
proof (cases "map_of (file_leases e) i")
  case None
  with assms have "consume_step s (set_phase s j i (Answered LmInvalidArgument))" by (intro unknown) simp_all
  with assms None show ?thesis
    by (auto simp: consume_document_bytes_def set_phase_same intro!: r_into_rtranclp)
next
  case (Some l)
  let ?s1 = "set_phase s j i (Holding l)" and ?s2 = "set_phase s j i (Acquired l)" and ?s3 = "set_phase s j i (Checked l)"
  have 1: "consume_step s ?s1" using assms Some by (intro clone_lease) simp_all
  show ?thesis
  proof (cases "acquire (lease_cells e) l")
    case (Inl err)
    then have "consume_step ?s1 (set_phase s j i (Answered LmInvalidArgument))"
      using acquire_fails [of ?s1 j i l err] assms(4) by simp
    with 1 assms Some Inl show ?thesis
      by (auto simp: consume_document_bytes_def set_phase_same intro: converse_rtranclp_into_rtranclp)
  next
    case (Inr g)
    then have 2: "consume_step ?s1 ?s2" using acquires [of ?s1 j i l g] assms(4) by simp
    have active: "is_active (lease_cells e) l" using Inr by (auto simp: acquire_def and_then_Inr ensure_active_Ok is_active_def)
    show ?thesis
    proof (cases "parses name doc")
      case False
      have "consume_step ?s2 (set_phase s j i (Answered LmMalformedMessage))" using unreadable [of ?s2 j i l] by simp
      with 1 2 assms Some Inr False show ?thesis
        by (auto simp: consume_document_bytes_def set_phase_same intro: converse_rtranclp_into_rtranclp)
    next
      case True
      let ?s4 = "(set_phase s j i Removing)\<lparr>lw_cells := revoke (lw_cells s) l\<rparr>"
      have "consume_step ?s2 ?s3" using still_active [of ?s2 j i l] active assms(4) by simp
      moreover have "consume_step ?s3 ?s4" using revokes [of ?s3 j i l] by simp
      moreover have "consume_step ?s4 ((set_phase ?s4 j i (Answered LmOk))\<lparr>lw_leases := AList.delete i (lw_leases ?s4)\<rparr>)"
        by (rule removes [where l = l]) (use Some assms(3) in simp_all)
      ultimately have "consume_run s ((set_phase ?s4 j i (Answered LmOk))\<lparr>lw_leases := AList.delete i (lw_leases ?s4)\<rparr>)"
        using 1 2 by (auto intro: converse_rtranclp_into_rtranclp)
      with assms Some Inr active True show ?thesis
        by (auto simp: consume_document_bytes_def)
    qed
  qed
qed

section \<open>A lease is consumed once\<close>

definition consumed :: "lease_world \<Rightarrow> nat \<Rightarrow> u64 \<Rightarrow> bool" where
  "consumed s j i \<longleftrightarrow> phase_of s j i (Answered LmOk)"

definition consumption_ok :: "lease_world \<Rightarrow> bool" where
  "consumption_ok s \<longleftrightarrow> fst ` set (lw_leases s) \<subseteq> ids_used s \<and>
     (\<forall>j i. consumed s j i \<longrightarrow> i \<in> ids_used s \<and> i \<notin> fst ` set (lw_leases s)) \<and>
     (\<forall>j k i. consumed s j i \<longrightarrow> consumed s k i \<longrightarrow> j = k)"

lemma consumed_set_phase:
  "consumed (set_phase s j i ph) k i' \<longleftrightarrow> (if k = j then i' = i \<and> ph = Answered LmOk else consumed s k i')"
  by (auto simp: consumed_def phase_of_def set_phase_def)

lemma consumed_update [simp]:
  "consumed (s\<lparr>lw_cells := cs\<rparr>) j i = consumed s j i" "consumed (s\<lparr>lw_leases := ls\<rparr>) j i = consumed s j i"
  "consumed (s\<lparr>ids_used := u\<rparr>) j i = consumed s j i"
  by (simp_all add: consumed_def phase_of_def)

lemma consumption_ok_cells [simp]: "consumption_ok (s\<lparr>lw_cells := cs\<rparr>) = consumption_ok s"
  by (simp add: consumption_ok_def)

text \<open>A step that ends a call with an error, or leaves a consumer in the middle, changes nothing here.\<close>

lemma consumption_ok_phase: "consumption_ok s \<Longrightarrow> ph \<noteq> Answered LmOk \<Longrightarrow> consumption_ok (set_phase s j i ph)"
  by (simp add: consumption_ok_def consumed_set_phase)

lemma keys_delete: "fst ` set (AList.delete i al) = fst ` set al - {i}"
  by (auto simp: AList.delete_eq)

lemma consumption_ok_delete: "consumption_ok s \<Longrightarrow> consumption_ok (s\<lparr>lw_leases := AList.delete i (lw_leases s)\<rparr>)"
  by (auto simp: consumption_ok_def keys_delete)

lemma consumption_ok_step: "consume_step s t \<Longrightarrow> consumption_ok s \<Longrightarrow> consumption_ok t"
proof (induction rule: consume_step.induct)
  case (removes s j i l)
  have i: "i \<in> fst ` set (lw_leases s)" using map_of_SomeD [OF removes(2)] by (auto intro: image_eqI [of _ fst "(i, l)"])
  with removes(3) show ?case by (auto simp: consumption_ok_def consumed_set_phase keys_delete split: if_splits)
next
  case (creates i s l)
  then show ?case by (auto simp: consumption_ok_def dom_update)
next
  case (destroys s i l)
  then show ?case using consumption_ok_delete [of s i] by simp
qed (simp_all add: consumption_ok_phase)

lemma consumption_ok_run: "consume_run s t \<Longrightarrow> consumption_ok s \<Longrightarrow> consumption_ok t"
  by (induction rule: rtranclp_induct) (auto dest: consumption_ok_step)

text \<open>
  C23: In every interleaving of any number of threads that consume, create, expire, revoke and destroy leases, a lease is
  consumed by at most one call, and after that it is not in the table any more.
\<close>

theorem lease_is_consumed_once:
  assumes "consume_run initial_leases s" "phase_of s j i (Answered LmOk)"
  shows "i \<notin> fst ` set (lw_leases s) \<and> (\<forall>k. phase_of s k i (Answered LmOk) \<longrightarrow> k = j)"
proof -
  have "consumption_ok initial_leases" by (simp add: consumption_ok_def initial_leases_def consumed_def phase_of_def)
  with consumption_ok_run [OF assms(1)] assms(2) show ?thesis by (auto simp: consumption_ok_def consumed_def)
qed

text \<open>The witness: a lease is created and one thread consumes it.\<close>

theorem lease_is_consumed_once_witness:
  "\<exists>s. consume_run initial_leases s \<and> phase_of s 0 7 (Answered LmOk) \<and> 7 \<notin> fst ` set (lw_leases s)"
proof -
  let ?l = "\<lparr>lease_id = ''id'', lease_resource = OutputPath ''/tmp/o'', lease_cell = 0\<rparr>"
  let ?e = "new_engine\<lparr>file_leases := [(7, ?l)]\<rparr>"
  let ?a = "initial_leases\<lparr>lw_leases := [(7, ?l)], ids_used := {7}\<rparr>"
  let ?b = "set_phase ?a 0 7 Looking"
  have "consume_step initial_leases ?a" using creates [of 7 initial_leases ?l] by (simp add: initial_leases_def)
  moreover have "consume_step ?a ?b" by (rule begin_call) (simp add: initial_leases_def)
  moreover obtain e' where "consume_document_bytes (\<lambda>_ _. True) 7 ''a.txt'' ''text'' ?e = (LmOk, e')"
    by (simp add: consume_document_bytes_def new_engine_def acquire_def ensure_active_def is_active_def)
  then have "consume_run ?b ((set_phase ?b 0 7 (Answered LmOk))\<lparr>lw_cells := lease_cells e', lw_leases := file_leases e'\<rparr>)"
    (is "consume_run ?b ?s") by (rule consume_alone [rotated]) (simp_all add: initial_leases_def new_engine_def)
  ultimately have run: "consume_run initial_leases ?s" by (meson converse_rtranclp_into_rtranclp)
  moreover have ph: "phase_of ?s 0 7 (Answered LmOk)" by simp
  ultimately show ?thesis using lease_is_consumed_once [OF run ph] by blast
qed

end
