(* ===== verification/Storage_Base.thy ===== *)
theory Storage_Base
  imports Translation Document_Base Profile "HOL-Library.AList" "HOL-Library.Product_Lexorder"
begin

text \<open>
  The database of \<open>crates/linguamesh-storage/src/lib.rs\<close> after all migrations, and the SQL the operations run on it.

  \<^item> A table is an association list from its primary key to the other columns. The statements are functions on it,
    written after the SQL text: \<open>INSERT ... ON CONFLICT DO UPDATE\<close> is \<open>upsert\<close>, \<open>ORDER BY ... LIMIT\<close> sorts
    and cuts, foreign keys are on, \<open>ON DELETE CASCADE\<close> deletes the dependent rows. Text compares by bytes.
  \<^item> An operation is a function of the connection. Any statement may fail: \<open>conn_faults\<close> says which of the next ones do,
    and with what message. A transaction that does not commit leaves the database as it found it.
  \<^item> \<open>unixepoch()\<close> is \<open>conn_now\<close>, which does not change during a call.
\<close>

section \<open>Tables\<close>

record document_job_row =
  job_row_state :: string
  job_row_format :: string
  job_row_source_name :: string
  job_row_package :: "string option"
  job_row_created :: int
  job_row_updated :: int

record segment_row =
  segment_row_kind :: string
  segment_row_source :: string
  segment_row_translated :: "string option"
  segment_row_ending :: string

record options_row =
  options_source_locale :: "string option"
  options_target_locale :: string
  options_model_id :: string
  options_provider_id :: string
  options_routing_profile_id :: "string option"
  options_quality_mode :: "string option"
  options_preset_json :: "string option"
  options_glossary_json :: "string option"
  options_updated :: int

record history_row =
  history_created :: int
  history_source :: string
  history_translated :: string
  history_source_locale :: "string option"
  history_target_locale :: string
  history_model :: string

record usage_row =
  usage_created :: int
  usage_provider :: "string option"
  usage_model :: string
  usage_source_label :: string
  usage_input :: "int option"
  usage_output :: "int option"
  usage_total :: "int option"

record memory_row =
  memory_created :: int
  memory_source :: string
  memory_translated :: string
  memory_source_locale :: "string option"
  memory_target_locale :: string
  memory_model :: string
  memory_identity :: string

text \<open>\<open>StoredProfile\<close> is a row of \<open>provider_profiles\<close> with its key and the model that \<open>LEFT JOIN\<close> adds.\<close>

record profile_row =
  row_display_name :: string
  row_preset_id :: string
  row_adapter_type :: string
  row_base_endpoint :: string
  row_secret_ref :: "string option"
  row_user_notes :: "string option"
  row_organization :: "string option"
  row_project :: "string option"
  row_region :: "string option"
  row_account_identifier :: "string option"
  row_custom_headers :: "string option"
  row_secret_custom_headers_ref :: "string option"
  row_proxy_url :: "string option"
  row_proxy_auth_ref :: "string option"
  row_request_timeout_secs :: u32
  row_connection_timeout_secs :: u32
  row_streaming_idle_timeout_secs :: u32
  row_trusted_certificates_pem :: "string option"
  row_client_certificate_identity_ref :: "string option"
  row_enabled :: bool
  row_last_successful_health_check :: "int option"
  row_last_failure_category :: "string option"

record routing_row =
  routing_json :: string
  routing_created :: int
  routing_updated :: int

record glossary_row =
  glossary_created :: int
  glossary_updated :: int

text \<open>A truth value is an integer column.\<close>

record term_row =
  term_source :: string
  term_target :: string
  term_source_locale :: "string option"
  term_target_locale :: "string option"
  term_case_sensitive :: int
  term_whole_word :: int
  term_immutable :: int
  term_domain :: "string option"
  term_priority :: int
  term_notes :: "string option"
  term_enabled :: int

record database =
  document_jobs_table :: "(string \<times> document_job_row) list"
  document_segments_table :: "((string \<times> int) \<times> segment_row) list"
  document_options_table :: "(string \<times> options_row) list"
  model_descriptors_table :: "(string \<times> (string \<times> string)) list"
  active_model_row :: "string option"
  history_table :: "(string \<times> history_row) list"
  history_policy :: bool
  usage_table :: "(string \<times> usage_row) list"
  memory_table :: "(string \<times> memory_row) list"
  memory_policy :: bool
  profiles_table :: "(string \<times> profile_row) list"
  model_selection_table :: "(string \<times> string) list"
  active_provider_row :: "string option"
  routing_table :: "(string \<times> routing_row) list"
  glossaries_table :: "(string \<times> glossary_row) list"
  glossary_terms_table :: "((string \<times> int) \<times> term_row) list"

text \<open>What the migrations create: no rows but the two policies, which are on.\<close>

definition empty_database :: database where
  "empty_database = \<lparr>document_jobs_table = [], document_segments_table = [], document_options_table = [],
     model_descriptors_table = [], active_model_row = None, history_table = [], history_policy = True, usage_table = [],
     memory_table = [], memory_policy = True, profiles_table = [], model_selection_table = [], active_provider_row = None,
     routing_table = [], glossaries_table = [], glossary_terms_table = []\<rparr>"

section \<open>Statements on one table\<close>

definition upsert :: "'k \<Rightarrow> 'r \<Rightarrow> ('r \<Rightarrow> 'r) \<Rightarrow> ('k \<times> 'r) list \<Rightarrow> ('k \<times> 'r) list" where
  "upsert k new upd t = (case map_of t k of None \<Rightarrow> (k, new) # t | Some r \<Rightarrow> AList.update k (upd r) t)"

definition delete_where :: "('k \<Rightarrow> bool) \<Rightarrow> ('k \<times> 'r) list \<Rightarrow> ('k \<times> 'r) list" where
  "delete_where p t = filter (\<lambda>(k, r). \<not> p k) t"

text \<open>\<open>UPDATE ... WHERE key = k\<close>.\<close>

definition update_where :: "'k \<Rightarrow> ('r \<Rightarrow> 'r) \<Rightarrow> ('k \<times> 'r) list \<Rightarrow> ('k \<times> 'r) list" where
  "update_where k upd t = map (\<lambda>(j, r). if j = k then (j, upd r) else (j, r)) t"

text \<open>\<open>ORDER BY f ASC, key ASC\<close> and \<open>ORDER BY f DESC, key DESC\<close>.\<close>

definition oldest_first :: "('r \<Rightarrow> 'f::linorder) \<Rightarrow> ('k::linorder \<times> 'r) list \<Rightarrow> ('k \<times> 'r) list" where
  "oldest_first f t = sort_key (\<lambda>(k, r). (f r, k)) t"

definition newest_first :: "('r \<Rightarrow> 'f::linorder) \<Rightarrow> ('k::linorder \<times> 'r) list \<Rightarrow> ('k \<times> 'r) list" where
  "newest_first f t = rev (oldest_first f t)"

text \<open>\<open>DELETE ... WHERE key IN (SELECT key ... ORDER BY f DESC, key DESC LIMIT -1 OFFSET n)\<close>.\<close>

definition keep_newest :: "('r \<Rightarrow> 'f::linorder) \<Rightarrow> nat \<Rightarrow> ('k::linorder \<times> 'r) list \<Rightarrow> ('k \<times> 'r) list" where
  "keep_newest f n t = (let dropped = map fst (drop n (newest_first f t)) in delete_where (\<lambda>k. k \<in> set dropped) t)"

lemma map_of_upsert: "map_of (upsert k new upd t) j =
    (if j = k then Some (case map_of t k of None \<Rightarrow> new | Some r \<Rightarrow> upd r) else map_of t j)"
  by (auto simp: upsert_def update_conv' split: option.splits)

lemma keys_upsert [simp]: "fst ` set (upsert k new upd t) = insert k (fst ` set t)"
  by (auto simp: upsert_def dom_update split: option.splits)

lemma distinct_upsert [simp]: "distinct (map fst t) \<Longrightarrow> distinct (map fst (upsert k new upd t))"
  by (auto simp: upsert_def map_of_eq_None_iff distinct_update split: option.splits)

lemma length_upsert: "length (upsert k new upd t) = (if map_of t k = None then Suc (length t) else length t)"
proof (cases "map_of t k")
  case (Some r)
  then have "k \<in> fst ` set t" by (metis map_of_SomeD fst_conv image_eqI)
  then have "length (AList.update k v t) = length t" for v by (induction t) auto
  with Some show ?thesis by (simp add: upsert_def)
qed (simp add: upsert_def)

lemma map_of_delete_where: "map_of (delete_where p t) k = (if p k then None else map_of t k)"
  by (induction t) (auto simp: delete_where_def)

lemma keys_delete_where [simp]: "fst ` set (delete_where p t) = {k \<in> fst ` set t. \<not> p k}"
  by (auto simp: delete_where_def)

lemma delete_where_sub [simp]:
  "distinct (map fst t) \<Longrightarrow> distinct (map fst (delete_where p t))" "length (delete_where p t) \<le> length t"
  by (simp_all add: delete_where_def distinct_map_filter)

lemma delete_where_upsert [simp]: "p k \<Longrightarrow> delete_where p (upsert k new upd t) = delete_where p t"
proof -
  assume "p k"
  then have "delete_where p (AList.update k r t) = delete_where p t" for r
    by (induction t) (auto simp: delete_where_def)
  with \<open>p k\<close> show ?thesis by (simp add: upsert_def delete_where_def split: option.splits)
qed

lemma delete_where_append [simp]: "delete_where p (t @ u) = delete_where p t @ delete_where p u"
  and delete_where_idem [simp]: "delete_where p (delete_where p t) = delete_where p t"
  by (simp_all add: delete_where_def)

lemma map_of_update_where: "map_of (update_where k upd t) j = (if j = k then map_option upd (map_of t j) else map_of t j)"
  by (induction t) (auto simp: update_where_def)

lemma map_fst_update_where [simp]: "map fst (update_where k upd t) = map fst t"
  by (induction t) (auto simp: update_where_def)

lemma keys_update_where [simp]: "fst ` set (update_where k upd t) = fst ` set t"
  by (simp only: set_map [symmetric] map_fst_update_where)

lemma length_update_where [simp]: "length (update_where k upd t) = length t"
  by (simp add: update_where_def)

lemma sort_key_sorted: "sorted (map f xs) \<Longrightarrow> sort_key f xs = xs"
  by (induction xs) (simp_all add: insort_is_Cons)

lemma mem_newest_first [simp]: "set (newest_first f t) = set t" "length (newest_first f t) = length t"
  "set (oldest_first f t) = set t" "length (oldest_first f t) = length t"
  by (simp_all add: newest_first_def oldest_first_def)

lemma distinct_newest_first: "distinct (map fst t) \<Longrightarrow> distinct (map fst (newest_first f t))"
proof -
  assume "distinct (map fst t)"
  moreover have "mset (map fst (newest_first f t)) = mset (map fst t)"
    by (simp add: newest_first_def oldest_first_def)
  ultimately show ?thesis by (metis mset_eq_imp_distinct_iff)
qed

lemma disjoint_keys:
  assumes "distinct (map fst (xs @ ys))"
  shows "{x \<in> set xs \<union> set ys. fst x \<notin> fst ` set ys} = set xs"
proof -
  have "fst ` set xs \<inter> fst ` set ys = {}" using assms by simp
  then show ?thesis by blast
qed

lemma set_keep_newest:
  assumes "distinct (map fst t)"
  shows "set (keep_newest f n t) = set (take n (newest_first f t))"
proof -
  let ?s = "newest_first f t"
  have d: "distinct (map fst (take n ?s @ drop n ?s))"
    using distinct_newest_first [OF assms, of f] by (simp only: append_take_drop_id)
  have s: "set t = set (take n ?s) \<union> set (drop n ?s)"
    by (metis append_take_drop_id mem_newest_first(1) set_append)
  have "set (keep_newest f n t) = {x \<in> set t. fst x \<notin> fst ` set (drop n ?s)}"
    by (force simp: keep_newest_def delete_where_def Let_def)
  also have "\<dots> = set (take n ?s)"
    unfolding s using d by (rule disjoint_keys)
  finally show ?thesis .
qed

lemma keep_newest_sub:
  assumes "distinct (map fst t)"
  shows "distinct (map fst (keep_newest f n t))" "length (keep_newest f n t) = min n (length t)"
proof -
  show d: "distinct (map fst (keep_newest f n t))"
    using delete_where_sub(1) [OF assms] by (simp add: keep_newest_def Let_def)
  have "distinct (keep_newest f n t)" using d by (simp add: distinct_map)
  moreover have "distinct (take n (newest_first f t))"
    using distinct_newest_first [OF assms, of f] by (simp add: distinct_map)
  ultimately show "length (keep_newest f n t) = min n (length t)"
    using set_keep_newest [OF assms, of f n] by (metis distinct_card length_take mem_newest_first(2) min.commute)
qed

text \<open>The row with the greatest key of all is kept.\<close>

lemma keep_newest_keeps:
  assumes "distinct (map fst t)" "(k, r) \<in> set t" "0 < n" "\<forall>(j, q) \<in> set t. (f q, j) \<le> (f r, k)"
  shows "(k, r) \<in> set (keep_newest f n t)"
proof -
  let ?o = "oldest_first f t" and ?g = "\<lambda>(k, r). (f r, k)"
  have ne: "?o \<noteq> []" using assms(2) by (metis empty_iff list.set(1) mem_newest_first(3))
  obtain j q where jq: "last ?o = (j, q)" by (cases "last ?o")
  have in_o: "(j, q) \<in> set t" using last_in_set [OF ne] jq by simp
  obtain ys where o: "?o = ys @ [last ?o]" using ne by (metis append_butlast_last_id)
  have "sorted (map ?g ?o)" by (simp add: oldest_first_def)
  then have "sorted (map ?g (ys @ [last ?o]))" using o by metis
  then have "\<forall>x \<in> set ys. ?g x \<le> ?g (last ?o)" by (simp add: sorted_append)
  moreover have "(k, r) \<in> set (ys @ [last ?o])" using assms(2) o by (metis mem_newest_first(3))
  ultimately have "?g (k, r) \<le> ?g (last ?o)" by (auto simp: jq)
  with assms(4) in_o jq have "j = k" by fastforce
  with assms(1,2) in_o have "(j, q) = (k, r)" by (metis eq_key_imp_eq_value)
  then have "hd (newest_first f t) = (k, r)" using ne jq by (simp add: newest_first_def hd_rev)
  moreover have "newest_first f t \<noteq> []" using ne by (simp add: newest_first_def)
  ultimately have "(k, r) \<in> set (take n (newest_first f t))"
    using assms(3) by (cases "newest_first f t"; cases n) auto
  then show ?thesis by (simp add: set_keep_newest [OF assms(1)])
qed

text \<open>The row with the smallest key is dropped when there are more rows than are kept.\<close>

lemma keep_newest_drops:
  assumes "distinct (map fst t)" "(k, r) \<in> set t" "n < length t" "\<forall>(j, q) \<in> set t. (f r, k) \<le> (f q, j)"
  shows "k \<notin> fst ` set (keep_newest f n t)"
proof -
  let ?o = "oldest_first f t" and ?g = "\<lambda>(k, r). (f r, k)"
  have ne: "?o \<noteq> []" using assms(2) by (metis empty_iff list.set(1) mem_newest_first(3))
  then obtain j q ys where o: "?o = (j, q) # ys" by (cases ?o) auto
  then have in_o: "(j, q) \<in> set t" by (metis list.set_intros(1) mem_newest_first(3))
  have "sorted (map ?g ?o)" by (simp add: oldest_first_def)
  then have "\<forall>x \<in> set ys. ?g (j, q) \<le> ?g x" by (simp add: o)
  moreover have "(k, r) \<in> set ((j, q) # ys)" using assms(2) o by (metis mem_newest_first(3))
  ultimately have "?g (j, q) \<le> ?g (k, r)" by auto
  with assms(4) in_o have "j = k" by fastforce
  moreover have "take n (newest_first f t) = take n (rev ys)"
    using assms(3) o by (metis length_Cons length_rev less_Suc_eq_le mem_newest_first(4) newest_first_def rev.simps(2) take_append
      append_Nil2 diff_is_0_eq' take_eq_Nil2)
  moreover have "distinct (map fst (rev ((j, q) # ys)))"
    using distinct_newest_first [OF assms(1), of f] by (simp add: newest_first_def o)
  ultimately have "k \<notin> fst ` set (take n (newest_first f t))" by (force dest: in_set_takeD)
  then show ?thesis by (simp add: set_keep_newest [OF assms(1)])
qed

section \<open>Operations on a connection\<close>

record conn =
  conn_db :: database
  conn_now :: int
  conn_faults :: "string option list"

type_synonym 'a sql = "conn \<Rightarrow> (TranslationError + 'a) \<times> conn"

definition map_error :: "string \<Rightarrow> TranslationError" where
  "map_error e = TranslationError_new Persistence (''Local database operation failed: '' @ e)"

definition sql_return :: "'a \<Rightarrow> 'a sql" where "sql_return a = (\<lambda>c. (Ok a, c))"
definition sql_lift :: "TranslationError + 'a \<Rightarrow> 'a sql" where "sql_lift r = (\<lambda>c. (r, c))"

definition sql_bind :: "'a sql \<Rightarrow> ('a \<Rightarrow> 'b sql) \<Rightarrow> 'b sql" where
  "sql_bind m f = (\<lambda>c. case m c of (Inl e, c') \<Rightarrow> (Err e, c') | (Inr a, c') \<Rightarrow> f a c')"

text \<open>The next statement fails or runs.\<close>

definition next_fault :: "conn \<Rightarrow> string option \<times> conn" where
  "next_fault c = (case conn_faults c of [] \<Rightarrow> (None, c) | f # fs \<Rightarrow> (f, c\<lparr>conn_faults := fs\<rparr>))"

definition statement :: "(int \<Rightarrow> database \<Rightarrow> string + ('a \<times> database)) \<Rightarrow> 'a sql" where
  "statement run c = (case next_fault c of
       (Some e, c') \<Rightarrow> (Err (map_error e), c')
     | (None, c') \<Rightarrow> (case run (conn_now c') (conn_db c') of
           Inl e \<Rightarrow> (Err (map_error e), c')
         | Inr (a, db) \<Rightarrow> (Ok a, c'\<lparr>conn_db := db\<rparr>)))"

definition query :: "(database \<Rightarrow> 'a) \<Rightarrow> 'a sql" where
  "query q = statement (\<lambda>now db. Ok (q db, db))"

definition execute :: "(int \<Rightarrow> database \<Rightarrow> database) \<Rightarrow> unit sql" where
  "execute upd = statement (\<lambda>now db. Ok ((), upd now db))"

text \<open>An \<open>INSERT\<close> whose row must refer to an existing one, or must not exist yet.\<close>

definition execute_checked :: "(database \<Rightarrow> bool) \<Rightarrow> string \<Rightarrow> (int \<Rightarrow> database \<Rightarrow> database) \<Rightarrow> unit sql" where
  "execute_checked constraint violated upd =
     statement (\<lambda>now db. if constraint db then Ok ((), upd now db) else Err violated)"

definition transaction :: "'a sql \<Rightarrow> 'a sql" where
  "transaction body c = (case next_fault c of
       (Some e, c0) \<Rightarrow> (Err (map_error e), c0)
     | (None, c0) \<Rightarrow> (case body c0 of
           (Inl e, c1) \<Rightarrow> (Err e, c1\<lparr>conn_db := conn_db c\<rparr>)
         | (Inr a, c1) \<Rightarrow> (case next_fault c1 of
               (Some e, c2) \<Rightarrow> (Err (map_error e), c2\<lparr>conn_db := conn_db c\<rparr>)
             | (None, c2) \<Rightarrow> (Ok a, c2))))"

text \<open>\<open>for x in xs { execute(f(x))?; }\<close> and \<open>xs.map(f).collect()\<close>.\<close>

fun sql_for :: "('a \<Rightarrow> unit sql) \<Rightarrow> 'a list \<Rightarrow> unit sql" where
  "sql_for f [] = sql_return ()"
| "sql_for f (x # xs) = sql_bind (f x) (\<lambda>_. sql_for f xs)"

fun sql_map :: "('a \<Rightarrow> 'b sql) \<Rightarrow> 'a list \<Rightarrow> 'b list sql" where
  "sql_map f [] = sql_return []"
| "sql_map f (x # xs) = sql_bind (f x) (\<lambda>y. sql_bind (sql_map f xs) (\<lambda>ys. sql_return (y # ys)))"

section \<open>Reasoning about operations\<close>

text \<open>
  \<open>wp F m Q E now db\<close>: run on a database \<open>db\<close> at the time \<open>now\<close>, \<open>m\<close> ends with a value and a database in \<open>Q\<close> or with an
  error and a database in \<open>E\<close>; statements may fail if \<open>F\<close>.
\<close>

named_theorems sql_wp \<open>rules that reduce an operation to its statements\<close>

definition wp :: "bool \<Rightarrow> 'a sql \<Rightarrow> ('a \<Rightarrow> database \<Rightarrow> bool) \<Rightarrow> (TranslationError \<Rightarrow> database \<Rightarrow> bool) \<Rightarrow> int \<Rightarrow> database \<Rightarrow> bool" where
  "wp F m Q E now db \<longleftrightarrow> (\<forall>c. conn_db c = db \<and> conn_now c = now \<and> (F \<or> conn_faults c = []) \<longrightarrow>
     (let (r, c') = m c in conn_now c' = now \<and> (F \<or> conn_faults c' = []) \<and>
       (case r of Inl e \<Rightarrow> E e (conn_db c') | Inr a \<Rightarrow> Q a (conn_db c'))))"

lemma wpI:
  "(\<And>c. conn_db c = db \<Longrightarrow> conn_now c = now \<Longrightarrow> F \<or> conn_faults c = [] \<Longrightarrow>
     conn_now (snd (m c)) = now \<and> (F \<or> conn_faults (snd (m c)) = []) \<and>
       (case fst (m c) of Inl e \<Rightarrow> E e (conn_db (snd (m c))) | Inr a \<Rightarrow> Q a (conn_db (snd (m c))))) \<Longrightarrow> wp F m Q E now db"
  by (simp add: wp_def Let_def case_prod_unfold)

lemma wp_run:
  assumes "wp F m Q E (conn_now c) (conn_db c)" "F \<or> conn_faults c = []" "m c = (r, c')"
  shows "conn_now c' = conn_now c" "F \<or> conn_faults c' = []" "case r of Inl e \<Rightarrow> E e (conn_db c') | Inr a \<Rightarrow> Q a (conn_db c')"
  using assms by (auto simp: wp_def Let_def)

lemma wp_Ok: "wp True m Q E (conn_now c) (conn_db c) \<Longrightarrow> m c = (Inr a, c') \<Longrightarrow> Q a (conn_db c')"
  and wp_Err: "wp True m Q E (conn_now c) (conn_db c) \<Longrightarrow> m c = (Inl e, c') \<Longrightarrow> E e (conn_db c')"
  using wp_run(3) [of True m Q E c] by fastforce+

text \<open>On a database that works an operation with an impossible error returns.\<close>

lemma wp_works:
  assumes "wp False m Q (\<lambda>_ _. False) (conn_now c) (conn_db c)" "conn_faults c = []"
  shows "\<exists>a c'. m c = (Ok a, c') \<and> conn_faults c' = [] \<and> conn_now c' = conn_now c \<and> Q a (conn_db c')"
proof (cases "m c")
  case (Pair r c')
  with wp_run [OF assms(1) _ Pair] assms(2) show ?thesis by (cases r) auto
qed

lemma wp_mono:
  assumes "wp F m Q E now db" "\<And>a db'. Q a db' \<Longrightarrow> Q' a db'" "\<And>e db'. E e db' \<Longrightarrow> E' e db'"
  shows "wp F m Q' E' now db"
  unfolding wp_def Let_def case_prod_unfold
proof (intro allI impI)
  fix c :: conn assume c: "conn_db c = db \<and> conn_now c = now \<and> (F \<or> conn_faults c = [])"
  with wp_run [of F m Q E c "fst (m c)" "snd (m c)"] assms
  show "conn_now (snd (m c)) = now \<and> (F \<or> conn_faults (snd (m c)) = []) \<and>
    (case fst (m c) of Inl e \<Rightarrow> E' e (conn_db (snd (m c))) | Inr a \<Rightarrow> Q' a (conn_db (snd (m c))))"
    by (auto split: sum.splits)
qed

lemma wp_conj:
  assumes "wp F m Q E now db" "wp F m Q' E' now db"
  shows "wp F m (\<lambda>a db'. Q a db' \<and> Q' a db') (\<lambda>e db'. E e db' \<and> E' e db') now db"
proof (rule wpI)
  fix c :: conn assume c: "conn_db c = db" "conn_now c = now" "F \<or> conn_faults c = []"
  note s = wp_run [OF assms(1) [folded c(1,2)] c(3) surjective_pairing] wp_run [OF assms(2) [folded c(1,2)] c(3) surjective_pairing]
  from s c(2) show "conn_now (snd (m c)) = now \<and> (F \<or> conn_faults (snd (m c)) = []) \<and> (case fst (m c) of
      Inl e \<Rightarrow> E e (conn_db (snd (m c))) \<and> E' e (conn_db (snd (m c)))
    | Inr a \<Rightarrow> Q a (conn_db (snd (m c))) \<and> Q' a (conn_db (snd (m c))))"
    by (cases "fst (m c)") simp_all
qed

lemma next_fault_facts:
  "conn_db (snd (next_fault c)) = conn_db c" "conn_now (snd (next_fault c)) = conn_now c"
  "conn_faults c = [] \<Longrightarrow> next_fault c = (None, c)"
  by (simp_all add: next_fault_def split: list.splits)

lemma wp_return [sql_wp]: "Q a db \<Longrightarrow> wp F (sql_return a) Q E now db"
  by (simp add: wp_def sql_return_def)

lemma wp_lift [sql_wp]:
  "(\<And>e. r = Inl e \<Longrightarrow> E e db) \<Longrightarrow> (\<And>a. r = Inr a \<Longrightarrow> Q a db) \<Longrightarrow> wp F (sql_lift r) Q E now db"
  by (auto simp: wp_def sql_lift_def split: sum.splits)

lemma wp_bind [sql_wp]:
  assumes "wp F m (\<lambda>a. wp F (f a) Q E now) E now db"
  shows "wp F (sql_bind m f) Q E now db"
proof (rule wpI)
  fix c :: conn assume c: "conn_db c = db" "conn_now c = now" "F \<or> conn_faults c = []"
  obtain r c' where m: "m c = (r, c')" by (cases "m c")
  note s = wp_run [OF assms [folded c(1,2)] c(3) m]
  show "conn_now (snd (sql_bind m f c)) = now \<and> (F \<or> conn_faults (snd (sql_bind m f c)) = []) \<and>
    (case fst (sql_bind m f c) of Inl e \<Rightarrow> E e (conn_db (snd (sql_bind m f c))) | Inr a \<Rightarrow> Q a (conn_db (snd (sql_bind m f c))))"
  proof (cases r)
    case (Inl e)
    with s m c show ?thesis by (simp add: sql_bind_def)
  next
    case (Inr a)
    obtain r2 c2 where f: "f a c' = (r2, c2)" by (cases "f a c'")
    have "wp F (f a) Q E (conn_now c') (conn_db c')" using s Inr c by simp
    note s2 = wp_run [OF this _ f]
    have "sql_bind m f c = (r2, c2)" using m f Inr by (simp add: sql_bind_def)
    then show ?thesis using s2 s c Inr by (simp split: sum.splits)
  qed
qed

lemma wp_statement:
  assumes "case run now db of Inl e \<Rightarrow> E (map_error e) db | Inr (a, db') \<Rightarrow> Q a db'" "F \<Longrightarrow> \<forall>e. E (map_error e) db"
  shows "wp F (statement run) Q E now db"
proof (rule wpI)
  fix c :: conn assume c: "conn_db c = db" "conn_now c = now" "F \<or> conn_faults c = []"
  obtain f c' where n: "next_fault c = (f, c')" by (cases "next_fault c")
  have c': "conn_db c' = db" "conn_now c' = now" "F \<or> (f = None \<and> conn_faults c' = [])"
    using next_fault_facts [of c] n c by auto
  show "conn_now (snd (statement run c)) = now \<and> (F \<or> conn_faults (snd (statement run c)) = []) \<and>
    (case fst (statement run c) of Inl e \<Rightarrow> E e (conn_db (snd (statement run c)))
     | Inr a \<Rightarrow> Q a (conn_db (snd (statement run c))))"
    using assms c' n by (cases f) (auto simp: statement_def split: sum.splits prod.splits)
qed

lemma wp_query [sql_wp]:
  "Q (q db) db \<Longrightarrow> (F \<Longrightarrow> \<forall>e. E (map_error e) db) \<Longrightarrow> wp F (query q) Q E now db"
  by (simp add: query_def wp_statement)

lemma wp_execute [sql_wp]:
  "Q () (upd now db) \<Longrightarrow> (F \<Longrightarrow> \<forall>e. E (map_error e) db) \<Longrightarrow> wp F (execute upd) Q E now db"
  by (simp add: execute_def wp_statement)

lemma wp_execute_checked [sql_wp]:
  "(constraint db \<Longrightarrow> Q () (upd now db)) \<Longrightarrow> (\<not> constraint db \<Longrightarrow> E (map_error violated) db) \<Longrightarrow>
   (F \<Longrightarrow> \<forall>e. E (map_error e) db) \<Longrightarrow> wp F (execute_checked constraint violated upd) Q E now db"
  by (simp add: execute_checked_def wp_statement)

lemma wp_transaction [sql_wp]:
  assumes body: "wp F body (\<lambda>a db'. Q a db' \<and> (F \<longrightarrow> (\<forall>e. E (map_error e) db))) (\<lambda>e _. E e db) now db"
    and start: "F \<Longrightarrow> \<forall>e. E (map_error e) db"
  shows "wp F (transaction body) Q E now db"
proof (rule wpI)
  fix c :: conn assume c: "conn_db c = db" "conn_now c = now" "F \<or> conn_faults c = []"
  obtain f0 c0 where n0: "next_fault c = (f0, c0)" by (cases "next_fault c")
  have c0: "conn_db c0 = db" "conn_now c0 = now" "F \<or> (f0 = None \<and> conn_faults c0 = [])"
    using next_fault_facts [of c] n0 c by auto
  obtain r1 c1 where b: "body c0 = (r1, c1)" by (cases "body c0")
  have "F \<or> conn_faults c0 = []" using c0(3) by auto
  note s = wp_run [OF body [folded c0(1,2)] this b]
  obtain f2 c2 where n2: "next_fault c1 = (f2, c2)" by (cases "next_fault c1")
  have c2: "conn_db c2 = conn_db c1" "conn_now c2 = conn_now c1" "F \<or> (f2 = None \<and> conn_faults c2 = [])"
    using next_fault_facts [of c1] n2 s(2) by auto
  show "conn_now (snd (transaction body c)) = now \<and> (F \<or> conn_faults (snd (transaction body c)) = []) \<and>
    (case fst (transaction body c) of Inl e \<Rightarrow> E e (conn_db (snd (transaction body c)))
     | Inr a \<Rightarrow> Q a (conn_db (snd (transaction body c))))"
    using start c c0 s c2 n0 b n2 by (cases f0; cases r1; cases f2) (auto simp: transaction_def)
qed

lemma wp_if [sql_wp]:
  "(b \<Longrightarrow> wp F m Q E now db) \<Longrightarrow> (\<not> b \<Longrightarrow> wp F n Q E now db) \<Longrightarrow> wp F (if b then m else n) Q E now db"
  by simp

lemma wp_option [sql_wp]:
  "(x = None \<Longrightarrow> wp F m Q E now db) \<Longrightarrow> (\<And>a. x = Some a \<Longrightarrow> wp F (f a) Q E now db) \<Longrightarrow>
   wp F (case x of None \<Rightarrow> m | Some a \<Rightarrow> f a) Q E now db"
  by (cases x) simp_all

text \<open>A loop keeps an invariant over the elements already done.\<close>

lemma wp_for:
  assumes "I [] db" "\<And>ys x db'. \<exists>zs. xs = ys @ x # zs \<Longrightarrow> I ys db' \<Longrightarrow> wp F (f x) (\<lambda>_. I (ys @ [x])) E now db'"
    "\<And>db'. I xs db' \<Longrightarrow> Q () db'"
  shows "wp F (sql_for f xs) Q E now db"
proof -
  have "xs = ds @ ys \<Longrightarrow> I ds db' \<Longrightarrow> wp F (sql_for f ys) Q E now db'" for ds ys db'
  proof (induction ys arbitrary: ds db')
    case Nil
    then show ?case using assms(3) by (auto intro: wp_return)
  next
    case (Cons y ys)
    have "wp F (f y) (\<lambda>_. I (ds @ [y])) E now db'" using assms(2) Cons.prems by blast
    then have "wp F (f y) (\<lambda>_. wp F (sql_for f ys) Q E now) E now db'"
      by (rule wp_mono) (use Cons.IH [of "ds @ [y]"] Cons.prems in auto)
    then show ?case by (simp add: wp_bind)
  qed
  from this [of "[]" xs db] assms(1) show ?thesis by simp
qed

text \<open>An operation that only reads.\<close>

definition reads :: "'a sql \<Rightarrow> bool" where
  "reads m \<longleftrightarrow> (\<forall>now db. wp True m (\<lambda>_ db'. db' = db) (\<lambda>_ db'. db' = db) now db)"

named_theorems sql_reads \<open>operations that do not change the database\<close>

lemma readsI [sql_reads]:
  "reads (sql_return a)" "reads (sql_lift r)" "reads (query q)"
  "reads m \<Longrightarrow> (\<And>a. reads (f a)) \<Longrightarrow> reads (sql_bind m f)"
  "reads m \<Longrightarrow> reads n \<Longrightarrow> reads (if b then m else n)"
proof -
  show "reads (sql_return a)" "reads (sql_lift r)" "reads (query q)"
    by (auto simp: reads_def intro!: sql_wp split: sum.splits)
  show "reads (sql_bind m f)" if r: "reads m" "\<And>a. reads (f a)"
    unfolding reads_def
  proof (intro allI wp_bind)
    fix now db
    have "wp True m (\<lambda>_ db'. db' = db) (\<lambda>_ db'. db' = db) now db" using r(1) by (simp add: reads_def)
    then show "wp True m (\<lambda>a. wp True (f a) (\<lambda>_ db'. db' = db) (\<lambda>_ db'. db' = db) now) (\<lambda>_ db'. db' = db) now db"
      by (rule wp_mono) (use r(2) in \<open>auto simp: reads_def\<close>)
  qed
  show "reads m \<Longrightarrow> reads n \<Longrightarrow> reads (if b then m else n)" by simp
qed

lemma reads_option [sql_reads]: "reads m \<Longrightarrow> (\<And>a. reads (f a)) \<Longrightarrow> reads (case x of None \<Rightarrow> m | Some a \<Rightarrow> f a)"
  by (cases x) simp_all

lemma reads_map [sql_reads]: "(\<And>x. reads (f x)) \<Longrightarrow> reads (sql_map f xs)"
  by (induction xs) (auto intro!: sql_reads)

lemma reads_db: "reads m \<Longrightarrow> conn_db (snd (m c)) = conn_db c"
  using wp_run(3) [of True m "\<lambda>_ db'. db' = conn_db c" "\<lambda>_ db'. db' = conn_db c" c "fst (m c)" "snd (m c)"]
  by (auto simp: reads_def split: sum.splits)

lemma reads_now: "reads m \<Longrightarrow> conn_now (snd (m c)) = conn_now c"
  using wp_run(1) [of True m "\<lambda>_ db'. db' = conn_db c" "\<lambda>_ db'. db' = conn_db c" c "fst (m c)" "snd (m c)"]
  by (simp add: reads_def)

lemma wp_reads: "reads m \<Longrightarrow> (\<And>a. Q a db) \<Longrightarrow> (\<And>e. E e db) \<Longrightarrow> wp True m Q E now db"
  by (rule wp_mono [of True m "\<lambda>_ db'. db' = db" "\<lambda>_ db'. db' = db"]) (auto simp: reads_def)

text \<open>Running an operation step by step.\<close>

lemmas run_sql = sql_bind_def sql_lift_def sql_return_def query_def execute_def execute_checked_def statement_def next_fault_def
  transaction_def Let_def

section \<open>Failing statements\<close>

text \<open>
  An operation is \<open>stable\<close> if it does the same whenever it succeeds, whatever statements might have failed, and \<open>all_or_nothing\<close> if
  a failing statement leaves the database untouched or as a run without failures leaves it.
\<close>

definition working :: "conn \<Rightarrow> conn" where "working c = c\<lparr>conn_faults := []\<rparr>"

lemma working_simps [simp]: "conn_db (working c) = conn_db c" "conn_now (working c) = conn_now c" "conn_faults (working c) = []"
  "working (c\<lparr>conn_db := db\<rparr>) = (working c)\<lparr>conn_db := db\<rparr>"
  by (simp_all add: working_def)

definition stable :: "'a sql \<Rightarrow> bool" where
  "stable m \<longleftrightarrow> (\<forall>c a c'. m c = (Inr a, c') \<longrightarrow> m (working c) = (Inr a, working c'))"

definition all_or_nothing :: "'a sql \<Rightarrow> bool" where
  "all_or_nothing m \<longleftrightarrow> (\<forall>c. conn_db (snd (m c)) = conn_db c \<or> conn_db (snd (m c)) = conn_db (snd (m (working c))))"

named_theorems sql_stable \<open>operations that do the same whenever they succeed\<close>
named_theorems sql_atomic \<open>operations that take effect as a whole\<close>

lemma next_fault_none: "next_fault c = (None, c') \<Longrightarrow> working c' = working c \<and> conn_db c' = conn_db c \<and> conn_now c' = conn_now c"
  by (auto simp: next_fault_def working_def split: list.splits)

lemma next_fault_working [simp]: "next_fault (working c) = (None, working c)"
  by (simp add: next_fault_def)

lemma statement_ok: "statement run c = (Inr a, c') \<longleftrightarrow>
    (\<exists>c1 db. next_fault c = (None, c1) \<and> run (conn_now c1) (conn_db c1) = Inr (a, db) \<and> c' = c1\<lparr>conn_db := db\<rparr>)"
  by (auto simp: statement_def split: prod.splits option.splits sum.splits)

lemma stable_statement: "stable (statement run)"
  unfolding stable_def
proof (intro allI impI)
  fix c a c' assume "statement run c = (Inr a, c')"
  then obtain c1 db where c1: "next_fault c = (None, c1)" "run (conn_now c1) (conn_db c1) = Inr (a, db)" "c' = c1\<lparr>conn_db := db\<rparr>"
    by (auto simp: statement_ok)
  with next_fault_none [OF c1(1)] show "statement run (working c) = (Inr a, working c')"
    by (simp add: statement_def)
qed

lemma stable_bind:
  assumes "stable m" "\<And>a. stable (f a)"
  shows "stable (sql_bind m f)"
  unfolding stable_def
proof (intro allI impI)
  fix c b c' assume b: "sql_bind m f c = (Inr b, c')"
  then obtain a c1 where m: "m c = (Inr a, c1)" "f a c1 = (Inr b, c')"
    by (auto simp: sql_bind_def split: prod.splits sum.splits)
  with assms have "m (working c) = (Inr a, working c1)" "f a (working c1) = (Inr b, working c')"
    by (auto simp: stable_def)
  then show "sql_bind m f (working c) = (Inr b, working c')" by (simp add: sql_bind_def)
qed

lemma transaction_ok: "transaction m c = (Inr a, c') \<longleftrightarrow>
    (\<exists>c0 c1. next_fault c = (None, c0) \<and> m c0 = (Inr a, c1) \<and> next_fault c1 = (None, c'))"
  by (auto simp: transaction_def split: prod.splits option.splits sum.splits)

lemma stable_transaction:
  assumes "stable m"
  shows "stable (transaction m)"
  unfolding stable_def
proof (intro allI impI)
  fix c a c' assume "transaction m c = (Inr a, c')"
  then obtain c0 c1 where s: "next_fault c = (None, c0)" "m c0 = (Inr a, c1)" "next_fault c1 = (None, c')"
    by (auto simp: transaction_ok)
  have "m (working c0) = (Inr a, working c1)" using assms s(2) by (auto simp: stable_def)
  with next_fault_none [OF s(1)] next_fault_none [OF s(3)]
  show "transaction m (working c) = (Inr a, working c')" by (auto simp: transaction_ok)
qed

lemma stableI [sql_stable]:
  "stable (sql_return a)" "stable (sql_lift r)" "stable (statement run)" "stable (query q)" "stable (execute upd)"
  "stable (execute_checked constraint violated upd)"
  "stable m \<Longrightarrow> (\<And>a. stable (f a)) \<Longrightarrow> stable (sql_bind m f)" "stable m \<Longrightarrow> stable (transaction m)"
  "stable m \<Longrightarrow> stable n \<Longrightarrow> stable (if b then m else n)"
proof -
  show "stable (statement run)" by (rule stable_statement)
  show "stable (query q)" "stable (execute upd)" "stable (execute_checked constraint violated upd)"
    by (simp_all add: query_def execute_def execute_checked_def stable_statement)
  show "stable m \<Longrightarrow> (\<And>a. stable (f a)) \<Longrightarrow> stable (sql_bind m f)" by (rule stable_bind)
  show "stable m \<Longrightarrow> stable (transaction m)" by (rule stable_transaction)
qed (auto simp: stable_def sql_return_def sql_lift_def)

lemma stable_option [sql_stable]: "stable m \<Longrightarrow> (\<And>a. stable (f a)) \<Longrightarrow> stable (case x of None \<Rightarrow> m | Some a \<Rightarrow> f a)"
  by (cases x) simp_all

lemma stable_loops [sql_stable]:
  "(\<And>x. stable (g x)) \<Longrightarrow> stable (sql_for g xs)" "(\<And>x. stable (f x)) \<Longrightarrow> stable (sql_map f xs)"
  by (induction xs) (auto intro!: sql_stable)

text \<open>What a reading operation returns is what it returns when nothing fails.\<close>

lemma wp_reads_stable:
  assumes "reads m" "stable m"
  shows "wp True m (\<lambda>a db'. db' = db \<and> fst (m \<lparr>conn_db = db, conn_now = now, conn_faults = []\<rparr>) = Inr a) (\<lambda>_ db'. db' = db) now db"
proof (rule wpI)
  fix c :: conn assume c: "conn_db c = db" "conn_now c = now"
  obtain r c' where m: "m c = (r, c')" by (cases "m c")
  have w: "working c = \<lparr>conn_db = db, conn_now = now, conn_faults = []\<rparr>" using c by (simp add: working_def)
  have "conn_db c' = db" using reads_db [OF assms(1), of c] m c(1) by simp
  moreover have "conn_now c' = now" using reads_now [OF assms(1), of c] m c(2) by simp
  moreover have "fst (m \<lparr>conn_db = db, conn_now = now, conn_faults = []\<rparr>) = Inr a" if "r = Inr a" for a
  proof -
    have "m (working c) = (Inr a, working c')" using assms(2) m that by (simp add: stable_def)
    then show ?thesis by (simp add: w)
  qed
  ultimately show "conn_now (snd (m c)) = now \<and> (True \<or> conn_faults (snd (m c)) = []) \<and> (case fst (m c) of
      Inl e \<Rightarrow> conn_db (snd (m c)) = db
    | Inr a \<Rightarrow> conn_db (snd (m c)) = db \<and> fst (m \<lparr>conn_db = db, conn_now = now, conn_faults = []\<rparr>) = Inr a)"
    using m by (cases r) auto
qed

lemma atomic_reads: "reads m \<Longrightarrow> all_or_nothing m"
  by (simp add: all_or_nothing_def reads_db)

lemma atomic_statement: "all_or_nothing (statement run)"
  unfolding all_or_nothing_def
proof
  fix c
  obtain f c1 where n: "next_fault c = (f, c1)" by (cases "next_fault c")
  have "conn_db c1 = conn_db c" "conn_now c1 = conn_now c" using next_fault_facts [of c] n by simp_all
  then show "conn_db (snd (statement run c)) = conn_db c \<or> conn_db (snd (statement run c)) = conn_db (snd (statement run (working c)))"
    using n by (auto simp: statement_def split: option.splits sum.splits prod.splits)
qed

lemma atomic_transaction:
  assumes "stable m"
  shows "all_or_nothing (transaction m)"
  unfolding all_or_nothing_def
proof
  fix c
  obtain r c' where t: "transaction m c = (r, c')" by (cases "transaction m c")
  have "transaction m (working c) = (r, working c')" if "r = Inr a" for a
    using stable_transaction [OF assms] t that by (simp add: stable_def)
  moreover have "conn_db c' = conn_db c" if "r = Inl e" for e
    using t that next_fault_facts [of c] by (auto simp: transaction_def split: prod.splits option.splits sum.splits)
  ultimately show "conn_db (snd (transaction m c)) = conn_db c \<or> conn_db (snd (transaction m c)) = conn_db (snd (transaction m (working c)))"
    using t by (cases r) auto
qed

lemma atomic_bind_first:
  assumes "reads m" "stable m" "\<And>a. all_or_nothing (f a)"
  shows "all_or_nothing (sql_bind m f)"
  unfolding all_or_nothing_def
proof
  fix c
  obtain r c1 where m: "m c = (r, c1)" by (cases "m c")
  have db: "conn_db c1 = conn_db c" using reads_db [OF assms(1), of c] m by simp
  show "conn_db (snd (sql_bind m f c)) = conn_db c \<or> conn_db (snd (sql_bind m f c)) = conn_db (snd (sql_bind m f (working c)))"
  proof (cases r)
    case (Inr a)
    then have "m (working c) = (Inr a, working c1)" using assms(2) m by (simp add: stable_def)
    moreover have "conn_db (snd (f a c1)) = conn_db c1 \<or> conn_db (snd (f a c1)) = conn_db (snd (f a (working c1)))"
      using assms(3) by (simp add: all_or_nothing_def)
    ultimately show ?thesis using m Inr db by (simp add: sql_bind_def)
  qed (use m db in \<open>simp add: sql_bind_def\<close>)
qed

lemma atomic_bind_last:
  assumes "all_or_nothing m" "stable m" "\<And>a. reads (f a)"
  shows "all_or_nothing (sql_bind m f)"
proof -
  have "conn_db (snd (sql_bind m f c)) = conn_db (snd (m c))" for c
    using reads_db [OF assms(3)] by (auto simp: sql_bind_def split: prod.splits sum.splits)
  with assms(1) show ?thesis by (simp add: all_or_nothing_def)
qed

lemma atomicI [sql_atomic]:
  "all_or_nothing (sql_return a)" "all_or_nothing (sql_lift r)" "all_or_nothing (statement run)" "all_or_nothing (query q)"
  "all_or_nothing (execute upd)" "all_or_nothing (execute_checked constraint violated upd)"
  "stable m \<Longrightarrow> all_or_nothing (transaction m)"
  "all_or_nothing m \<Longrightarrow> all_or_nothing n \<Longrightarrow> all_or_nothing (if b then m else n)"
  by (auto intro: atomic_reads readsI atomic_statement atomic_transaction simp: query_def execute_def execute_checked_def)

end
