(* ===== verification/Storage_Documents.thy ===== *)
theory Storage_Documents
  imports Storage_Base Document_Job
begin

text \<open>
  Document jobs in the database (\<open>crates/linguamesh-storage/src/lib.rs\<close>): the checks of a job and of its options, saving, loading,
  listing, updating a segment, changing the state and deleting.
\<close>

section \<open>Names\<close>

definition document_configuration_error :: "string \<Rightarrow> TranslationError" where
  "document_configuration_error msg = TranslationError_new InvalidConfiguration msg"

fun document_error_message :: "DocumentError \<Rightarrow> string" where
  "document_error_message DocumentTooLarge = ''The document exceeds the 4 MiB limit.''"
| "document_error_message InvalidUtf8 = ''The document is not valid UTF-8 text.''"
| "document_error_message UnsupportedFormat = ''The document format is not supported.''"
| "document_error_message InvalidStructure = ''The document structure is invalid.''"
| "document_error_message InvalidXlsxSelection = ''The XLSX sheet or cell range selection is invalid.''"
| "document_error_message OutputTooLarge = ''The reconstructed document exceeds the 4 MiB limit.''"
| "document_error_message (UnknownSegment n) = ''The document segment is not present.''"
| "document_error_message (VerbatimSegment n) = ''The document structure segment must remain unchanged.''"
| "document_error_message (SegmentIncomplete n) = ''The document segment is not translated.''"
| "document_error_message PdfTextEncodingUnsupported = ''The PDF text requires an alternative structured export.''"

definition map_document_error :: "DocumentError \<Rightarrow> TranslationError" where
  "map_document_error e = TranslationError_new InvalidConfiguration (document_error_message e)"

fun document_format_name :: "DocumentFormat \<Rightarrow> string" where
  "document_format_name Txt = ''txt''"
| "document_format_name Markdown = ''markdown''"
| "document_format_name Srt = ''srt''"
| "document_format_name WebVtt = ''webvtt''"
| "document_format_name Csv = ''csv''"
| "document_format_name Html = ''html''"
| "document_format_name JsonFormat = ''json''"
| "document_format_name Docx = ''docx''"
| "document_format_name Pptx = ''pptx''"
| "document_format_name Xlsx = ''xlsx''"
| "document_format_name Epub = ''epub''"
| "document_format_name Pdf = ''pdf''"

definition parse_document_format :: "string \<Rightarrow> TranslationError + DocumentFormat" where
  "parse_document_format value =
     (if value = ''txt'' then Ok Txt
      else if value = ''markdown'' then Ok Markdown
      else if value = ''srt'' then Ok Srt
      else if value = ''webvtt'' then Ok WebVtt
      else if value = ''csv'' then Ok Csv
      else if value = ''html'' then Ok Html
      else if value = ''json'' then Ok JsonFormat
      else if value = ''docx'' then Ok Docx
      else if value = ''pptx'' then Ok Pptx
      else if value = ''xlsx'' then Ok Xlsx
      else if value = ''epub'' then Ok Epub
      else if value = ''pdf'' then Ok Pdf
      else Err (TranslationError_new Persistence ''The stored document format is invalid.''))"

fun document_job_state_name :: "DocumentJobState \<Rightarrow> string" where
  "document_job_state_name JobPending = ''pending''"
| "document_job_state_name JobRunning = ''running''"
| "document_job_state_name JobPaused = ''paused''"
| "document_job_state_name JobCompleted = ''completed''"
| "document_job_state_name JobCancelled = ''cancelled''"
| "document_job_state_name JobFailed = ''failed''"

definition parse_document_job_state :: "string \<Rightarrow> TranslationError + DocumentJobState" where
  "parse_document_job_state value =
     (if value = ''pending'' then Ok JobPending
      else if value = ''running'' then Ok JobRunning
      else if value = ''paused'' then Ok JobPaused
      else if value = ''completed'' then Ok JobCompleted
      else if value = ''cancelled'' then Ok JobCancelled
      else if value = ''failed'' then Ok JobFailed
      else Err (TranslationError_new Persistence ''The stored document job state is invalid.''))"

fun document_segment_kind_name :: "DocumentSegmentKind \<Rightarrow> string" where
  "document_segment_kind_name Prose = ''prose''"
| "document_segment_kind_name Verbatim = ''verbatim''"

definition parse_document_segment_kind :: "string \<Rightarrow> TranslationError + DocumentSegmentKind" where
  "parse_document_segment_kind value =
     (if value = ''prose'' then Ok Prose
      else if value = ''verbatim'' then Ok Verbatim
      else Err (TranslationError_new Persistence ''The stored document segment kind is invalid.''))"

definition parse_document_quality_mode :: "string \<Rightarrow> TranslationError + TranslationQualityMode" where
  "parse_document_quality_mode value =
     (if value = ''fast'' then Ok Fast
      else if value = ''balanced'' then Ok Balanced
      else if value = ''best'' then Ok Best
      else Err (TranslationError_new Persistence ''The stored document quality mode is invalid.''))"

lemma stored_format [simp]: "parse_document_format (document_format_name f) = Ok f"
  by (cases f) (simp_all add: parse_document_format_def)

lemma stored_state [simp]: "parse_document_job_state (document_job_state_name s) = Ok s"
  by (cases s) (simp_all add: parse_document_job_state_def)

lemma stored_kind [simp]: "parse_document_segment_kind (document_segment_kind_name k) = Ok k"
  by (cases k) (simp_all add: parse_document_segment_kind_def)

lemma stored_quality [simp]: "parse_document_quality_mode (quality_as_str q) = Ok q"
  by (cases q) (simp_all add: parse_document_quality_mode_def)

section \<open>Checks\<close>

definition MAX_DOCUMENT_JOBS :: nat where "MAX_DOCUMENT_JOBS = 100"
definition MAX_DOCUMENT_SEGMENTS :: nat where "MAX_DOCUMENT_SEGMENTS = 10000"
definition MAX_DOCUMENT_JOB_TEXT_BYTES :: nat where "MAX_DOCUMENT_JOB_TEXT_BYTES = MAX_DOCUMENT_BYTES"
definition MAX_DOCUMENT_JOB_OPTION_TEXT_BYTES :: nat where "MAX_DOCUMENT_JOB_OPTION_TEXT_BYTES = 256"
definition MAX_DOCUMENT_JOB_GLOSSARY_BYTES :: nat where "MAX_DOCUMENT_JOB_GLOSSARY_BYTES = 256 * 1024"
definition MAX_DOCUMENT_JOB_PRESET_BYTES :: nat where "MAX_DOCUMENT_JOB_PRESET_BYTES = 8 * 1024"

record DocumentJobOptions =
  opt_source_locale :: "string option"
  opt_target_locale :: string
  opt_model_id :: string
  opt_provider_id :: string
  opt_routing_profile_id :: "string option"
  opt_quality_mode :: TranslationQualityMode
  opt_translation_preset :: TranslationPreset
  opt_glossary :: "Glossary option"

record DocumentJobSnapshot =
  snap_job_id :: string
  snap_state :: DocumentJobState
  snap_job :: DocumentJob
  snap_options :: "DocumentJobOptions option"
  snap_created_at :: int
  snap_updated_at :: int

text \<open>What the operations use of \<open>serde_json\<close>.\<close>

record stored_json =
  preset_to_string :: "TranslationPreset \<Rightarrow> string option"
  preset_from_str :: "string \<Rightarrow> TranslationPreset option"
  glossary_to_string :: "Glossary \<Rightarrow> string option"
  glossary_from_str :: "string \<Rightarrow> Glossary option"

definition line_endings :: "string list" where "line_endings = [[], [lf], [cr, lf], [cr]]"

text \<open>The loop over the segments; \<open>checked_add\<close> fails at \<open>usize::MAX\<close>.\<close>

definition checked_add :: "nat \<Rightarrow> nat \<Rightarrow> nat option" where
  "checked_add a b = (if a + b < 2 ^ 64 then Some (a + b) else None)"

fun check_segments :: "nat \<Rightarrow> nat \<Rightarrow> nat \<Rightarrow> DocumentSegment list \<Rightarrow> TranslationError + nat \<times> nat" where
  "check_segments expected source translated [] = Ok (source, translated)"
| "check_segments expected source translated (s # ss) =
     (if seg_index s \<noteq> expected \<or> seg_ending s \<notin> set line_endings
      then Err (document_configuration_error ''The document segment ordering or line ending is invalid.'')
      else if seg_kind s = Verbatim \<and> seg_translated s \<noteq> None
      then Err (document_configuration_error ''A document structure segment cannot contain a translation.'')
      else and_then (ok_or (document_configuration_error ''The document source is too large.'')
             (checked_add source (length (seg_source s)))) (\<lambda>source'.
           and_then (case seg_translated s of None \<Rightarrow> Ok translated
             | Some t \<Rightarrow> ok_or (document_configuration_error ''The translated document is too large.'')
                 (checked_add translated (length t))) (\<lambda>translated'.
           check_segments (expected + 1) source' translated' ss)))"

definition validate_document_job_identity :: "string \<Rightarrow> DocumentJob \<Rightarrow> TranslationError + unit" where
  "validate_document_job_identity job_id job =
     (if job_id = [] \<or> length job_id > 128 \<or> list_ex is_control (chars job_id)
      then Err (document_configuration_error ''The document job ID is invalid.'')
      else if job_source_name job = [] \<or> length (job_source_name job) > 255
        \<or> list_ex (\<lambda>c. is_control c \<or> c = ''/'' \<or> c = [CHR 0x5C]) (chars (job_source_name job))
      then Err (document_configuration_error ''The document source name is invalid.'')
      else if length (segments job) > MAX_DOCUMENT_SEGMENTS
      then Err (document_configuration_error ''The document contains too many segments.'')
      else if package_format (job_format job) \<noteq> (package job \<noteq> None)
      then Err (document_configuration_error ''The package payload is missing or attached to another format.'')
      else if (case package job of None \<Rightarrow> False | Some p \<Rightarrow> length p > MAX_DOCUMENT_BYTES)
      then Err (document_configuration_error ''The package exceeds the local size limit.'')
      else and_then (check_segments 0 0 0 (segments job)) (\<lambda>(source_bytes, translated_bytes).
        if source_bytes > MAX_DOCUMENT_JOB_TEXT_BYTES \<or> translated_bytes > MAX_DOCUMENT_JOB_TEXT_BYTES
        then Err (document_configuration_error ''The document text exceeds the local size limit.'')
        else Ok ()))"

definition validate_document_option_text :: "string \<Rightarrow> string \<Rightarrow> TranslationError + unit" where
  "validate_document_option_text value msg =
     (if value = [] \<or> length value > MAX_DOCUMENT_JOB_OPTION_TEXT_BYTES \<or> list_ex is_control (chars value)
      then Err (document_configuration_error msg) else Ok ())"

definition validate_optional_option_text :: "string option \<Rightarrow> string \<Rightarrow> TranslationError + unit" where
  "validate_optional_option_text value msg =
     (case value of None \<Rightarrow> Ok () | Some v \<Rightarrow> validate_document_option_text v msg)"

definition validate_document_job_options :: "stored_json \<Rightarrow> DocumentJobOptions \<Rightarrow> TranslationError + unit" where
  "validate_document_job_options j options =
     and_then (validate_optional_option_text (opt_source_locale options) ''The document source locale is invalid.'') (\<lambda>_.
     and_then (validate_document_option_text (opt_target_locale options) ''The document target locale is invalid.'') (\<lambda>_.
     and_then (map_err (\<lambda>_. document_configuration_error ''The document model identifier is invalid.'')
       (validate_model_identifier (opt_model_id options))) (\<lambda>_.
     and_then (map_err (\<lambda>_. document_configuration_error ''The document provider identifier is invalid.'')
       (ProviderProfileId_parse (opt_provider_id options))) (\<lambda>_.
     and_then (validate_optional_option_text (opt_routing_profile_id options)
       ''The document routing profile identifier is invalid.'') (\<lambda>_.
     and_then (case opt_glossary options of None \<Rightarrow> Ok ()
       | Some g \<Rightarrow>
           and_then (map_err (\<lambda>_. document_configuration_error ''The document glossary is invalid.'') (Glossary_validate g)) (\<lambda>_.
           and_then (ok_or (document_configuration_error ''The document glossary could not be serialized.'')
             (glossary_to_string j g)) (\<lambda>encoded.
           if length encoded > MAX_DOCUMENT_JOB_GLOSSARY_BYTES
           then Err (document_configuration_error ''The document glossary exceeds the local size limit.'') else Ok ()))) (\<lambda>_.
     and_then (map_err (\<lambda>_. document_configuration_error ''The document translation preset is invalid.'')
       (TranslationPreset_validate (opt_translation_preset options))) (\<lambda>_.
     and_then (ok_or (document_configuration_error ''The document translation preset could not be serialized.'')
       (preset_to_string j (opt_translation_preset options))) (\<lambda>preset_bytes.
     if length preset_bytes > MAX_DOCUMENT_JOB_PRESET_BYTES
     then Err (document_configuration_error ''The document translation preset exceeds the local size limit.'')
     else Ok ()))))))))"

section \<open>Loading\<close>

text \<open>\<open>SELECT ... FROM document_segments WHERE job_id = ?1 ORDER BY segment_index ASC\<close>.\<close>

definition select_segments :: "string \<Rightarrow> database \<Rightarrow> (int \<times> segment_row) list" where
  "select_segments job_id db =
     sort_key fst (map (\<lambda>((j, i), r). (i, r)) (filter (\<lambda>((j, i), r). j = job_id) (document_segments_table db)))"

definition segment_from_row :: "int \<times> segment_row \<Rightarrow> TranslationError + DocumentSegment" where
  "segment_from_row = (\<lambda>(i, r).
     if i < 0 then Err (TranslationError_new Persistence ''The stored document segment index is invalid.'')
     else and_then (parse_document_segment_kind (segment_row_kind r)) (\<lambda>kind.
       Ok \<lparr>seg_index = nat i, seg_kind = kind, seg_source = segment_row_source r,
           seg_translated = segment_row_translated r, seg_ending = segment_row_ending r\<rparr>))"

text \<open>\<open>value.map(f).transpose()\<close>.\<close>

definition map_transpose :: "('a \<Rightarrow> 'e + 'b) \<Rightarrow> 'a option \<Rightarrow> 'e + 'b option" where
  "map_transpose f v = (case v of None \<Rightarrow> Ok None | Some a \<Rightarrow> and_then (f a) (\<lambda>b. Ok (Some b)))"

definition options_from_row :: "stored_json \<Rightarrow> options_row \<Rightarrow> TranslationError + DocumentJobOptions" where
  "options_from_row j r =
     and_then (map_transpose parse_document_quality_mode (options_quality_mode r)) (\<lambda>quality.
     and_then (map_transpose (\<lambda>s. ok_or (TranslationError_new Persistence ''The stored document translation preset is invalid.'')
       (preset_from_str j s)) (options_preset_json r)) (\<lambda>translation_preset.
     and_then (map_transpose (\<lambda>s. ok_or (TranslationError_new Persistence ''The stored document glossary is invalid.'')
       (glossary_from_str j s)) (options_glossary_json r)) (\<lambda>stored_glossary.
     let options = \<lparr>opt_source_locale = options_source_locale r, opt_target_locale = options_target_locale r,
       opt_model_id = options_model_id r, opt_provider_id = options_provider_id r,
       opt_routing_profile_id = options_routing_profile_id r,
       opt_quality_mode = (case quality of None \<Rightarrow> Balanced | Some q \<Rightarrow> q),
       opt_translation_preset = (case translation_preset of None \<Rightarrow> preset_general | Some p \<Rightarrow> p),
       opt_glossary = stored_glossary\<rparr> in
     and_then (map_err (\<lambda>_. TranslationError_new Persistence ''The stored document translation options are invalid.'')
       (validate_document_job_options j options)) (\<lambda>_. Ok options))))"

definition load_document_job_options :: "stored_json \<Rightarrow> string \<Rightarrow> DocumentJobOptions option sql" where
  "load_document_job_options j job_id =
     sql_bind (query (\<lambda>db. map_of (document_options_table db) job_id)) (\<lambda>stored.
     sql_lift (map_transpose (options_from_row j) stored))"

definition load_document_job :: "stored_json \<Rightarrow> string \<Rightarrow> DocumentJobSnapshot option sql" where
  "load_document_job j job_id =
     sql_bind (query (\<lambda>db. map_of (document_jobs_table db) job_id)) (\<lambda>metadata.
     case metadata of None \<Rightarrow> sql_return None
     | Some r \<Rightarrow>
         sql_bind (query (select_segments job_id)) (\<lambda>rows.
         sql_bind (sql_lift (try_map segment_from_row rows)) (\<lambda>segs.
         sql_bind (sql_lift (parse_document_format (job_row_format r))) (\<lambda>format.
         let job = \<lparr>job_format = format, job_source_name = job_row_source_name r, segments = segs,
           package = job_row_package r\<rparr> in
         sql_bind (sql_lift (validate_document_job_identity job_id job)) (\<lambda>_.
         sql_bind (load_document_job_options j job_id) (\<lambda>options.
         sql_bind (sql_lift (parse_document_job_state (job_row_state r))) (\<lambda>state.
         sql_return (Some \<lparr>snap_job_id = job_id, snap_state = state, snap_job = job, snap_options = options,
           snap_created_at = job_row_created r, snap_updated_at = job_row_updated r\<rparr>))))))))"

definition document_job :: "stored_json \<Rightarrow> string \<Rightarrow> DocumentJobSnapshot option sql" where
  "document_job j job_id = load_document_job j job_id"

text \<open>\<open>self.document_job(job_id)?.ok_or_else(...)\<close>.\<close>

definition document_job_or :: "stored_json \<Rightarrow> TranslationError \<Rightarrow> string \<Rightarrow> DocumentJobSnapshot sql" where
  "document_job_or j missing job_id = sql_bind (document_job j job_id) (\<lambda>s. sql_lift (ok_or missing s))"

definition document_jobs :: "stored_json \<Rightarrow> nat \<Rightarrow> DocumentJobSnapshot list sql" where
  "document_jobs j limit =
     sql_bind (query (\<lambda>db. map fst (take (min limit MAX_DOCUMENT_JOBS)
       (newest_first job_row_updated (document_jobs_table db))))) (\<lambda>job_ids.
     sql_map (document_job_or j (TranslationError_new Persistence
       ''A document job disappeared while it was being listed.'')) job_ids)"

definition resumable_document_jobs :: "stored_json \<Rightarrow> DocumentJobSnapshot list sql" where
  "resumable_document_jobs j =
     sql_bind (query (\<lambda>db. map fst (oldest_first job_row_updated
       (filter (\<lambda>(k, r). job_row_state r \<in> {''pending'', ''running'', ''paused''}) (document_jobs_table db))))) (\<lambda>job_ids.
     sql_map (document_job_or j (TranslationError_new Persistence
       ''A resumable document job disappeared while it was being listed.'')) job_ids)"

section \<open>Changing\<close>

definition insert_segment :: "string \<Rightarrow> DocumentSegment \<Rightarrow> unit sql" where
  "insert_segment job_id s = execute_checked
     (\<lambda>db. job_id \<in> fst ` set (document_jobs_table db) \<and>
        (job_id, int (seg_index s)) \<notin> fst ` set (document_segments_table db) \<and> seg_ending s \<in> set line_endings)
     ''constraint failed''
     (\<lambda>now db. db\<lparr>document_segments_table := document_segments_table db @
        [((job_id, int (seg_index s)), \<lparr>segment_row_kind = document_segment_kind_name (seg_kind s),
           segment_row_source = seg_source s, segment_row_translated = seg_translated s,
           segment_row_ending = seg_ending s\<rparr>)]\<rparr>)"

definition upsert_job :: "string \<Rightarrow> DocumentJob \<Rightarrow> DocumentJobState \<Rightarrow> int \<Rightarrow> database \<Rightarrow> database" where
  "upsert_job job_id job state now db = db\<lparr>document_jobs_table := upsert job_id
     \<lparr>job_row_state = document_job_state_name state, job_row_format = document_format_name (job_format job),
      job_row_source_name = job_source_name job, job_row_package = package job, job_row_created = now, job_row_updated = now\<rparr>
     (\<lambda>r. r\<lparr>job_row_state := document_job_state_name state, job_row_format := document_format_name (job_format job),
      job_row_source_name := job_source_name job, job_row_package := package job, job_row_updated := now\<rparr>)
     (document_jobs_table db)\<rparr>"

definition write_document_job :: "string \<Rightarrow> DocumentJob \<Rightarrow> DocumentJobState \<Rightarrow> unit sql" where
  "write_document_job job_id job state =
     sql_bind (query (\<lambda>db. map_of (document_jobs_table db) job_id \<noteq> None)) (\<lambda>exists.
     sql_bind (if exists then sql_return ()
       else sql_bind (query (\<lambda>db. length (document_jobs_table db))) (\<lambda>count.
         if count \<ge> MAX_DOCUMENT_JOBS
         then sql_lift (Err (document_configuration_error ''The local document job limit has been reached.''))
         else sql_return ())) (\<lambda>_.
     sql_bind (execute (upsert_job job_id job state)) (\<lambda>_.
     sql_bind (execute (\<lambda>now db. db\<lparr>document_segments_table :=
       delete_where (\<lambda>(k, i). k = job_id) (document_segments_table db)\<rparr>)) (\<lambda>_.
     sql_for (insert_segment job_id) (segments job)))))"

definition save_document_job ::
  "stored_json \<Rightarrow> string \<Rightarrow> DocumentJob \<Rightarrow> DocumentJobState \<Rightarrow> DocumentJobSnapshot sql" where
  "save_document_job j job_id job state =
     sql_bind (sql_lift (validate_document_job_identity job_id job)) (\<lambda>_.
     if state = JobCompleted \<and> pending_count job \<noteq> 0
     then sql_lift (Err (document_configuration_error ''A completed document job still has untranslated segments.''))
     else sql_bind (transaction (write_document_job job_id job state)) (\<lambda>_.
       document_job_or j (TranslationError_new Persistence ''The saved document job could not be reloaded.'') job_id))"

text \<open>The foreign key of the options refers to the jobs.\<close>

definition save_document_job_options :: "stored_json \<Rightarrow> string \<Rightarrow> DocumentJobOptions \<Rightarrow> DocumentJobSnapshot sql" where
  "save_document_job_options j job_id options =
     sql_bind (sql_lift (validate_document_job_options j options)) (\<lambda>_.
     sql_bind (sql_lift (map_transpose (\<lambda>g. ok_or (TranslationError_new InvalidConfiguration
       ''The document glossary could not be serialized.'') (glossary_to_string j g)) (opt_glossary options))) (\<lambda>glossary_text.
     sql_bind (sql_lift (ok_or (TranslationError_new InvalidConfiguration
       ''The document translation preset could not be serialized.'') (preset_to_string j (opt_translation_preset options))))
       (\<lambda>preset_text.
     sql_bind (execute_checked (\<lambda>db. job_id \<in> fst ` set (document_jobs_table db)) ''FOREIGN KEY constraint failed''
       (\<lambda>now db. let row = \<lparr>options_source_locale = opt_source_locale options, options_target_locale = opt_target_locale options,
          options_model_id = opt_model_id options, options_provider_id = opt_provider_id options,
          options_routing_profile_id = opt_routing_profile_id options,
          options_quality_mode = Some (quality_as_str (opt_quality_mode options)), options_preset_json = Some preset_text,
          options_glossary_json = glossary_text, options_updated = now\<rparr> in
        db\<lparr>document_options_table := upsert job_id row (\<lambda>_. row) (document_options_table db)\<rparr>)) (\<lambda>_.
     document_job_or j (TranslationError_new Persistence ''The document job options could not be reloaded.'') job_id))))"

definition set_document_job_state :: "stored_json \<Rightarrow> string \<Rightarrow> DocumentJobState \<Rightarrow> DocumentJobSnapshot sql" where
  "set_document_job_state j job_id state =
     sql_bind (statement (\<lambda>now db. Ok (map_of (document_jobs_table db) job_id \<noteq> None,
       db\<lparr>document_jobs_table := update_where job_id
          (\<lambda>r. r\<lparr>job_row_state := document_job_state_name state, job_row_updated := now\<rparr>) (document_jobs_table db)\<rparr>))) (\<lambda>changed.
     if \<not> changed then sql_lift (Err (TranslationError_new InvalidConfiguration ''The document job was not found.''))
     else document_job_or j (TranslationError_new Persistence ''The document job state could not be reloaded.'') job_id)"

definition update_document_segment ::
  "serde_json \<Rightarrow> stored_json \<Rightarrow> string \<Rightarrow> nat \<Rightarrow> string \<Rightarrow> DocumentJobSnapshot sql" where
  "update_document_segment sj j job_id index translated_text =
     (if length translated_text > MAX_DOCUMENT_JOB_TEXT_BYTES
      then sql_lift (Err (document_configuration_error ''The translated document segment exceeds the local size limit.''))
      else sql_bind (document_job_or j (TranslationError_new InvalidConfiguration ''The document job was not found.'') job_id)
        (\<lambda>snapshot.
        sql_bind (sql_lift (map_err map_document_error (apply_translation sj (snap_job snapshot) index translated_text)))
          (\<lambda>job.
        save_document_job j job_id job (if pending_count job = 0 then JobCompleted else JobRunning))))"

definition delete_jobs :: "(string \<Rightarrow> bool) \<Rightarrow> database \<Rightarrow> database" where
  "delete_jobs p db = db\<lparr>document_jobs_table := delete_where p (document_jobs_table db),
     document_segments_table := delete_where (\<lambda>(k, i). p k) (document_segments_table db),
     document_options_table := delete_where p (document_options_table db)\<rparr>"

definition delete_document_job :: "string \<Rightarrow> bool sql" where
  "delete_document_job job_id = statement (\<lambda>now db.
     Ok (map_of (document_jobs_table db) job_id \<noteq> None, delete_jobs (\<lambda>k. k = job_id) db))"

definition clear_document_jobs :: "unit sql" where
  "clear_document_jobs = execute (\<lambda>now. delete_jobs (\<lambda>_. True))"

section \<open>What a saved job leaves behind\<close>

definition row_of_segment :: "DocumentSegment \<Rightarrow> segment_row" where
  "row_of_segment s = \<lparr>segment_row_kind = document_segment_kind_name (seg_kind s),
     segment_row_source = seg_source s, segment_row_translated = seg_translated s, segment_row_ending = seg_ending s\<rparr>"

definition rows_of :: "string \<Rightarrow> DocumentSegment list \<Rightarrow> ((string \<times> int) \<times> segment_row) list" where
  "rows_of job_id ss = map (\<lambda>s. ((job_id, int (seg_index s)), row_of_segment s)) ss"

definition segment_rows ::
  "string \<Rightarrow> ((string \<times> int) \<times> segment_row) list \<Rightarrow> ((string \<times> int) \<times> segment_row) list" where
  "segment_rows job_id segs = filter (\<lambda>((j, i), r). j = job_id) segs"

definition job_stored :: "(string \<times> document_job_row) list \<Rightarrow> ((string \<times> int) \<times> segment_row) list \<Rightarrow>
  string \<Rightarrow> DocumentJob \<Rightarrow> DocumentJobState \<Rightarrow> bool" where
  "job_stored jobs segs job_id job state \<longleftrightarrow>
     (\<exists>r. map_of jobs job_id = Some r \<and> job_row_state r = document_job_state_name state \<and>
        job_row_format r = document_format_name (job_format job) \<and> job_row_source_name r = job_source_name job \<and>
        job_row_package r = package job) \<and>
     segment_rows job_id segs = rows_of job_id (segments job)"

lemma check_segments_indices:
  "check_segments k a b ss = Ok x \<Longrightarrow> map seg_index ss = [k ..< k + length ss]"
proof (induction k a b ss arbitrary: x rule: check_segments.induct)
  case (2 expected source translated s ss)
  then show ?case by (cases x) (auto simp: result_iff upt_conv_Cons simp del: upt_Suc split: if_splits)
qed simp

lemma validated_indices:
  assumes "validate_document_job_identity job_id job = Ok u"
  shows "map seg_index (segments job) = [0 ..< length (segments job)]"
proof -
  from assms obtain x where "check_segments 0 0 0 (segments job) = Ok x"
    by (auto simp: validate_document_job_identity_def result_iff split: if_splits)
  from check_segments_indices [OF this] show ?thesis by simp
qed

lemma try_map_rows: "try_map segment_from_row (map (\<lambda>s. (int (seg_index s), row_of_segment s)) ss) = Ok ss"
  by (induction ss) (simp_all add: segment_from_row_def row_of_segment_def)

lemma select_stored:
  assumes "segment_rows job_id (document_segments_table db) = rows_of job_id (segments job)" "map seg_index (segments job) = [0 ..< n]"
  shows "select_segments job_id db = map (\<lambda>s. (int (seg_index s), row_of_segment s)) (segments job)"
proof -
  let ?m = "map (\<lambda>s. (int (seg_index s), row_of_segment s)) (segments job)"
  have "map fst ?m = map int (map seg_index (segments job))" by simp
  also have "\<dots> = map int [0 ..< n]" by (simp only: assms(2))
  finally have "map fst ?m = map int [0 ..< n]" .
  then have "sorted (map fst ?m)" by (simp add: sorted_map sorted_wrt_mono_rel [OF _ sorted_upt])
  moreover have "select_segments job_id db = sort_key fst ?m"
    using assms(1) by (simp add: select_segments_def segment_rows_def rows_of_def comp_def)
  ultimately show ?thesis by (simp add: sort_key_sorted)
qed

lemma reads_load [sql_reads]: "reads (load_document_job j job_id)"
  unfolding load_document_job_def load_document_job_options_def Let_def by (intro sql_reads)

lemma reads_document_job_or [sql_reads]: "reads (document_job j job_id)" "reads (document_job_or j e job_id)"
  unfolding document_job_or_def document_job_def by (intro sql_reads)+

text \<open>Loading gives the stored job back.\<close>

lemma load_stored:
  assumes stored: "job_stored (document_jobs_table db) (document_segments_table db) job_id job state" and valid: "validate_document_job_identity job_id job = Ok ()"
  shows "wp True (document_job j job_id) (\<lambda>s db'. db' = db \<and> (\<exists>snap. s = Some snap \<and> snap_job_id snap = job_id \<and>
    snap_job snap = job \<and> snap_state snap = state \<and>
    (\<exists>r. map_of (document_jobs_table db) job_id = Some r \<and> snap_created_at snap = job_row_created r \<and>
      snap_updated_at snap = job_row_updated r) \<and>
    map_transpose (options_from_row j) (map_of (document_options_table db) job_id) = Ok (snap_options snap)))
    (\<lambda>_ db'. db' = db) now db"
proof -
  have rows: "try_map segment_from_row (select_segments job_id db) = Ok (segments job)"
    using select_stored [OF _ validated_indices [OF valid]] stored by (simp add: job_stored_def try_map_rows)
  from stored obtain r where r: "map_of (document_jobs_table db) job_id = Some r"
    "job_row_state r = document_job_state_name state" "job_row_format r = document_format_name (job_format job)"
    "job_row_source_name r = job_source_name job" "job_row_package r = package job" by (auto simp: job_stored_def)
  show ?thesis
    unfolding document_job_def load_document_job_def load_document_job_options_def Let_def
    by (intro sql_wp) (auto simp: r rows valid)
qed

text \<open>What the transaction of \<open>save_document_job\<close> commits.\<close>

definition saved_db :: "string \<Rightarrow> DocumentJob \<Rightarrow> DocumentJobState \<Rightarrow> int \<Rightarrow> database \<Rightarrow> database" where
  "saved_db job_id job state now db = (upsert_job job_id job state now db)\<lparr>document_segments_table :=
     delete_where (\<lambda>(k, i). k = job_id) (document_segments_table db) @ rows_of job_id (segments job)\<rparr>"

definition room_for_job :: "string \<Rightarrow> database \<Rightarrow> bool" where
  "room_for_job job_id db \<longleftrightarrow>
     job_id \<in> fst ` set (document_jobs_table db) \<or> length (document_jobs_table db) < MAX_DOCUMENT_JOBS"

lemma check_segments_endings:
  "check_segments k a b ss = Ok x \<Longrightarrow> \<forall>s \<in> set ss. seg_ending s \<in> set line_endings"
  by (induction k a b ss arbitrary: x rule: check_segments.induct) (auto simp: result_iff split: if_splits)

lemma validated_segments:
  assumes "validate_document_job_identity job_id job = Ok u"
  shows "map seg_index (segments job) = [0 ..< length (segments job)]"
    "\<forall>s \<in> set (segments job). seg_ending s \<in> set line_endings"
proof -
  from assms obtain x where x: "check_segments 0 0 0 (segments job) = Ok x"
    by (auto simp: validate_document_job_identity_def result_iff split: if_splits)
  show "\<forall>s \<in> set (segments job). seg_ending s \<in> set line_endings" by (rule check_segments_endings [OF x])
qed (rule validated_indices [OF assms])

lemma wp_insert_segments:
  assumes "map seg_index ss = [0 ..< length ss]" "\<forall>s \<in> set ss. seg_ending s \<in> set line_endings"
    "job_id \<in> fst ` set (document_jobs_table db)" "job_id \<notin> fst ` fst ` set (document_segments_table db)"
  shows "wp F (sql_for (insert_segment job_id) ss)
    (\<lambda>_ db'. db' = db\<lparr>document_segments_table := document_segments_table db @ rows_of job_id ss\<rparr>) (\<lambda>_ _. F) now db"
proof (rule wp_for [where I = "\<lambda>ys db'. db' = db\<lparr>document_segments_table := document_segments_table db @ rows_of job_id ys\<rparr>"])
  fix ys s db'
  assume ys: "\<exists>zs. ss = ys @ s # zs" and db': "db' = db\<lparr>document_segments_table := document_segments_table db @ rows_of job_id ys\<rparr>"
  from ys assms(1) have "distinct (map seg_index (ys @ [s]))"
    by (metis append.assoc append_Cons append_Nil distinct_append distinct_upt map_append)
  then have new: "(job_id, int (seg_index s)) \<notin> fst ` set (document_segments_table db')"
    using assms(4) db' by (force simp: rows_of_def)
  show "wp F (insert_segment job_id s) (\<lambda>_ db'. db' = db\<lparr>document_segments_table := document_segments_table db @ rows_of job_id (ys @ [s])\<rparr>)
      (\<lambda>_ _. F) now db'"
    unfolding insert_segment_def using new ys assms(2,3) db'
    by (intro sql_wp) (auto simp: rows_of_def row_of_segment_def)
qed (simp_all add: rows_of_def)

lemma wp_write_document_job:
  assumes valid: "validate_document_job_identity job_id job = Ok u"
  shows "wp F (write_document_job job_id job state) (\<lambda>_ db'. db' = saved_db job_id job state now db \<and> room_for_job job_id db)
    (\<lambda>_ _. F \<or> \<not> room_for_job job_id db) now db"
proof -
  let ?up = "upsert_job job_id job state now db"
  let ?db = "?up\<lparr>document_segments_table := delete_where (\<lambda>(k, i). k = job_id) (document_segments_table ?up)\<rparr>"
  have "wp F (sql_for (insert_segment job_id) (segments job))
      (\<lambda>_ db'. db' = ?db\<lparr>document_segments_table := document_segments_table ?db @ rows_of job_id (segments job)\<rparr>) (\<lambda>_ _. F) now ?db"
    by (rule wp_insert_segments [OF validated_segments [OF valid]]) (auto simp: upsert_job_def)
  then have loop: "wp F (sql_for (insert_segment job_id) (segments job))
      (\<lambda>_ db'. db' = saved_db job_id job state now db \<and> room_for_job job_id db) (\<lambda>_ _. F \<or> \<not> room_for_job job_id db) now ?db"
    if "room_for_job job_id db"
    by (rule wp_mono) (simp_all add: saved_db_def upsert_job_def that)
  show ?thesis
    unfolding write_document_job_def
    by (intro sql_wp loop) (auto simp: room_for_job_def map_of_eq_None_iff dest: map_of_SomeD intro: rev_image_eqI)
qed

lemma segment_rows_saved:
  "segment_rows k (document_segments_table (saved_db job_id job state now db)) =
    (if k = job_id then rows_of job_id (segments job) else segment_rows k (document_segments_table db))"
proof -
  have "filter (\<lambda>((j, i), r). j = k) (rows_of job_id ss) = (if k = job_id then rows_of job_id ss else [])" for ss
    by (induction ss) (auto simp: rows_of_def)
  moreover have "filter (\<lambda>((j, i), r). j = k) (delete_where (\<lambda>(k, i). k = job_id) t) =
      (if k = job_id then [] else filter (\<lambda>((j, i), r). j = k) t)" for t :: "((string \<times> int) \<times> segment_row) list"
    by (induction t) (auto simp: delete_where_def)
  ultimately show ?thesis by (simp add: segment_rows_def saved_db_def)
qed

lemma job_stored_saved:
  "job_stored (document_jobs_table (saved_db job_id job state now db)) (document_segments_table (saved_db job_id job state now db))
     job_id job state"
  by (simp add: job_stored_def segment_rows_saved)
    (auto simp: saved_db_def upsert_job_def map_of_upsert split: option.splits)

lemma stable_documents [sql_stable]:
  "stable (document_job j job_id)" "stable (document_job_or j e job_id)" "stable (insert_segment job_id s)"
  "stable (write_document_job job_id job state)" "stable (save_document_job j job_id job state)"
  unfolding document_job_or_def document_job_def load_document_job_def load_document_job_options_def Let_def insert_segment_def
    write_document_job_def save_document_job_def
  by (intro sql_stable)+

text \<open>The whole operation: it commits exactly the new job, or nothing.\<close>

definition loaded :: "stored_json \<Rightarrow> string \<Rightarrow> int \<Rightarrow> database \<Rightarrow> TranslationError + DocumentJobSnapshot option" where
  "loaded j job_id now db = fst (document_job j job_id \<lparr>conn_db = db, conn_now = now, conn_faults = []\<rparr>)"

lemma loaded_working: "fst (document_job j job_id (working c)) = loaded j job_id (conn_now c) (conn_db c)"
  by (cases c) (simp add: loaded_def working_def)

lemma wp_document_job: "wp True (document_job j job_id) (\<lambda>s db'. db' = db \<and> loaded j job_id now db = Ok s) (\<lambda>_ db'. db' = db) now db"
  unfolding loaded_def by (rule wp_reads_stable [OF reads_document_job_or(1) stable_documents(1)])

definition job_saved :: "string \<Rightarrow> DocumentJob \<Rightarrow> DocumentJobState \<Rightarrow> int \<Rightarrow> database \<Rightarrow> database \<Rightarrow> bool" where
  "job_saved job_id job state now db db' \<longleftrightarrow> db' = saved_db job_id job state now db \<and> room_for_job job_id db \<and>
     validate_document_job_identity job_id job = Ok ()"

lemma wp_save_document_job:
  "wp True (save_document_job j job_id job state)
     (\<lambda>snap db'. job_saved job_id job state now db db' \<and> snap_job_id snap = job_id \<and> snap_job snap = job \<and> snap_state snap = state \<and>
        snap_updated_at snap = now \<and> loaded j job_id now db' = Ok (Some snap))
     (\<lambda>_ db'. db' = db \<or> job_saved job_id job state now db db') now db"
proof -
  let ?new = "saved_db job_id job state now db"
  have reload: "wp True (document_job_or j e job_id)
      (\<lambda>snap db'. job_saved job_id job state now db db' \<and> snap_job_id snap = job_id \<and> snap_job snap = job \<and> snap_state snap = state \<and>
        snap_updated_at snap = now \<and> loaded j job_id now db' = Ok (Some snap))
      (\<lambda>_ db'. db' = db \<or> job_saved job_id job state now db db') now ?new"
    if v: "validate_document_job_identity job_id job = Ok ()" and room: "room_for_job job_id db" for e
    unfolding document_job_or_def
    by (intro wp_bind, rule wp_mono [OF wp_conj [OF load_stored [OF job_stored_saved v] wp_document_job]])
      (auto intro!: sql_wp simp: job_saved_def v room saved_db_def upsert_job_def map_of_upsert split: option.splits)
  show ?thesis
    unfolding save_document_job_def
    by (intro sql_wp; (rule wp_mono [OF wp_write_document_job])?) (auto simp: reload)
qed

text \<open>Everything that does not belong to one job.\<close>

definition without_job :: "string \<Rightarrow> database \<Rightarrow> database" where
  "without_job job_id db = db\<lparr>document_jobs_table := delete_where (\<lambda>k. k = job_id) (document_jobs_table db),
     document_segments_table := delete_where (\<lambda>(k, i). k = job_id) (document_segments_table db)\<rparr>"

lemma without_job_saved: "job_saved job_id job state now db db' \<Longrightarrow> without_job job_id db' = without_job job_id db"
proof -
  have "delete_where (\<lambda>(k, i). k = job_id) (rows_of job_id ss) = []" for ss
    by (induction ss) (simp_all add: rows_of_def delete_where_def)
  then show "job_saved job_id job state now db db' \<Longrightarrow> without_job job_id db' = without_job job_id db"
    by (simp add: job_saved_def without_job_def saved_db_def upsert_job_def)
qed

text \<open>
  C36: Saving a document job is all or nothing, whatever statements fail: after a success the stored job is exactly the given one, and
  loading it gives the returned snapshot; after an error the database is unchanged or holds the whole job. No other job and no
  other table changes in either case.
\<close>

theorem document_job_saved_as_a_whole:
  "let (r, c') = save_document_job j job_id job state c in
     without_job job_id (conn_db c') = without_job job_id (conn_db c) \<and>
     (case r of
        Inr snap \<Rightarrow> snap_job_id snap = job_id \<and> snap_job snap = job \<and> snap_state snap = state \<and> snap_updated_at snap = conn_now c \<and>
          fst (document_job j job_id (working c')) = Ok (Some snap)
      | Inl e \<Rightarrow> conn_db c' = conn_db c \<or> conn_db c' = saved_db job_id job state (conn_now c) (conn_db c))"
proof -
  obtain r c' where s: "save_document_job j job_id job state c = (r, c')" by (cases "save_document_job j job_id job state c")
  note facts = wp_run(1,3) [OF wp_save_document_job disjI1 [OF TrueI] s]
  show ?thesis
    using facts without_job_saved [of job_id job state "conn_now c" "conn_db c" "conn_db c'"]
    by (auto simp: s loaded_working job_saved_def split: sum.splits)
qed

text \<open>
  C37: Translating one segment advances the stored job: the new job is the stored one with this translation applied, and it is completed
  exactly if no segment is left without translation.
\<close>

theorem segment_update_advances_job:
  "let (r, c') = update_document_segment sj j job_id index translated_text c in
     without_job job_id (conn_db c') = without_job job_id (conn_db c) \<and>
     (case r of
        Inr snap \<Rightarrow> fst (document_job j job_id (working c')) = Ok (Some snap) \<and>
          snap_state snap = (if pending_count (snap_job snap) = 0 then JobCompleted else JobRunning) \<and>
          (\<exists>old. fst (document_job j job_id (working c)) = Ok (Some old) \<and>
             apply_translation sj (snap_job old) index translated_text = Ok (snap_job snap))
      | Inl e \<Rightarrow> True)"
proof -
  obtain r c' where s: "update_document_segment sj j job_id index translated_text c = (r, c')"
    by (cases "update_document_segment sj j job_id index translated_text c")
  let ?now = "conn_now c" and ?db = "conn_db c"
  let ?Q = "\<lambda>snap db'. without_job job_id db' = without_job job_id ?db \<and> loaded j job_id ?now db' = Ok (Some snap) \<and>
    snap_state snap = (if pending_count (snap_job snap) = 0 then JobCompleted else JobRunning) \<and>
    (\<exists>old. loaded j job_id ?now ?db = Ok (Some old) \<and>
       apply_translation sj (snap_job old) index translated_text = Ok (snap_job snap))"
  let ?E = "\<lambda>_ db'. without_job job_id db' = without_job job_id ?db"
  have save: "wp True (save_document_job j job_id job (if pending_count job = 0 then JobCompleted else JobRunning)) ?Q ?E ?now ?db"
    if "loaded j job_id ?now ?db = Ok (Some old)" "apply_translation sj (snap_job old) index translated_text = Ok job" for old job
    by (rule wp_mono [OF wp_save_document_job]) (use that in \<open>auto dest: without_job_saved\<close>)
  have "wp True (update_document_segment sj j job_id index translated_text) ?Q ?E ?now ?db"
    unfolding update_document_segment_def document_job_or_def
    by (intro wp_if wp_lift wp_bind, simp, simp, rule wp_mono [OF wp_document_job], clarify, intro sql_wp save)
      (auto simp: result_iff)
  from wp_run(1,3) [OF this disjI1 [OF TrueI] s] show ?thesis
    by (auto simp: s loaded_working split: sum.splits)
qed

section \<open>The invariant of the job tables\<close>

text \<open>
  Jobs are unique and at most \<open>MAX_DOCUMENT_JOBS\<close>, segments and options belong to jobs, and every job can be loaded: its rows are those
  of a job that passes the checks. The options of a job are stored as JSON and read by another query, which this does not cover.
\<close>

definition loadable :: "(string \<times> document_job_row) list \<Rightarrow> ((string \<times> int) \<times> segment_row) list \<Rightarrow> string \<Rightarrow> bool" where
  "loadable jobs segs k \<longleftrightarrow> (\<exists>job state. validate_document_job_identity k job = Ok () \<and> job_stored jobs segs k job state)"

definition jobs_ok :: "(string \<times> document_job_row) list \<Rightarrow> ((string \<times> int) \<times> segment_row) list \<Rightarrow> (string \<times> options_row) list \<Rightarrow> bool" where
  "jobs_ok jobs segs opts \<longleftrightarrow> distinct (map fst jobs) \<and> length jobs \<le> MAX_DOCUMENT_JOBS \<and> distinct (map fst opts) \<and>
     fst ` set opts \<subseteq> fst ` set jobs \<and> fst ` fst ` set segs \<subseteq> fst ` set jobs \<and> (\<forall>k \<in> fst ` set jobs. loadable jobs segs k)"

lemma jobs_ok_saved:
  assumes ok: "jobs_ok (document_jobs_table db) (document_segments_table db) (document_options_table db)"
    and saved: "job_saved job_id job state now db db'"
  shows "jobs_ok (document_jobs_table db') (document_segments_table db') (document_options_table db')"
proof -
  let ?new = "saved_db job_id job state now db"
  have db': "db' = ?new" and room: "room_for_job job_id db" and valid: "validate_document_job_identity job_id job = Ok ()"
    using saved by (simp_all add: job_saved_def)
  have keys: "fst ` set (document_jobs_table ?new) = insert job_id (fst ` set (document_jobs_table db))"
    by (simp add: saved_db_def upsert_job_def)
  have len: "length (document_jobs_table ?new) \<le> MAX_DOCUMENT_JOBS"
    using ok room by (auto simp: jobs_ok_def saved_db_def upsert_job_def length_upsert room_for_job_def map_of_eq_None_iff)
  have "loadable (document_jobs_table ?new) (document_segments_table ?new) k" if "k \<in> insert job_id (fst ` set (document_jobs_table db))" for k
  proof (cases "k = job_id")
    case True
    with valid job_stored_saved [of job_id job state now db] show ?thesis unfolding loadable_def by blast
  next
    case False
    then have "map_of (document_jobs_table ?new) k = map_of (document_jobs_table db) k"
      by (simp add: saved_db_def upsert_job_def map_of_upsert)
    moreover have "loadable (document_jobs_table db) (document_segments_table db) k"
      using that False ok unfolding jobs_ok_def by blast
    ultimately show ?thesis using False by (simp add: loadable_def job_stored_def segment_rows_saved)
  qed
  moreover have "fst ` fst ` set (document_segments_table ?new) \<subseteq> insert job_id (fst ` set (document_jobs_table db))"
  proof -
    have "fst ` fst ` set (document_segments_table ?new) \<subseteq> insert job_id (fst ` fst ` set (document_segments_table db))"
      by (auto simp: saved_db_def rows_of_def delete_where_def intro: rev_image_eqI)
    moreover have "fst ` fst ` set (document_segments_table db) \<subseteq> fst ` set (document_jobs_table db)"
      using ok unfolding jobs_ok_def by blast
    ultimately show ?thesis by blast
  qed
  moreover have "distinct (map fst (document_jobs_table ?new))" "document_options_table ?new = document_options_table db"
    using ok by (simp_all add: jobs_ok_def saved_db_def upsert_job_def)
  moreover have "fst ` set (document_options_table db) \<subseteq> insert job_id (fst ` set (document_jobs_table db))"
    "distinct (map fst (document_options_table db))"
    using ok unfolding jobs_ok_def by blast+
  ultimately show ?thesis using len unfolding db' jobs_ok_def keys by (intro conjI ballI) simp_all
qed

lemma jobs_ok_options:
  "jobs_ok jobs segs opts \<Longrightarrow> job_id \<in> fst ` set jobs \<Longrightarrow> jobs_ok jobs segs (upsert job_id new upd opts)"
  by (simp add: jobs_ok_def)

lemma jobs_ok_state:
  assumes "jobs_ok jobs segs opts"
  shows "jobs_ok (update_where job_id (\<lambda>r. r\<lparr>job_row_state := document_job_state_name state, job_row_updated := now\<rparr>) jobs) segs opts"
    (is "jobs_ok ?jobs segs opts")
proof -
  have "loadable ?jobs segs k" if k: "k \<in> fst ` set jobs" for k
  proof -
    have "loadable jobs segs k" using assms k unfolding jobs_ok_def by blast
    then obtain job1 state1 where "validate_document_job_identity k job1 = Ok ()" "job_stored jobs segs k job1 state1"
      unfolding loadable_def by blast
    then have "validate_document_job_identity k job1 = Ok () \<and> job_stored ?jobs segs k job1 (if k = job_id then state else state1)"
      by (auto simp: job_stored_def map_of_update_where)
    then show ?thesis unfolding loadable_def by blast
  qed
  with assms show ?thesis unfolding jobs_ok_def keys_update_where map_fst_update_where by (simp add: length_update_where)
qed

lemma jobs_ok_delete:
  assumes "jobs_ok (document_jobs_table db) (document_segments_table db) (document_options_table db)"
  shows "jobs_ok (document_jobs_table (delete_jobs p db)) (document_segments_table (delete_jobs p db)) (document_options_table (delete_jobs p db))"
proof -
  let ?jobs = "delete_where p (document_jobs_table db)" and ?segs = "delete_where (\<lambda>(k, i). p k) (document_segments_table db)"
  have rows: "segment_rows k (delete_where (\<lambda>(k, i). p k) segs) = segment_rows k segs" if "\<not> p k" for k segs
    using that by (induction segs) (auto simp: segment_rows_def delete_where_def)
  have "loadable ?jobs ?segs k" if k: "k \<in> fst ` set ?jobs" for k
  proof -
    have "loadable (document_jobs_table db) (document_segments_table db) k" "\<not> p k"
      using assms k unfolding jobs_ok_def keys_delete_where by blast+
    then show ?thesis by (simp add: loadable_def job_stored_def map_of_delete_where rows)
  qed
  moreover have "length ?jobs \<le> MAX_DOCUMENT_JOBS"
    using assms delete_where_sub(2) [of p "document_jobs_table db"] by (simp add: jobs_ok_def del: delete_where_sub(2))
  moreover have "fst ` fst ` set ?segs \<subseteq> fst ` set ?jobs"
  proof -
    have "fst ` {x \<in> A. \<not> (case x of (k, i) \<Rightarrow> p k)} \<subseteq> {k \<in> fst ` A. \<not> p k}" for A :: "(string \<times> int) set"
      by (auto simp: case_prod_unfold)
    then have "fst ` fst ` set ?segs \<subseteq> {k \<in> fst ` fst ` set (document_segments_table db). \<not> p k}"
      unfolding keys_delete_where .
    also have "\<dots> \<subseteq> {k \<in> fst ` set (document_jobs_table db). \<not> p k}"
      using assms by (intro Collect_mono) (simp add: jobs_ok_def subset_iff)
    finally show ?thesis by (simp only: keys_delete_where)
  qed
  moreover have "fst ` set (delete_where p (document_options_table db)) \<subseteq> fst ` set ?jobs"
    using assms unfolding jobs_ok_def keys_delete_where by blast
  moreover have "distinct (map fst (delete_where p (document_options_table db)))" "distinct (map fst ?jobs)"
    using assms by (simp_all add: jobs_ok_def)
  moreover have "document_jobs_table (delete_jobs p db) = ?jobs" "document_segments_table (delete_jobs p db) = ?segs"
    "document_options_table (delete_jobs p db) = delete_where p (document_options_table db)" by (simp_all add: delete_jobs_def)
  ultimately show ?thesis unfolding jobs_ok_def by metis
qed

section \<open>A completed job with work left\<close>

definition demo_stored_json :: stored_json where
  "demo_stored_json = \<lparr>preset_to_string = (\<lambda>_. None), preset_from_str = (\<lambda>_. None), glossary_to_string = (\<lambda>_. None), glossary_from_str = (\<lambda>_. None)\<rparr>"

definition demo_stored_job :: DocumentJob where
  "demo_stored_job = \<lparr>job_format = Txt, job_source_name = ''a.txt'',
     segments = [\<lparr>seg_index = 0, seg_kind = Prose, seg_source = ''Hi'', seg_translated = None, seg_ending = []\<rparr>], package = None\<rparr>"

lemma demo_stored_job_valid: "validate_document_job_identity ''j'' demo_stored_job = Ok ()"
proof -
  have "\<not> list_ex is_control (chars ''j'')" "\<not> list_ex (\<lambda>c. is_control c \<or> c = ''/'' \<or> c = [CHR 0x5C]) (chars ''a.txt'')"
    by code_simp+
  then show ?thesis
    by (simp add: validate_document_job_identity_def demo_stored_job_def package_format_def line_endings_def checked_add_def
      MAX_DOCUMENT_JOB_TEXT_BYTES_def MAX_DOCUMENT_BYTES_def MAX_DOCUMENT_SEGMENTS_def)
qed

lemma stored_names: "parse_document_format ''txt'' = Ok Txt" "parse_document_job_state ''completed'' = Ok JobCompleted"
  "parse_document_job_state ''running'' = Ok JobRunning" "parse_document_segment_kind ''prose'' = Ok Prose"
  by (simp_all add: parse_document_format_def parse_document_job_state_def parse_document_segment_kind_def)

text \<open>
  \<open>set_document_job_state\<close> does not make the check of \<open>save_document_job\<close>: a job with a segment that is not translated can be marked as
  completed, and from then on it is not offered for resuming.
\<close>

lemma completed_job_with_pending_segments:
  "\<exists>snap c1 c2. save_document_job demo_stored_json ''j'' demo_stored_job JobRunning \<lparr>conn_db = empty_database, conn_now = 7, conn_faults = []\<rparr> = (Ok snap, c1) \<and>
     set_document_job_state demo_stored_json ''j'' JobCompleted c1 = (Ok (snap\<lparr>snap_state := JobCompleted\<rparr>), c2) \<and>
     pending_count (snap_job snap) = 1 \<and> fst (resumable_document_jobs demo_stored_json c2) = Ok []"
proof -
  let ?snap = "\<lparr>snap_job_id = ''j'', snap_state = JobRunning, snap_job = demo_stored_job, snap_options = None,
     snap_created_at = 7, snap_updated_at = 7\<rparr>"
  let ?c = "\<lambda>s. \<lparr>conn_db = empty_database\<lparr>document_jobs_table := [(''j'', \<lparr>job_row_state = s, job_row_format = ''txt'',
      job_row_source_name = ''a.txt'', job_row_package = None, job_row_created = 7, job_row_updated = 7\<rparr>)],
    document_segments_table := [((''j'', 0), \<lparr>segment_row_kind = ''prose'', segment_row_source = ''Hi'',
      segment_row_translated = None, segment_row_ending = []\<rparr>)]\<rparr>, conn_now = 7, conn_faults = []\<rparr>"
  have load: "document_job demo_stored_json ''j'' (?c s) = (Ok (Some (?snap\<lparr>snap_state := st\<rparr>)), ?c s)"
    if "parse_document_job_state s = Ok st" for s st
    using that demo_stored_job_valid [unfolded demo_stored_job_def]
    by (simp add: document_job_def load_document_job_def load_document_job_options_def run_sql select_segments_def
      segment_from_row_def stored_names map_transpose_def empty_database_def demo_stored_job_def)
  have "save_document_job demo_stored_json ''j'' demo_stored_job JobRunning \<lparr>conn_db = empty_database, conn_now = 7, conn_faults = []\<rparr> = (Ok ?snap, ?c ''running'')"
    using load [OF stored_names(3)]
    by (simp add: save_document_job_def demo_stored_job_valid [unfolded demo_stored_job_def] write_document_job_def run_sql document_job_or_def upsert_job_def upsert_def
      insert_segment_def MAX_DOCUMENT_JOBS_def delete_where_def line_endings_def empty_database_def demo_stored_job_def)
  moreover have "set_document_job_state demo_stored_json ''j'' JobCompleted (?c ''running'') = (Ok (?snap\<lparr>snap_state := JobCompleted\<rparr>), ?c ''completed'')"
    using load [OF stored_names(2)] by (simp add: set_document_job_state_def run_sql document_job_or_def update_where_def empty_database_def)
  moreover have "fst (resumable_document_jobs demo_stored_json (?c ''completed'')) = Ok []"
    by (simp add: resumable_document_jobs_def run_sql empty_database_def oldest_first_def)
  moreover have "pending_count (snap_job ?snap) = 1" by (simp add: pending_count_def demo_stored_job_def)
  ultimately show ?thesis by blast
qed
end
