(* ===== verification/Storage_Records.thy ===== *)
theory Storage_Records
  imports Storage_Base Provider_Api Json
begin

text \<open>
  Translation history, usage records and translation memory in the database (\<open>crates/linguamesh-storage/src/lib.rs\<close>): the
  policies, recording with pruning, lookup, listing and deleting. \<open>to_text\<close> is \<open>serde_json::to_string\<close> on a JSON value.
\<close>

definition MAX_TRANSLATION_HISTORY_ENTRIES :: nat where "MAX_TRANSLATION_HISTORY_ENTRIES = 100"
definition MAX_TRANSLATION_HISTORY_TEXT_BYTES :: nat where "MAX_TRANSLATION_HISTORY_TEXT_BYTES = 4 * 1024 * 1024"
definition MAX_TRANSLATION_MEMORY_ENTRIES :: nat where "MAX_TRANSLATION_MEMORY_ENTRIES = 100"
definition MAX_TRANSLATION_MEMORY_TEXT_BYTES :: nat where "MAX_TRANSLATION_MEMORY_TEXT_BYTES = 4 * 1024 * 1024"
definition TRANSLATION_MEMORY_PROTECTED_SPAN_POLICY :: string where
  "TRANSLATION_MEMORY_PROTECTED_SPAN_POLICY = ''protected-spans-v1''"
definition TRANSLATION_MEMORY_PROMPT_TEMPLATE_VERSION :: string where
  "TRANSLATION_MEMORY_PROMPT_TEMPLATE_VERSION = ''translation-prompt-v3''"

section \<open>Usage\<close>

record UsageRecordEntry =
  usage_entry_operation_id :: string
  usage_entry_created_at :: int
  usage_entry_provider_id :: "string option"
  usage_entry_model_id :: string
  usage_entry_usage :: UsageRecord

definition usage_token_sql_value :: "u64 \<Rightarrow> int" where
  "usage_token_sql_value v = (if uint v < 2 ^ 63 then uint v else 2 ^ 63 - 1)"

definition usage_token_from_sql :: "int option \<Rightarrow> string + u64 option" where
  "usage_token_from_sql v = (case v of
       None \<Rightarrow> Ok None
     | Some n \<Rightarrow>
         if n < 0 then Err ''Conversion error from type Integer at index: 0, usage token count cannot be negative''
         else Ok (Some (word_of_int n)))"

fun usage_source_name :: "UsageSource \<Rightarrow> string" where
  "usage_source_name ProviderReported = ''provider_reported''"
| "usage_source_name LocallyEstimated = ''locally_estimated''"
| "usage_source_name UnknownUsage = ''unknown''"

definition usage_source_from_name :: "string \<Rightarrow> string + UsageSource" where
  "usage_source_from_name value =
     (if value = ''provider_reported'' then Ok ProviderReported
      else if value = ''locally_estimated'' then Ok LocallyEstimated
      else if value = ''unknown'' then Ok UnknownUsage
      else Err ''Conversion error from type Text at index: 4, usage source is invalid'')"

definition safe_usage_provider_id :: "string option \<Rightarrow> string option" where
  "safe_usage_provider_id identity = (case identity of
       None \<Rightarrow> None
     | Some i \<Rightarrow>
         let value = trim (takeWhile (\<lambda>b. b \<noteq> CHR ''@'') i) in
         if value = [] \<or> length value > 128
           \<or> \<not> list_all (\<lambda>b. is_ascii_alphanumeric b \<or> b = CHR ''.'' \<or> b = CHR ''_'' \<or> b = CHR ''-'') value
         then None else Some value)"

definition usage_record_from_row :: "string \<times> usage_row \<Rightarrow> string + UsageRecordEntry" where
  "usage_record_from_row = (\<lambda>(operation, r).
     and_then (usage_source_from_name (usage_source_label r)) (\<lambda>source.
     and_then (usage_token_from_sql (usage_input r)) (\<lambda>input.
     and_then (usage_token_from_sql (usage_output r)) (\<lambda>output.
     and_then (usage_token_from_sql (usage_total r)) (\<lambda>total.
     Ok \<lparr>usage_entry_operation_id = operation, usage_entry_created_at = usage_created r,
         usage_entry_provider_id = usage_provider r, usage_entry_model_id = usage_model r,
         usage_entry_usage = \<lparr>usage_source = source, input_tokens = input, output_tokens = output, total_tokens = total\<rparr>\<rparr>)))))"

definition usage_record_count :: "nat sql" where
  "usage_record_count = query (\<lambda>db. length (usage_table db))"

definition usage_records :: "nat \<Rightarrow> UsageRecordEntry list sql" where
  "usage_records limit = statement (\<lambda>now db. and_then
     (try_map usage_record_from_row (take (min limit MAX_TRANSLATION_HISTORY_ENTRIES) (newest_first usage_created (usage_table db))))
     (\<lambda>rows. Ok (rows, db)))"

section \<open>History\<close>

definition translation_history_count :: "nat sql" where
  "translation_history_count = query (\<lambda>db. length (history_table db))"

definition translation_history_enabled :: "bool sql" where
  "translation_history_enabled = query history_policy"

definition set_translation_history_enabled :: "bool \<Rightarrow> unit sql" where
  "set_translation_history_enabled flag = execute (\<lambda>now db. db\<lparr>history_policy := flag\<rparr>)"

text \<open>An entry is the operation with its row.\<close>

definition translation_history :: "nat \<Rightarrow> (string \<times> history_row) list sql" where
  "translation_history limit = query (\<lambda>db.
     take (min limit MAX_TRANSLATION_HISTORY_ENTRIES) (newest_first history_created (history_table db)))"

definition upsert_history :: "TranslationRequest \<Rightarrow> string \<Rightarrow> int \<Rightarrow> database \<Rightarrow> database" where
  "upsert_history request translated_text now db =
     (let row = \<lparr>history_created = now, history_source = source_text request, history_translated = translated_text,
        history_source_locale = request_source_locale request, history_target_locale = request_target_locale request,
        history_model = request_model_id request\<rparr> in
      db\<lparr>history_table := upsert (operation_id request) row (\<lambda>_. row) (history_table db)\<rparr>)"

definition upsert_usage :: "TranslationRequest \<Rightarrow> UsageRecord \<Rightarrow> int \<Rightarrow> database \<Rightarrow> database" where
  "upsert_usage request usage now db =
     (let row = \<lparr>usage_created = now, usage_provider = safe_usage_provider_id (provider_identity request),
        usage_model = request_model_id request, usage_source_label = usage_source_name (usage_source usage),
        usage_input = map_option usage_token_sql_value (input_tokens usage),
        usage_output = map_option usage_token_sql_value (output_tokens usage),
        usage_total = map_option usage_token_sql_value (total_tokens usage)\<rparr> in
      db\<lparr>usage_table := upsert (operation_id request) row (\<lambda>_. row) (usage_table db)\<rparr>)"

definition prune_history :: "database \<Rightarrow> database" where
  "prune_history db = db\<lparr>history_table := keep_newest history_created MAX_TRANSLATION_HISTORY_ENTRIES (history_table db)\<rparr>"

definition prune_usage :: "database \<Rightarrow> database" where
  "prune_usage db = db\<lparr>usage_table := delete_where (\<lambda>k. k \<notin> fst ` set (history_table db)) (usage_table db)\<rparr>"

definition record_translation_history_with_usage ::
  "TranslationRequest \<Rightarrow> string \<Rightarrow> UsageRecord option \<Rightarrow> unit sql" where
  "record_translation_history_with_usage request translated_text usage =
     (if is_incognito request then sql_return ()
      else sql_bind translation_history_enabled (\<lambda>enabled.
        if \<not> enabled then sql_return ()
        else if length (source_text request) > MAX_TRANSLATION_HISTORY_TEXT_BYTES
          \<or> length translated_text > MAX_TRANSLATION_HISTORY_TEXT_BYTES
        then sql_lift (Err (TranslationError_new InvalidConfiguration ''Translation history entry exceeds the local size limit.''))
        else transaction (
          sql_bind (execute (upsert_history request translated_text)) (\<lambda>_.
          sql_bind (case usage of None \<Rightarrow> sql_return () | Some u \<Rightarrow> execute (upsert_usage request u)) (\<lambda>_.
          sql_bind (execute (\<lambda>now. prune_history)) (\<lambda>_.
          execute (\<lambda>now. prune_usage)))))))"

definition record_translation_history :: "TranslationRequest \<Rightarrow> string \<Rightarrow> unit sql" where
  "record_translation_history request translated_text = record_translation_history_with_usage request translated_text None"

definition clear_translation_history :: "unit sql" where
  "clear_translation_history = transaction (
     sql_bind (execute (\<lambda>now db. db\<lparr>history_table := []\<rparr>)) (\<lambda>_.
     execute (\<lambda>now db. db\<lparr>usage_table := []\<rparr>)))"

definition delete_translation_history_entry :: "string \<Rightarrow> bool sql" where
  "delete_translation_history_entry operation = transaction (
     sql_bind (statement (\<lambda>now db. Ok (map_of (history_table db) operation \<noteq> None,
       db\<lparr>history_table := delete_where (\<lambda>k. k = operation) (history_table db)\<rparr>))) (\<lambda>deleted.
     sql_bind (execute (\<lambda>now db. db\<lparr>usage_table := delete_where (\<lambda>k. k = operation) (usage_table db)\<rparr>)) (\<lambda>_.
     sql_return deleted)))"

section \<open>Memory\<close>

text \<open>\<open>source.split_whitespace()\<close>.\<close>

fun split_whitespace_loop :: "string \<Rightarrow> string list \<Rightarrow> string list" where
  "split_whitespace_loop word [] = (if word = [] then [] else [word])"
| "split_whitespace_loop word (c # cs) =
     (if is_whitespace c then (if word = [] then [] else [word]) @ split_whitespace_loop [] cs
      else split_whitespace_loop (word @ c) cs)"

definition normalize_translation_memory_source :: "string \<Rightarrow> string" where
  "normalize_translation_memory_source source = join '' '' (split_whitespace_loop [] (chars source))"

text \<open>The derived serialisations of the domain types, as JSON values.\<close>

definition json_option :: "string option \<Rightarrow> json" where
  "json_option v = (case v of None \<Rightarrow> JNull | Some s \<Rightarrow> JString s)"

definition glossary_entry_json :: "GlossaryEntry \<Rightarrow> json" where
  "glossary_entry_json e = JObject
     [(''source_term'', JString (source_term e)), (''target_term'', JString (target_term e)),
      (''source_locale'', json_option (entry_source_locale e)), (''target_locale'', json_option (entry_target_locale e)),
      (''case_sensitive'', JBool (case_sensitive e)), (''whole_word'', JBool (whole_word e)),
      (''immutable'', JBool (immutable e)), (''domain'', json_option (entry_domain e)),
      (''priority'', JNumber (int_to_string (sint (priority e)))), (''notes'', json_option (entry_notes e)),
      (''enabled'', JBool (enabled e))]"

definition glossary_json :: "Glossary \<Rightarrow> json" where
  "glossary_json g = JObject [(''entries'', JArray (map glossary_entry_json (entries g)))]"

definition preset_json :: "TranslationPreset \<Rightarrow> json" where
  "preset_json p = JObject
     [(''id'', JString (preset_id p)), (''domain'', json_option (preset_domain p)), (''tone'', json_option (tone p)),
      (''formality'', json_option (formality p)), (''intended_audience'', json_option (intended_audience p)),
      (''regional_locale'', json_option (regional_locale p)), (''script'', json_option (script p)),
      (''custom_context'', json_option (custom_context p)), (''custom_instructions'', json_option (custom_instructions p))]"

definition memory_identity_value :: "TranslationRequest \<Rightarrow> json" where
  "memory_identity_value r = JObject
     [(''normalized_source'', JString (normalize_translation_memory_source (source_text r))),
      (''source_locale'', json_option (request_source_locale r)), (''target_locale'', JString (request_target_locale r)),
      (''max_chunk_bytes'', case max_chunk_bytes r of None \<Rightarrow> JNull | Some n \<Rightarrow> JNumber (nat_to_string n)),
      (''glossary'', case glossary r of None \<Rightarrow> JNull | Some g \<Rightarrow> glossary_json g),
      (''protected_span_policy'', JString TRANSLATION_MEMORY_PROTECTED_SPAN_POLICY),
      (''prompt_template_version'', JString TRANSLATION_MEMORY_PROMPT_TEMPLATE_VERSION),
      (''quality_mode'', JString (quality_as_str (quality_mode r))), (''translation_preset'', preset_json (preset r)),
      (''provider_model'', JObject [(''provider'', json_option (provider_identity r)), (''model'', JString (request_model_id r))])]"

definition translation_memory_identity_json :: "(json \<Rightarrow> string + string) \<Rightarrow> TranslationRequest \<Rightarrow> TranslationError + string" where
  "translation_memory_identity_json to_text request =
     map_err (\<lambda>e. TranslationError_new InvalidConfiguration (''Translation memory identity could not be serialized: '' @ e))
       (to_text (memory_identity_value request))"

definition translation_memory_key :: "(json \<Rightarrow> string + string) \<Rightarrow> TranslationRequest \<Rightarrow> TranslationError + string" where
  "translation_memory_key to_text request = translation_memory_identity_json to_text request"

definition translation_memory_enabled :: "bool sql" where
  "translation_memory_enabled = query memory_policy"

definition set_translation_memory_enabled :: "bool \<Rightarrow> unit sql" where
  "set_translation_memory_enabled flag = execute (\<lambda>now db. db\<lparr>memory_policy := flag\<rparr>)"

definition translation_memory_count :: "nat sql" where
  "translation_memory_count = query (\<lambda>db. length (memory_table db))"

definition lookup_translation_memory ::
  "(json \<Rightarrow> string + string) \<Rightarrow> TranslationRequest \<Rightarrow> (string \<times> memory_row) option sql" where
  "lookup_translation_memory to_text request =
     (if is_incognito request then sql_return None
      else sql_bind translation_memory_enabled (\<lambda>enabled.
        if \<not> enabled then sql_return None
        else sql_bind (sql_lift (translation_memory_key to_text request)) (\<lambda>key.
          query (\<lambda>db. map_option (Pair key) (map_of (memory_table db) key)))))"

definition upsert_memory :: "string \<Rightarrow> string \<Rightarrow> TranslationRequest \<Rightarrow> string \<Rightarrow> int \<Rightarrow> database \<Rightarrow> database" where
  "upsert_memory key identity request translated_text now db =
     (let row = \<lparr>memory_created = now, memory_source = source_text request, memory_translated = translated_text,
        memory_source_locale = request_source_locale request, memory_target_locale = request_target_locale request,
        memory_model = request_model_id request, memory_identity = identity\<rparr> in
      db\<lparr>memory_table := upsert key row (\<lambda>_. row) (memory_table db)\<rparr>)"

definition prune_memory :: "database \<Rightarrow> database" where
  "prune_memory db = db\<lparr>memory_table := keep_newest memory_created MAX_TRANSLATION_MEMORY_ENTRIES (memory_table db)\<rparr>"

definition record_translation_memory :: "(json \<Rightarrow> string + string) \<Rightarrow> TranslationRequest \<Rightarrow> string \<Rightarrow> unit sql" where
  "record_translation_memory to_text request translated_text =
     (if is_incognito request then sql_return ()
      else sql_bind translation_memory_enabled (\<lambda>enabled.
        if \<not> enabled then sql_return ()
        else if length (source_text request) > MAX_TRANSLATION_MEMORY_TEXT_BYTES
          \<or> length translated_text > MAX_TRANSLATION_MEMORY_TEXT_BYTES
        then sql_lift (Err (TranslationError_new InvalidConfiguration ''Translation memory entry exceeds the local size limit.''))
        else sql_bind (sql_lift (translation_memory_key to_text request)) (\<lambda>key.
          sql_bind (sql_lift (translation_memory_identity_json to_text request)) (\<lambda>identity.
          transaction (
            sql_bind (execute (upsert_memory key identity request translated_text)) (\<lambda>_.
            execute (\<lambda>now. prune_memory)))))))"

definition translation_memory :: "nat \<Rightarrow> (string \<times> memory_row) list sql" where
  "translation_memory limit = query (\<lambda>db.
     take (min limit MAX_TRANSLATION_MEMORY_ENTRIES) (newest_first memory_created (memory_table db)))"

definition clear_translation_memory :: "unit sql" where
  "clear_translation_memory = execute (\<lambda>now db. db\<lparr>memory_table := []\<rparr>)"

definition delete_translation_memory_entry :: "string \<Rightarrow> bool sql" where
  "delete_translation_memory_entry key = statement (\<lambda>now db. Ok (map_of (memory_table db) key \<noteq> None,
     db\<lparr>memory_table := delete_where (\<lambda>k. k = key) (memory_table db)\<rparr>))"

section \<open>The invariant of the records\<close>

text \<open>At most \<open>MAX_TRANSLATION_HISTORY_ENTRIES\<close> entries, unique, and no usage without its entry.\<close>

definition history_ok :: "(string \<times> history_row) list \<Rightarrow> (string \<times> usage_row) list \<Rightarrow> bool" where
  "history_ok hist use \<longleftrightarrow> distinct (map fst hist) \<and> distinct (map fst use) \<and> length hist \<le> MAX_TRANSLATION_HISTORY_ENTRIES \<and>
     fst ` set use \<subseteq> fst ` set hist"

lemma history_ok_pruned:
  assumes "distinct (map fst (history_table db))" "distinct (map fst (usage_table db))"
  shows "history_ok (history_table (prune_usage (prune_history db))) (usage_table (prune_usage (prune_history db)))"
  using assms keep_newest_sub [OF assms(1), of history_created MAX_TRANSLATION_HISTORY_ENTRIES]
  by (auto simp: history_ok_def prune_usage_def prune_history_def)

lemma prune_fields [simp]:
  "usage_table (prune_history db) = usage_table db" "history_table (prune_usage db) = history_table db"
  by (simp_all add: prune_history_def prune_usage_def)

lemma history_ok_delete:
  "history_ok hist use \<Longrightarrow> history_ok (delete_where p hist) (delete_where p use)"
  using delete_where_sub(2) [of p hist] by (auto simp: history_ok_def simp del: delete_where_sub(2))

text \<open>Only what a request that is not private recorded.\<close>

definition recorded :: "(TranslationRequest \<times> string) set \<Rightarrow> (string \<times> history_row) list \<Rightarrow> bool" where
  "recorded told hist \<longleftrightarrow> (\<forall>(k, row) \<in> set hist. \<exists>(r, translated) \<in> told. \<not> is_incognito r \<and> operation_id r = k \<and>
     history_source row = source_text r \<and> history_translated row = translated \<and>
     history_target_locale row = request_target_locale r \<and> history_model row = request_model_id r)"

definition remembered :: "(json \<Rightarrow> string + string) \<Rightarrow> (TranslationRequest \<times> string) set \<Rightarrow> (string \<times> memory_row) list \<Rightarrow> bool" where
  "remembered to_text told mem \<longleftrightarrow> (\<forall>(k, row) \<in> set mem. \<exists>(r, translated) \<in> told. \<not> is_incognito r \<and>
     translation_memory_key to_text r = Ok k \<and> memory_source row = source_text r \<and> memory_translated row = translated)"

lemma recorded_mono: "recorded told hist \<Longrightarrow> told \<subseteq> told' \<Longrightarrow> set hist' \<subseteq> set hist \<Longrightarrow> recorded told' hist'"
  unfolding recorded_def case_prod_unfold by blast

lemma remembered_mono: "remembered to_text told mem \<Longrightarrow> told \<subseteq> told' \<Longrightarrow> set mem' \<subseteq> set mem \<Longrightarrow> remembered to_text told' mem'"
  unfolding remembered_def case_prod_unfold by blast

lemma set_upsert_sub: "set (upsert k row (\<lambda>_. row) t) \<subseteq> insert (k, row) (set t)"
proof -
  have "set (AList.update k row t) \<subseteq> insert (k, row) (set t)" by (induction t) auto
  then show ?thesis by (auto simp: upsert_def split: option.splits)
qed

lemma set_delete_where: "set (delete_where p t) \<subseteq> set t"
  by (auto simp: delete_where_def)

lemma set_keep_newest_sub: "set (keep_newest f n t) \<subseteq> set t"
  by (simp add: keep_newest_def Let_def set_delete_where)

lemma recorded_upsert:
  assumes "recorded told (history_table db)" "\<not> is_incognito request" "(request, translated_text) \<in> told"
  shows "recorded told (history_table (upsert_history request translated_text now db))"
proof -
  define row where "row = \<lparr>history_created = now, history_source = source_text request, history_translated = translated_text,
    history_source_locale = request_source_locale request, history_target_locale = request_target_locale request,
    history_model = request_model_id request\<rparr>"
  have "history_table (upsert_history request translated_text now db) = upsert (operation_id request) row (\<lambda>_. row) (history_table db)"
    by (simp add: upsert_history_def row_def Let_def)
  moreover have "recorded told [(operation_id request, row)]" using assms(2,3) by (auto simp: recorded_def row_def)
  ultimately show ?thesis
    using assms(1) set_upsert_sub [of "operation_id request" row "history_table db"] unfolding recorded_def by fastforce
qed

lemma remembered_upsert:
  assumes "remembered to_text told (memory_table db)" "\<not> is_incognito request" "(request, translated_text) \<in> told"
    "translation_memory_key to_text request = Ok key"
  shows "remembered to_text told (memory_table (upsert_memory key identity request translated_text now db))"
proof -
  define row where "row = \<lparr>memory_created = now, memory_source = source_text request, memory_translated = translated_text,
    memory_source_locale = request_source_locale request, memory_target_locale = request_target_locale request,
    memory_model = request_model_id request, memory_identity = identity\<rparr>"
  have "memory_table (upsert_memory key identity request translated_text now db) = upsert key row (\<lambda>_. row) (memory_table db)"
    by (simp add: upsert_memory_def row_def Let_def)
  moreover have "remembered to_text told [(key, row)]" using assms(2-4) by (auto simp: remembered_def row_def)
  ultimately show ?thesis
    using assms(1) set_upsert_sub [of key row "memory_table db"] unfolding remembered_def by fastforce
qed

section \<open>The identity of a request\<close>

lemma json_option_inj: "json_option a = json_option b \<longleftrightarrow> a = b"
  by (cases a; cases b) (simp_all add: json_option_def)

lemma priority_text_inj: "int_to_string (sint (v :: i32)) = int_to_string (sint w) \<longleftrightarrow> v = w"
  by (metis option.inject parse_i32_sint signed_word_eqI)

lemma glossary_entry_json_inj: "glossary_entry_json a = glossary_entry_json b \<longleftrightarrow> a = b"
  by (cases a; cases b) (auto simp: glossary_entry_json_def json_option_inj priority_text_inj)

lemma glossary_json_inj: "glossary_json a = glossary_json b \<longleftrightarrow> a = b"
proof -
  have "map glossary_entry_json xs = map glossary_entry_json ys \<longleftrightarrow> xs = ys" for xs ys
    by (rule inj_map_eq_map) (simp add: inj_def glossary_entry_json_inj)
  then show ?thesis by (cases a; cases b) (simp add: glossary_json_def)
qed

lemma preset_json_inj: "preset_json a = preset_json b \<longleftrightarrow> a = b"
  by (cases a; cases b) (auto simp: preset_json_def json_option_inj)

lemma quality_as_str_inj: "quality_as_str a = quality_as_str b \<longleftrightarrow> a = b"
  by (cases a; cases b) simp_all

text \<open>What a translation depends on, apart from white space in the source.\<close>

definition same_identity :: "TranslationRequest \<Rightarrow> TranslationRequest \<Rightarrow> bool" where
  "same_identity r s \<longleftrightarrow>
     normalize_translation_memory_source (source_text r) = normalize_translation_memory_source (source_text s) \<and>
     request_source_locale r = request_source_locale s \<and> request_target_locale r = request_target_locale s \<and>
     max_chunk_bytes r = max_chunk_bytes s \<and> glossary r = glossary s \<and> quality_mode r = quality_mode s \<and> preset r = preset s \<and>
     provider_identity r = provider_identity s \<and> request_model_id r = request_model_id s"

lemma memory_identity_inj: "memory_identity_value r = memory_identity_value s \<longleftrightarrow> same_identity r s"
  by (cases "max_chunk_bytes r"; cases "max_chunk_bytes s"; cases "glossary r"; cases "glossary s")
    (auto simp: memory_identity_value_def same_identity_def json_option_inj nat_to_string_inj glossary_json_inj preset_json_inj
      quality_as_str_inj, auto simp: glossary_json_def)

lemma same_key:
  assumes "\<And>x y s. to_text x = Ok s \<Longrightarrow> to_text y = Ok s \<Longrightarrow> x = y"
    "translation_memory_key to_text r = Ok k" "translation_memory_key to_text s = Ok k"
  shows "same_identity r s"
  using assms by (auto simp: translation_memory_key_def translation_memory_identity_json_def map_err_Inr simp flip: memory_identity_inj)

end
