(* ===== verification/Storage_Profiles.thy ===== *)
theory Storage_Profiles
  imports Storage_Base Provider_Manager
begin

text \<open>
  Provider profiles, the active provider, health records and manual models in the database
  (\<open>crates/linguamesh-storage/src/lib.rs\<close>). A profile is stored column by column and goes through all checks
  of the domain when it is read; \<open>X\<close> are the URL and JSON libraries, \<open>is_random_uuid\<close> is the check of the \<open>uuid\<close> crate.
\<close>

section \<open>Error categories\<close>

fun serialize_error_kind :: "ErrorKind \<Rightarrow> string" where
  "serialize_error_kind CancelledKind = ''cancelled''"
| "serialize_error_kind InvalidEndpointKind = ''invalid_endpoint''"
| "serialize_error_kind Network = ''network''"
| "serialize_error_kind Timeout = ''timeout''"
| "serialize_error_kind Authentication = ''authentication''"
| "serialize_error_kind RateLimited = ''rate_limited''"
| "serialize_error_kind ModelUnavailable = ''model_unavailable''"
| "serialize_error_kind MalformedResponse = ''malformed_response''"
| "serialize_error_kind Persistence = ''persistence''"
| "serialize_error_kind ProtocolIncompatible = ''protocol_incompatible''"
| "serialize_error_kind InvalidConfiguration = ''invalid_configuration''"
| "serialize_error_kind UnsupportedCapability = ''unsupported_capability''"
| "serialize_error_kind SecretUnavailable = ''secret_unavailable''"
| "serialize_error_kind SecureStorageUnavailable = ''secure_storage_unavailable''"
| "serialize_error_kind Internal = ''internal''"

definition parse_error_kind :: "string \<Rightarrow> unit + ErrorKind" where
  "parse_error_kind value =
     (if value = ''cancelled'' then Ok CancelledKind
      else if value = ''invalid_endpoint'' then Ok InvalidEndpointKind
      else if value = ''network'' then Ok Network
      else if value = ''timeout'' then Ok Timeout
      else if value = ''authentication'' then Ok Authentication
      else if value = ''rate_limited'' then Ok RateLimited
      else if value = ''model_unavailable'' then Ok ModelUnavailable
      else if value = ''malformed_response'' then Ok MalformedResponse
      else if value = ''persistence'' then Ok Persistence
      else if value = ''protocol_incompatible'' then Ok ProtocolIncompatible
      else if value = ''invalid_configuration'' then Ok InvalidConfiguration
      else if value = ''unsupported_capability'' then Ok UnsupportedCapability
      else if value = ''secret_unavailable'' then Ok SecretUnavailable
      else if value = ''secure_storage_unavailable'' then Ok SecureStorageUnavailable
      else if value = ''internal'' then Ok Internal
      else Err ())"

lemma stored_error_kind [simp]: "parse_error_kind (serialize_error_kind k) = Ok k"
  by (cases k) (simp_all add: parse_error_kind_def)

section \<open>Rows\<close>

fun profile_id_str :: "ProviderProfileId \<Rightarrow> string" where "profile_id_str (ProviderProfileId s) = s"
fun endpoint_str :: "EndpointConfiguration \<Rightarrow> string" where "endpoint_str (EndpointConfiguration s) = s"

definition row_of_profile :: "ProviderProfile \<Rightarrow> profile_row" where
  "row_of_profile p = \<lparr>row_display_name = display_name p, row_preset_id = profile_preset_id p,
     row_adapter_type = adapter_type p, row_base_endpoint = endpoint_str (base_endpoint p),
     row_secret_ref = map_option secret_ref_str (secret_ref p), row_user_notes = user_notes p,
     row_organization = organization p, row_project = project p, row_region = region p,
     row_account_identifier = account_identifier p, row_custom_headers = custom_headers p,
     row_secret_custom_headers_ref = map_option secret_ref_str (secret_custom_headers_ref p), row_proxy_url = proxy_url p,
     row_proxy_auth_ref = map_option secret_ref_str (proxy_auth_ref p),
     row_request_timeout_secs = request_timeout_secs p, row_connection_timeout_secs = connection_timeout_secs p,
     row_streaming_idle_timeout_secs = streaming_idle_timeout_secs p,
     row_trusted_certificates_pem = trusted_certificates_pem p,
     row_client_certificate_identity_ref = map_option secret_ref_str (client_certificate_identity_ref p),
     row_enabled = profile_enabled p, row_last_successful_health_check = map_option sint (last_successful_health_check p),
     row_last_failure_category = map_option serialize_error_kind (last_failure_category p)\<rparr>"

record StoredProfile = profile_row +
  stored_id :: string
  stored_selected_model :: "string option"

definition map_profile_validation :: "ProfileValidationError \<Rightarrow> TranslationError" where
  "map_profile_validation e =
     TranslationError_new Persistence (''Stored provider profile is invalid: '' @ profile_error_message e)"

definition parse_reference :: "(string \<Rightarrow> bool) \<Rightarrow> string option \<Rightarrow> TranslationError + SecretRef option" where
  "parse_reference is_random_uuid v = (case v of
       None \<Rightarrow> Ok None
     | Some s \<Rightarrow> and_then (map_err map_profile_validation (SecretRef_parse is_random_uuid s)) (\<lambda>r. Ok (Some r)))"

definition parse_category :: "string option \<Rightarrow> TranslationError + ErrorKind option" where
  "parse_category v = (case v of
       None \<Rightarrow> Ok None
     | Some c \<Rightarrow> and_then (map_err (\<lambda>_. TranslationError_new Persistence ''Stored provider health category is invalid.'')
         (parse_error_kind c)) (\<lambda>k. Ok (Some k)))"

lemma parse_category_id: "parse_category (map_option serialize_error_kind c) = Ok c"
  by (cases c) (simp_all add: parse_category_def)

definition into_domain :: "'u outside \<Rightarrow> (string \<Rightarrow> bool) \<Rightarrow> StoredProfile \<Rightarrow> TranslationError + ProviderProfile" where
  "into_domain X is_random_uuid s =
     and_then (map_err map_profile_validation (ProviderProfileId_parse (stored_id s))) (\<lambda>pid.
     and_then (parse_reference is_random_uuid (row_secret_ref s)) (\<lambda>secret.
     and_then (parse_reference is_random_uuid (row_secret_custom_headers_ref s)) (\<lambda>secret_headers.
     and_then (parse_reference is_random_uuid (row_proxy_auth_ref s)) (\<lambda>proxy_auth.
     and_then (parse_reference is_random_uuid (row_client_certificate_identity_ref s)) (\<lambda>client_identity.
     and_then (parse_category (row_last_failure_category s)) (\<lambda>failure.
     map_err map_profile_validation (
       and_then (ProviderProfile_new (url_ops X) pid (row_display_name s) (row_preset_id s) (row_adapter_type s)
         (row_base_endpoint s) secret) (\<lambda>p.
       and_then (with_user_notes (row_user_notes s) p) (\<lambda>p.
       and_then (with_organization (row_organization s) p) (\<lambda>p.
       and_then (with_project (row_project s) p) (\<lambda>p.
       and_then (with_region (row_region s) p) (\<lambda>p.
       and_then (with_account_identifier (row_account_identifier s) p) (\<lambda>p.
       and_then (with_custom_headers (headers_parse X) (headers_print X) (row_custom_headers s) p) (\<lambda>p.
       and_then (with_proxy_url (url_ops X) (row_proxy_url s) p) (\<lambda>p.
       let p = with_proxy_auth_ref proxy_auth p in
       and_then (with_request_timeout_secs (row_request_timeout_secs s) p) (\<lambda>p.
       and_then (with_connection_timeout_secs (row_connection_timeout_secs s) p) (\<lambda>p.
       and_then (with_streaming_idle_timeout_secs (row_streaming_idle_timeout_secs s) p) (\<lambda>p.
       and_then (with_trusted_certificates_pem (row_trusted_certificates_pem s) p) (\<lambda>p.
       let p = with_client_certificate_identity_ref client_identity p;
           p = with_secret_custom_headers_ref secret_headers p;
           p = with_enabled (row_enabled s) p in
       and_then (with_selected_model (stored_selected_model s) p) (\<lambda>p.
       and_then (with_last_successful_health_check (map_option word_of_int (row_last_successful_health_check s)) p) (\<lambda>p.
       Ok (with_last_failure_category failure p))))))))))))))))))))))"

text \<open>\<open>LEFT JOIN provider_model_selection\<close>.\<close>

definition stored_profile :: "database \<Rightarrow> string \<Rightarrow> profile_row \<Rightarrow> StoredProfile" where
  "stored_profile db k r =
     profile_row.extend r (StoredProfile.fields k (map_of (model_selection_table db) k))"

definition profile_by_id :: "string \<Rightarrow> database \<Rightarrow> StoredProfile option" where
  "profile_by_id k db = map_option (stored_profile db k) (map_of (profiles_table db) k)"

section \<open>Profiles\<close>

definition session_only :: "SecretRef option \<Rightarrow> bool" where
  "session_only r \<longleftrightarrow> (case r of None \<Rightarrow> False | Some s \<Rightarrow> \<not> is_persistent s)"

text \<open>On a conflict the two health columns keep their values.\<close>

definition upsert_profile :: "ProviderProfile \<Rightarrow> unit sql" where
  "upsert_profile p =
     (if session_only (secret_ref p) \<or> session_only (secret_custom_headers_ref p) \<or> session_only (proxy_auth_ref p)
        \<or> session_only (client_certificate_identity_ref p)
      then sql_lift (Err (TranslationError_new InvalidConfiguration ''Session-only secret references cannot be persisted.''))
      else
        let k = profile_id_str (profile_id p) in
        sql_bind (execute (\<lambda>now db. db\<lparr>profiles_table := upsert k (row_of_profile p)
          (\<lambda>r. (row_of_profile p)\<lparr>row_last_successful_health_check := row_last_successful_health_check r,
             row_last_failure_category := row_last_failure_category r\<rparr>) (profiles_table db)\<rparr>)) (\<lambda>_.
        case selected_model p of
          Some m \<Rightarrow> execute_checked (\<lambda>db. k \<in> fst ` set (profiles_table db)) ''FOREIGN KEY constraint failed''
            (\<lambda>now db. db\<lparr>model_selection_table := upsert k m (\<lambda>_. m) (model_selection_table db)\<rparr>)
        | None \<Rightarrow> execute (\<lambda>now db. db\<lparr>model_selection_table := delete_where (\<lambda>j. j = k) (model_selection_table db)\<rparr>)))"

definition select_provider :: "string \<Rightarrow> unit sql" where
  "select_provider k = execute_checked (\<lambda>db. k \<in> fst ` set (profiles_table db)) ''FOREIGN KEY constraint failed''
     (\<lambda>now db. db\<lparr>active_provider_row := Some k\<rparr>)"

definition upsert_provider_profile :: "ProviderProfile \<Rightarrow> unit sql" where
  "upsert_provider_profile p = transaction (
     sql_bind (upsert_profile p) (\<lambda>_.
     if \<not> profile_enabled p
     then execute (\<lambda>now db. if active_provider_row db = Some (profile_id_str (profile_id p))
       then db\<lparr>active_provider_row := None\<rparr> else db)
     else sql_return ()))"

definition update_profile_row :: "string \<Rightarrow> (profile_row \<Rightarrow> profile_row) \<Rightarrow> bool sql" where
  "update_profile_row k upd = statement (\<lambda>now db. Ok (map_of (profiles_table db) k \<noteq> None,
     db\<lparr>profiles_table := update_where k upd (profiles_table db)\<rparr>))"

definition record_provider_health_success :: "ProviderProfileId \<Rightarrow> i64 \<Rightarrow> bool sql" where
  "record_provider_health_success pid timestamp =
     (if sint timestamp < 0
      then sql_lift (Err (TranslationError_new InvalidConfiguration ''Provider health timestamps must be non-negative.''))
      else update_profile_row (profile_id_str pid) (\<lambda>r. r\<lparr>row_last_successful_health_check := Some (sint timestamp),
        row_last_failure_category := None\<rparr>))"

definition record_provider_health_failure :: "ProviderProfileId \<Rightarrow> ErrorKind \<Rightarrow> bool sql" where
  "record_provider_health_failure pid category =
     update_profile_row (profile_id_str pid) (\<lambda>r. r\<lparr>row_last_failure_category := Some (serialize_error_kind category)\<rparr>)"

definition save_and_activate_provider :: "ProviderProfile \<Rightarrow> unit sql" where
  "save_and_activate_provider p =
     (if \<not> profile_enabled p
      then sql_lift (Err (TranslationError_new InvalidConfiguration ''A disabled provider profile cannot be activated.''))
      else transaction (sql_bind (upsert_profile p) (\<lambda>_. select_provider (profile_id_str (profile_id p)))))"

definition set_active_provider :: "ProviderProfileId \<Rightarrow> unit sql" where
  "set_active_provider pid = transaction (
     sql_bind (query (\<lambda>db. map_option row_enabled (map_of (profiles_table db) (profile_id_str pid)))) (\<lambda>state.
     sql_bind (sql_lift (if state = Some True then Ok ()
       else if state = Some False
       then Err (TranslationError_new InvalidConfiguration ''A disabled provider profile cannot be activated.'')
       else Err (TranslationError_new InvalidConfiguration ''The provider profile does not exist.''))) (\<lambda>_.
     select_provider (profile_id_str pid))))"

definition domain_profile ::
  "'u outside \<Rightarrow> (string \<Rightarrow> bool) \<Rightarrow> StoredProfile option \<Rightarrow> TranslationError + ProviderProfile option" where
  "domain_profile X is_random_uuid s = (case s of None \<Rightarrow> Ok None
     | Some v \<Rightarrow> and_then (into_domain X is_random_uuid v) (\<lambda>p. Ok (Some p)))"

definition provider_profile ::
  "'u outside \<Rightarrow> (string \<Rightarrow> bool) \<Rightarrow> ProviderProfileId \<Rightarrow> ProviderProfile option sql" where
  "provider_profile X is_random_uuid pid =
     sql_bind (query (profile_by_id (profile_id_str pid))) (\<lambda>s. sql_lift (domain_profile X is_random_uuid s))"

definition provider_profiles :: "'u outside \<Rightarrow> (string \<Rightarrow> bool) \<Rightarrow> ProviderProfile list sql" where
  "provider_profiles X is_random_uuid =
     sql_bind (query (\<lambda>db. map (\<lambda>(k, r). stored_profile db k r) (oldest_first row_display_name (profiles_table db)))) (\<lambda>rows.
     sql_lift (try_map (into_domain X is_random_uuid) rows))"

definition active_provider_profile :: "'u outside \<Rightarrow> (string \<Rightarrow> bool) \<Rightarrow> ProviderProfile option sql" where
  "active_provider_profile X is_random_uuid =
     sql_bind (query (\<lambda>db. Option.bind (active_provider_row db) (\<lambda>k. profile_by_id k db))) (\<lambda>s.
     sql_lift (domain_profile X is_random_uuid s))"

text \<open>The deletion cascades to the selected model and to the active selection.\<close>

definition remove_profile :: "string \<Rightarrow> database \<Rightarrow> database" where
  "remove_profile k db = db\<lparr>profiles_table := delete_where (\<lambda>j. j = k) (profiles_table db),
     model_selection_table := delete_where (\<lambda>j. j = k) (model_selection_table db),
     active_provider_row := (if active_provider_row db = Some k then None else active_provider_row db)\<rparr>"

definition delete_provider_profile :: "ProviderProfileId \<Rightarrow> bool sql" where
  "delete_provider_profile pid = transaction (statement (\<lambda>now db.
     Ok (map_of (profiles_table db) (profile_id_str pid) \<noteq> None, remove_profile (profile_id_str pid) db)))"

section \<open>Models\<close>

definition upsert_manual_model :: "string \<Rightarrow> unit sql" where
  "upsert_manual_model model =
     sql_bind (sql_lift (map_err (\<lambda>e. TranslationError_new InvalidConfiguration
       (''Manual model ID is invalid: '' @ profile_error_message e)) (validate_model_identifier model))) (\<lambda>_.
     execute (\<lambda>now db. db\<lparr>model_descriptors_table :=
       upsert model (model, ''manual'') (\<lambda>_. (model, ''manual'')) (model_descriptors_table db)\<rparr>))"

definition set_active_model :: "string \<Rightarrow> unit sql" where
  "set_active_model model =
     sql_bind (query (\<lambda>db. map_of (model_descriptors_table db) model \<noteq> None)) (\<lambda>exists.
     if \<not> exists then sql_lift (Err (TranslationError_new ModelUnavailable ''The selected model is not registered.''))
     else execute_checked (\<lambda>db. model \<in> fst ` set (model_descriptors_table db)) ''FOREIGN KEY constraint failed''
       (\<lambda>now db. db\<lparr>active_model_row := Some model\<rparr>))"

definition active_model :: "string option sql" where
  "active_model = query active_model_row"

definition manual_models :: "ModelDescriptor list sql" where
  "manual_models = query (\<lambda>db. map (\<lambda>(k, (name, source)). \<lparr>model_id = k, model_display_name = name, model_source = Manual\<rparr>)
     (sort_key fst (filter (\<lambda>(k, (name, source)). source = ''manual'') (model_descriptors_table db))))"

section \<open>The invariant of the profiles\<close>

text \<open>
  Profiles are unique and hold no session-only reference, selected models belong to profiles, and the active profile exists and is
  enabled; the active model is registered.
\<close>

definition references :: "profile_row \<Rightarrow> string option list" where
  "references r = [row_secret_ref r, row_secret_custom_headers_ref r, row_proxy_auth_ref r, row_client_certificate_identity_ref r]"

definition persistent_row :: "profile_row \<Rightarrow> bool" where
  "persistent_row r \<longleftrightarrow> list_all (pred_option (\<lambda>s. is_persistent (SecretRef s))) (references r)"

definition profiles_ok :: "(string \<times> profile_row) list \<Rightarrow> (string \<times> string) list \<Rightarrow> string option \<Rightarrow> bool" where
  "profiles_ok profs models chosen \<longleftrightarrow> distinct (map fst profs) \<and> distinct (map fst models) \<and>
     fst ` set models \<subseteq> fst ` set profs \<and> (\<forall>k r. map_of profs k = Some r \<longrightarrow> persistent_row r) \<and>
     (\<forall>k. chosen = Some k \<longrightarrow> map_option row_enabled (map_of profs k) = Some True)"

definition models_ok :: "(string \<times> 'a) list \<Rightarrow> string option \<Rightarrow> bool" where
  "models_ok descriptors chosen \<longleftrightarrow> distinct (map fst descriptors) \<and> set_option chosen \<subseteq> fst ` set descriptors"

lemma persistent_reference: "\<not> session_only v \<Longrightarrow> pred_option (\<lambda>s. is_persistent (SecretRef s)) (map_option secret_ref_str v)"
  by (cases v; simp add: session_only_def; case_tac a; simp)

lemma persistent_row_of_profile:
  "\<not> session_only (secret_ref p) \<Longrightarrow> \<not> session_only (secret_custom_headers_ref p) \<Longrightarrow> \<not> session_only (proxy_auth_ref p) \<Longrightarrow>
   \<not> session_only (client_certificate_identity_ref p) \<Longrightarrow> persistent_row (row_of_profile p)"
  by (simp add: persistent_row_def references_def row_of_profile_def persistent_reference)

definition storable :: "ProviderProfile \<Rightarrow> bool" where
  "storable p \<longleftrightarrow> \<not> session_only (secret_ref p) \<and> \<not> session_only (secret_custom_headers_ref p) \<and> \<not> session_only (proxy_auth_ref p) \<and>
     \<not> session_only (client_certificate_identity_ref p)"

text \<open>What \<open>upsert_profile\<close> writes.\<close>

definition put_profile :: "ProviderProfile \<Rightarrow> database \<Rightarrow> database" where
  "put_profile p db = (let k = profile_id_str (profile_id p) in
     db\<lparr>profiles_table := upsert k (row_of_profile p)
          (\<lambda>r. (row_of_profile p)\<lparr>row_last_successful_health_check := row_last_successful_health_check r,
             row_last_failure_category := row_last_failure_category r\<rparr>) (profiles_table db),
        model_selection_table := (case selected_model p of Some m \<Rightarrow> upsert k m (\<lambda>_. m) (model_selection_table db)
          | None \<Rightarrow> delete_where (\<lambda>j. j = k) (model_selection_table db))\<rparr>)"

lemma wp_put_profile:
  "wp F (upsert_profile p) (\<lambda>_ db'. db' = put_profile p db \<and> storable p) (\<lambda>_ _. F \<or> \<not> storable p) now db"
  unfolding upsert_profile_def Let_def
  by (cases "selected_model p") (auto intro!: sql_wp simp: put_profile_def storable_def Let_def)

lemma map_of_put_profile: "map_of (profiles_table (put_profile p db)) k =
    (if k = profile_id_str (profile_id p) then Some (case map_of (profiles_table db) k of None \<Rightarrow> row_of_profile p
       | Some r \<Rightarrow> (row_of_profile p)\<lparr>row_last_successful_health_check := row_last_successful_health_check r,
             row_last_failure_category := row_last_failure_category r\<rparr>)
     else map_of (profiles_table db) k)"
  by (simp add: put_profile_def Let_def map_of_upsert)

lemma profiles_ok_put:
  assumes ok: "profiles_ok (profiles_table db) (model_selection_table db) (active_provider_row db)" and p: "storable p"
    and chosen: "\<And>k. chosen = Some k \<Longrightarrow> if k = profile_id_str (profile_id p) then profile_enabled p else active_provider_row db = Some k"
  shows "profiles_ok (profiles_table (put_profile p db)) (model_selection_table (put_profile p db)) chosen"
proof -
  let ?k = "profile_id_str (profile_id p)" and ?db = "put_profile p db"
  have row: "persistent_row (row_of_profile p)" using p by (simp add: storable_def persistent_row_of_profile)
  have enabled: "row_enabled (row_of_profile p) = profile_enabled p" by (simp add: row_of_profile_def)
  have other: "persistent_row (r\<lparr>row_last_successful_health_check := h, row_last_failure_category := f\<rparr>) = persistent_row r" for r h f
    by (simp add: persistent_row_def references_def)
  have "\<forall>k r. map_of (profiles_table ?db) k = Some r \<longrightarrow> persistent_row r"
    using ok row other by (auto simp: profiles_ok_def map_of_put_profile split: option.splits if_splits)
  moreover have "\<forall>k. chosen = Some k \<longrightarrow> map_option row_enabled (map_of (profiles_table ?db) k) = Some True"
    using ok enabled chosen by (auto simp: profiles_ok_def map_of_put_profile split: option.splits if_splits)
  moreover have "distinct (map fst (profiles_table ?db))" "distinct (map fst (model_selection_table ?db))"
    "fst ` set (model_selection_table ?db) \<subseteq> fst ` set (profiles_table ?db)"
    using ok by (auto simp: profiles_ok_def put_profile_def Let_def split: option.splits)
  ultimately show ?thesis unfolding profiles_ok_def by (intro conjI)
qed

lemma profiles_ok_update:
  assumes "profiles_ok profs models chosen" "\<And>r. references (upd r) = references r" "\<And>r. row_enabled (upd r) = row_enabled r"
  shows "profiles_ok (update_where k upd profs) models chosen"
proof -
  have "\<forall>j r. map_of (update_where k upd profs) j = Some r \<longrightarrow> persistent_row r"
    using assms(1,2) by (auto simp: profiles_ok_def map_of_update_where persistent_row_def simp del: map_of_eq_Some_iff split: if_splits)
  moreover have "map_option row_enabled (map_of (update_where k upd profs) j) = map_option row_enabled (map_of profs j)" for j
    by (simp add: map_of_update_where option.map_comp comp_def assms(3))
  ultimately show ?thesis
    using assms(1) unfolding profiles_ok_def map_fst_update_where keys_update_where by metis
qed

lemma profiles_ok_select:
  "profiles_ok profs models chosen \<Longrightarrow> map_option row_enabled (map_of profs k) = Some True \<Longrightarrow> profiles_ok profs models (Some k)"
  by (simp add: profiles_ok_def)

lemma profiles_ok_remove:
  "profiles_ok profs models chosen \<Longrightarrow> profiles_ok (delete_where (\<lambda>j. j = k) profs) (delete_where (\<lambda>j. j = k) models)
     (if chosen = Some k then None else chosen)"
  by (auto simp: profiles_ok_def map_of_delete_where)

section \<open>Reading back what was stored\<close>

text \<open>The fields that are stored in a canonical form pass their checks again unchanged.\<close>

definition rereads :: "'u outside \<Rightarrow> (string \<Rightarrow> bool) \<Rightarrow> ProviderProfile \<Rightarrow> bool" where
  "rereads X is_random_uuid p \<longleftrightarrow>
     ProviderProfileId_parse (profile_id_str (profile_id p)) = Ok (profile_id p) \<and>
     (\<forall>r \<in> set [secret_ref p, secret_custom_headers_ref p, proxy_auth_ref p, client_certificate_identity_ref p].
        pred_option (\<lambda>s. SecretRef_parse is_random_uuid (secret_ref_str s) = Ok s) r) \<and>
     endpoint_parse (url_ops X) (endpoint_str (base_endpoint p)) = Ok (base_endpoint p) \<and>
     pred_option (\<lambda>s. \<not> is_blank s \<and> validate_proxy_url (url_ops X) s = Ok s) (proxy_url p) \<and>
     pred_option (\<lambda>s. \<not> is_blank s \<and> validate_custom_headers (headers_parse X) (headers_print X) s = Ok s) (custom_headers p) \<and>
     pred_option (\<lambda>s. \<not> is_blank s \<and> validate_trusted_certificates_pem s = Ok s) (trusted_certificates_pem p)"

lemma checked_profile_text_id: "text_ok s \<Longrightarrow> checked_profile_text s f = Ok s"
  by (simp add: text_ok_def checked_profile_text_def MAX_PROFILE_TEXT_BYTES_def)

lemma checked_non_blank_id:
  "pred_option (\<lambda>s. \<not> is_blank s \<and> check s = Ok s) v \<Longrightarrow> checked_non_blank check v = Ok v"
  by (cases v) (simp_all add: checked_non_blank_def)

lemma checked_text_option_id: "pred_option text_ok v \<Longrightarrow> checked_non_blank (\<lambda>s. checked_profile_text s f) v = Ok v"
  by (rule checked_non_blank_id) (cases v; simp add: checked_profile_text_id text_ok_def)

lemma parse_reference_id:
  "pred_option (\<lambda>s. SecretRef_parse u (secret_ref_str s) = Ok s) r \<Longrightarrow> parse_reference u (map_option secret_ref_str r) = Ok r"
  by (cases r) (simp_all add: parse_reference_def)

lemma stored_profile_row:
  "row_display_name (stored_profile db k r) = row_display_name r" "row_preset_id (stored_profile db k r) = row_preset_id r"
  "row_adapter_type (stored_profile db k r) = row_adapter_type r" "row_base_endpoint (stored_profile db k r) = row_base_endpoint r"
  "row_secret_ref (stored_profile db k r) = row_secret_ref r" "row_user_notes (stored_profile db k r) = row_user_notes r"
  "row_organization (stored_profile db k r) = row_organization r" "row_project (stored_profile db k r) = row_project r"
  "row_region (stored_profile db k r) = row_region r" "row_account_identifier (stored_profile db k r) = row_account_identifier r"
  "row_custom_headers (stored_profile db k r) = row_custom_headers r"
  "row_secret_custom_headers_ref (stored_profile db k r) = row_secret_custom_headers_ref r"
  "row_proxy_url (stored_profile db k r) = row_proxy_url r" "row_proxy_auth_ref (stored_profile db k r) = row_proxy_auth_ref r"
  "row_request_timeout_secs (stored_profile db k r) = row_request_timeout_secs r"
  "row_connection_timeout_secs (stored_profile db k r) = row_connection_timeout_secs r"
  "row_streaming_idle_timeout_secs (stored_profile db k r) = row_streaming_idle_timeout_secs r"
  "row_trusted_certificates_pem (stored_profile db k r) = row_trusted_certificates_pem r"
  "row_client_certificate_identity_ref (stored_profile db k r) = row_client_certificate_identity_ref r"
  "row_enabled (stored_profile db k r) = row_enabled r"
  "row_last_successful_health_check (stored_profile db k r) = row_last_successful_health_check r"
  "row_last_failure_category (stored_profile db k r) = row_last_failure_category r"
  "stored_id (stored_profile db k r) = k" "stored_selected_model (stored_profile db k r) = map_of (model_selection_table db) k"
  by (simp_all add: stored_profile_def profile_row.defs StoredProfile.defs)

lemma into_domain_stored:
  assumes ok: "profile_ok X p" and re: "rereads X u p"
    and model: "map_of (model_selection_table db) k = selected_model p" and k: "k = profile_id_str (profile_id p)"
  shows "into_domain X u (stored_profile db k (row_of_profile p)) = Ok p"
proof -
  have texts: "text_ok (display_name p)" "text_ok (profile_preset_id p)" "text_ok (adapter_type p)"
    "pred_option text_ok (user_notes p)" "pred_option text_ok (organization p)" "pred_option text_ok (project p)"
    "pred_option text_ok (region p)" "pred_option text_ok (account_identifier p)" "pred_option text_ok (selected_model p)"
    using ok by (simp_all add: profile_ok_def profile_texts_def)
  have times: "1 \<le> request_timeout_secs p" "request_timeout_secs p \<le> 600" "1 \<le> connection_timeout_secs p"
    "connection_timeout_secs p \<le> 120" "1 \<le> streaming_idle_timeout_secs p" "streaming_idle_timeout_secs p \<le> 300"
    "pred_option (\<lambda>t. 0 \<le> sint t) (last_successful_health_check p)"
    using ok by (simp_all add: profile_ok_def)
  have health: "map_option word_of_int (map_option sint (last_successful_health_check p)) = last_successful_health_check p"
    by (cases "last_successful_health_check p") simp_all
  have timestamp: "\<not> (case last_successful_health_check p of None \<Rightarrow> False | Some v \<Rightarrow> sint v < 0)"
    using times(7) by (cases "last_successful_health_check p") auto
  have model': "with_selected_model (selected_model p) q = Ok (q\<lparr>selected_model := selected_model p\<rparr>)" for q
    using texts(9) by (cases "selected_model p") (simp_all add: with_selected_model_def checked_profile_text_id)
  note fields = re [unfolded rereads_def, simplified]
  show ?thesis
    unfolding into_domain_def stored_profile_row
    using fields texts(1-3) times(1-6) timestamp
    by (simp add: row_of_profile_def k model [unfolded k] parse_reference_id checked_profile_text_id
        ProviderProfile_new_def parse_category_id health model' with_user_notes_def with_organization_def with_project_def with_region_def
        with_account_identifier_def with_custom_headers_def with_proxy_url_def with_proxy_auth_ref_def
        with_request_timeout_secs_def with_connection_timeout_secs_def with_streaming_idle_timeout_secs_def
        with_trusted_certificates_pem_def with_client_certificate_identity_ref_def with_secret_custom_headers_ref_def
        with_enabled_def with_last_successful_health_check_def with_last_failure_category_def timeout_limits Let_def
        checked_text_option_id [OF texts(4)] checked_text_option_id [OF texts(5)] checked_text_option_id [OF texts(6)]
        checked_text_option_id [OF texts(7)] checked_text_option_id [OF texts(8)] checked_non_blank_id)
qed

lemma wp_upsert_provider_profile:
  assumes "k = profile_id_str (profile_id p)" "k \<notin> fst ` set (profiles_table db)"
  shows "wp True (upsert_provider_profile p) (\<lambda>_ db'. map_of (profiles_table db') k = Some (row_of_profile p) \<and>
    map_of (model_selection_table db') k = selected_model p) (\<lambda>_ _. True) now db"
proof -
  have "map_of (profiles_table db) k = None" using assms(2) by (simp add: map_of_eq_None_iff)
  then have put: "map_of (profiles_table (put_profile p db)) k = Some (row_of_profile p)"
    "map_of (model_selection_table (put_profile p db)) k = selected_model p"
    by (simp_all add: map_of_put_profile assms(1), simp add: put_profile_def Let_def map_of_upsert map_of_delete_where split: option.split)
  show ?thesis
    unfolding upsert_provider_profile_def
    by (intro wp_transaction wp_bind, rule wp_mono [OF wp_put_profile]) (auto intro!: sql_wp simp: put)
qed

lemma provider_profile_of_row:
  assumes "map_of (profiles_table db) (profile_id_str pid) = Some r"
    "into_domain X u (stored_profile db (profile_id_str pid) r) = v"
  shows "fst (provider_profile X u pid \<lparr>conn_db = db, conn_now = t, conn_faults = []\<rparr>) = map_err id (and_then v (\<lambda>p. Ok (Some p)))"
  using assms by (cases v) (simp_all add: provider_profile_def sql_bind_def query_def statement_def next_fault_def profile_by_id_def
    sql_lift_def domain_profile_def)

text \<open>
  What the crates \<open>url\<close> and \<open>serde_json\<close> document: printing a parsed URL gives a text that is not blank, has no control
  character and parses to the same URL; a slash after the path of a web address changes only the path; and a
  printed map parses to the same map.
\<close>

definition url_laws :: "'u url_crate \<Rightarrow> bool" where
  "url_laws U \<longleftrightarrow> (\<forall>s url. url_parse U s = Some url \<longrightarrow>
     url_parse U (url_to_string U url) = Some url \<and> \<not> is_blank (url_to_string U url) \<and>
     \<not> list_ex is_control (chars (url_to_string U url)) \<and>
     (url_scheme U url \<in> {''http'', ''https''} \<and> \<not> ends_with (url_path U url) ''/'' \<longrightarrow>
       (let v = url_set_path U url (url_path U url @ ''/'') in
        url_parse U (url_to_string U v) = Some v \<and> url_path U v = url_path U url @ ''/'' \<and> url_scheme U v = url_scheme U url \<and>
        url_username U v = url_username U url \<and> url_password U v = url_password U url \<and> url_host U v = url_host U url \<and>
        url_query U v = url_query U url \<and> url_fragment U v = url_fragment U url)))"

definition map_laws :: "'u outside \<Rightarrow> bool" where
  "map_laws X \<longleftrightarrow> (\<forall>t entries s. headers_parse X t = Some entries \<longrightarrow> headers_print X entries = Some s \<longrightarrow>
     headers_parse X s = Some entries \<and> \<not> is_blank s)"

text \<open>The checked fields of a profile came out of their checks.\<close>

definition checked_fields :: "'u outside \<Rightarrow> ProviderProfile \<Rightarrow> bool" where
  "checked_fields X p \<longleftrightarrow>
     (\<exists>s. endpoint_parse (url_ops X) s = Ok (base_endpoint p)) \<and>
     pred_option (\<lambda>t. \<exists>s. validate_proxy_url (url_ops X) s = Ok t) (proxy_url p) \<and>
     pred_option (\<lambda>t. \<exists>s. validate_custom_headers (headers_parse X) (headers_print X) s = Ok t) (custom_headers p) \<and>
     pred_option (\<lambda>t. \<exists>s. validate_trusted_certificates_pem s = Ok t) (trusted_certificates_pem p)"

lemma checked_fields_new: "ProviderProfile_new (url_ops X) pid name pre adapter endpoint sref = Ok p \<Longrightarrow> checked_fields X p"
  by (auto simp: ProviderProfile_new_def and_then_Inr checked_fields_def)

lemma checked_non_blank_from: "checked_non_blank check v = Ok t \<Longrightarrow> pred_option (\<lambda>t. \<exists>s. check s = Ok t) t"
  by (auto simp: checked_non_blank_def and_then_Inr split: option.splits if_splits)

lemma checked_fields_step: "checked_fields X p \<Longrightarrow> profile_step X op p = Ok q \<Longrightarrow> checked_fields X q"
  by (cases op) (auto simp: profile_setters and_then_Inr checked_fields_def dest!: checked_non_blank_from split: option.splits if_splits)

lemma checked_fields_run: "checked_fields X p \<Longrightarrow> profile_run X ops p = Ok q \<Longrightarrow> checked_fields X q"
  by (induction ops arbitrary: p) (auto simp: and_then_Inr intro: checked_fields_step)

lemma endpoint_reread:
  assumes laws: "url_laws U" and e: "endpoint_parse U s = Ok e"
    and fits: "length (endpoint_str e) \<le> MAX_PROFILE_TEXT_BYTES" "\<not> looks_like_credential (endpoint_str e)"
  shows "endpoint_parse U (endpoint_str e) = Ok e"
proof -
  obtain url where url: "url_parse U s = Some url"
    using e by (auto simp: endpoint_parse_def and_then_Inr ok_or_Inr split: if_splits)
  define v where "v = (if ends_with (url_path U url) ''/'' then url else url_set_path U url (url_path U url @ ''/''))"
  have c: "url_username U url = []" "url_password U url = None" "url_host U url \<noteq> None" "url_query U url = None"
    "url_fragment U url = None" "CHR ''%'' \<notin> set (url_path U url)"
    "url_scheme U url = ''https'' \<or> url_scheme U url = ''http'' \<and> is_loopback_endpoint (url_host U url)"
    "\<not> (case url_path_segments U v of None \<Rightarrow> False | Some ss \<Rightarrow> list_ex looks_like_credential ss)"
    "e = EndpointConfiguration (url_to_string U v)"
    using e url unfolding endpoint_parse_def Let_def v_def
    by (simp_all only: ok_or_simps and_then_simps split: if_split_asm) simp_all
  have v: "url_parse U (url_to_string U v) = Some v" "ends_with (url_path U v) ''/''" "CHR ''%'' \<notin> set (url_path U v)"
    "url_scheme U v = url_scheme U url" "url_username U v = url_username U url" "url_password U v = url_password U url"
    "url_host U v = url_host U url" "url_query U v = url_query U url" "url_fragment U v = url_fragment U url"
    using laws [unfolded url_laws_def, rule_format, OF url] c(6,7) by (auto simp: v_def Let_def)
  show ?thesis
    using fits c v by (simp add: endpoint_parse_def Let_def)
qed

lemma proxy_reread:
  assumes laws: "url_laws U" and t: "validate_proxy_url U s = Ok t" and fits: "length t \<le> MAX_PROXY_URL_BYTES"
  shows "\<not> is_blank t \<and> validate_proxy_url U t = Ok t"
proof -
  obtain url where url: "url_parse U s = Some url" and tt: "t = url_to_string U url"
    using t by (auto simp: validate_proxy_url_def and_then_Inr ok_or_Inr split: if_splits)
  note law = laws [unfolded url_laws_def, rule_format, OF url, folded tt]
  from t url show ?thesis
    using law fits by (auto simp: validate_proxy_url_def tt split: if_splits)
qed

lemma headers_reread:
  assumes "map_laws X" and "validate_custom_headers (headers_parse X) (headers_print X) s = Ok t"
  shows "\<not> is_blank t \<and> validate_custom_headers (headers_parse X) (headers_print X) t = Ok t"
proof -
  from assms(2) obtain entries where h: "headers_parse X s = Some entries" "headers_print X entries = Some t"
    by (auto simp: validate_custom_headers_def and_then_Inr ok_or_Inr split: if_split_asm)
  with assms(1) have "headers_parse X t = Some entries" "\<not> is_blank t" unfolding map_laws_def by blast+
  with assms(2) h show ?thesis by (simp add: validate_custom_headers_def)
qed

text \<open>The certificates need no law of another crate.\<close>

lemma inner_part:
  assumes "a @ (t @ b) = u @ (x # p @ y # v)" "x \<notin> set a" "y \<notin> set b"
  shows "\<exists>us ws. t = us @ x # p @ y # ws"
proof -
  from assms(1,2) obtain us where "t @ b = us @ x # p @ y # v"
    unfolding append_eq_append_conv2 by (auto simp: append_eq_Cons_conv Cons_eq_append_conv)
  then have "t @ b = (us @ x # p) @ (y # v)" by simp
  with assms(3) obtain ws where "t = (us @ x # p) @ y # ws"
    unfolding append_eq_append_conv2 by (auto simp: append_eq_Cons_conv Cons_eq_append_conv)
  then show ?thesis by auto
qed

lemma trim_keeps_inner:
  assumes "contains s (x # p @ [y])" "x \<notin> \<Union> (set ` set whitespace_chars)" "y \<notin> \<Union> (set ` set whitespace_chars)"
  shows "contains (trim s) (x # p @ [y])"
proof -
  obtain u v where uv: "s = u @ (x # p @ [y]) @ v" using assms(1) by (auto simp: contains_iff)
  obtain a b where ab: "s = a @ trim s @ b" "set a \<subseteq> \<Union> (set ` set whitespace_chars)" "set b \<subseteq> \<Union> (set ` set whitespace_chars)"
    by (rule trim_parts)
  from ab(1) uv have "a @ trim s @ b = u @ (x # p @ [y]) @ v" by (rule trans [OF sym])
  then have parts: "a @ (trim s @ b) = u @ (x # p @ y # v)" by (simp only: append.assoc append_Cons append_Nil)
  have "x \<notin> set a" "y \<notin> set b" using ab(2,3) assms(2,3) by blast+
  from inner_part [OF parts this] obtain us ws where t: "trim s = us @ x # p @ y # ws" by blast
  show ?thesis unfolding contains_iff t by (intro exI [of _ us] exI [of _ ws]) simp
qed

lemma replace_crlf_id: "cr \<notin> set s \<Longrightarrow> replace_crlf s = s"
  by (induction s rule: replace_crlf.induct) auto

lemma normalize_newlines_id: "cr \<notin> set s \<Longrightarrow> normalize_newlines s = s"
proof -
  have "cr \<notin> set s \<Longrightarrow> replace_char cr [lf] s = s" by (induction s) (auto simp: replace_char_def)
  then show "cr \<notin> set s \<Longrightarrow> ?thesis" by (simp add: normalize_newlines_def replace_crlf_id)
qed

lemma certificates_reread:
  assumes "validate_trusted_certificates_pem s = Ok t"
  shows "\<not> is_blank t \<and> validate_trusted_certificates_pem t = Ok t"
proof -
  let ?n = "normalize_newlines s"
  from assms have n: "length ?n \<le> MAX_PROVIDER_TRUSTED_CERTIFICATES_PEM_BYTES" "CHR 0x00 \<notin> set ?n" "\<not> contains ?n ''PRIVATE KEY''"
    "contains ?n BEGIN_CERTIFICATE" "contains ?n END_CERTIFICATE"
    "\<not> list_ex (\<lambda>c. is_control c \<and> c \<noteq> [lf] \<and> c \<noteq> [CHR 0x09]) (chars ?n)" and t: "t = trim ?n"
    by (auto simp: validate_trusted_certificates_pem_def Let_def split: if_splits)
  obtain a b where ab: "?n = a @ t @ b" unfolding t using trim_factor by blast
  have no_cr: "cr \<notin> set ?n" by (auto simp: normalize_newlines_def replace_char_def)
  have dash: "CHR ''-'' \<notin> \<Union> (set ` set whitespace_chars)" by code_simp
  have begin_end: "BEGIN_CERTIFICATE = CHR ''-'' # ''----BEGIN CERTIFICATE----'' @ ''-''"
    "END_CERTIFICATE = CHR ''-'' # ''----END CERTIFICATE----'' @ ''-''" by (simp_all add: BEGIN_CERTIFICATE_def END_CERTIFICATE_def)
  have inner: "contains t BEGIN_CERTIFICATE" "contains t END_CERTIFICATE"
    using n(4,5) trim_keeps_inner [OF _ dash dash] unfolding begin_end t by blast+
  have sub: "set (chars t) \<subseteq> set (chars ?n)"
    unfolding t chars_trim by (auto dest!: set_dropWhileD)
  have "length t \<le> length ?n" "set t \<subseteq> set ?n" unfolding ab by auto
  moreover have "\<not> contains t ''PRIVATE KEY''"
    using n(3) unfolding ab by (auto dest: contains_append1 contains_append2)
  moreover have "\<not> list_ex (\<lambda>c. is_control c \<and> c \<noteq> [lf] \<and> c \<noteq> [CHR 0x09]) (chars t)"
    using n(6) sub by (auto simp: list_ex_iff)
  moreover have "trim t = t" unfolding t by (rule trim_idem)
  moreover from this have blank: "\<not> is_blank t" using inner(1) by (auto simp: is_blank_def contains_iff BEGIN_CERTIFICATE_def)
  moreover from calculation(2) no_cr have "normalize_newlines t = t" by (intro normalize_newlines_id) blast
  ultimately show ?thesis
    using n inner by (auto simp: validate_trusted_certificates_pem_def Let_def)
qed

text \<open>What the profile has to satisfy beyond the laws: its parts were parsed, and the canonical addresses fit their limits.\<close>

definition profile_refs :: "ProviderProfile \<Rightarrow> SecretRef set" where
  "profile_refs p = set_option (secret_ref p) \<union> set_option (secret_custom_headers_ref p) \<union> set_option (proxy_auth_ref p) \<union>
     set_option (client_certificate_identity_ref p)"

definition addresses_fit :: "ProviderProfile \<Rightarrow> bool" where
  "addresses_fit p \<longleftrightarrow> length (endpoint_str (base_endpoint p)) \<le> MAX_PROFILE_TEXT_BYTES \<and>
     \<not> looks_like_credential (endpoint_str (base_endpoint p)) \<and> pred_option (\<lambda>s. length s \<le> MAX_PROXY_URL_BYTES) (proxy_url p)"

lemma reference_reread: "SecretRef_parse u v = Ok r \<Longrightarrow> SecretRef_parse u (secret_ref_str r) = Ok r"
  by (auto simp: SecretRef_parse_def split: if_splits option.splits)

lemma profile_id_reread: "ProviderProfileId_parse v = Ok i \<Longrightarrow> ProviderProfileId_parse (profile_id_str i) = Ok i"
  by (auto simp: ProviderProfileId_parse_def split: if_splits)

lemma rereads_of_checked:
  assumes "checked_fields X q" "url_laws (url_ops X)" "map_laws X" "addresses_fit q"
    and "ProviderProfileId_parse v = Ok (profile_id q)" "\<forall>r \<in> profile_refs q. \<exists>v. SecretRef_parse u v = Ok r"
  shows "rereads X u q"
proof -
  have refs: "pred_option (\<lambda>s. SecretRef_parse u (secret_ref_str s) = Ok s) r"
    if "r \<in> set [secret_ref q, secret_custom_headers_ref q, proxy_auth_ref q, client_certificate_identity_ref q]" for r
  proof (cases r)
    case (Some s)
    with that have "s \<in> profile_refs q" by (auto simp: profile_refs_def)
    with Some assms(6) reference_reread show ?thesis by auto
  qed simp
  show ?thesis
    unfolding rereads_def
  proof (intro conjI)
    show "endpoint_parse (url_ops X) (endpoint_str (base_endpoint q)) = Ok (base_endpoint q)"
      using assms(1,2,4) endpoint_reread by (auto simp: checked_fields_def addresses_fit_def)
    show "pred_option (\<lambda>s. \<not> is_blank s \<and> validate_proxy_url (url_ops X) s = Ok s) (proxy_url q)"
      using assms(1,2,4) proxy_reread by (cases "proxy_url q") (auto simp: checked_fields_def addresses_fit_def)
    show "pred_option (\<lambda>s. \<not> is_blank s \<and> validate_custom_headers (headers_parse X) (headers_print X) s = Ok s) (custom_headers q)"
      using assms(1,3) headers_reread by (cases "custom_headers q") (auto simp: checked_fields_def)
    show "pred_option (\<lambda>s. \<not> is_blank s \<and> validate_trusted_certificates_pem s = Ok s) (trusted_certificates_pem q)"
      using assms(1) certificates_reread by (cases "trusted_certificates_pem q") (auto simp: checked_fields_def)
  qed (use profile_id_reread [OF assms(5)] refs in blast)+
qed

text \<open>
  C39: A provider profile survives storage. Given that the crates for URLs and JSON keep what they document, a profile that any
  setters built from a parsed identifier and parsed references is, once saved under a new identifier, read back exactly: all
  references, texts, headers, certificates, times, the selected model and the health record. The canonical endpoint
  must not be longer than the limit nor look like a credential and the canonical proxy address must not be longer than its
  limit, which the constructors check only before they make the texts canonical; the next section shows what happens otherwise.
\<close>

theorem profile_survives_storage:
  assumes "ProviderProfile_new (url_ops X) pid name pre adapter endpoint sref = Ok p" "profile_run X ops p = Ok q"
    and laws: "url_laws (url_ops X)" "map_laws X"
    and parsed: "ProviderProfileId_parse v = Ok (profile_id q)" "\<forall>r \<in> profile_refs q. \<exists>v. SecretRef_parse u v = Ok r"
    and fits: "addresses_fit q"
    and new: "profile_id_str (profile_id q) \<notin> fst ` set (profiles_table (conn_db c))"
    and saved: "upsert_provider_profile q c = (Ok (), c')"
  shows "fst (provider_profile X u (profile_id q) (c'\<lparr>conn_faults := []\<rparr>)) = Ok (Some q)"
proof -
  let ?k = "profile_id_str (profile_id q)" and ?db = "conn_db c'"
  have "profile_ok X q" by (rule profile_run_ok [OF ProviderProfile_new_ok [OF assms(1)] assms(2)])
  moreover have "rereads X u q"
    by (rule rereads_of_checked [OF checked_fields_run [OF checked_fields_new [OF assms(1)] assms(2)] laws fits parsed])
  moreover have "map_of (profiles_table ?db) ?k = Some (row_of_profile q) \<and> map_of (model_selection_table ?db) ?k = selected_model q"
    using wp_Ok [OF wp_upsert_provider_profile [OF refl new] saved] .
  ultimately show ?thesis
    using into_domain_stored [of X q u ?db, OF _ _ _ refl]
      provider_profile_of_row [of ?db "profile_id q" "row_of_profile q" X u "Ok q" "conn_now c'"]
    by (cases c') simp
qed

definition demo_conn :: conn where
  "demo_conn = \<lparr>conn_db = empty_database, conn_now = 0, conn_faults = []\<rparr>"

text \<open>A URL crate that knows one address.\<close>

definition stored_url :: "string url_crate" where
  "stored_url = demo_url\<lparr>url_parse := (\<lambda>s. if s = ''https://example.org/v1/'' then Some s else None)\<rparr>"

definition stored_outside :: "string outside" where
  "stored_outside = \<lparr>url_ops = stored_url, headers_parse = (\<lambda>_. None), headers_print = (\<lambda>_. None)\<rparr>"

theorem profile_survives_storage_witness:
  "\<exists>p q c'. ProviderProfile_new (url_ops stored_outside) (ProviderProfileId ''p'') ''Home'' ''openai'' ''chat''
       ''https://example.org/v1/'' None = Ok p \<and> profile_run stored_outside [SetNotes (Some ''mine''), SetModel (Some ''m'')] p = Ok q \<and>
     upsert_provider_profile q demo_conn = (Ok (), c') \<and>
     fst (provider_profile stored_outside (\<lambda>_. True) (profile_id q) (c'\<lparr>conn_faults := []\<rparr>)) = Ok (Some q)"
proof -
  let ?q = "\<lparr>profile_id = ProviderProfileId ''p'', display_name = ''Home'', profile_preset_id = ''openai'', adapter_type = ''chat'',
    base_endpoint = EndpointConfiguration ''https://example.org/v1/'', secret_ref = None, secret_custom_headers_ref = None,
    user_notes = Some ''mine'', organization = None, project = None, region = None, account_identifier = None,
    custom_headers = None, proxy_url = None, proxy_auth_ref = None, request_timeout_secs = 30, connection_timeout_secs = 10,
    streaming_idle_timeout_secs = 60, trusted_certificates_pem = None, client_certificate_identity_ref = None,
    profile_enabled = True, selected_model = Some ''m'', last_successful_health_check = None, last_failure_category = None\<rparr>"
  have run: "ProviderProfile_new (url_ops stored_outside) (ProviderProfileId ''p'') ''Home'' ''openai'' ''chat''
      ''https://example.org/v1/'' None = Ok (?q\<lparr>user_notes := None, selected_model := None\<rparr>)"
    "profile_run stored_outside [SetNotes (Some ''mine''), SetModel (Some ''m'')] (?q\<lparr>user_notes := None, selected_model := None\<rparr>) = Ok ?q"
    by code_simp+
  have laws: "url_laws (url_ops stored_outside)" "map_laws stored_outside"
    by (simp_all add: url_laws_def map_laws_def stored_outside_def stored_url_def demo_url_def) code_simp
  have pid: "ProviderProfileId_parse ''p'' = Ok (profile_id ?q)" by code_simp
  have "length ''https://example.org/v1/'' \<le> MAX_PROFILE_TEXT_BYTES" "\<not> looks_like_credential ''https://example.org/v1/''"
    by code_simp+
  then have fits: "addresses_fit ?q" by (simp add: addresses_fit_def)
  have refs: "\<forall>r \<in> profile_refs ?q. \<exists>v. SecretRef_parse (\<lambda>_. True) v = Ok r" by (simp add: profile_refs_def)
  have "\<exists>c'. upsert_provider_profile ?q demo_conn = (Ok (), c')"
    by (simp add: upsert_provider_profile_def upsert_profile_def session_only_def transaction_def sql_bind_def next_fault_def
      execute_def execute_checked_def statement_def demo_conn_def empty_database_def upsert_def sql_return_def Let_def)
  then obtain c' where up: "upsert_provider_profile ?q demo_conn = (Ok (), c')" by blast
  have "profile_id_str (profile_id ?q) \<notin> fst ` set (profiles_table (conn_db demo_conn))"
    by (simp add: demo_conn_def empty_database_def)
  from profile_survives_storage [OF run laws pid refs fits this up] run up show ?thesis by blast
qed

section \<open>A profile that cannot be read back\<close>

text \<open>Every credential shape has a hyphen, an underscore or a space.\<close>

lemma contains_set: "contains s p \<Longrightarrow> set p \<subseteq> set s"
  by (auto simp: contains_iff)

lemma match_tails_set: "x \<in> set (match_tails p s) \<Longrightarrow> set p \<subseteq> set s"
  by (drule match_tails_sound) (auto simp: suffix_def prefix_def)

lemma no_credential_shape:
  assumes "CHR ''-'' \<notin> set s" "CHR ''_'' \<notin> set s" "CHR '' '' \<notin> set s"
  shows "\<not> looks_like_credential s"
proof -
  have sub: "set (trim s) \<subseteq> set s" by (metis trim_factor set_append Un_subset_iff subset_refl)
  show ?thesis
    using assms sub match_tails_set [of _ "''sk-''" "trim s"] match_tails_set [of _ "''ghp_''" "trim s"]
      match_tails_set [of _ "''Bearer ''" "trim s"] contains_set [of "trim s" "''github_pat_''"] contains_set [of "trim s" "''PRIVATE KEY-----''"]
    by (auto simp: looks_like_credential_def Let_def contains_credential_token_def contains_bearer_token_def list_ex_iff)
qed

definition example_url :: "string url_crate" where
  "example_url = \<lparr>url_parse = Some, url_scheme = (\<lambda>_. ''https''), url_username = (\<lambda>_. []), url_password = (\<lambda>_. None),
     url_host = (\<lambda>_. Some (Domain ''example.org'')), url_query = (\<lambda>_. None), url_fragment = (\<lambda>_. None),
     url_path = drop 19, url_set_path = (\<lambda>u p. take 19 u @ p), url_path_segments = (\<lambda>u. Some [drop 20 u]), url_to_string = (\<lambda>u. u)\<rparr>"

definition example_outside :: "string outside" where
  "example_outside = \<lparr>url_ops = example_url, headers_parse = (\<lambda>_. None), headers_print = (\<lambda>_. None)\<rparr>"

definition long_endpoint :: string where
  "long_endpoint = ''https://example.org/'' @ replicate 2028 CHR ''a''"

lemma long_endpoint_parses:
  "endpoint_parse example_url long_endpoint = Ok (EndpointConfiguration (long_endpoint @ ''/''))"
  "endpoint_parse example_url (long_endpoint @ ''/'') = Err InvalidEndpoint"
proof -
  have len: "length long_endpoint = 2048" by (simp add: long_endpoint_def)
  have safe: "\<not> looks_like_credential long_endpoint" "\<not> looks_like_credential (drop 20 (long_endpoint @ ''/''))"
    by (rule no_credential_shape; auto simp: long_endpoint_def dest: in_set_dropD)+
  have path: "CHR ''%'' \<notin> set (drop 19 long_endpoint)" by (auto simp: long_endpoint_def dest: in_set_dropD)
  have "last (drop 19 long_endpoint) = CHR ''a''" by (simp add: long_endpoint_def)
  then have slash: "\<not> ends_with (drop 19 long_endpoint) ''/''"
    by (auto simp: suffix_def)
  have whole: "take 19 long_endpoint @ drop 19 long_endpoint @ ''/'' = long_endpoint @ ''/''"
    by (metis append.assoc append_take_drop_id)
  show "endpoint_parse example_url long_endpoint = Ok (EndpointConfiguration (long_endpoint @ ''/''))"
    using len safe path slash whole
    by (simp add: endpoint_parse_def example_url_def MAX_PROFILE_TEXT_BYTES_def Let_def)
  show "endpoint_parse example_url (long_endpoint @ ''/'') = Err InvalidEndpoint"
    using len by (simp add: endpoint_parse_def MAX_PROFILE_TEXT_BYTES_def)
qed

text \<open>
  C40: The limit of an endpoint is checked before a slash is added to it. A profile whose endpoint has exactly the greatest length and no
  final slash can be built and saved, and from then on reading it, or the list of all profiles, fails.
\<close>

theorem longest_endpoint_locks_profiles:
  "\<exists>p c'. ProviderProfile_new (url_ops example_outside) (ProviderProfileId ''p'') ''Home'' ''openai'' ''chat'' long_endpoint None = Ok p \<and>
     upsert_provider_profile p demo_conn = (Ok (), c') \<and>
     fst (provider_profile example_outside (\<lambda>_. True) (ProviderProfileId ''p'') c') = Err (map_profile_validation InvalidEndpoint) \<and>
     fst (provider_profiles example_outside (\<lambda>_. True) c') = Err (map_profile_validation InvalidEndpoint)"
proof -
  have names_ok: "checked_profile_text ''Home'' f = Ok ''Home''" "checked_profile_text ''openai'' f = Ok ''openai''"
    "checked_profile_text ''chat'' f = Ok ''chat''" "ProviderProfileId_parse ''p'' = Ok (ProviderProfileId ''p'')" for f
    by (rule checked_profile_text_id, code_simp)+ code_simp
  define p where "p = \<lparr>profile_id = ProviderProfileId ''p'', display_name = ''Home'', profile_preset_id = ''openai'', adapter_type = ''chat'',
    base_endpoint = EndpointConfiguration (long_endpoint @ ''/''), secret_ref = None, secret_custom_headers_ref = None,
    user_notes = None, organization = None, project = None, region = None, account_identifier = None,
    custom_headers = None, proxy_url = None, proxy_auth_ref = None, request_timeout_secs = 30, connection_timeout_secs = 10,
    streaming_idle_timeout_secs = 60, trusted_certificates_pem = None, client_certificate_identity_ref = None,
    profile_enabled = True, selected_model = None, last_successful_health_check = None, last_failure_category = None\<rparr>"
  have new: "ProviderProfile_new (url_ops example_outside) (ProviderProfileId ''p'') ''Home'' ''openai'' ''chat'' long_endpoint None = Ok p"
    by (simp add: ProviderProfile_new_def names_ok example_outside_def long_endpoint_parses p_def timeout_limits)
  let ?db = "empty_database\<lparr>profiles_table := [(''p'', row_of_profile p)]\<rparr>"
  have save: "upsert_provider_profile p demo_conn = (Ok (), demo_conn\<lparr>conn_db := ?db\<rparr>)"
    by (simp add: upsert_provider_profile_def upsert_profile_def session_only_def transaction_def sql_bind_def next_fault_def
      execute_def statement_def demo_conn_def empty_database_def upsert_def sql_return_def Let_def p_def delete_where_def)
  have "into_domain example_outside (\<lambda>_. True) (stored_profile ?db ''p'' (row_of_profile p)) = Err (map_profile_validation InvalidEndpoint)"
    unfolding into_domain_def stored_profile_row
    by (simp add: row_of_profile_def p_def names_ok parse_reference_def parse_category_def ProviderProfile_new_def
      example_outside_def long_endpoint_parses)
  then have "fst (provider_profile example_outside (\<lambda>_. True) (ProviderProfileId ''p'') (demo_conn\<lparr>conn_db := ?db\<rparr>)) =
      Err (map_profile_validation InvalidEndpoint)"
    "fst (provider_profiles example_outside (\<lambda>_. True) (demo_conn\<lparr>conn_db := ?db\<rparr>)) = Err (map_profile_validation InvalidEndpoint)"
    by (simp_all add: provider_profile_def provider_profiles_def sql_bind_def query_def statement_def next_fault_def profile_by_id_def
      sql_lift_def domain_profile_def demo_conn_def oldest_first_def)
  with new save show ?thesis by blast
qed

end
