(* ===== verification/Storage_Libraries.thy ===== *)
theory Storage_Libraries
  imports Storage_Base Routing
begin

text \<open>
  Routing profiles and glossary libraries in the database (\<open>crates/linguamesh-storage/src/lib.rs\<close>). The JSON functions of
  a routing profile are the arguments of \<open>serialize_routing_profile\<close> and \<open>deserialize_routing_profile\<close>.
\<close>

definition MAX_ROUTING_PROFILES :: nat where "MAX_ROUTING_PROFILES = 32"
definition MAX_GLOSSARIES :: nat where "MAX_GLOSSARIES = 32"

section \<open>Routing profiles\<close>

record RoutingProfileRecord =
  routing_record_id :: string
  routing_record_profile :: RoutingProfile
  routing_record_created_at :: int
  routing_record_updated_at :: int

record routing_codec =
  routing_to_string :: "RoutingProfile \<Rightarrow> string option"
  routing_from_str :: "string \<Rightarrow> json option"
  routing_from_value :: "json \<Rightarrow> RoutingProfile option"

fun routing_error_message :: "RoutingError \<Rightarrow> string" where
  "routing_error_message (RoutingError.InvalidConfiguration s) = ''Invalid routing configuration: '' @ s @ ''.''"
| "routing_error_message (NoEligibleCandidates rs) = ''No routing candidate satisfies the configured constraints.''"

definition routing_configuration_error :: "RoutingError \<Rightarrow> TranslationError" where
  "routing_configuration_error e = TranslationError_new ErrorKind.InvalidConfiguration (routing_error_message e)"

definition stored_routing_invalid :: TranslationError where
  "stored_routing_invalid = TranslationError_new Persistence ''The stored routing profile is invalid.''"

definition parse_routing_profile_record ::
  "routing_codec \<Rightarrow> string \<times> routing_row \<Rightarrow> TranslationError + RoutingProfileRecord" where
  "parse_routing_profile_record j = (\<lambda>(k, r).
     and_then (map_err (\<lambda>_. stored_routing_invalid)
       (deserialize_routing_profile (routing_from_str j) (routing_from_value j) (routing_json r))) (\<lambda>p.
     if RoutingProfile.profile_id p \<noteq> k \<or> length (routing_json r) > MAX_ROUTING_PROFILE_JSON_BYTES
     then Err stored_routing_invalid
     else Ok \<lparr>routing_record_id = k, routing_record_profile = p, routing_record_created_at = routing_created r,
            routing_record_updated_at = routing_updated r\<rparr>))"

definition routing_profile :: "routing_codec \<Rightarrow> string \<Rightarrow> RoutingProfileRecord option sql" where
  "routing_profile j k =
     sql_bind (query (\<lambda>db. map_option (Pair k) (map_of (routing_table db) k))) (\<lambda>row.
     sql_lift (case row of None \<Rightarrow> Ok None
       | Some r \<Rightarrow> and_then (parse_routing_profile_record j r) (\<lambda>v. Ok (Some v))))"

text \<open>\<open>ORDER BY updated_at DESC, profile_id ASC LIMIT ?1\<close>.\<close>

definition last_updated_first :: "('r \<Rightarrow> int) \<Rightarrow> (string \<times> 'r) list \<Rightarrow> (string \<times> 'r) list" where
  "last_updated_first f t = sort_key (\<lambda>(k, r). (- f r, k)) t"

definition routing_profiles :: "routing_codec \<Rightarrow> RoutingProfileRecord list sql" where
  "routing_profiles j =
     sql_bind (query (\<lambda>db. take MAX_ROUTING_PROFILES (last_updated_first routing_updated (routing_table db)))) (\<lambda>rows.
     sql_lift (try_map (parse_routing_profile_record j) rows))"

text \<open>\<open>SELECT 1\<close>, and \<open>SELECT COUNT(*)\<close> when there is no row: the check both libraries make before they insert.\<close>

definition check_limit :: "(database \<Rightarrow> bool) \<Rightarrow> (database \<Rightarrow> nat) \<Rightarrow> nat \<Rightarrow> string \<Rightarrow> unit sql" where
  "check_limit known rows limit msg =
     sql_bind (query known) (\<lambda>exists.
     if exists then sql_return ()
     else sql_bind (query rows) (\<lambda>n.
       if n \<ge> limit then sql_lift (Err (TranslationError_new ErrorKind.InvalidConfiguration msg)) else sql_return ()))"

definition upsert_routing :: "string \<Rightarrow> string \<Rightarrow> int \<Rightarrow> database \<Rightarrow> database" where
  "upsert_routing k json_text now db = db\<lparr>routing_table := upsert k
     \<lparr>routing_json = json_text, routing_created = now, routing_updated = now\<rparr>
     (\<lambda>r. r\<lparr>routing_json := json_text, routing_updated := now\<rparr>) (routing_table db)\<rparr>"

definition save_routing_profile :: "routing_codec \<Rightarrow> RoutingProfile \<Rightarrow> RoutingProfileRecord sql" where
  "save_routing_profile j p =
     sql_bind (sql_lift (map_err routing_configuration_error (RoutingProfile_validate p))) (\<lambda>_.
     sql_bind (sql_lift (map_err routing_configuration_error (serialize_routing_profile (routing_to_string j) p))) (\<lambda>json_text.
     let k = RoutingProfile.profile_id p in
     sql_bind (transaction (
       sql_bind (check_limit (\<lambda>db. map_of (routing_table db) k \<noteq> None) (\<lambda>db. length (routing_table db)) MAX_ROUTING_PROFILES
         ''The local routing profile limit has been reached.'') (\<lambda>_.
       execute (upsert_routing k json_text)))) (\<lambda>_.
     sql_bind (routing_profile j k) (\<lambda>r.
     sql_lift (ok_or (TranslationError_new Persistence ''The saved routing profile could not be reloaded.'') r)))))"

definition delete_routing_profile :: "string \<Rightarrow> bool sql" where
  "delete_routing_profile k = statement (\<lambda>now db. Ok (map_of (routing_table db) k \<noteq> None,
     db\<lparr>routing_table := delete_where (\<lambda>i. i = k) (routing_table db)\<rparr>))"

section \<open>Glossary libraries\<close>

record GlossaryRecord =
  glossary_record_id :: string
  glossary_record_glossary :: Glossary
  glossary_record_created_at :: int
  glossary_record_updated_at :: int

definition validate_glossary_id :: "string \<Rightarrow> TranslationError + unit" where
  "validate_glossary_id k =
     (if k = [] \<or> length k > 128
        \<or> list_ex (\<lambda>b. \<not> (is_ascii_alphanumeric b \<or> b = CHR ''-'' \<or> b = CHR ''_'' \<or> b = CHR ''.'')) k
      then Err (TranslationError_new ErrorKind.InvalidConfiguration ''The glossary library ID is invalid.'') else Ok ())"

text \<open>The columns of a term, as the insertion binds them and as the query reads them.\<close>

definition row_of_term :: "GlossaryEntry \<Rightarrow> term_row" where
  "row_of_term e = \<lparr>term_source = source_term e, term_target = target_term e,
     term_source_locale = entry_source_locale e, term_target_locale = entry_target_locale e,
     term_case_sensitive = of_bool (case_sensitive e), term_whole_word = of_bool (whole_word e),
     term_immutable = of_bool (immutable e), term_domain = entry_domain e, term_priority = sint (priority e),
     term_notes = entry_notes e, term_enabled = of_bool (enabled e)\<rparr>"

definition term_of_row :: "term_row \<Rightarrow> GlossaryEntry" where
  "term_of_row r = \<lparr>source_term = term_source r, target_term = term_target r,
     entry_source_locale = term_source_locale r, entry_target_locale = term_target_locale r,
     case_sensitive = (term_case_sensitive r \<noteq> 0), whole_word = (term_whole_word r \<noteq> 0),
     immutable = (term_immutable r \<noteq> 0), entry_domain = term_domain r, priority = word_of_int (term_priority r),
     entry_notes = term_notes r, enabled = (term_enabled r \<noteq> 0)\<rparr>"

lemma term_of_row_of_term [simp]: "term_of_row (row_of_term e) = e"
  by (cases e) (simp add: term_of_row_def row_of_term_def)

text \<open>\<open>SELECT ... FROM glossary_terms WHERE glossary_id = ?1 ORDER BY term_index ASC\<close>.\<close>

definition select_terms :: "string \<Rightarrow> ((string \<times> int) \<times> term_row) list \<Rightarrow> GlossaryEntry list" where
  "select_terms k terms = map (term_of_row \<circ> snd) (sort_key fst (map (\<lambda>((g, i), e). (i, e)) (filter (\<lambda>((g, i), e). g = k) terms)))"

definition load_glossary_record :: "string \<times> glossary_row \<Rightarrow> GlossaryRecord sql" where
  "load_glossary_record = (\<lambda>(k, r).
     sql_bind (query (\<lambda>db. select_terms k (glossary_terms_table db))) (\<lambda>es.
     sql_bind (sql_lift (map_err (\<lambda>e. TranslationError_new Persistence
       (''Stored glossary library is invalid: '' @ glossary_error_message e)) (Glossary_new es))) (\<lambda>g.
     sql_return \<lparr>glossary_record_id = k, glossary_record_glossary = g, glossary_record_created_at = glossary_created r,
       glossary_record_updated_at = glossary_updated r\<rparr>)))"

definition glossary_library :: "string \<Rightarrow> GlossaryRecord option sql" where
  "glossary_library k =
     sql_bind (sql_lift (validate_glossary_id k)) (\<lambda>_.
     sql_bind (query (\<lambda>db. map_of (glossaries_table db) k)) (\<lambda>row.
     case row of None \<Rightarrow> sql_return None
     | Some r \<Rightarrow> sql_bind (load_glossary_record (k, r)) (\<lambda>v. sql_return (Some v))))"

definition glossaries :: "GlossaryRecord list sql" where
  "glossaries =
     sql_bind (query (\<lambda>db. take MAX_GLOSSARIES (last_updated_first glossary_updated (glossaries_table db)))) (\<lambda>rows.
     sql_map load_glossary_record rows)"

definition insert_term :: "string \<Rightarrow> nat \<times> GlossaryEntry \<Rightarrow> unit sql" where
  "insert_term k = (\<lambda>(i, e). execute_checked
     (\<lambda>db. k \<in> fst ` set (glossaries_table db) \<and> (k, int i) \<notin> fst ` set (glossary_terms_table db)) ''constraint failed''
     (\<lambda>now db. db\<lparr>glossary_terms_table := glossary_terms_table db @ [((k, int i), row_of_term e)]\<rparr>))"

definition upsert_glossary :: "string \<Rightarrow> int \<Rightarrow> database \<Rightarrow> database" where
  "upsert_glossary k now db = db\<lparr>glossaries_table := upsert k \<lparr>glossary_created = now, glossary_updated = now\<rparr>
     (\<lambda>r. r\<lparr>glossary_updated := now\<rparr>) (glossaries_table db)\<rparr>"

definition write_glossary :: "string \<Rightarrow> Glossary \<Rightarrow> unit sql" where
  "write_glossary k g =
     sql_bind (check_limit (\<lambda>db. map_of (glossaries_table db) k \<noteq> None) (\<lambda>db. length (glossaries_table db)) MAX_GLOSSARIES
       ''The local glossary library limit has been reached.'') (\<lambda>_.
     sql_bind (execute (upsert_glossary k)) (\<lambda>_.
     sql_bind (execute (\<lambda>now db. db\<lparr>glossary_terms_table := delete_where (\<lambda>(j, i). j = k) (glossary_terms_table db)\<rparr>)) (\<lambda>_.
     sql_for (insert_term k) (zip [0 ..< length (entries g)] (entries g)))))"

definition save_glossary :: "string \<Rightarrow> Glossary \<Rightarrow> GlossaryRecord sql" where
  "save_glossary k g =
     sql_bind (sql_lift (validate_glossary_id k)) (\<lambda>_.
     sql_bind (sql_lift (map_err (\<lambda>e. TranslationError_new ErrorKind.InvalidConfiguration (glossary_error_message e))
       (Glossary_validate g))) (\<lambda>_.
     sql_bind (transaction (write_glossary k g)) (\<lambda>_.
     sql_bind (glossary_library k) (\<lambda>r.
     sql_lift (ok_or (TranslationError_new Persistence ''The saved glossary library could not be reloaded.'') r)))))"

definition delete_glossary :: "string \<Rightarrow> bool sql" where
  "delete_glossary k =
     sql_bind (sql_lift (validate_glossary_id k)) (\<lambda>_.
     statement (\<lambda>now db. Ok (map_of (glossaries_table db) k \<noteq> None,
       db\<lparr>glossaries_table := delete_where (\<lambda>j. j = k) (glossaries_table db),
          glossary_terms_table := delete_where (\<lambda>(j, i). j = k) (glossary_terms_table db)\<rparr>)))"

section \<open>What a saved glossary leaves behind\<close>

definition term_rows :: "string \<Rightarrow> (nat \<times> GlossaryEntry) list \<Rightarrow> ((string \<times> int) \<times> term_row) list" where
  "term_rows k xs = map (\<lambda>(i, e). ((k, int i), row_of_term e)) xs"

definition numbered :: "'a list \<Rightarrow> (nat \<times> 'a) list" where
  "numbered xs = zip [0 ..< length xs] xs"

definition saved_glossary :: "string \<Rightarrow> Glossary \<Rightarrow> int \<Rightarrow> database \<Rightarrow> database" where
  "saved_glossary k g now db = (upsert_glossary k now db)\<lparr>glossary_terms_table :=
     delete_where (\<lambda>(j, i). j = k) (glossary_terms_table db) @ term_rows k (numbered (entries g))\<rparr>"

definition room_for_glossary :: "string \<Rightarrow> database \<Rightarrow> bool" where
  "room_for_glossary k db \<longleftrightarrow> k \<in> fst ` set (glossaries_table db) \<or> length (glossaries_table db) < MAX_GLOSSARIES"

definition glossary_saved :: "string \<Rightarrow> Glossary \<Rightarrow> int \<Rightarrow> database \<Rightarrow> database \<Rightarrow> bool" where
  "glossary_saved k g now db db' \<longleftrightarrow> db' = saved_glossary k g now db \<and> room_for_glossary k db \<and>
     validate_glossary_id k = Ok () \<and> Glossary_validate g = Ok ()"

lemma select_terms_saved:
  "select_terms j (delete_where (\<lambda>(i, n). i = k) terms @ term_rows k (numbered es)) = (if j = k then es else select_terms j terms)"
proof -
  have old: "filter (\<lambda>((g, i), e). g = j) (delete_where (\<lambda>(i, n). i = k) t) = (if j = k then [] else filter (\<lambda>((g, i), e). g = j) t)"
    for t :: "((string \<times> int) \<times> term_row) list"
    by (induction t) (auto simp: delete_where_def)
  have new: "filter (\<lambda>((g, i), e). g = j) (term_rows k xs) = (if j = k then term_rows k xs else [])" for xs
    by (induction xs) (auto simp: term_rows_def)
  let ?m = "map (\<lambda>((g, i), e). (i, e)) (term_rows k (numbered es))"
  have "map fst ?m = map int (map fst (numbered es))" by (simp add: term_rows_def case_prod_unfold comp_def)
  then have "map fst ?m = map int [0 ..< length es]" by (simp add: numbered_def)
  then have "sorted (map fst ?m)" by (simp add: sorted_map sorted_wrt_mono_rel [OF _ sorted_upt])
  then have "sort_key fst ?m = ?m" by (rule sort_key_sorted)
  moreover have "map (term_of_row \<circ> snd) ?m = es" by (simp add: term_rows_def numbered_def case_prod_unfold comp_def)
  ultimately show ?thesis by (simp add: select_terms_def old new)
qed

lemma wp_check_limit:
  assumes "known db \<Longrightarrow> Q () db" "\<not> known db \<Longrightarrow> rows db < limit \<Longrightarrow> Q () db" "\<And>e. F \<or> (\<not> known db \<and> limit \<le> rows db) \<Longrightarrow> E e db"
  shows "wp F (check_limit known rows limit msg) Q E now db"
  unfolding check_limit_def by (intro sql_wp) (use assms in auto)

lemma wp_insert_terms:
  assumes "distinct (map fst xs)" "k \<in> fst ` set (glossaries_table db)" "k \<notin> fst ` fst ` set (glossary_terms_table db)"
  shows "wp F (sql_for (insert_term k) xs)
    (\<lambda>_ db'. db' = db\<lparr>glossary_terms_table := glossary_terms_table db @ term_rows k xs\<rparr>) (\<lambda>_ _. F) now db"
proof (rule wp_for [where I = "\<lambda>ys db'. db' = db\<lparr>glossary_terms_table := glossary_terms_table db @ term_rows k ys\<rparr>"])
  fix ys x db'
  assume ys: "\<exists>zs. xs = ys @ x # zs" and db': "db' = db\<lparr>glossary_terms_table := glossary_terms_table db @ term_rows k ys\<rparr>"
  obtain i e where x: "x = (i, e)" by (cases x)
  from ys assms(1) have "i \<notin> fst ` set ys" by (force simp: x)
  then have new: "(k, int i) \<notin> fst ` set (glossary_terms_table db')"
    using assms(3) db' by (force simp: term_rows_def)
  show "wp F (insert_term k x) (\<lambda>_ db'. db' = db\<lparr>glossary_terms_table := glossary_terms_table db @ term_rows k (ys @ [x])\<rparr>)
      (\<lambda>_ _. F) now db'"
    unfolding insert_term_def x prod.case using new assms(2) db'
    by (intro sql_wp) (auto simp: term_rows_def)
qed (simp_all add: term_rows_def)

lemma wp_write_glossary:
  "wp F (write_glossary k g) (\<lambda>_ db'. db' = saved_glossary k g now db \<and> room_for_glossary k db)
    (\<lambda>_ _. F \<or> \<not> room_for_glossary k db) now db"
proof -
  let ?up = "upsert_glossary k now db"
  let ?db = "?up\<lparr>glossary_terms_table := delete_where (\<lambda>(j, i). j = k) (glossary_terms_table ?up)\<rparr>"
  have "wp F (sql_for (insert_term k) (numbered (entries g)))
      (\<lambda>_ db'. db' = ?db\<lparr>glossary_terms_table := glossary_terms_table ?db @ term_rows k (numbered (entries g))\<rparr>) (\<lambda>_ _. F) now ?db"
    by (rule wp_insert_terms) (auto simp: upsert_glossary_def numbered_def)
  then have loop: "wp F (sql_for (insert_term k) (numbered (entries g)))
      (\<lambda>_ db'. db' = saved_glossary k g now db \<and> room_for_glossary k db) (\<lambda>_ _. F \<or> \<not> room_for_glossary k db) now ?db"
    if "room_for_glossary k db"
    by (rule wp_mono) (simp_all add: saved_glossary_def upsert_glossary_def that)
  show ?thesis
    unfolding write_glossary_def numbered_def [symmetric]
    by (intro sql_wp wp_check_limit loop)
      (auto simp: room_for_glossary_def map_of_eq_None_iff dest: map_of_SomeD intro: rev_image_eqI)
qed

lemma library_rules [sql_reads]: "reads (load_glossary_record x)" "reads (glossary_library k)"
  and library_stable [sql_stable]: "stable (load_glossary_record x)" "stable (glossary_library k)" "stable (insert_term k y)"
    "stable (write_glossary k g)"
  unfolding glossary_library_def load_glossary_record_def insert_term_def write_glossary_def check_limit_def case_prod_unfold
  by (intro sql_reads sql_stable)+

definition loaded_glossary :: "string \<Rightarrow> int \<Rightarrow> database \<Rightarrow> TranslationError + GlossaryRecord option" where
  "loaded_glossary k now db = fst (glossary_library k \<lparr>conn_db = db, conn_now = now, conn_faults = []\<rparr>)"

lemma loaded_glossary_working: "fst (glossary_library k (working c)) = loaded_glossary k (conn_now c) (conn_db c)"
  by (cases c) (simp add: loaded_glossary_def working_def)

lemma wp_glossary_library:
  "wp True (glossary_library k) (\<lambda>v db'. db' = db \<and> loaded_glossary k now db = Ok v) (\<lambda>_ db'. db' = db) now db"
  unfolding loaded_glossary_def by (rule wp_reads_stable [OF library_rules(2) library_stable(2)])

lemma wp_reload_glossary:
  assumes "Glossary_validate \<lparr>entries = select_terms k (glossary_terms_table db)\<rparr> = Ok ()" "map_of (glossaries_table db) k = Some r"
  shows "wp True (glossary_library k) (\<lambda>v db'. \<exists>r'. v = Some r' \<and> glossary_record_id r' = k \<and> glossary_record_updated_at r' = glossary_updated r \<and>
    glossary_record_glossary r' = \<lparr>entries = select_terms k (glossary_terms_table db)\<rparr>) (\<lambda>_ _. True) now db"
  unfolding glossary_library_def load_glossary_record_def prod.case
  by (intro sql_wp) (use assms in \<open>auto simp: Glossary_new_def Let_def\<close>)

lemma glossary_entries: "\<lparr>entries = entries g\<rparr> = g"
  by (cases g) simp

lemma wp_save_glossary:
  "wp True (save_glossary k g)
     (\<lambda>r db'. glossary_saved k g now db db' \<and> glossary_record_id r = k \<and> glossary_record_glossary r = g \<and>
        glossary_record_updated_at r = now \<and> loaded_glossary k now db' = Ok (Some r))
     (\<lambda>_ db'. db' = db \<or> glossary_saved k g now db db') now db"
proof -
  let ?new = "saved_glossary k g now db"
  obtain r where r: "map_of (glossaries_table ?new) k = Some r" "glossary_updated r = now"
    by (simp add: saved_glossary_def upsert_glossary_def map_of_upsert split: option.splits)
  have terms: "select_terms k (glossary_terms_table ?new) = entries g"
    by (simp add: saved_glossary_def select_terms_saved)
  have reload: "wp True (glossary_library k) (\<lambda>v db'. (db' = ?new \<and> loaded_glossary k now ?new = Ok v) \<and>
      (\<exists>r'. v = Some r' \<and> glossary_record_id r' = k \<and> glossary_record_updated_at r' = now \<and> glossary_record_glossary r' = g))
      (\<lambda>_ db'. db' = ?new \<and> True) now ?new" if "Glossary_validate g = Ok ()"
    using wp_conj [OF wp_glossary_library wp_reload_glossary [OF _ r(1)]] that
    by (simp add: terms glossary_entries r(2))
  show ?thesis
    unfolding save_glossary_def
    by (intro wp_lift wp_transaction wp_bind; (rule wp_mono [OF wp_write_glossary])?)
      (auto simp: glossary_saved_def map_err_Inr intro!: wp_bind wp_mono [OF reload] sql_wp)
qed

text \<open>
  C38: Saving a glossary is all or nothing, whatever statements fail: after a success loading it gives the saved terms in their order,
  after an error the database is unchanged or holds the whole glossary.
\<close>

theorem saved_glossary_is_reloaded:
  "let (r, c') = save_glossary k g c in
     case r of
       Inr rec \<Rightarrow> glossary_record_id rec = k \<and> glossary_record_glossary rec = g \<and> glossary_record_updated_at rec = conn_now c \<and>
         fst (glossary_library k (working c')) = Ok (Some rec)
     | Inl e \<Rightarrow> conn_db c' = conn_db c \<or> conn_db c' = saved_glossary k g (conn_now c) (conn_db c)"
proof -
  obtain r c' where s: "save_glossary k g c = (r, c')" by (cases "save_glossary k g c")
  show ?thesis
    using wp_run(1,3) [OF wp_save_glossary disjI1 [OF TrueI] s]
    by (auto simp: s loaded_glossary_working glossary_saved_def split: sum.splits)
qed

section \<open>The invariant of the libraries\<close>

text \<open>Libraries are unique and at most 32, terms belong to a library, and every glossary library can be loaded.\<close>

definition glossaries_ok :: "(string \<times> glossary_row) list \<Rightarrow> ((string \<times> int) \<times> term_row) list \<Rightarrow> bool" where
  "glossaries_ok libs terms \<longleftrightarrow> distinct (map fst libs) \<and> length libs \<le> MAX_GLOSSARIES \<and> fst ` fst ` set terms \<subseteq> fst ` set libs \<and>
     (\<forall>k \<in> fst ` set libs. validate_glossary_id k = Ok () \<and> Glossary_validate \<lparr>entries = select_terms k terms\<rparr> = Ok ())"

definition routing_ok :: "(string \<times> routing_row) list \<Rightarrow> bool" where
  "routing_ok t \<longleftrightarrow> distinct (map fst t) \<and> length t \<le> MAX_ROUTING_PROFILES"

lemma first_keys_deleted: "fst ` fst ` set (delete_where (\<lambda>(j, i). j = k) t) = fst ` fst ` set t - {k}"
proof -
  have "fst ` {x \<in> A. \<not> (case x of (j, i) \<Rightarrow> j = k)} = fst ` A - {k}" for A :: "('a \<times> 'b) set"
    by (auto simp: case_prod_unfold)
  then show ?thesis by (simp only: keys_delete_where)
qed

lemma glossaries_ok_saved:
  assumes ok: "glossaries_ok (glossaries_table db) (glossary_terms_table db)" and saved: "glossary_saved k g now db db'"
  shows "glossaries_ok (glossaries_table db') (glossary_terms_table db')"
proof -
  have db': "db' = saved_glossary k g now db" and room: "room_for_glossary k db" and valid: "validate_glossary_id k = Ok ()"
    "Glossary_validate g = Ok ()" using saved by (simp_all add: glossary_saved_def)
  have keys: "fst ` set (glossaries_table db') = insert k (fst ` set (glossaries_table db))"
    by (simp add: db' saved_glossary_def upsert_glossary_def)
  have terms: "glossary_terms_table db' = delete_where (\<lambda>(j, i). j = k) (glossary_terms_table db) @ term_rows k (numbered (entries g))"
    by (simp add: db' saved_glossary_def)
  have "fst ` fst ` set (term_rows k xs) \<subseteq> {k}" for xs by (auto simp: term_rows_def)
  then have "fst ` fst ` set (glossary_terms_table db') \<subseteq> insert k (fst ` fst ` set (glossary_terms_table db))"
    unfolding terms set_append image_Un first_keys_deleted by blast
  moreover have "fst ` fst ` set (glossary_terms_table db) \<subseteq> fst ` set (glossaries_table db)"
    using ok unfolding glossaries_ok_def by blast
  ultimately have sub: "fst ` fst ` set (glossary_terms_table db') \<subseteq> insert k (fst ` set (glossaries_table db))" by blast
  have len: "length (glossaries_table db') \<le> MAX_GLOSSARIES"
    using ok room by (auto simp: glossaries_ok_def db' saved_glossary_def upsert_glossary_def length_upsert room_for_glossary_def map_of_eq_None_iff)
  have "distinct (map fst (glossaries_table db'))"
    using ok by (simp add: glossaries_ok_def db' saved_glossary_def upsert_glossary_def)
  moreover have "validate_glossary_id j = Ok () \<and> Glossary_validate \<lparr>entries = select_terms j (glossary_terms_table db')\<rparr> = Ok ()"
    if "j \<in> insert k (fst ` set (glossaries_table db))" for j
  proof (cases "j = k")
    case False
    with that ok have "validate_glossary_id j = Ok () \<and> Glossary_validate \<lparr>entries = select_terms j (glossary_terms_table db)\<rparr> = Ok ()"
      unfolding glossaries_ok_def by blast
    with False show ?thesis unfolding terms select_terms_saved by simp
  qed (use valid in \<open>simp add: terms select_terms_saved glossary_entries\<close>)
  ultimately show ?thesis using sub len unfolding glossaries_ok_def keys by blast
qed

lemma glossaries_ok_delete:
  assumes "glossaries_ok libs terms"
  shows "glossaries_ok (delete_where (\<lambda>j. j = k) libs) (delete_where (\<lambda>(j, i). j = k) terms)"
proof -
  let ?libs = "delete_where (\<lambda>j. j = k) libs" and ?terms = "delete_where (\<lambda>(j, i). j = k) terms"
  have keys: "fst ` set ?libs = fst ` set libs - {k}" by auto
  have "select_terms j ?terms = select_terms j terms" if "j \<noteq> k" for j
    using that select_terms_saved [of j k terms "[]"] by (simp add: numbered_def term_rows_def)
  moreover have "\<forall>j \<in> fst ` set libs. validate_glossary_id j = Ok () \<and> Glossary_validate \<lparr>entries = select_terms j terms\<rparr> = Ok ()"
    using assms unfolding glossaries_ok_def by blast
  ultimately have "\<forall>j \<in> fst ` set libs - {k}. validate_glossary_id j = Ok () \<and> Glossary_validate \<lparr>entries = select_terms j ?terms\<rparr> = Ok ()"
    by auto
  moreover have "fst ` fst ` set ?terms \<subseteq> fst ` set libs - {k}"
    using assms unfolding glossaries_ok_def first_keys_deleted by blast
  moreover have "distinct (map fst ?libs)" "length ?libs \<le> MAX_GLOSSARIES"
    using assms delete_where_sub(2) [of "\<lambda>j. j = k" libs] by (simp_all add: glossaries_ok_def del: delete_where_sub(2))
  ultimately show ?thesis unfolding glossaries_ok_def keys by blast
qed

lemma routing_ok_upsert:
  "routing_ok (routing_table db) \<Longrightarrow> map_of (routing_table db) k \<noteq> None \<or> length (routing_table db) < MAX_ROUTING_PROFILES \<Longrightarrow>
   routing_ok (routing_table (upsert_routing k contents now db))"
  by (auto simp: routing_ok_def upsert_routing_def length_upsert)

lemma routing_ok_delete: "routing_ok t \<Longrightarrow> routing_ok (delete_where p t)"
  using delete_where_sub(2) [of p t] by (simp add: routing_ok_def del: delete_where_sub(2))

end
