(* ===== verification/Storage_Safety.thy ===== *)
theory Storage_Safety
  imports Storage_Documents Storage_Records Storage_Profiles Storage_Libraries
begin

text \<open>
  All operations of \<open>Storage\<close> (\<open>crates/linguamesh-storage/src/lib.rs\<close>) as calls on one database, in any order, at any times
  and with any failing statements: the invariant of the tables, atomicity, and where the stored texts come from.
\<close>

section \<open>Calls\<close>

datatype storage_call =
    SaveJob string DocumentJob DocumentJobState
  | SaveJobOptions string DocumentJobOptions
  | UpdateSegment string nat string
  | SetJobState string DocumentJobState
  | DeleteJob string
  | ClearJobs
  | LoadJob string
  | ListJobs nat
  | ResumableJobs
  | SaveModel string
  | SelectModel string
  | ReadModels
  | RecordHistory TranslationRequest string "UsageRecord option"
  | SetHistory bool
  | ClearHistory
  | DeleteHistory string
  | ReadHistory nat
  | RecordMemory TranslationRequest string
  | LookupMemory TranslationRequest
  | SetMemory bool
  | ClearMemory
  | DeleteMemory string
  | ReadMemory nat
  | SaveProfile ProviderProfile
  | SaveAndActivate ProviderProfile
  | Activate ProviderProfileId
  | HealthSuccess ProviderProfileId i64
  | HealthFailure ProviderProfileId ErrorKind
  | DeleteProfile ProviderProfileId
  | ReadProfiles ProviderProfileId
  | SaveRouting RoutingProfile
  | DeleteRouting string
  | ReadRouting string
  | SaveGlossary string Glossary
  | DeleteGlossary string
  | ReadGlossaries string

text \<open>The libraries and the randomness the operations use.\<close>

record 'u storage_env =
  env_serde :: serde_json
  env_json :: stored_json
  env_text :: "json \<Rightarrow> string + string"
  env_outside :: "'u outside"
  env_uuid :: "string \<Rightarrow> bool"
  env_codec :: routing_codec

definition ignoring :: "'a sql \<Rightarrow> unit sql" where
  "ignoring m = sql_bind m (\<lambda>_. sql_return ())"

fun storage_op :: "'u storage_env \<Rightarrow> storage_call \<Rightarrow> unit sql" where
  "storage_op E (SaveJob k job state) = ignoring (save_document_job (env_json E) k job state)"
| "storage_op E (SaveJobOptions k options) = ignoring (save_document_job_options (env_json E) k options)"
| "storage_op E (UpdateSegment k i t) = ignoring (update_document_segment (env_serde E) (env_json E) k i t)"
| "storage_op E (SetJobState k state) = ignoring (set_document_job_state (env_json E) k state)"
| "storage_op E (DeleteJob k) = ignoring (delete_document_job k)"
| "storage_op E ClearJobs = clear_document_jobs"
| "storage_op E (LoadJob k) = ignoring (document_job (env_json E) k)"
| "storage_op E (ListJobs n) = ignoring (document_jobs (env_json E) n)"
| "storage_op E ResumableJobs = ignoring (resumable_document_jobs (env_json E))"
| "storage_op E (SaveModel m) = upsert_manual_model m"
| "storage_op E (SelectModel m) = set_active_model m"
| "storage_op E ReadModels = sql_bind active_model (\<lambda>_. ignoring manual_models)"
| "storage_op E (RecordHistory r t u) = record_translation_history_with_usage r t u"
| "storage_op E (SetHistory b) = set_translation_history_enabled b"
| "storage_op E ClearHistory = clear_translation_history"
| "storage_op E (DeleteHistory k) = ignoring (delete_translation_history_entry k)"
| "storage_op E (ReadHistory n) = sql_bind (translation_history n) (\<lambda>_. sql_bind (usage_records n) (\<lambda>_.
     sql_bind translation_history_count (\<lambda>_. ignoring usage_record_count)))"
| "storage_op E (RecordMemory r t) = record_translation_memory (env_text E) r t"
| "storage_op E (LookupMemory r) = ignoring (lookup_translation_memory (env_text E) r)"
| "storage_op E (SetMemory b) = set_translation_memory_enabled b"
| "storage_op E ClearMemory = clear_translation_memory"
| "storage_op E (DeleteMemory k) = ignoring (delete_translation_memory_entry k)"
| "storage_op E (ReadMemory n) = sql_bind (translation_memory n) (\<lambda>_. ignoring translation_memory_count)"
| "storage_op E (SaveProfile p) = upsert_provider_profile p"
| "storage_op E (SaveAndActivate p) = save_and_activate_provider p"
| "storage_op E (Activate i) = set_active_provider i"
| "storage_op E (HealthSuccess i t) = ignoring (record_provider_health_success i t)"
| "storage_op E (HealthFailure i e) = ignoring (record_provider_health_failure i e)"
| "storage_op E (DeleteProfile i) = ignoring (delete_provider_profile i)"
| "storage_op E (ReadProfiles i) = sql_bind (provider_profile (env_outside E) (env_uuid E) i) (\<lambda>_.
     sql_bind (provider_profiles (env_outside E) (env_uuid E)) (\<lambda>_.
     ignoring (active_provider_profile (env_outside E) (env_uuid E))))"
| "storage_op E (SaveRouting p) = ignoring (save_routing_profile (env_codec E) p)"
| "storage_op E (DeleteRouting k) = ignoring (delete_routing_profile k)"
| "storage_op E (ReadRouting k) = sql_bind (routing_profile (env_codec E) k) (\<lambda>_. ignoring (routing_profiles (env_codec E)))"
| "storage_op E (SaveGlossary k g) = ignoring (save_glossary k g)"
| "storage_op E (DeleteGlossary k) = ignoring (delete_glossary k)"
| "storage_op E (ReadGlossaries k) = sql_bind (glossary_library k) (\<lambda>_. ignoring glossaries)"

text \<open>A step is a call with the time and the statements that fail in it.\<close>

type_synonym storage_step = "int \<times> string option list \<times> storage_call"

definition storage_after :: "'u storage_env \<Rightarrow> storage_step \<Rightarrow> database \<Rightarrow> database" where
  "storage_after E = (\<lambda>(now, faults, call) db. conn_db (snd (storage_op E call \<lparr>conn_db = db, conn_now = now, conn_faults = faults\<rparr>)))"

definition storage_run :: "'u storage_env \<Rightarrow> storage_step list \<Rightarrow> database \<Rightarrow> database" where
  "storage_run E steps db = fold (storage_after E) steps db"

section \<open>Atomicity\<close>

lemma reads_records [sql_reads]:
  "reads translation_history_enabled" "reads translation_memory_enabled" "reads usage_record_count" "reads (usage_records n)"
  "reads translation_history_count" "reads (translation_history n)" "reads translation_memory_count" "reads (translation_memory n)"
  "reads (lookup_translation_memory to_text r)"
proof -
  show "reads (usage_records n)"
    by (auto simp: usage_records_def reads_def result_iff intro!: wp_statement split: sum.splits)
  show "reads (lookup_translation_memory to_text r)"
    unfolding lookup_translation_memory_def translation_memory_enabled_def by (intro sql_reads)
qed (unfold translation_history_enabled_def translation_memory_enabled_def usage_record_count_def translation_history_count_def
    translation_history_def translation_memory_count_def translation_memory_def, (intro sql_reads)+)

lemma reads_others [sql_reads]:
  "reads (document_jobs j n)" "reads (resumable_document_jobs j)" "reads active_model" "reads manual_models"
  "reads (provider_profile X u i)" "reads (provider_profiles X u)" "reads (active_provider_profile X u)"
  "reads (routing_profile J k)" "reads (routing_profiles J)" "reads glossaries" "reads m \<Longrightarrow> reads (ignoring m)"
  unfolding document_jobs_def resumable_document_jobs_def active_model_def manual_models_def provider_profile_def provider_profiles_def
    active_provider_profile_def routing_profile_def routing_profiles_def glossaries_def ignoring_def
  by (intro sql_reads | assumption)+

lemma atomic_binds [sql_atomic]:
  "(\<And>a. all_or_nothing (f a)) \<Longrightarrow> all_or_nothing (sql_bind (sql_lift r) f)"
  "(\<And>b. all_or_nothing (g b)) \<Longrightarrow> all_or_nothing (sql_bind (query q) g)"
  "stable m \<Longrightarrow> (\<And>c. reads (h c)) \<Longrightarrow> all_or_nothing (sql_bind (transaction m) h)"
  "(\<And>d. reads (u d)) \<Longrightarrow> all_or_nothing (sql_bind (statement run) u)"
  "(\<And>e. reads (v e)) \<Longrightarrow> all_or_nothing (sql_bind (execute_checked constraint violated upd) v)"
  by (rule atomic_bind_first atomic_bind_last; (intro sql_atomic sql_reads sql_stable)?; assumption?)+

lemma atomic_ignoring [sql_atomic]: "all_or_nothing m \<Longrightarrow> stable m \<Longrightarrow> all_or_nothing (ignoring m)"
  unfolding ignoring_def by (intro atomic_bind_last sql_reads)

lemma stable_ignoring [sql_stable]: "stable m \<Longrightarrow> stable (ignoring m)"
  unfolding ignoring_def by (intro sql_stable)

lemma stable_document_operations [sql_stable]:
  "stable (save_document_job_options j k options)" "stable (update_document_segment sj j k i s)" "stable (set_document_job_state j k state)"
  "stable (delete_document_job k)"
  unfolding save_document_job_options_def update_document_segment_def set_document_job_state_def delete_document_job_def Let_def
  by (intro sql_stable)+

lemma atomic_document_operations [sql_atomic]:
  "all_or_nothing (save_document_job j k job state)" "all_or_nothing (save_document_job_options j k options)"
  "all_or_nothing (set_document_job_state j k state)" "all_or_nothing (delete_document_job k)" "all_or_nothing clear_document_jobs"
  unfolding save_document_job_def save_document_job_options_def set_document_job_state_def delete_document_job_def clear_document_jobs_def Let_def
  by (intro sql_atomic sql_reads sql_stable)+

lemma atomic_update_document_segment [sql_atomic]: "all_or_nothing (update_document_segment sj j k i s)"
  unfolding update_document_segment_def
  by (intro sql_atomic) (intro atomic_bind_first sql_reads sql_stable sql_atomic)

lemma stable_records [sql_stable]: "stable (delete_translation_history_entry k)" "stable (delete_translation_memory_entry k)"
    "stable (lookup_translation_memory to_text r)"
  unfolding delete_translation_history_entry_def delete_translation_memory_entry_def lookup_translation_memory_def
    translation_memory_enabled_def
  by (intro sql_stable)+

lemma atomic_records [sql_atomic]:
  "all_or_nothing (record_translation_history_with_usage r t u)" "all_or_nothing (record_translation_memory to_text r t)"
  "all_or_nothing (set_translation_history_enabled b)" "all_or_nothing (set_translation_memory_enabled b)"
  "all_or_nothing clear_translation_history" "all_or_nothing clear_translation_memory"
  "all_or_nothing (delete_translation_history_entry k)" "all_or_nothing (delete_translation_memory_entry k)"
  unfolding record_translation_history_with_usage_def record_translation_memory_def set_translation_history_enabled_def
    set_translation_memory_enabled_def clear_translation_history_def clear_translation_memory_def
    delete_translation_history_entry_def delete_translation_memory_entry_def translation_history_enabled_def translation_memory_enabled_def
  by (intro sql_atomic sql_stable)+

lemma stable_profile_operations [sql_stable]:
  "stable (upsert_profile p)" "stable (select_provider k)" "stable (record_provider_health_success i t)"
  "stable (record_provider_health_failure i e)" "stable (delete_provider_profile i)"
  unfolding upsert_profile_def select_provider_def record_provider_health_success_def record_provider_health_failure_def
    delete_provider_profile_def update_profile_row_def Let_def
  by (intro sql_stable)+

lemma atomic_profile_operations [sql_atomic]:
  "all_or_nothing (upsert_provider_profile p)" "all_or_nothing (save_and_activate_provider p)" "all_or_nothing (set_active_provider i)"
  "all_or_nothing (record_provider_health_success i t)" "all_or_nothing (record_provider_health_failure i e)"
  "all_or_nothing (delete_provider_profile i)" "all_or_nothing (upsert_manual_model m)" "all_or_nothing (set_active_model m)"
  unfolding upsert_provider_profile_def save_and_activate_provider_def set_active_provider_def record_provider_health_success_def
    record_provider_health_failure_def delete_provider_profile_def update_profile_row_def upsert_manual_model_def set_active_model_def
  by (intro sql_atomic sql_stable)+

lemma stable_library_operations [sql_stable]:
  "stable (check_limit known rows limit msg)" "stable (routing_profile J k)" "stable (save_routing_profile J p)"
  "stable (delete_routing_profile k)" "stable (save_glossary k g)" "stable (delete_glossary k)"
  unfolding check_limit_def routing_profile_def save_routing_profile_def delete_routing_profile_def save_glossary_def delete_glossary_def Let_def
  by (intro sql_stable)+

lemma atomic_library_operations [sql_atomic]:
  "all_or_nothing (save_routing_profile J p)" "all_or_nothing (delete_routing_profile k)" "all_or_nothing (save_glossary k g)"
  "all_or_nothing (delete_glossary k)"
  unfolding save_routing_profile_def delete_routing_profile_def save_glossary_def delete_glossary_def Let_def
  by (intro sql_atomic sql_reads sql_stable)+

lemma stable_lists [sql_stable]: "stable (document_jobs j n)" "stable (resumable_document_jobs j)"
  unfolding document_jobs_def resumable_document_jobs_def by (intro sql_stable)+

lemma storage_op_atomic: "all_or_nothing (storage_op E call)"
proof -
  have "reads (storage_op E (ReadHistory n))" "reads (storage_op E (ReadProfiles i))" for n i
    unfolding storage_op.simps by (intro sql_reads)+
  note reading = this [THEN atomic_reads, unfolded storage_op.simps]
  show ?thesis
    by (cases call) (auto intro!: reading sql_atomic sql_stable intro: atomic_reads readsI sql_reads)
qed

text \<open>
  C34: Every operation is atomic: whatever statements fail, the database is afterwards unchanged or exactly what a run without failing
  statements leaves.
\<close>

theorem every_operation_is_atomic:
  "storage_after E (now, faults, call) db \<in> {db, storage_after E (now, [], call) db}"
  using storage_op_atomic [of E call]
  by (auto simp: storage_after_def all_or_nothing_def working_def dest: spec [of _ "\<lparr>conn_db = db, conn_now = now, conn_faults = faults\<rparr>"])

section \<open>The invariant\<close>

fun told_history :: "storage_call \<Rightarrow> (TranslationRequest \<times> string) set" where
  "told_history (RecordHistory r t u) = {(r, t)}"
| "told_history call = {}"

fun told_memory :: "storage_call \<Rightarrow> (TranslationRequest \<times> string) set" where
  "told_memory (RecordMemory r t) = {(r, t)}"
| "told_memory call = {}"

definition memory_ok :: "(string \<times> memory_row) list \<Rightarrow> bool" where
  "memory_ok mem \<longleftrightarrow> distinct (map fst mem) \<and> length mem \<le> MAX_TRANSLATION_MEMORY_ENTRIES"

definition tables_ok :: "database \<Rightarrow> bool" where
  "tables_ok db \<longleftrightarrow>
     jobs_ok (document_jobs_table db) (document_segments_table db) (document_options_table db) \<and>
     history_ok (history_table db) (usage_table db) \<and> memory_ok (memory_table db) \<and>
     profiles_ok (profiles_table db) (model_selection_table db) (active_provider_row db) \<and>
     models_ok (model_descriptors_table db) (active_model_row db) \<and> routing_ok (routing_table db) \<and>
     glossaries_ok (glossaries_table db) (glossary_terms_table db)"

definition texts_ok :: "(json \<Rightarrow> string + string) \<Rightarrow> (TranslationRequest \<times> string) set \<Rightarrow> (TranslationRequest \<times> string) set \<Rightarrow> database \<Rightarrow> bool" where
  "texts_ok to_text hist mem db \<longleftrightarrow> recorded hist (history_table db) \<and> remembered to_text mem (memory_table db)"

definition db_ok :: "'u storage_env \<Rightarrow> (TranslationRequest \<times> string) set \<Rightarrow> (TranslationRequest \<times> string) set \<Rightarrow> database \<Rightarrow> bool" where
  "db_ok E hist mem db \<longleftrightarrow> tables_ok db \<and> texts_ok (env_text E) hist mem db"

lemmas db_ok_defs = db_ok_def tables_ok_def texts_ok_def

lemma db_ok_empty: "db_ok E {} {} empty_database"
  by (simp add: db_ok_defs empty_database_def jobs_ok_def history_ok_def memory_ok_def profiles_ok_def models_ok_def routing_ok_def
    glossaries_ok_def recorded_def remembered_def)

lemma db_ok_mono: "db_ok E hist mem db \<Longrightarrow> db_ok E (hist \<union> hist') (mem \<union> mem') db"
  by (auto simp: db_ok_defs intro: recorded_mono remembered_mono)

text \<open>\<open>keeps\<close>: every outcome of the operation has the invariant.\<close>

definition keeps :: "(database \<Rightarrow> bool) \<Rightarrow> 'a sql \<Rightarrow> int \<Rightarrow> database \<Rightarrow> bool" where
  "keeps I m now db \<longleftrightarrow> wp True m (\<lambda>_. I) (\<lambda>_. I) now db"

lemma keeps_reads: "reads m \<Longrightarrow> I db \<Longrightarrow> keeps I m now db"
  by (simp add: keeps_def wp_reads)

lemma keeps_ignoring: "keeps I m now db \<Longrightarrow> keeps I (ignoring m) now db"
  unfolding keeps_def ignoring_def by (rule wp_bind, erule wp_mono) (auto intro: sql_wp)

lemma keeps_then_reads: "wp True m (\<lambda>_. I) (\<lambda>_. I) now db \<Longrightarrow> (\<And>a. reads (f a)) \<Longrightarrow> wp True (sql_bind m f) (\<lambda>_. I) (\<lambda>_. I) now db"
  by (rule wp_bind, erule wp_mono) (auto intro: wp_reads)

lemma keeps_document_operations:
  assumes "db_ok E hist mem db"
  shows "keeps (db_ok E hist mem) (save_document_job j k job state) now db"
    "keeps (db_ok E hist mem) (save_document_job_options j k options) now db"
    "keeps (db_ok E hist mem) (update_document_segment sj j k i s) now db"
    "keeps (db_ok E hist mem) (set_document_job_state j k state) now db"
    "keeps (db_ok E hist mem) (delete_document_job k) now db" "keeps (db_ok E hist mem) clear_document_jobs now db"
proof -
  have saved: "db_ok E hist mem db'" if "job_saved k job state now db db'" for k job state db'
  proof -
    have "db' = saved_db k job state now db" using that by (simp add: job_saved_def)
    then show ?thesis
      using assms jobs_ok_saved [OF _ that] by (simp add: db_ok_defs) (simp add: saved_db_def upsert_job_def)
  qed
  show save: "keeps (db_ok E hist mem) (save_document_job j k job state) now db" for j k job state
    unfolding keeps_def by (rule wp_mono [OF wp_save_document_job]) (use assms saved in auto)
  show "keeps (db_ok E hist mem) (save_document_job_options j k options) now db"
    unfolding keeps_def save_document_job_options_def Let_def
    by (intro wp_bind [OF wp_lift] wp_lift keeps_then_reads sql_reads wp_execute_checked)
      (use assms in \<open>auto simp: db_ok_defs jobs_ok_options\<close>)
  show "keeps (db_ok E hist mem) (update_document_segment sj j k i s) now db"
    unfolding keeps_def update_document_segment_def
    by (intro wp_if wp_lift wp_bind wp_reads [OF reads_document_job_or(2)]) (use assms save in \<open>auto simp: keeps_def\<close>)
  show "keeps (db_ok E hist mem) (set_document_job_state j k state) now db"
    unfolding keeps_def set_document_job_state_def
    by (intro keeps_then_reads sql_reads wp_statement) (use assms in \<open>auto simp: db_ok_defs jobs_ok_state\<close>)
  have delete: "db_ok E hist mem (delete_jobs p db)" for p
    using assms jobs_ok_delete [of db p] by (simp add: db_ok_defs) (simp add: delete_jobs_def)
  show "keeps (db_ok E hist mem) (delete_document_job k) now db" "keeps (db_ok E hist mem) clear_document_jobs now db"
    unfolding keeps_def delete_document_job_def clear_document_jobs_def
    by (intro wp_statement wp_execute; use assms delete in simp)+
qed

lemma history_frames:
  "memory_table (upsert_history r t now db) = memory_table db" "usage_table (upsert_history r t now db) = usage_table db"
  "history_table (upsert_usage r u now db) = history_table db" "memory_table (upsert_usage r u now db) = memory_table db"
  "memory_table (prune_history db) = memory_table db" "memory_table (prune_usage db) = memory_table db"
  by (simp_all add: upsert_history_def upsert_usage_def prune_history_def prune_usage_def Let_def)

lemma history_keys:
  "distinct (map fst (history_table db)) \<Longrightarrow> distinct (map fst (history_table (upsert_history r t now db)))"
  "distinct (map fst (usage_table db)) \<Longrightarrow> distinct (map fst (usage_table (upsert_usage r u now db)))"
  by (simp_all add: upsert_history_def upsert_usage_def Let_def)

lemma pruned_history:
  assumes ok: "db_ok E hist mem db" and r: "\<not> is_incognito r" "(r, t) \<in> hist"
    and u: "db1 = upsert_history r t now db \<or> db1 = upsert_usage r v now (upsert_history r t now db)"
  shows "db_ok E hist mem (prune_usage (prune_history db1))"
proof -
  have d: "distinct (map fst (history_table db1))" "distinct (map fst (usage_table db1))"
    using ok u by (auto simp: db_ok_defs history_ok_def history_frames history_keys)
  have "recorded hist (history_table db1)"
    using u recorded_upsert [of hist db r t now] ok r by (auto simp: db_ok_defs history_frames)
  moreover have "set (history_table (prune_usage (prune_history db1))) \<subseteq> set (history_table db1)"
    by (simp add: prune_history_def prune_usage_def set_keep_newest_sub)
  ultimately have "recorded hist (history_table (prune_usage (prune_history db1)))"
    by (rule recorded_mono [OF _ subset_refl])
  then show ?thesis
    using ok u history_ok_pruned [OF d] by (auto simp: db_ok_defs)
      (auto simp: prune_usage_def prune_history_def upsert_history_def upsert_usage_def Let_def)
qed

lemma pruned_memory:
  assumes ok: "db_ok E hist mem db" and r: "\<not> is_incognito r" "(r, t) \<in> mem" "translation_memory_key (env_text E) r = Ok k"
  shows "db_ok E hist mem (prune_memory (upsert_memory k ident r t now db))"
proof -
  let ?db = "upsert_memory k ident r t now db"
  have d: "distinct (map fst (memory_table ?db))" using ok by (simp add: db_ok_defs memory_ok_def upsert_memory_def Let_def)
  have "remembered (env_text E) mem (memory_table ?db)"
    using remembered_upsert [of "env_text E" mem db r t k ident now] ok r by (simp add: db_ok_defs)
  moreover have "set (memory_table (prune_memory ?db)) \<subseteq> set (memory_table ?db)"
    by (simp add: prune_memory_def set_keep_newest_sub)
  ultimately have "remembered (env_text E) mem (memory_table (prune_memory ?db))"
    by (rule remembered_mono [OF _ subset_refl])
  moreover have "memory_ok (memory_table (prune_memory ?db))"
    using keep_newest_sub [OF d, of memory_created MAX_TRANSLATION_MEMORY_ENTRIES] by (simp add: memory_ok_def prune_memory_def)
  ultimately show ?thesis
    using ok by (simp add: db_ok_defs) (simp add: prune_memory_def upsert_memory_def Let_def)
qed

lemma keeps_record_operations:
  assumes ok: "db_ok E hist mem db"
  shows "(r, t) \<in> hist \<Longrightarrow> keeps (db_ok E hist mem) (record_translation_history_with_usage r t u) now db"
    "(r, t) \<in> mem \<Longrightarrow> keeps (db_ok E hist mem) (record_translation_memory (env_text E) r t) now db"
    "keeps (db_ok E hist mem) (set_translation_history_enabled b) now db"
    "keeps (db_ok E hist mem) (set_translation_memory_enabled b) now db"
    "keeps (db_ok E hist mem) clear_translation_history now db" "keeps (db_ok E hist mem) clear_translation_memory now db"
    "keeps (db_ok E hist mem) (delete_translation_history_entry k) now db"
    "keeps (db_ok E hist mem) (delete_translation_memory_entry k) now db"
proof -
  show "(r, t) \<in> hist \<Longrightarrow> keeps (db_ok E hist mem) (record_translation_history_with_usage r t u) now db"
    unfolding keeps_def record_translation_history_with_usage_def translation_history_enabled_def
    by (intro sql_wp) (use ok in \<open>auto intro: pruned_history\<close>)
  show "(r, t) \<in> mem \<Longrightarrow> keeps (db_ok E hist mem) (record_translation_memory (env_text E) r t) now db"
    unfolding keeps_def record_translation_memory_def translation_memory_enabled_def
    by (intro sql_wp) (use ok in \<open>auto intro: pruned_memory\<close>)
  show "keeps (db_ok E hist mem) (set_translation_history_enabled b) now db"
    "keeps (db_ok E hist mem) (set_translation_memory_enabled b) now db"
    unfolding keeps_def set_translation_history_enabled_def set_translation_memory_enabled_def
    by (intro sql_wp; use ok in \<open>simp add: db_ok_defs\<close>)+
  show "keeps (db_ok E hist mem) clear_translation_history now db" "keeps (db_ok E hist mem) clear_translation_memory now db"
    unfolding keeps_def clear_translation_history_def clear_translation_memory_def
    by (intro sql_wp; use ok in \<open>simp add: db_ok_defs history_ok_def memory_ok_def recorded_def remembered_def\<close>)+
  have "recorded hist (delete_where p (history_table db))" "remembered (env_text E) mem (delete_where p (memory_table db))" for p
    using ok set_delete_where by (auto simp: db_ok_defs elim!: recorded_mono remembered_mono)
  moreover have "memory_ok (delete_where p (memory_table db))" for p
    using ok delete_where_sub(2) [of p "memory_table db"] by (simp add: db_ok_defs memory_ok_def del: delete_where_sub(2))
  ultimately show "keeps (db_ok E hist mem) (delete_translation_history_entry k) now db"
    "keeps (db_ok E hist mem) (delete_translation_memory_entry k) now db"
    unfolding keeps_def delete_translation_history_entry_def delete_translation_memory_entry_def
    by (intro sql_wp wp_statement; use ok in \<open>simp add: db_ok_defs history_ok_delete\<close>)+
qed

lemma keeps_profile_operations:
  assumes ok: "db_ok E hist mem db"
  shows "keeps (db_ok E hist mem) (upsert_provider_profile p) now db" "keeps (db_ok E hist mem) (save_and_activate_provider p) now db"
    "keeps (db_ok E hist mem) (set_active_provider i) now db" "keeps (db_ok E hist mem) (record_provider_health_success i t) now db"
    "keeps (db_ok E hist mem) (record_provider_health_failure i e) now db" "keeps (db_ok E hist mem) (delete_provider_profile i) now db"
    "keeps (db_ok E hist mem) (upsert_manual_model m) now db" "keeps (db_ok E hist mem) (set_active_model m) now db"
proof -
  let ?k = "profile_id_str (ProviderProfile.profile_id p)"
  have put: "db_ok E hist mem ((put_profile p db)\<lparr>active_provider_row := chosen\<rparr>)" if "storable p"
    "\<And>k. chosen = Some k \<Longrightarrow> if k = ?k then profile_enabled p else active_provider_row db = Some k" for chosen
    using ok profiles_ok_put [of db p chosen] that by (simp add: db_ok_defs) (simp add: put_profile_def Let_def)
  have active: "active_provider_row (put_profile p db) = active_provider_row db" by (simp add: put_profile_def Let_def)
  have same: "db_ok E hist mem (put_profile p db)" if "storable p" "active_provider_row db = Some ?k \<Longrightarrow> profile_enabled p"
  proof -
    have "put_profile p db = (put_profile p db)\<lparr>active_provider_row := active_provider_row db\<rparr>" by (simp add: put_profile_def Let_def)
    with put [of "active_provider_row db"] that show ?thesis by simp
  qed
  show "keeps (db_ok E hist mem) (upsert_provider_profile p) now db"
    unfolding keeps_def upsert_provider_profile_def
    by (intro wp_transaction wp_bind, rule wp_mono [OF wp_put_profile])
      (use ok same put [of None] in \<open>auto intro!: sql_wp simp: active\<close>)
  show "keeps (db_ok E hist mem) (save_and_activate_provider p) now db"
    unfolding keeps_def save_and_activate_provider_def select_provider_def
    by (intro wp_if wp_lift wp_transaction wp_bind; (rule wp_mono [OF wp_put_profile])?)
      (use ok put [of "Some ?k"] in \<open>auto intro!: sql_wp\<close>)
  show "keeps (db_ok E hist mem) (set_active_provider i) now db"
    unfolding keeps_def set_active_provider_def select_provider_def
    by (intro sql_wp) (use ok in \<open>auto simp: db_ok_defs intro: profiles_ok_select split: if_splits\<close>)
  have row: "profiles_ok (update_where k upd (profiles_table db)) (model_selection_table db) (active_provider_row db)"
    if "\<And>r. references (upd r) = references r" "\<And>r. row_enabled (upd r) = row_enabled r" for k upd
    using ok that by (simp add: db_ok_defs profiles_ok_update)
  show "keeps (db_ok E hist mem) (record_provider_health_success i t) now db"
    unfolding keeps_def record_provider_health_success_def update_profile_row_def
    by (intro sql_wp wp_statement) (use ok row in \<open>auto simp: db_ok_defs references_def\<close>)
  show "keeps (db_ok E hist mem) (record_provider_health_failure i e) now db"
    unfolding keeps_def record_provider_health_failure_def update_profile_row_def
    by (intro sql_wp wp_statement) (use ok row in \<open>auto simp: db_ok_defs references_def\<close>)
  show "keeps (db_ok E hist mem) (delete_provider_profile i) now db"
    unfolding keeps_def delete_provider_profile_def
    by (intro sql_wp wp_statement) (use ok in \<open>simp_all add: db_ok_defs remove_profile_def profiles_ok_remove\<close>)
  show "keeps (db_ok E hist mem) (upsert_manual_model m) now db"
    unfolding keeps_def upsert_manual_model_def
    by (intro sql_wp) (use ok in \<open>auto simp: db_ok_defs models_ok_def\<close>)
  show "keeps (db_ok E hist mem) (set_active_model m) now db"
    unfolding keeps_def set_active_model_def
    by (intro sql_wp) (use ok in \<open>auto simp: db_ok_defs models_ok_def\<close>)
qed

lemma keeps_library_operations:
  assumes ok: "db_ok E hist mem db"
  shows "keeps (db_ok E hist mem) (save_routing_profile J p) now db" "keeps (db_ok E hist mem) (delete_routing_profile k) now db"
    "keeps (db_ok E hist mem) (save_glossary k g) now db" "keeps (db_ok E hist mem) (delete_glossary k) now db"
proof -
  have routing: "db_ok E hist mem (upsert_routing k contents now db)"
    if "map_of (routing_table db) k \<noteq> None \<or> length (routing_table db) < MAX_ROUTING_PROFILES" for k contents
    using ok routing_ok_upsert [of db k contents now] that by (simp add: db_ok_defs) (simp add: upsert_routing_def)
  show "keeps (db_ok E hist mem) (save_routing_profile J p) now db"
    unfolding keeps_def save_routing_profile_def Let_def
    by (intro wp_bind [OF wp_lift] wp_lift keeps_then_reads sql_reads wp_transaction wp_bind wp_check_limit wp_execute)
      (use ok routing in auto)
  show "keeps (db_ok E hist mem) (delete_routing_profile k) now db"
    unfolding keeps_def delete_routing_profile_def
    by (intro wp_statement) (use ok in \<open>simp_all add: db_ok_defs routing_ok_delete\<close>)
  have saved: "db_ok E hist mem db'" if "glossary_saved k g now db db'" for db'
  proof -
    have "db' = saved_glossary k g now db" using that by (simp add: glossary_saved_def)
    then show ?thesis
      using ok glossaries_ok_saved [OF _ that] by (simp add: db_ok_defs) (simp add: saved_glossary_def upsert_glossary_def)
  qed
  show "keeps (db_ok E hist mem) (save_glossary k g) now db"
    unfolding keeps_def by (rule wp_mono [OF wp_save_glossary]) (use ok saved in auto)
  show "keeps (db_ok E hist mem) (delete_glossary k) now db"
    unfolding keeps_def delete_glossary_def
    by (intro sql_wp wp_statement) (use ok in \<open>simp_all add: db_ok_defs glossaries_ok_delete\<close>)
qed

lemma storage_op_keeps:
  assumes "db_ok E hist mem db"
  shows "keeps (db_ok E (hist \<union> told_history call) (mem \<union> told_memory call)) (storage_op E call) now db"
proof -
  let ?h = "hist \<union> told_history call" and ?m = "mem \<union> told_memory call"
  have ok: "db_ok E ?h ?m db" using assms by (rule db_ok_mono)
  have reading: "reads m \<Longrightarrow> keeps (db_ok E ?h ?m) m now db" for m :: "'x sql"
    using ok by (rule keeps_reads [rotated])
  show ?thesis
  proof (cases call)
    case (RecordHistory r t u)
    then show ?thesis using keeps_record_operations(1) [OF ok] by simp
  next
    case (RecordMemory r t)
    then show ?thesis using keeps_record_operations(2) [OF ok] by simp
  next
    case (ReadHistory n)
    have "reads (storage_op E call)" unfolding ReadHistory storage_op.simps by (intro sql_reads)
    then show ?thesis by (rule reading)
  next
    case (ReadProfiles n)
    have "reads (storage_op E call)" unfolding ReadProfiles storage_op.simps by (intro sql_reads)
    then show ?thesis by (rule reading)
  qed (use ok in \<open>auto intro!: keeps_ignoring keeps_document_operations keeps_record_operations(3-) keeps_profile_operations
      keeps_library_operations intro: keeps_reads sql_reads readsI\<close>)
qed

lemma told_iff: "x \<in> told_history call \<longleftrightarrow> (\<exists>r t u. call = RecordHistory r t u \<and> x = (r, t))"
  "x \<in> told_memory call \<longleftrightarrow> (\<exists>r t. call = RecordMemory r t \<and> x = (r, t))"
  by (cases call; auto)+

definition told :: "('c \<Rightarrow> 'a set) \<Rightarrow> (int \<times> string option list \<times> 'c) list \<Rightarrow> 'a set" where
  "told f steps = (\<Union>(now, faults, call) \<in> set steps. f call)"

lemma storage_run_ok: "db_ok E (told told_history steps) (told told_memory steps) (storage_run E steps empty_database)"
proof (induction steps rule: rev_induct)
  case Nil
  show ?case by (simp add: told_def storage_run_def db_ok_empty)
next
  case (snoc step steps)
  obtain now faults call where step: "step = (now, faults, call)" by (cases step)
  let ?db = "storage_run E steps empty_database" and ?c = "\<lparr>conn_db = storage_run E steps empty_database, conn_now = now, conn_faults = faults\<rparr>"
  obtain r c' where run: "storage_op E call ?c = (r, c')" by (cases "storage_op E call ?c")
  have told: "told f (steps @ [step]) = told f steps \<union> f call" for f :: "storage_call \<Rightarrow> 'x set"
    by (auto simp: told_def step)
  have "wp True (storage_op E call) (\<lambda>_. db_ok E (told told_history (steps @ [step])) (told told_memory (steps @ [step])))
      (\<lambda>_. db_ok E (told told_history (steps @ [step])) (told told_memory (steps @ [step]))) (conn_now ?c) (conn_db ?c)"
    using storage_op_keeps [OF snoc.IH, of call now] unfolding told by (simp add: keeps_def)
  from wp_run(3) [OF this disjI1 [OF TrueI] run]
  have "db_ok E (told told_history (steps @ [step])) (told told_memory (steps @ [step])) (conn_db c')" by (simp split: sum.splits)
  moreover have "storage_run E (steps @ [step]) empty_database = storage_after E step ?db" by (simp add: storage_run_def)
  ultimately show ?case by (simp add: storage_after_def step run)
qed

text \<open>
  C33: No sequence of calls breaks the tables, whatever statements fail: keys are unique, at most 100 jobs, history and memory entries and
  32 routing profiles and glossaries are stored, segments, options, usage records, terms and selected models belong to existing rows,
  every stored job and glossary passes its checks when it is loaded, no session-only secret reference is stored, and the active
  provider exists and is enabled.
\<close>

theorem storage_invariant: "tables_ok (storage_run E steps empty_database)"
  using storage_run_ok [of E steps] by (simp add: db_ok_def)

text \<open>
  The history holds only what requests that are not private recorded: every stored entry is the source and the translation of a
  recorded request under its operation identifier.
\<close>

lemma history_holds_only_recorded_requests:
  "recorded {(r, t) | r t. \<exists>now faults u. (now, faults, RecordHistory r t u) \<in> set steps} (history_table (storage_run E steps empty_database))"
proof -
  have "told told_history steps \<subseteq> {(r, t) | r t. \<exists>now faults u. (now, faults, RecordHistory r t u) \<in> set steps}"
    by (auto simp: told_def told_iff) blast
  then show ?thesis
    using storage_run_ok [of E steps] by (auto simp: db_ok_def texts_ok_def elim: recorded_mono)
qed

text \<open>
  C35: The translation memory answers only for the same request: if the printer of JSON is injective, a stored translation that is found
  was recorded by a request that is not private and agrees with the new one on everything a translation depends on,
  up to white space in the source.
\<close>

theorem memory_answers_same_request:
  assumes "\<And>x y s. env_text E x = Ok s \<Longrightarrow> env_text E y = Ok s \<Longrightarrow> x = y"
    and "conn_db c = storage_run E steps empty_database"
    and "lookup_translation_memory (env_text E) request c = (Ok (Some (k, row)), c')"
  shows "\<exists>now faults r. (now, faults, RecordMemory r (memory_translated row)) \<in> set steps \<and> same_identity r request \<and>
    memory_source row = source_text r \<and> \<not> is_incognito r \<and> \<not> is_incognito request"
proof -
  let ?db = "storage_run E steps empty_database"
  have "wp True (lookup_translation_memory (env_text E) request) (\<lambda>v _. v = Some (k, row) \<longrightarrow> \<not> is_incognito request \<and>
      translation_memory_key (env_text E) request = Ok k \<and> map_of (memory_table ?db) k = Some row) (\<lambda>_ _. True) (conn_now c) (conn_db c)"
    unfolding lookup_translation_memory_def translation_memory_enabled_def assms(2) by (intro sql_wp) auto
  from wp_Ok [OF this assms(3)] have found: "\<not> is_incognito request" "translation_memory_key (env_text E) request = Ok k"
    "(k, row) \<in> set (memory_table ?db)" by (auto dest: map_of_SomeD)
  from storage_run_ok [of E steps] have "remembered (env_text E) (told told_memory steps) (memory_table ?db)"
    by (simp add: db_ok_def texts_ok_def)
  with found(3) obtain r where r: "(r, memory_translated row) \<in> told told_memory steps" "\<not> is_incognito r"
    "translation_memory_key (env_text E) r = Ok k" "memory_source row = source_text r" unfolding remembered_def by fastforce
  have "same_identity r request" by (rule same_key [OF assms(1) r(3) found(2)])
  moreover obtain now faults where "(now, faults, RecordMemory r (memory_translated row)) \<in> set steps"
    using r(1) by (auto simp: told_def told_iff)
  ultimately show ?thesis using r found(1) by blast
qed

definition demo_serde_json :: serde_json where
  "demo_serde_json = \<lparr>from_str_string = (\<lambda>_. None), from_str_value_ok = (\<lambda>_. False), to_string = (\<lambda>_. None)\<rparr>"

definition demo_codec :: routing_codec where
  "demo_codec = \<lparr>routing_to_string = (\<lambda>_. None), routing_from_str = (\<lambda>_. None), routing_from_value = (\<lambda>_. None)\<rparr>"

theorem memory_answers_same_request_witness:
  "\<exists>(E :: string storage_env) row. fst (lookup_translation_memory (env_text E) (TranslationRequest_new ''o2'' ''c'' ''a  b'' ''fr'' ''m'')
       \<lparr>conn_db = storage_run E [(1, [], RecordMemory (TranslationRequest_new ''o1'' ''c'' ''a b'' ''fr'' ''m'') ''A B'')] empty_database,
        conn_now = 2, conn_faults = []\<rparr>) = Ok (Some (''key'', row)) \<and> memory_translated row = ''A B'' \<and>
     same_identity (TranslationRequest_new ''o1'' ''c'' ''a b'' ''fr'' ''m'') (TranslationRequest_new ''o2'' ''c'' ''a  b'' ''fr'' ''m'')"
proof -
  let ?r = "TranslationRequest_new ''o1'' ''c'' ''a b'' ''fr'' ''m''" and ?s = "TranslationRequest_new ''o2'' ''c'' ''a  b'' ''fr'' ''m''"
  have norm: "normalize_translation_memory_source ''a b'' = ''a b''" "normalize_translation_memory_source ''a  b'' = ''a b''"
    by code_simp+
  then have same: "memory_identity_value ?s = memory_identity_value ?r"
    by (simp add: memory_identity_inj same_identity_def TranslationRequest_new_def)
  define E :: "string storage_env" where "E = \<lparr>env_serde = demo_serde_json, env_json = demo_stored_json,
    env_text = (\<lambda>v. if v = memory_identity_value ?r then Ok ''key'' else Err ''none''), env_outside = demo_outside,
    env_uuid = (\<lambda>_. True), env_codec = demo_codec\<rparr>"
  define row where "row = \<lparr>memory_created = 1, memory_source = ''a b'', memory_translated = ''A B'', memory_source_locale = None,
    memory_target_locale = ''fr'', memory_model = ''m'', memory_identity = ''key''\<rparr>"
  have printed: "env_text E (memory_identity_value ?r) = Ok ''key''" "env_text E (memory_identity_value ?s) = Ok ''key''"
    by (simp_all add: E_def same)
  let ?c = "\<lparr>conn_db = storage_run E [(1, [], RecordMemory ?r ''A B'')] empty_database, conn_now = 2, conn_faults = []\<rparr>"
  have fields: "\<not> is_incognito ?r" "\<not> is_incognito ?s" "source_text ?r = ''a b''" "request_source_locale ?r = None"
    "request_target_locale ?r = ''fr''" "request_model_id ?r = ''m''" by (simp_all add: is_incognito_def TranslationRequest_new_def)
  have db: "storage_run E [(1, [], RecordMemory ?r ''A B'')] empty_database = empty_database\<lparr>memory_table := [(''key'', row)]\<rparr>"
    by (simp add: storage_run_def storage_after_def record_translation_memory_def fields run_sql translation_memory_enabled_def
      empty_database_def MAX_TRANSLATION_MEMORY_TEXT_BYTES_def translation_memory_key_def translation_memory_identity_json_def printed
      upsert_memory_def upsert_def prune_memory_def keep_newest_def newest_first_def oldest_first_def delete_where_def
      MAX_TRANSLATION_MEMORY_ENTRIES_def row_def)
  have hit: "lookup_translation_memory (env_text E) ?s ?c = (Ok (Some (''key'', row)), ?c)"
    unfolding db
    by (simp add: lookup_translation_memory_def fields run_sql translation_memory_enabled_def empty_database_def
      translation_memory_key_def translation_memory_identity_json_def printed)
  have "\<exists>now faults r. (now, faults, RecordMemory r (memory_translated row)) \<in> set ([(1, [], RecordMemory ?r ''A B'')] :: storage_step list) \<and>
      same_identity r ?s \<and> memory_source row = source_text r \<and> \<not> is_incognito r \<and> \<not> is_incognito ?s"
  proof (rule memory_answers_same_request [OF _ _ hit])
    show "x = y" if "env_text E x = Ok s" "env_text E y = Ok s" for x y s
      using that by (simp add: E_def split: if_splits)
  qed simp
  then have "same_identity ?r ?s" by (simp only: set_simps insert_iff empty_iff prod.inject storage_call.inject) blast
  moreover have "memory_translated row = ''A B''" by (simp add: row_def)
  moreover have "fst (lookup_translation_memory (env_text E) ?s ?c) = Ok (Some (''key'', row))" by (simp only: hit fst_conv)
  ultimately show ?thesis by blast
qed

end
