(* ===== verification/Spec2Isabelle.thy ===== *)
theory Spec2Isabelle
  imports Provider_Translate Retry File_Lease Routing Tbx Restoration Scanners Chunking Engine Profile Provider_Api Catalog
    Document_Roundtrip Provider_Manager Ffi_Safety Lease_Consumption Ffi_Operations
    Storage_Safety
begin

text \<open>
  A verification library for the LinguaMesh core, the Rust workspace under \<open>src/crates\<close>: a
  translation engine that protects parts of a source text, sends it in chunks to a model provider,
  restores what it protected in the streamed answer, and does so for whole documents.

  \<^bold>\<open>Conventions\<close> (theory \<open>Rust_Prelude\<close>). A \<open>String\<close> or byte slice is a HOL \<open>string\<close> read as its UTF-8
  bytes; \<open>chars\<close> cuts it into characters. \<open>Result\<close> is the sum type with the error on the left,
  \<open>?\<close> is \<open>and_then\<close>. Machine integers are natural numbers with saturation, wrap-around or failure
  written where the source has them. Code outside the repository (\<open>serde_json\<close>, \<open>url\<close>, \<open>uuid\<close>, \<open>quick_xml\<close>, the
  clock, the provider) is an argument of the definitions that use it; what a theorem asks of it is
  a named hypothesis.

  \<^bold>\<open>Domain\<close> (\<open>linguamesh-domain/src/lib.rs\<close>, \<open>routing.rs\<close>, \<open>retry.rs\<close>, \<open>file_lease.rs\<close>).
  \<^item> \<open>Protected_Text\<close>, \<open>Scanners\<close>, \<open>Restoration\<close>: the scanners for URLs, e-mail addresses, placeholders,
    code and numbers, the glossary candidates, the selection of disjoint fragments, the insertion of
    markers and the incremental restorer. Protecting and restoring is the identity on an echo, markers
    may be reordered, fragments are whole characters, and every output that is accepted, however it is
    cut into deltas, is restored as a specification says that cuts the whole output into pieces. In one
    delta every output with each marker once is accepted; one whose delta ends inside the second marker
    may be rejected, which a theorem shows.
  \<^item> \<open>Chunking\<close>: cutting a protected text at semantic boundaries. The loop ends, the chunks partition the
    text and the spans, and every chunk respects the limit.
  \<^item> \<open>Glossary\<close>, \<open>Tbx\<close>: rules, conflicts, CSV exchange and the TBX importer as a machine over XML events. Export
    and import are inverse, accepted files hold only valid rules without conflicts, and the importer neither
    underflows a counter nor, on nested events, leaves its list of language sets. What it imports is
    compared with rules written down independently, for entries with at most one note.
  \<^item> \<open>Credential\<close>, \<open>Profile\<close>: shapes of secrets, provider profiles with all their setters, secret references,
    endpoints, proxy credentials and certificates. Every sequence of setters keeps the checks of the
    fields; the theorem lists which fields are searched for credential shapes and which are not.
  \<^item> \<open>Translation\<close>, \<open>Retry\<close>, \<open>Routing\<close>, \<open>File_Lease\<close>: requests, presets and usage with their caps, retry
    policies, routing profiles with selection and ranking (the order of the automatic mode is compared with
    the preferences written out without scores), and leases over shared atomic cells with their
    interleavings.

  \<^bold>\<open>Engine and providers\<close>. \<open>Engine\<close> (\<open>linguamesh-engine/src/lib.rs\<close>) is the worker of one translation, its bounded
  event channel as a step relation and cancellation; every operation has one terminal event, numbered
  events, and the client receives a prefix of them. The sequence number is a natural number here; in the
  source it is a 64-bit counter that a stream cannot exhaust. \<open>Provider_Api\<close> and \<open>Catalog\<close> model prompt
  rendering, retry hints, error classes, the provider catalog, compatibility and protocol versions.
  \<open>Provider_Stream\<close> and \<open>Provider_Translate\<close> are the four adapters (\<open>linguamesh-provider-openai\<close>, \<open>-anthropic\<close>,
  \<open>-gemini\<close>, \<open>-ollama\<close>): request bodies, the framing of server-sent events and of JSON lines, the events of each
  protocol and the loop that restores an answer. A readable answer within the size limit and, for
  event streams, with one kind of blank line means the same however the network cuts it (the locale
  \<open>chunk_decoder\<close>, interpreted for both framings), and a provider that echoes its requests in such answers delivers
  the source with its fragments replaced; \<open>Chunk_Restoration\<close> has what this needs of the restorer, chunk by chunk.

  \<^bold>\<open>Application\<close> (\<open>linguamesh-application/src/lib.rs\<close>). \<open>Secret_Broker\<close> is the protocol between operations that need
  a secret and the host that has it, as a step relation over all interleavings with cancellation,
  answers, abandoned leases and a host that leaves: secrets reach only the request they were given
  for, cancelled requests get none, and no released request hangs. \<open>Provider_Manager\<close> connects profiles:
  a failed connection leaves the active session alone, and every session is closed exactly once. The
  adapters a connection builds are an argument.

  \<^bold>\<open>C interface\<close> (\<open>linguamesh-ffi/src/lib.rs\<close>). \<open>Ffi_Handles\<close> has one definition for each exported function over the
  registry of engines: handles, lent buffers with their slots, file leases, events, cancellation, shutdown; \<open>submit\<close> and host
  responses are in \<open>Ffi_Operations\<close>. A pointer is an optional value or, for buffers, an address the allocator chose. \<open>Ffi_Safety\<close>
  shows that no sequence of calls breaks the bounds or makes one of the panics of the interface itself (two \<open>expect\<close>, the loops
  that draw identifiers) happen, and that a lent buffer is freed exactly once. Where a function takes a lock
  several times its steps are relations: \<open>Lease_Consumption\<close> (consuming a document) and \<open>Ffi_Operations\<close> (an operation from \<open>submit\<close>
  to its end, with the task that passes its secret request to the host), and the sequential definitions are shown to be runs of
  them. Three races are shown reachable.

  \<^bold>\<open>Storage\<close> (\<open>linguamesh-storage/src/lib.rs\<close> and the tables of \<open>src/migrations\<close>). \<open>Storage_Base\<close> has the tables after all
  migrations as association lists, a connection with its clock and a list that says which of the next statements fail, and
  SQL statements, queries and transactions as functions on it; an operation is put together from them as in the
  source. Its rules (\<open>wp\<close>, \<open>stable\<close>, \<open>all_or_nothing\<close>) reason over all failures at once. \<open>Storage_Documents\<close> (document jobs, their
  segments and options), \<open>Storage_Records\<close> (history, usage and translation memory with their policies and pruning),
  \<open>Storage_Profiles\<close> (provider profiles, health records, models) and \<open>Storage_Libraries\<close> (routing profiles, glossaries)
  show that what was saved is read back, or that nothing was saved; \<open>Storage_Safety\<close> puts all operations
  together: the invariant of the tables, atomicity of every operation, and what a hit in the memory means.

  \<^bold>\<open>Documents\<close> (\<open>linguamesh-document/src/lib.rs\<close>).
  \<^item> \<open>Document_Base\<close>: formats, segments, jobs, the line splitter, and the locale \<open>segmenter\<close>, the contract of
    every format: the segments lose no byte, are numbered by position and are not translated. It is
    interpreted for HTML, CSV, JSON, the line formats and \<open>from_text\<close>.
  \<^item> \<open>Subtitle\<close>: time stamps, validation of SRT and WebVTT, the lines offered for translation and the readability
    warnings. The lines offered for a valid SRT file are its cue texts.
  \<^item> \<open>Html_Document\<close>: the tag scanner and the tokenizer with its stack of elements; a run of the tokenizer is
    an inductive relation on which replacing texts is shown to keep the markup.
  \<^item> \<open>Csv_Document\<close>: delimiter detection, the record scanner, field coding, column selection; replacing cells
    keeps the table.
  \<^item> \<open>Json_Document\<close>: the recursive string tokenizer, shown equivalent to an inductive grammar; replacing values
    keeps the document in the grammar. The source recurses without a bound; the model bounds the depth by
    the length of the text plus one, which is shown to be enough because every level consumes a byte.
  \<^item> \<open>Document_Job\<close>, \<open>Document_Roundtrip\<close>: import, text offered, applying translations, warnings, reconstruction,
    and the properties that span them.

  \<^bold>\<open>Bounds and fuel\<close>. Loops are structural recursions, functions with a measure, or, in the JSON parser and a
  few scanners, recursions with a fuel that is proved sufficient.

  \<^bold>\<open>Not modelled\<close>. The package formats (\<open>docx.rs\<close>, \<open>epub.rs\<close>, \<open>pdf.rs\<close>) read ZIP archives and PDF objects through
  third-party crates; a document job reaches them through the record \<open>package_ops\<close>. Of the storage crate, opening a
  file, pragmas and the migrations of older schemas are left out, and SQLite itself is taken to run statements as
  described. The HTTP clients and sessions of the providers, the command line and the test kit are not modelled. Debug and Display output is modelled only where the program
  depends on it.
\<close>

end
